(* ===== verification/Prelude.thy ===== *)
theory Prelude
  imports Main "HOL-Library.Word" "HOL-Library.AList"
begin

text \<open>
  Shared vocabulary of the development: machine integers and byte strings, Rust's
  \<open>str\<close> as a list of Unicode scalar values, results as sums, SQL tables as row lists,
  and little-endian integer encodings.  The named collections gather the facts the
  component theories hand to \<open>simp\<close>.
\<close>

named_theorems tab_simps \<open>facts on the SQL table operations\<close>
named_theorems res_simps \<open>facts on results and their sequencing\<close>

section \<open>Types\<close>

type_synonym byte = "8 word"
type_synonym bytes = "byte list"
type_synonym u16 = "16 word"
type_synonym u32 = "32 word"
type_synonym u64 = "64 word"

text \<open>A Rust \<open>char\<close> is a Unicode scalar value; a \<open>str\<close> is a list of them.\<close>

type_synonym uchar = nat
type_synonym "text" = "uchar list"

text \<open>Unix seconds (\<open>i64\<close>).\<close>

type_synonym secs = int

text \<open>ASCII literals of the source.\<close>

definition lit :: "string \<Rightarrow> text" where
  "lit s = map of_char s"

text \<open>A \<open>u64\<close> cast to \<open>i64\<close> by \<open>as\<close> (two's complement), and back.\<close>

definition as_i64 :: "u64 \<Rightarrow> int" where
  "as_i64 w = sint w"

definition as_u64 :: "int \<Rightarrow> u64" where
  "as_u64 i = word_of_int i"

section \<open>Results\<close>

definition bind_r :: "'e + 'a \<Rightarrow> ('a \<Rightarrow> 'e + 'b) \<Rightarrow> 'e + 'b" where
  "bind_r m f = (case m of Inl e \<Rightarrow> Inl e | Inr x \<Rightarrow> f x)"

definition ok_or :: "'e \<Rightarrow> 'a option \<Rightarrow> 'e + 'a" where
  "ok_or e x = (case x of None \<Rightarrow> Inl e | Some y \<Rightarrow> Inr y)"

definition is_ok :: "'e + 'a \<Rightarrow> bool" where
  "is_ok r = (case r of Inl _ \<Rightarrow> False | Inr _ \<Rightarrow> True)"

section \<open>Tables\<close>

text \<open>
  A table is the list of its rows in insertion order.  \<open>SELECT .. WHERE p\<close> (first row)
  is \<^const>\<open>List.find\<close>; \<open>UPDATE\<close>, \<open>DELETE\<close> and the affected-row count are below.
\<close>

definition update_where :: "('r \<Rightarrow> bool) \<Rightarrow> ('r \<Rightarrow> 'r) \<Rightarrow> 'r list \<Rightarrow> 'r list" where
  "update_where p f t = map (\<lambda>r. if p r then f r else r) t"

definition delete_where :: "('r \<Rightarrow> bool) \<Rightarrow> 'r list \<Rightarrow> 'r list" where
  "delete_where p t = filter (\<lambda>r. \<not> p r) t"

definition count_where :: "('r \<Rightarrow> bool) \<Rightarrow> 'r list \<Rightarrow> nat" where
  "count_where p t = length (filter p t)"

text \<open>\<open>INSERT .. ON CONFLICT DO UPDATE\<close>: \<open>p\<close> selects the conflicting row.\<close>

definition upsert_where :: "('r \<Rightarrow> bool) \<Rightarrow> ('r \<Rightarrow> 'r) \<Rightarrow> 'r \<Rightarrow> 'r list \<Rightarrow> 'r list" where
  "upsert_where p f r t = (if list_ex p t then update_where p f t else t @ [r])"

text \<open>\<open>INTEGER PRIMARY KEY\<close>: a fresh row gets one more than the largest rowid.\<close>

definition next_id :: "('r \<Rightarrow> int) \<Rightarrow> 'r list \<Rightarrow> int" where
  "next_id k t = 1 + fold max (map k t) 0"

section \<open>Little-endian integers\<close>

fun le_bytes :: "nat \<Rightarrow> nat \<Rightarrow> bytes" where
  "le_bytes 0 n = []"
| "le_bytes (Suc k) n = word_of_nat n # le_bytes k (n div 256)"

fun of_le_bytes :: "bytes \<Rightarrow> nat" where
  "of_le_bytes [] = 0"
| "of_le_bytes (b # bs) = unat b + 256 * of_le_bytes bs"

section \<open>Facts\<close>

lemma lit_eq_iff [simp]: "lit s = lit t \<longleftrightarrow> s = t"
  by (simp add: lit_def inj_map_eq_map inj_on_def)

lemma length_lit [simp]: "length (lit s) = length s"
  by (simp add: lit_def)

lemma bind_r_simps [simp, res_simps]:
  "bind_r (Inl e) f = Inl e"
  "bind_r (Inr x) f = f x"
  by (simp_all add: bind_r_def)

lemma bind_r_eq_Inr [res_simps]: "bind_r m f = Inr y \<longleftrightarrow> (\<exists>x. m = Inr x \<and> f x = Inr y)"
  by (cases m) auto

lemma bind_r_eq_Inl [res_simps]:
  "bind_r m f = Inl e \<longleftrightarrow> m = Inl e \<or> (\<exists>x. m = Inr x \<and> f x = Inl e)"
  by (cases m) auto

lemma ok_or_simps [simp, res_simps]:
  "ok_or e None = Inl e"
  "ok_or e (Some x) = Inr x"
  by (simp_all add: ok_or_def)

lemma ok_or_eq_Inr [res_simps]: "ok_or e x = Inr y \<longleftrightarrow> x = Some y"
  by (cases x) auto

lemma is_ok_simps [simp]: "is_ok (Inr x)" "\<not> is_ok (Inl e)"
  by (simp_all add: is_ok_def)

lemma is_ok_iff: "is_ok r \<longleftrightarrow> (\<exists>x. r = Inr x)"
  by (cases r) simp_all

lemma ball_update_where [tab_simps]:
  "(\<forall>r \<in> set (update_where p f t). Q r) \<longleftrightarrow> (\<forall>r \<in> set t. if p r then Q (f r) else Q r)"
  by (auto simp: update_where_def)

lemma ball_delete_where [tab_simps]:
  "(\<forall>r \<in> set (delete_where p t). Q r) \<longleftrightarrow> (\<forall>r \<in> set t. \<not> p r \<longrightarrow> Q r)"
  by (auto simp: delete_where_def)

lemma set_update_where [tab_simps]:
  "set (update_where p f t) = {r \<in> set t. \<not> p r} \<union> f ` {r \<in> set t. p r}"
  by (auto simp: update_where_def)

lemma set_delete_where [simp, tab_simps]: "set (delete_where p t) = {r \<in> set t. \<not> p r}"
  by (auto simp: delete_where_def)

lemma update_where_simps [simp, tab_simps]:
  "update_where p f [] = []"
  "update_where p f (r # t) = (if p r then f r else r) # update_where p f t"
  by (simp_all add: update_where_def)

lemma delete_where_simps [simp, tab_simps]:
  "delete_where p [] = []"
  "delete_where p (r # t) = (if p r then delete_where p t else r # delete_where p t)"
  by (simp_all add: delete_where_def)

lemma count_where_simps [simp, tab_simps]:
  "count_where p [] = 0"
  "count_where p (r # t) = (if p r then Suc (count_where p t) else count_where p t)"
  by (simp_all add: count_where_def)

lemma update_where_append [simp, tab_simps]:
  "update_where p f (t @ t') = update_where p f t @ update_where p f t'"
  by (simp add: update_where_def)

lemma count_where_zero: "count_where p t = 0 \<longleftrightarrow> (\<forall>r \<in> set t. \<not> p r)"
  by (auto simp: count_where_def filter_empty_conv)

lemma count_where_le_one:
  assumes "distinct (map k t)" and "\<And>r r'. p r \<Longrightarrow> p r' \<Longrightarrow> k r = k r'"
  shows "count_where p t \<le> 1"
  using assms(1)
proof (induction t)
  case (Cons r t)
  show ?case
  proof (cases "p r")
    case True
    have "\<forall>r' \<in> set t. \<not> p r'"
    proof
      fix r' assume r': "r' \<in> set t"
      show "\<not> p r'"
      proof
        assume "p r'"
        then have "k r = k r'" using True assms(2) by blast
        with r' Cons.prems show False by auto
      qed
    qed
    then have "count_where p t = 0" by (simp add: count_where_zero)
    with True show ?thesis by simp
  next
    case False
    with Cons show ?thesis by simp
  qed
qed simp

lemma distinct_map_sort [simp]: "distinct (map k (sort_key f xs)) \<longleftrightarrow> distinct (map k xs)"
  by (simp add: distinct_map)

lemma option_filter_eq:
  assumes "\<And>r. x = Some r \<longleftrightarrow> y = Some r \<and> \<not> Q r"
  shows "x = (case y of None \<Rightarrow> None | Some r \<Rightarrow> if Q r then None else Some r)"
proof (cases y)
  case None
  with assms show ?thesis by (cases x) auto
next
  case (Some r)
  show ?thesis
  proof (cases x)
    case None
    with assms[of r] Some show ?thesis by simp
  next
    fix r' assume "x = Some r'"
    with assms[of r'] Some show ?thesis by simp
  qed
qed

lemma Max_map_le:
  fixes f :: "'a \<Rightarrow> int"
  assumes "xs \<noteq> []" and "\<And>x. x \<in> set xs \<Longrightarrow> f x \<le> b"
  shows "Max (set (map f xs)) \<le> b"
  using assms by (intro Max.boundedI) auto

lemma find_None_iff_all: "List.find p t = None \<longleftrightarrow> (\<forall>r \<in> set t. \<not> p r)"
  by (auto simp: find_None_iff)

lemma find_SomeD: "List.find p t = Some r \<Longrightarrow> r \<in> set t \<and> p r"
  by (auto simp: find_Some_iff in_set_conv_nth)

lemma find_unique:
  assumes "distinct (map k t)" and "r \<in> set t" and "p r"
    and "\<And>r'. r' \<in> set t \<Longrightarrow> p r' \<Longrightarrow> k r' = k r"
  shows "List.find p t = Some r"
proof (cases "List.find p t")
  case None
  with assms(2,3) show ?thesis by (auto simp: find_None_iff_all)
next
  case (Some r')
  from find_SomeD[OF Some] have r': "r' \<in> set t" "k r' = k r" using assms(4) by auto
  then have "r' = r" using assms(1,2) by (meson distinct_map inj_on_def)
  with Some show ?thesis by simp
qed

lemma find_update_where_other:
  assumes "\<And>r. r \<in> set t \<Longrightarrow> q r \<Longrightarrow> p (f r) = p r"
    and "\<And>r. r \<in> set t \<Longrightarrow> q r \<Longrightarrow> p r \<Longrightarrow> f r = r"
  shows "List.find p (update_where q f t) = List.find p t"
  using assms by (induction t) auto

lemma find_upsert_key:
  assumes "\<And>r. k (f r) = k r" and "k row = i"
  shows "List.find (\<lambda>r. k r = j) (upsert_where (\<lambda>r. k r = i) f row t) =
    (if j = i then Some (case List.find (\<lambda>r. k r = i) t of None \<Rightarrow> row | Some r \<Rightarrow> f r)
     else List.find (\<lambda>r. k r = j) t)"
proof -
  have upd: "List.find (\<lambda>r. k r = j) (update_where (\<lambda>r. k r = i) f t)
      = (if j = i then map_option f (List.find (\<lambda>r. k r = i) t) else List.find (\<lambda>r. k r = j) t)"
    by (induction t) (auto simp: assms(1))
  have app: "List.find P (t @ [row]) = (case List.find P t of None \<Rightarrow> if P row then Some row else None
      | Some y \<Rightarrow> Some y)" for P
    by (induction t) auto
  show ?thesis
  proof (cases "list_ex (\<lambda>r. k r = i) t")
    case True
    then obtain r where "List.find (\<lambda>r. k r = i) t = Some r"
      by (cases "List.find (\<lambda>r. k r = i) t") (auto simp: find_None_iff_all list_ex_iff)
    with True upd show ?thesis by (simp add: upsert_where_def)
  next
    case False
    then have "List.find (\<lambda>r. k r = i) t = None" by (auto simp: find_None_iff_all list_ex_iff)
    with False assms(2) show ?thesis by (auto simp: upsert_where_def app split: option.splits)
  qed
qed

lemma distinct_upsert_key:
  assumes "\<And>r. k (f r) = k r" and "k row = i" and "distinct (map k t)"
  shows "distinct (map k (upsert_where (\<lambda>r. k r = i) f row t))"
proof -
  have "map k (update_where (\<lambda>r. k r = i) f t) = map k t"
    by (induction t) (auto simp: assms(1))
  with assms(2,3) show ?thesis by (auto simp: upsert_where_def list_ex_iff)
qed

lemma find_key_unique:
  assumes "distinct (map k t)"
  shows "List.find (\<lambda>r. k r = i) t = Some r \<longleftrightarrow> r \<in> set t \<and> k r = i"
proof
  show "List.find (\<lambda>r. k r = i) t = Some r \<Longrightarrow> r \<in> set t \<and> k r = i" by (rule find_SomeD)
  show "r \<in> set t \<and> k r = i \<Longrightarrow> List.find (\<lambda>r. k r = i) t = Some r"
    using assms by (intro find_unique[where k = k]) auto
qed

lemma map_key_update_where [simp]:
  assumes "\<And>r. k (f r) = k r"
  shows "map k (update_where p f t) = map k t"
  using assms by (induction t) auto

lemma length_update_where [simp]: "length (update_where p f t) = length t"
  by (simp add: update_where_def)

lemma fold_max_ge: "x \<le> fold max xs (x :: int)"
proof (induction xs arbitrary: x)
  case (Cons a xs)
  have "x \<le> max a x" by simp
  also have "\<dots> \<le> fold max xs (max a x)" by (rule Cons)
  finally show ?case by simp
qed simp

lemma fold_max_mem: "(y :: int) \<in> set xs \<Longrightarrow> y \<le> fold max xs x"
proof (induction xs arbitrary: x)
  case (Cons a xs)
  show ?case
  proof (cases "y = a")
    case True
    have "y \<le> max a x" using True by simp
    also have "\<dots> \<le> fold max xs (max a x)" by (rule fold_max_ge)
    finally show ?thesis by simp
  next
    case False
    with Cons show ?thesis by simp
  qed
qed simp

lemma update_where_none: "\<forall>r \<in> set t. \<not> p r \<Longrightarrow> update_where p f t = t"
  by (simp add: update_where_def map_idI)

lemma find_append:
  "List.find p (xs @ ys) = (case List.find p xs of None \<Rightarrow> List.find p ys | Some x \<Rightarrow> Some x)"
  by (induction xs) auto

lemma filter_update_outside:
  assumes "\<And>r. p r \<Longrightarrow> \<not> q r" and "\<And>r. p r \<Longrightarrow> \<not> q (f r)"
  shows "filter q (update_where p f t) = filter q t"
  using assms by (induction t) (auto simp: update_where_def)

lemma next_id_fresh: "r \<in> set t \<Longrightarrow> k r < next_id k t"
  using fold_max_mem[of "k r" "map k t" 0] by (simp add: next_id_def)

lemma next_id_pos: "0 < next_id k t"
  using fold_max_ge[of 0 "map k t"] by (simp add: next_id_def)

lemma length_le_bytes [simp]: "length (le_bytes k n) = k"
  by (induction k arbitrary: n) auto

lemma of_le_bytes_le_bytes: "of_le_bytes (le_bytes k n) = n mod 256 ^ k"
proof (induction k arbitrary: n)
  case (Suc k)
  have "unat (word_of_nat n :: 8 word) = n mod 256"
    by (simp add: unat_of_nat)
  with Suc show ?case
    by (simp add: mod_mult2_eq)
qed simp

lemma le_bytes_inj:
  assumes "le_bytes k n = le_bytes k m" and "n < 256 ^ k" and "m < 256 ^ k"
  shows "n = m"
  by (metis assms mod_less of_le_bytes_le_bytes)

end
