(* ===== verification/Rust_Text.thy ===== *)
theory Rust_Text
  imports Prelude
begin

text \<open>
  The operations of Rust's \<open>char\<close> and \<open>str\<close> that the program uses, on
  lists of Unicode scalar values.  Lower-casing outside ASCII is a parameter
  \<open>ul\<close> (one scalar value to its lower-case expansion); everything else is exact.
\<close>

section \<open>Characters\<close>

definition is_whitespace :: "uchar \<Rightarrow> bool" where
  "is_whitespace c \<longleftrightarrow> (9 \<le> c \<and> c \<le> 13) \<or> c = 32 \<or> c = 133 \<or> c = 160 \<or> c = 5760
     \<or> (8192 \<le> c \<and> c \<le> 8202) \<or> c = 8232 \<or> c = 8233 \<or> c = 8239 \<or> c = 8287 \<or> c = 12288"

definition is_control :: "uchar \<Rightarrow> bool" where
  "is_control c \<longleftrightarrow> c \<le> 31 \<or> (127 \<le> c \<and> c \<le> 159)"

definition is_ascii_digit :: "uchar \<Rightarrow> bool" where
  "is_ascii_digit c \<longleftrightarrow> 48 \<le> c \<and> c \<le> 57"

definition is_ascii_upper :: "uchar \<Rightarrow> bool" where
  "is_ascii_upper c \<longleftrightarrow> 65 \<le> c \<and> c \<le> 90"

definition is_ascii_lower :: "uchar \<Rightarrow> bool" where
  "is_ascii_lower c \<longleftrightarrow> 97 \<le> c \<and> c \<le> 122"

definition is_ascii_alphanumeric :: "uchar \<Rightarrow> bool" where
  "is_ascii_alphanumeric c \<longleftrightarrow> is_ascii_digit c \<or> is_ascii_upper c \<or> is_ascii_lower c"

definition to_ascii_uppercase :: "uchar \<Rightarrow> uchar" where
  "to_ascii_uppercase c = (if is_ascii_lower c then c - 32 else c)"

definition to_ascii_lowercase :: "uchar \<Rightarrow> uchar" where
  "to_ascii_lowercase c = (if is_ascii_upper c then c + 32 else c)"

section \<open>Strings\<close>

definition utf8_char :: "uchar \<Rightarrow> bytes" where
  "utf8_char c =
     (if c < 128 then [word_of_nat c]
      else if c < 2048 then [word_of_nat (192 + c div 64), word_of_nat (128 + c mod 64)]
      else if c < 65536 then
        [word_of_nat (224 + c div 4096), word_of_nat (128 + c div 64 mod 64),
         word_of_nat (128 + c mod 64)]
      else
        [word_of_nat (240 + c div 262144), word_of_nat (128 + c div 4096 mod 64),
         word_of_nat (128 + c div 64 mod 64), word_of_nat (128 + c mod 64)])"

text \<open>\<open>str::as_bytes\<close>, and \<open>str::len\<close>, which counts bytes.\<close>

definition as_bytes :: "text \<Rightarrow> bytes" where
  "as_bytes s = concat (map utf8_char s)"

definition str_len :: "text \<Rightarrow> nat" where
  "str_len s = length (as_bytes s)"

text \<open>\<open>str::from_utf8\<close>: continuation bytes are \<open>128..191\<close>; overlong forms, surrogates and values
  beyond \<open>0x10FFFF\<close> are refused.\<close>

definition is_cont :: "byte \<Rightarrow> bool" where
  "is_cont b \<longleftrightarrow> 128 \<le> unat b \<and> unat b < 192"

definition is_scalar :: "uchar \<Rightarrow> bool" where
  "is_scalar c \<longleftrightarrow> c < 55296 \<or> (57344 \<le> c \<and> c < 1114112)"

fun from_utf8 :: "bytes \<Rightarrow> text option" where
  "from_utf8 [] = Some []"
| "from_utf8 (a # r) =
     (if unat a < 128 then map_option (Cons (unat a)) (from_utf8 r)
      else if 194 \<le> unat a \<and> unat a < 224 then
        (case r of
           b # r' \<Rightarrow>
             if is_cont b
             then map_option (Cons ((unat a - 192) * 64 + (unat b - 128))) (from_utf8 r')
             else None
         | _ \<Rightarrow> None)
      else if 224 \<le> unat a \<and> unat a < 240 then
        (case r of
           b # c # r' \<Rightarrow>
             (let n = (unat a - 224) * 4096 + (unat b - 128) * 64 + (unat c - 128)
              in if is_cont b \<and> is_cont c \<and> 2048 \<le> n \<and> is_scalar n
                 then map_option (Cons n) (from_utf8 r') else None)
         | _ \<Rightarrow> None)
      else if 240 \<le> unat a \<and> unat a < 248 then
        (case r of
           b # c # d # r' \<Rightarrow>
             (let n = (unat a - 240) * 262144 + (unat b - 128) * 4096 + (unat c - 128) * 64
                    + (unat d - 128)
              in if is_cont b \<and> is_cont c \<and> is_cont d \<and> 65536 \<le> n \<and> is_scalar n
                 then map_option (Cons n) (from_utf8 r') else None)
         | _ \<Rightarrow> None)
      else None)"

declare from_utf8.simps(2) [simp del]

definition trim_start :: "text \<Rightarrow> text" where
  "trim_start s = dropWhile is_whitespace s"

definition trim_end :: "text \<Rightarrow> text" where
  "trim_end s = rev (dropWhile is_whitespace (rev s))"

definition trim :: "text \<Rightarrow> text" where
  "trim s = trim_end (trim_start s)"

definition trim_end_matches :: "uchar \<Rightarrow> text \<Rightarrow> text" where
  "trim_end_matches c s = rev (dropWhile (\<lambda>d. d = c) (rev s))"

definition to_lowercase :: "(uchar \<Rightarrow> text) \<Rightarrow> text \<Rightarrow> text" where
  "to_lowercase ul s = concat (map (\<lambda>c. if c < 128 then [to_ascii_lowercase c] else ul c) s)"

fun starts_with :: "text \<Rightarrow> text \<Rightarrow> bool" where
  "starts_with s [] = True"
| "starts_with [] (p # ps) = False"
| "starts_with (c # s) (p # ps) = (c = p \<and> starts_with s ps)"

text \<open>\<open>str::contains\<close> with a string pattern.\<close>

fun str_contains :: "text \<Rightarrow> text \<Rightarrow> bool" where
  "str_contains [] p = (p = [])"
| "str_contains (c # s) p = (starts_with (c # s) p \<or> str_contains s p)"

definition strip_prefix :: "text \<Rightarrow> text \<Rightarrow> text option" where
  "strip_prefix s p = (if starts_with s p then Some (drop (length p) s) else None)"

fun split_once :: "uchar \<Rightarrow> text \<Rightarrow> (text \<times> text) option" where
  "split_once c [] = None"
| "split_once c (d # s) =
     (if d = c then Some ([], s) else map_option (\<lambda>(a, b). (d # a, b)) (split_once c s))"

text \<open>\<open>s.split(f).next()\<close>: the part before the first separator (always there).\<close>

definition split_first :: "(uchar \<Rightarrow> bool) \<Rightarrow> text \<Rightarrow> text" where
  "split_first f s = takeWhile (\<lambda>c. \<not> f c) s"

text \<open>\<open>str::lines\<close>: the pieces before each newline, without one carriage return, and what follows
  the last newline when there is anything.\<close>

definition strip_cr :: "text \<Rightarrow> text" where
  "strip_cr s = (if s \<noteq> [] \<and> last s = 13 then butlast s else s)"

fun lines_from :: "text \<Rightarrow> text \<Rightarrow> text list" where
  "lines_from acc [] = (if acc = [] then [] else [acc])"
| "lines_from acc (c # s) =
     (if c = 10 then strip_cr acc # lines_from [] s else lines_from (acc @ [c]) s)"

definition text_lines :: "text \<Rightarrow> text list" where
  "text_lines s = lines_from [] s"

text \<open>\<open>[..].join(sep)\<close>.\<close>

fun join :: "text \<Rightarrow> text list \<Rightarrow> text" where
  "join sep [] = []"
| "join sep [s] = s"
| "join sep (s # t # ts) = s @ sep @ join sep (t # ts)"

definition eq_ignore_ascii_case :: "text \<Rightarrow> text \<Rightarrow> bool" where
  "eq_ignore_ascii_case a b \<longleftrightarrow> map to_ascii_lowercase a = map to_ascii_lowercase b"

text \<open>Decimal rendering, and the digits of an unsigned \<open>parse\<close> (which allows one leading \<open>+\<close>).\<close>

fun dec :: "nat \<Rightarrow> text" where
  "dec n = (if n < 10 then [48 + n] else dec (n div 10) @ [48 + n mod 10])"

declare dec.simps [simp del]

definition digits_value :: "text \<Rightarrow> nat option" where
  "digits_value s =
     (if s \<noteq> [] \<and> list_all is_ascii_digit s
      then Some (foldl (\<lambda>n c. 10 * n + (c - 48)) 0 s) else None)"

definition parse_unsigned :: "nat \<Rightarrow> text \<Rightarrow> nat option" where
  "parse_unsigned w s =
     (case digits_value (if s \<noteq> [] \<and> hd s = 43 then tl s else s) of
        None \<Rightarrow> None
      | Some n \<Rightarrow> if n < 2 ^ w then Some n else None)"

text \<open>\<open>i64::to_string\<close> and \<open>str::parse::<i64>\<close> (the range check is that of the type).\<close>

definition dec_int :: "int \<Rightarrow> text" where
  "dec_int i = (if i < 0 then 45 # dec (nat (- i)) else dec (nat i))"

definition parse_int :: "text \<Rightarrow> int option" where
  "parse_int s =
     (if s \<noteq> [] \<and> hd s = 45 then map_option (\<lambda>n. - int n) (digits_value (tl s))
      else map_option int (digits_value (if s \<noteq> [] \<and> hd s = 43 then tl s else s)))"

section \<open>Facts\<close>

lemma trim_end_Nil [simp]: "trim_end [] = []"
  by (simp add: trim_end_def)

lemma trim_Nil [simp]: "trim [] = []"
  by (simp add: trim_def trim_start_def)

lemma trim_start_id: "(case s of [] \<Rightarrow> True | c # _ \<Rightarrow> \<not> is_whitespace c) \<Longrightarrow> trim_start s = s"
  by (cases s) (auto simp: trim_start_def)

lemma trim_start_hd: "case trim_start s of [] \<Rightarrow> True | c # _ \<Rightarrow> \<not> is_whitespace c"
  by (induction s) (auto simp: trim_start_def)

lemma trim_end_hd:
  "(case s of [] \<Rightarrow> True | c # _ \<Rightarrow> \<not> is_whitespace c) \<Longrightarrow>
   case trim_end s of [] \<Rightarrow> True | c # _ \<Rightarrow> \<not> is_whitespace c"
proof (cases s)
  case (Cons c s')
  assume "case s of [] \<Rightarrow> True | c # _ \<Rightarrow> \<not> is_whitespace c"
  with Cons have c: "\<not> is_whitespace c" by simp
  have "dropWhile is_whitespace (rev s' @ [c]) = dropWhile is_whitespace (rev s') @ [c]"
    using c by (induction "rev s'") (auto simp: dropWhile_append)
  then show ?thesis using Cons c by (simp add: trim_end_def)
qed simp

lemma trim_end_idem [simp]: "trim_end (trim_end s) = trim_end s"
  by (simp add: trim_end_def)

lemma trim_idem [simp]: "trim (trim s) = trim s"
proof -
  have "trim_start (trim_end (trim_start s)) = trim_end (trim_start s)"
    by (rule trim_start_id, rule trim_end_hd, rule trim_start_hd)
  then show ?thesis by (simp add: trim_def)
qed

lemma set_trim: "set (trim s) \<subseteq> set s"
  by (auto simp: trim_def trim_end_def trim_start_def dest!: set_dropWhileD)

lemma to_ascii_lowercase_idem [simp]: "to_ascii_lowercase (to_ascii_lowercase c) = to_ascii_lowercase c"
  by (auto simp: to_ascii_lowercase_def is_ascii_upper_def)

lemma to_ascii_lowercase_ascii [simp]: "c < 128 \<Longrightarrow> to_ascii_lowercase c < 128"
  by (auto simp: to_ascii_lowercase_def is_ascii_upper_def)

lemma to_ascii_lowercase_whitespace [simp]:
  "is_whitespace (to_ascii_lowercase c) = is_whitespace c"
  by (auto simp: to_ascii_lowercase_def is_ascii_upper_def is_whitespace_def)

lemma to_lowercase_simps [simp]:
  "to_lowercase ul [] = []"
  "to_lowercase ul (c # s) = (if c < 128 then [to_ascii_lowercase c] else ul c) @ to_lowercase ul s"
  by (simp_all add: to_lowercase_def)

lemma to_lowercase_append [simp]:
  "to_lowercase ul (s @ t) = to_lowercase ul s @ to_lowercase ul t"
  by (simp add: to_lowercase_def)

text \<open>What the code relies on of Unicode lower-casing: a second pass changes nothing, and no
  white space appears or disappears.\<close>

definition lower_ok :: "(uchar \<Rightarrow> text) \<Rightarrow> bool" where
  "lower_ok ul \<longleftrightarrow> (\<forall>c. 128 \<le> c \<longrightarrow> to_lowercase ul (ul c) = ul c \<and> ul c \<noteq> []
     \<and> (\<forall>d \<in> set (ul c). is_whitespace d = is_whitespace c))"

lemma lower_ok_id: "lower_ok (\<lambda>c. [c])"
  by (auto simp: lower_ok_def)

lemma to_lowercase_idem: "lower_ok ul \<Longrightarrow> to_lowercase ul (to_lowercase ul s) = to_lowercase ul s"
  by (induction s) (auto simp: lower_ok_def)

lemma starts_with_append [simp]: "starts_with (p @ s) p"
  by (induction p) auto

lemma starts_with_iff: "starts_with s p \<longleftrightarrow> (\<exists>t. s = p @ t)"
  by (induction s p rule: starts_with.induct) auto

lemma strip_prefix_Some: "strip_prefix s p = Some t \<longleftrightarrow> s = p @ t"
  by (auto simp: strip_prefix_def starts_with_iff)

lemma str_contains_iff: "str_contains s p \<longleftrightarrow> (\<exists>a b. s = a @ p @ b)"
proof (induction s p rule: str_contains.induct)
  case (2 c s p)
  show ?case
  proof
    assume "str_contains (c # s) p"
    then consider "starts_with (c # s) p" | "str_contains s p" by auto
    then show "\<exists>a b. c # s = a @ p @ b"
    proof cases
      case 1
      then show ?thesis by (metis append_Nil starts_with_iff)
    next
      case 2
      with "2.IH" show ?thesis by (metis append_Cons)
    qed
  next
    assume "\<exists>a b. c # s = a @ p @ b"
    then obtain a b where ab: "c # s = a @ p @ b" by blast
    show "str_contains (c # s) p"
    proof (cases a)
      case Nil
      with ab have "starts_with (c # s) p" by (metis append_Nil starts_with_append)
      then show ?thesis by simp
    next
      case (Cons x a')
      with ab "2.IH" show ?thesis by auto
    qed
  qed
qed auto

lemma lines_from_line:
  assumes "10 \<notin> set l"
  shows "lines_from acc (l @ 10 # s) = strip_cr (acc @ l) # lines_from [] s"
  using assms by (induction l arbitrary: acc) auto

lemma text_lines_line: "10 \<notin> set l \<Longrightarrow> text_lines (l @ 10 # s) = strip_cr l # text_lines s"
  by (simp add: text_lines_def lines_from_line)

lemma text_lines_Nil [simp]: "text_lines [] = []"
  by (simp add: text_lines_def)

lemma strip_cr_snoc [simp]: "strip_cr (s @ [13]) = s"
  by (simp add: strip_cr_def)

lemma unat_byte [simp]: "n < 256 \<Longrightarrow> unat (word_of_nat n :: byte) = n"
  by (simp add: unsigned_of_nat take_bit_nat_eq_self)

lemma digits_64:
  fixes c :: nat
  shows "c div 4096 * 4096 + c div 64 mod 64 * 64 + c mod 64 = c"
    and "c div 262144 * 262144 + c div 4096 mod 64 * 4096 + c div 64 mod 64 * 64 + c mod 64 = c"
proof -
  have step: "a * 64 + b = e \<Longrightarrow> e * k + d = c \<Longrightarrow> a * (64 * k) + b * k + d = c" for a b e d k :: nat
    by (auto simp: algebra_simps)
  have 1: "c div 64 * 64 + c mod 64 = c" by simp
  have 2: "c div 4096 * 64 + c div 64 mod 64 = c div 64"
    using div_mult_mod_eq[of "c div 64" 64] by (simp add: div_mult2_eq[symmetric])
  have 3: "c div 262144 * 64 + c div 4096 mod 64 = c div 4096"
    using div_mult_mod_eq[of "c div 4096" 64] by (simp add: div_mult2_eq[symmetric])
  show a: "c div 4096 * 4096 + c div 64 mod 64 * 64 + c mod 64 = c"
    using step[OF 2 1] by simp
  then have "c div 4096 * 4096 + (c div 64 mod 64 * 64 + c mod 64) = c" by simp
  from step[OF 3 this] show "c div 262144 * 262144 + c div 4096 mod 64 * 4096 + c div 64 mod 64 * 64 + c mod 64 = c"
    by simp
qed

lemma from_utf8_bytes2:
  assumes "2 \<le> p" "p < 32" "q < 64" "n = p * 64 + q"
  shows "from_utf8 (word_of_nat (192 + p) # word_of_nat (128 + q) # r) = map_option (Cons n) (from_utf8 r)"
proof -
  have "unat (word_of_nat (192 + p) :: byte) = 192 + p" "unat (word_of_nat (128 + q) :: byte) = 128 + q"
    using assms by (intro unat_byte, linarith)+
  with assms show ?thesis by (simp add: from_utf8.simps(2) is_cont_def del: of_nat_add)
qed

lemma from_utf8_bytes3:
  assumes "p < 16" "q < 64" "s < 64" "n = p * 4096 + q * 64 + s" "2048 \<le> n" "is_scalar n"
  shows "from_utf8 (word_of_nat (224 + p) # word_of_nat (128 + q) # word_of_nat (128 + s) # r)
    = map_option (Cons n) (from_utf8 r)"
proof -
  have "unat (word_of_nat (224 + p) :: byte) = 224 + p" "unat (word_of_nat (128 + q) :: byte) = 128 + q"
    "unat (word_of_nat (128 + s) :: byte) = 128 + s"
    using assms by (intro unat_byte, linarith)+
  with assms show ?thesis by (simp add: from_utf8.simps(2) is_cont_def Let_def del: of_nat_add)
qed

lemma from_utf8_bytes4:
  assumes "p < 8" "q < 64" "s < 64" "t < 64" "n = p * 262144 + q * 4096 + s * 64 + t" "65536 \<le> n" "is_scalar n"
  shows "from_utf8 (word_of_nat (240 + p) # word_of_nat (128 + q) # word_of_nat (128 + s) # word_of_nat (128 + t) # r)
    = map_option (Cons n) (from_utf8 r)"
proof -
  have "unat (word_of_nat (240 + p) :: byte) = 240 + p" "unat (word_of_nat (128 + q) :: byte) = 128 + q"
    "unat (word_of_nat (128 + s) :: byte) = 128 + s" "unat (word_of_nat (128 + t) :: byte) = 128 + t"
    using assms by (intro unat_byte, linarith)+
  with assms show ?thesis by (simp add: from_utf8.simps(2) is_cont_def Let_def del: of_nat_add)
qed

lemma from_utf8_char:
  assumes "is_scalar c"
  shows "from_utf8 (utf8_char c @ r) = map_option (Cons c) (from_utf8 r)"
proof -
  have c: "c < 1114112" using assms unfolding is_scalar_def by linarith
  have m: "c mod 64 < 64" "c div 64 mod 64 < 64" "c div 4096 mod 64 < 64" by simp_all
  consider "c < 128" | "128 \<le> c" "c < 2048" | "2048 \<le> c" "c < 65536" | "65536 \<le> c" by linarith
  then show ?thesis
  proof cases
    case 1
    then show ?thesis by (simp add: utf8_char_def from_utf8.simps(2))
  next
    case 2
    have "2 \<le> c div 64" "c div 64 < 32" using 2 by simp_all
    from from_utf8_bytes2[OF this m(1), of c r] 2 show ?thesis by (simp add: utf8_char_def)
  next
    case 3
    have "c div 4096 < 16" using 3 by simp
    from from_utf8_bytes3[OF this m(2,1) digits_64(1)[symmetric] 3(1) assms, of r] 3
    show ?thesis by (simp add: utf8_char_def)
  next
    case 4
    have "c div 262144 < 8" using c by simp
    from from_utf8_bytes4[OF this m(3,2,1) digits_64(2)[symmetric] 4 assms, of r] 4
    show ?thesis by (simp add: utf8_char_def)
  qed
qed

lemma from_utf8_as_bytes: "\<forall>c \<in> set s. is_scalar c \<Longrightarrow> from_utf8 (as_bytes s) = Some s"
  by (induction s) (simp_all add: as_bytes_def from_utf8_char)

lemma length_utf8_char: "1 \<le> length (utf8_char c)"
  by (simp add: utf8_char_def)

lemma length_le_str_len: "length s \<le> str_len s"
proof (induction s)
  case (Cons c s)
  then show ?case using length_utf8_char[of c] by (simp add: str_len_def as_bytes_def)
qed (simp add: str_len_def as_bytes_def)

lemma split_once_Some: "split_once c s = Some (a, b) \<longleftrightarrow> s = a @ c # b \<and> c \<notin> set a"
proof (induction s arbitrary: a)
  case (Cons d s)
  show ?case
  proof (cases "d = c")
    case True
    then show ?thesis by (cases a) auto
  next
    case False
    then show ?thesis by (cases a) (auto simp: Cons)
  qed
qed simp

lemma dec_digits: "list_all is_ascii_digit (dec n)"
proof (induction n rule: dec.induct)
  case (1 n)
  have "n mod 10 \<le> 9" using mod_less_divisor[of 10 n] by linarith
  with 1 show ?case by (simp add: dec.simps[of n] is_ascii_digit_def)
qed

lemma dec_nonempty [simp]: "dec n \<noteq> []"
  by (simp add: dec.simps[of n])

lemma dec_value: "foldl (\<lambda>n c. 10 * n + (c - 48)) 0 (dec n) = n"
proof (induction n rule: dec.induct)
  case (1 n)
  then show ?case by (simp add: dec.simps[of n])
qed

lemma digits_value_dec [simp]: "digits_value (dec n) = Some n"
  by (simp add: digits_value_def dec_digits dec_value)

lemma dec_inj: "dec n = dec m \<longleftrightarrow> n = m"
  by (metis dec_value)

lemma parse_int_dec_int [simp]: "parse_int (dec_int i) = Some i"
proof -
  have "is_ascii_digit (hd (dec n))" for n
    using dec_digits[of n] dec_nonempty[of n] by (cases "dec n") simp_all
  then have ge: "48 \<le> hd (dec n)" for n by (simp add: is_ascii_digit_def)
  have "hd (dec n) \<noteq> 45" "hd (dec n) \<noteq> 43" for n
    using ge[of n] by auto
  then show ?thesis by (simp add: dec_int_def parse_int_def)
qed

end
