(* ===== verification/Crypto_Core.thy ===== *)
theory Crypto_Core
  imports Rust_Text
begin

text \<open>
  vault-core: errors, the cryptographic primitives the crates provide, the KDF parameters
  (\<open>kdf.rs\<close>) and the key hierarchy (\<open>keys.rs\<close>).

  The primitives (Argon2id, HKDF-SHA-256, XChaCha20-Poly1305, SHA-256) are third-party
  code: they are the fields of the record \<open>crypto\<close>, an argument of everything that
  uses them.  What the program relies on is stated by the predicates \<open>aead_*\<close>,
  \<open>hkdf_*\<close> below; \<open>toy_crypto\<close> is a concrete instance that satisfies them.
\<close>

section \<open>Errors (\<open>error.rs\<close>)\<close>

datatype crypto_error =
    InvalidKdfParams "text"
  | KeyDerivation
  | Decrypt
  | Encrypt
  | Malformed "text"
  | UnsupportedVersion u16

text \<open>The messages (\<open>Display\<close>).\<close>

fun crypto_error_text :: "crypto_error \<Rightarrow> text" where
  "crypto_error_text (InvalidKdfParams m) = lit ''KDF parameters rejected: '' @ m"
| "crypto_error_text KeyDerivation = lit ''key derivation failed''"
| "crypto_error_text Decrypt = lit ''decryption failed''"
| "crypto_error_text Encrypt = lit ''encryption failed''"
| "crypto_error_text (Malformed m) = lit ''malformed input: '' @ m"
| "crypto_error_text (UnsupportedVersion v) = lit ''unsupported version: '' @ dec (unat v)"

text \<open>A failed \<open>expect\<close> is a panic, not an error value.\<close>

datatype fault = Err crypto_error | Panic

type_synonym 'a cres = "fault + 'a"

section \<open>Primitives\<close>

record crypto =
  argon2_params :: "nat \<Rightarrow> nat \<Rightarrow> nat \<Rightarrow> nat \<Rightarrow> text option"
    \<comment> \<open>\<open>Params::new(m, t, p, len)\<close>: the error message, if refused\<close>
  argon2id :: "nat \<Rightarrow> nat \<Rightarrow> nat \<Rightarrow> nat \<Rightarrow> bytes \<Rightarrow> bytes \<Rightarrow> bytes option"
    \<comment> \<open>\<open>hash_password_into\<close> for m, t, p, output length, password and salt\<close>
  hkdf_expand :: "bytes \<Rightarrow> bytes \<Rightarrow> bytes"
    \<comment> \<open>HKDF-SHA-256 without salt: input key, \<open>info\<close>, 32 bytes out\<close>
  aead_encrypt :: "bytes \<Rightarrow> bytes \<Rightarrow> bytes \<Rightarrow> bytes \<Rightarrow> bytes option"
    \<comment> \<open>key, nonce, associated data, message\<close>
  aead_decrypt :: "bytes \<Rightarrow> bytes \<Rightarrow> bytes \<Rightarrow> bytes \<Rightarrow> bytes option"
  sha256_digest :: "bytes \<Rightarrow> bytes"

definition aead_roundtrip :: "crypto \<Rightarrow> bool" where
  "aead_roundtrip C \<longleftrightarrow>
     (\<forall>k n a m c. aead_encrypt C k n a m = Some c \<longrightarrow> aead_decrypt C k n a c = Some m)"

text \<open>Encryption fails only on messages beyond the cipher's limit (\<open>2^38 - 64\<close> bytes).\<close>

definition aead_total :: "crypto \<Rightarrow> bool" where
  "aead_total C \<longleftrightarrow> (\<forall>k n a m. length m < 2 ^ 37 \<longrightarrow> aead_encrypt C k n a m \<noteq> None)"

text \<open>Authenticity, idealised: a ciphertext opens only under the key, nonce and associated
  data it was made with.\<close>

definition aead_authentic :: "crypto \<Rightarrow> bool" where
  "aead_authentic C \<longleftrightarrow>
     (\<forall>k n a m c k' n' a' m'. aead_encrypt C k n a m = Some c \<longrightarrow>
        aead_decrypt C k' n' a' c = Some m' \<longrightarrow> k' = k \<and> n' = n \<and> a' = a)"

text \<open>The two branches of the hierarchy never meet: distinct labels give distinct outputs.\<close>

definition hkdf_separates :: "crypto \<Rightarrow> bool" where
  "hkdf_separates C \<longleftrightarrow>
     (\<forall>k k' i i'. hkdf_expand C k i = hkdf_expand C k' i' \<longrightarrow> k = k' \<and> i = i')"

definition argon2_total :: "crypto \<Rightarrow> bool" where
  "argon2_total C \<longleftrightarrow>
     (\<forall>m t p l. 8 * p \<le> m \<and> 1 \<le> t \<and> 1 \<le> p \<longrightarrow> argon2_params C m t p l = None) \<and>
     (\<forall>m t p l pw s. 8 \<le> length s \<longrightarrow> argon2id C m t p l pw s \<noteq> None)"

section \<open>KDF parameters (\<open>kdf.rs\<close>)\<close>

definition MIN_MEMORY_KIB :: u32 where "MIN_MEMORY_KIB = 19 * 1024"
definition MIN_ITERATIONS :: u32 where "MIN_ITERATIONS = 2"
definition MIN_PARALLELISM :: u32 where "MIN_PARALLELISM = 1"
definition MAX_MEMORY_KIB :: u32 where "MAX_MEMORY_KIB = 1024 * 1024"
definition MAX_ITERATIONS :: u32 where "MAX_ITERATIONS = 64"
definition MAX_PARALLELISM :: u32 where "MAX_PARALLELISM = 64"
definition SALT_LEN :: nat where "SALT_LEN = 16"
definition KEY_LEN :: nat where "KEY_LEN = 32"

record kdf_params =
  kp_version :: u16
  memory_kib :: u32
  iterations :: u32
  parallelism :: u32

definition kdf_desktop :: kdf_params where
  "kdf_desktop = \<lparr>kp_version = 1, memory_kib = 64 * 1024, iterations = 3, parallelism = 4\<rparr>"

definition kdf_mobile_floor :: kdf_params where
  "kdf_mobile_floor = \<lparr>kp_version = 1, memory_kib = MIN_MEMORY_KIB,
     iterations = MIN_ITERATIONS, parallelism = MIN_PARALLELISM\<rparr>"

definition kdf_validate :: "kdf_params \<Rightarrow> crypto_error + unit" where
  "kdf_validate p =
     (if kp_version p \<noteq> 1 then Inl (UnsupportedVersion (kp_version p))
      else if memory_kib p < MIN_MEMORY_KIB \<or> iterations p < MIN_ITERATIONS
              \<or> parallelism p < MIN_PARALLELISM
        then Inl (InvalidKdfParams (lit ''below security floor (m>=19456 KiB, t>=2, p>=1)''))
      else if memory_kib p > MAX_MEMORY_KIB \<or> iterations p > MAX_ITERATIONS
              \<or> parallelism p > MAX_PARALLELISM
        then Inl (InvalidKdfParams (lit ''above safe ceiling (m<=1048576 KiB, t<=64, p<=64)''))
      else Inr ())"

definition normalize_email :: "(uchar \<Rightarrow> text) \<Rightarrow> text \<Rightarrow> text" where
  "normalize_email ul email = to_lowercase ul (trim email)"

section \<open>Keys (\<open>keys.rs\<close>)\<close>

datatype master_key = MasterKey (mk_bytes: bytes)
datatype auth_key = AuthKey (ak_bytes: bytes)
datatype wrapping_key = WrappingKey (wk_bytes: bytes)
datatype vault_key = VaultKey (vk_bytes: bytes)
datatype recovery_key = RecoveryKey (rk_bytes: bytes)

text \<open>Byte-string literals \<open>b".."\<close> of the source.\<close>

definition blit :: "string \<Rightarrow> bytes" where
  "blit s = map (\<lambda>c. word_of_nat (of_char c)) s"

definition INFO_AUTH :: bytes where
  "INFO_AUTH = blit ''basementen-vault/v1/auth-key''"
definition INFO_WRAP :: bytes where
  "INFO_WRAP = blit ''basementen-vault/v1/wrapping-key''"
definition INFO_RECOVERY_VERIFIER :: bytes where
  "INFO_RECOVERY_VERIFIER = blit ''basementen-vault/v1/recovery-verifier''"
definition INFO_SYNC_CHECKPOINT :: bytes where
  "INFO_SYNC_CHECKPOINT = blit ''basementen-vault/v1/sync-checkpoint''"

definition derive_master_key :: "crypto \<Rightarrow> text \<Rightarrow> bytes \<Rightarrow> kdf_params \<Rightarrow> master_key cres" where
  "derive_master_key C password salt params =
     (case kdf_validate params of
        Inl e \<Rightarrow> Inl (Err e)
      | Inr _ \<Rightarrow>
          if length salt < 8 then Inl (Err (InvalidKdfParams (lit ''salt too short'')))
          else
            (let m = unat (memory_kib params); t = unat (iterations params);
                 p = unat (parallelism params)
             in case argon2_params C m t p KEY_LEN of
                  Some msg \<Rightarrow> Inl (Err (InvalidKdfParams msg))
                | None \<Rightarrow>
                    (case argon2id C m t p KEY_LEN (as_bytes password) salt of
                       None \<Rightarrow> Inl (Err KeyDerivation)
                     | Some out \<Rightarrow> Inr (MasterKey out))))"

definition derive_subkeys :: "crypto \<Rightarrow> master_key \<Rightarrow> auth_key \<times> wrapping_key" where
  "derive_subkeys C mk =
     (AuthKey (hkdf_expand C (mk_bytes mk) INFO_AUTH),
      WrappingKey (hkdf_expand C (mk_bytes mk) INFO_WRAP))"

definition recovery_verifier :: "crypto \<Rightarrow> vault_key \<Rightarrow> bytes" where
  "recovery_verifier C vk = hkdf_expand C (vk_bytes vk) INFO_RECOVERY_VERIFIER"

definition seq_le_bytes :: "int \<Rightarrow> bytes" where
  "seq_le_bytes seq = le_bytes 8 (unat (as_u64 seq))"

definition sync_checkpoint_tag :: "crypto \<Rightarrow> vault_key \<Rightarrow> int \<Rightarrow> bytes" where
  "sync_checkpoint_tag C vk seq =
     hkdf_expand C (vk_bytes vk) (INFO_SYNC_CHECKPOINT @ seq_le_bytes seq)"

definition verify_sync_checkpoint :: "crypto \<Rightarrow> vault_key \<Rightarrow> int \<Rightarrow> bytes \<Rightarrow> bool" where
  "verify_sync_checkpoint C vk seq tag \<longleftrightarrow> sync_checkpoint_tag C vk seq = tag"

definition to_server_credential :: "auth_key \<Rightarrow> bytes" where
  "to_server_credential ak = ak_bytes ak"

section \<open>A concrete instance of the primitives\<close>

text \<open>
  Only for witnesses: an injective framing stands for a cipher, so that every law above
  holds of it.  It gives no secrecy.
\<close>

definition frame :: "bytes \<Rightarrow> bytes" where
  "frame xs = concat (map (\<lambda>b. [1, b]) xs) @ [0]"

definition toy_header :: "bytes \<Rightarrow> bytes \<Rightarrow> bytes \<Rightarrow> bytes" where
  "toy_header k n a = frame k @ frame n @ frame a"

definition toy_crypto :: crypto where
  "toy_crypto = \<lparr>
     argon2_params = (\<lambda>m t p l. None),
     argon2id = (\<lambda>m t p l pw s. Some (frame pw @ frame s)),
     hkdf_expand = (\<lambda>k i. frame k @ i),
     aead_encrypt = (\<lambda>k n a m. Some (toy_header k n a @ m)),
     aead_decrypt = (\<lambda>k n a c. if take (length (toy_header k n a)) c = toy_header k n a
                                then Some (drop (length (toy_header k n a)) c) else None),
     sha256_digest = (\<lambda>m. 0 # 0 # m)\<rparr>"

section \<open>Facts\<close>

lemma frame_prefix_free: "frame xs @ s = frame ys @ t \<longleftrightarrow> xs = ys \<and> s = t"
proof (induction xs arbitrary: ys)
  case Nil
  show ?case by (cases ys) (auto simp: frame_def)
next
  case (Cons x xs)
  show ?case
  proof (cases ys)
    case Nil
    then show ?thesis by (simp add: frame_def)
  next
    case (Cons y ys')
    then show ?thesis using Cons.IH[of ys'] by (auto simp: frame_def)
  qed
qed

lemma toy_header_prefix_free:
  "toy_header k n a @ s = toy_header k' n' a' @ t \<longleftrightarrow> k = k' \<and> n = n' \<and> a = a' \<and> s = t"
  by (auto simp: toy_header_def frame_prefix_free)

lemma toy_crypto_sel:
  "argon2_params toy_crypto m t p l = None"
  "argon2id toy_crypto m t p l pw s = Some (frame pw @ frame s)"
  "hkdf_expand toy_crypto k i = frame k @ i"
  "aead_encrypt toy_crypto k n a msg = Some (toy_header k n a @ msg)"
  "sha256_digest toy_crypto msg = 0 # 0 # msg"
  by (simp_all add: toy_crypto_def)

lemma toy_decrypt_iff: "aead_decrypt toy_crypto k n a c = Some m \<longleftrightarrow> c = toy_header k n a @ m"
  by (auto simp: toy_crypto_def) (metis append_take_drop_id)

lemma toy_roundtrip [simp]: "aead_roundtrip toy_crypto"
  by (auto simp: aead_roundtrip_def toy_crypto_sel toy_decrypt_iff)

lemma toy_total [simp]: "aead_total toy_crypto"
  by (simp add: aead_total_def toy_crypto_sel)

lemma toy_authentic [simp]: "aead_authentic toy_crypto"
  by (auto simp: aead_authentic_def toy_crypto_sel toy_decrypt_iff toy_header_prefix_free)

lemma toy_separates [simp]: "hkdf_separates toy_crypto"
  by (simp add: hkdf_separates_def toy_crypto_sel frame_prefix_free)

lemma toy_argon2 [simp]: "argon2_total toy_crypto"
  by (simp add: argon2_total_def toy_crypto_sel)

lemmas toy_laws = toy_roundtrip toy_total toy_authentic toy_separates toy_argon2

lemma aead_roundtripD:
  "aead_roundtrip C \<Longrightarrow> aead_encrypt C k n a m = Some c \<Longrightarrow> aead_decrypt C k n a c = Some m"
  by (simp add: aead_roundtrip_def)

lemma aead_authenticD:
  "aead_authentic C \<Longrightarrow> aead_encrypt C k n a m = Some c \<Longrightarrow>
   aead_decrypt C k' n' a' c = Some m' \<Longrightarrow> k' = k \<and> n' = n \<and> a' = a"
  by (simp add: aead_authentic_def) blast

lemma aead_totalE:
  assumes "aead_total C" and "length m < 2 ^ 37"
  obtains c where "aead_encrypt C k n a m = Some c"
  using assms unfolding aead_total_def by (metis option.exhaust)

lemma info_labels_distinct:
  "INFO_AUTH \<noteq> INFO_WRAP" "INFO_AUTH \<noteq> INFO_RECOVERY_VERIFIER"
  "INFO_WRAP \<noteq> INFO_RECOVERY_VERIFIER"
  "INFO_SYNC_CHECKPOINT @ s \<noteq> INFO_AUTH" "INFO_SYNC_CHECKPOINT @ s \<noteq> INFO_WRAP"
  "INFO_SYNC_CHECKPOINT @ s \<noteq> INFO_RECOVERY_VERIFIER"
  by (simp_all add: INFO_AUTH_def INFO_WRAP_def INFO_RECOVERY_VERIFIER_def
      INFO_SYNC_CHECKPOINT_def blit_def)

lemma seq_le_bytes_inj:
  assumes "seq_le_bytes i = seq_le_bytes j"
    and "- (2 ^ 63) \<le> i" "i < 2 ^ 63" "- (2 ^ 63) \<le> j" "j < 2 ^ 63"
  shows "i = j"
proof -
  have "unat w < 256 ^ 8" for w :: u64
    using unsigned_less[of w, where 'a = nat] by simp
  then have "unat (as_u64 i) = unat (as_u64 j)"
    using assms(1) unfolding seq_le_bytes_def by (blast intro: le_bytes_inj)
  then have "as_u64 i = as_u64 j" by (simp add: word_unat_eq_iff)
  then have "sint (as_u64 i) = sint (as_u64 j)" by simp
  then show ?thesis
    using assms(2-5) by (simp add: as_u64_def sint_sbintrunc' signed_take_bit_int_eq_self)
qed

text \<open>Parameter validation is exactly the documented window: version 1, and memory,
  iterations and parallelism between the OWASP floor and the denial-of-service ceiling, both
  ends included; everything else is refused with the matching error.\<close>

lemma kdf_validate_window:
  "kdf_validate p =
     (if kp_version p \<noteq> 1 then Inl (UnsupportedVersion (kp_version p))
      else if 19456 \<le> unat (memory_kib p) \<and> 2 \<le> unat (iterations p) \<and> 1 \<le> unat (parallelism p)
      then if unat (memory_kib p) \<le> 1048576 \<and> unat (iterations p) \<le> 64
                \<and> unat (parallelism p) \<le> 64
           then Inr ()
           else Inl (InvalidKdfParams (lit ''above safe ceiling (m<=1048576 KiB, t<=64, p<=64)''))
      else Inl (InvalidKdfParams (lit ''below security floor (m>=19456 KiB, t>=2, p>=1)'')))"
  by (auto simp: kdf_validate_def MIN_MEMORY_KIB_def MIN_ITERATIONS_def MIN_PARALLELISM_def
      MAX_MEMORY_KIB_def MAX_ITERATIONS_def MAX_PARALLELISM_def word_less_nat_alt)

lemma kdf_validate_cases:
  "kdf_validate p = Inr () \<longleftrightarrow>
     kp_version p = 1 \<and> MIN_MEMORY_KIB \<le> memory_kib p \<and> memory_kib p \<le> MAX_MEMORY_KIB
     \<and> MIN_ITERATIONS \<le> iterations p \<and> iterations p \<le> MAX_ITERATIONS
     \<and> MIN_PARALLELISM \<le> parallelism p \<and> parallelism p \<le> MAX_PARALLELISM"
  by (auto simp: kdf_validate_def not_less split: if_splits)

end
