(* ===== verification/Item_Crypt.thy ===== *)
theory Item_Crypt
  imports Crypto_Core
begin

text \<open>
  vault-core \<open>item.rs\<close>: the graduated padding buckets, the padded plaintext layout and
  the encryption of one vault item with its associated data.
\<close>

section \<open>Padding\<close>

definition NONCE_LEN :: nat where "NONCE_LEN = 24"
definition AAD_CONTEXT :: bytes where "AAD_CONTEXT = blit ''basementen-vault/v1/item''"
definition PAD_BLOCK :: nat where "PAD_BLOCK = 256"
definition LEN_PREFIX :: nat where "LEN_PREFIX = 4"
definition ITEM_VERSION :: u16 where "ITEM_VERSION = 2"

text \<open>\<open>usize\<close> has 64 bits; the number of significant bits gives \<open>leading_zeros\<close>.\<close>

definition USIZE_BITS :: nat where "USIZE_BITS = 64"

fun bit_length :: "nat \<Rightarrow> nat" where
  "bit_length n = (if n = 0 then 0 else Suc (bit_length (n div 2)))"

declare bit_length.simps [simp del]

definition leading_zeros :: "nat \<Rightarrow> nat" where
  "leading_zeros n = USIZE_BITS - bit_length n"

definition next_multiple_of :: "nat \<Rightarrow> nat \<Rightarrow> nat" where
  "next_multiple_of n b = (if n mod b = 0 then n else n + (b - n mod b))"

definition bucket_block :: "nat \<Rightarrow> nat" where
  "bucket_block tot =
     (if tot \<le> PAD_BLOCK then PAD_BLOCK
      else (let msb = USIZE_BITS - 1 - leading_zeros tot
            in max PAD_BLOCK (2 ^ (msb - 4))))"

definition bucketed_len :: "nat \<Rightarrow> nat" where
  "bucketed_len tot = next_multiple_of tot (bucket_block tot)"

definition pad_plaintext :: "bytes \<Rightarrow> crypto_error + bytes" where
  "pad_plaintext pt =
     (if length pt > 2 ^ 32 - 1 then Inl (Malformed (lit ''item plaintext too large''))
      else
        (let padded_len = bucketed_len (LEN_PREFIX + length pt);
             buf = le_bytes 4 (length pt) @ pt
         in Inr (buf @ replicate (padded_len - length buf) 0)))"

definition unpad_plaintext :: "bytes \<Rightarrow> crypto_error + bytes" where
  "unpad_plaintext padded =
     (if length padded < LEN_PREFIX then Inl (Malformed (lit ''padded item shorter than prefix''))
      else
        (let real_len = of_le_bytes (take LEN_PREFIX padded); end' = LEN_PREFIX + real_len
         in if end' \<le> length padded then Inr (take real_len (drop LEN_PREFIX padded))
            else Inl (Malformed (lit ''padded length overruns buffer''))))"

section \<open>Encrypted items\<close>

record encrypted_item =
  ei_version :: u16
  ei_item_id :: "text"
  ei_revision :: u64
  ei_nonce :: bytes
  ei_ciphertext :: bytes

definition aad_for :: "u16 \<Rightarrow> text \<Rightarrow> u64 \<Rightarrow> bytes" where
  "aad_for version item_id revision =
     AAD_CONTEXT @ le_bytes 2 (unat version) @ le_bytes 8 (length (as_bytes item_id))
       @ as_bytes item_id @ le_bytes 8 (unat revision)"

text \<open>\<open>nonce\<close> is the fresh random nonce.\<close>

definition encrypt_item ::
    "crypto \<Rightarrow> bytes \<Rightarrow> vault_key \<Rightarrow> text \<Rightarrow> u64 \<Rightarrow> bytes \<Rightarrow> crypto_error + encrypted_item" where
  "encrypt_item C nonce vk item_id revision plaintext =
     bind_r (pad_plaintext plaintext) (\<lambda>padded.
       case aead_encrypt C (vk_bytes vk) nonce (aad_for ITEM_VERSION item_id revision) padded of
         None \<Rightarrow> Inl Encrypt
       | Some ct \<Rightarrow> Inr \<lparr>ei_version = ITEM_VERSION, ei_item_id = item_id,
                        ei_revision = revision, ei_nonce = nonce, ei_ciphertext = ct\<rparr>)"

definition decrypt_item :: "crypto \<Rightarrow> vault_key \<Rightarrow> encrypted_item \<Rightarrow> crypto_error + bytes" where
  "decrypt_item C vk item =
     (if \<not> (ei_version item = 1 \<or> ei_version item = 2)
      then Inl (UnsupportedVersion (ei_version item))
      else case aead_decrypt C (vk_bytes vk) (ei_nonce item)
                  (aad_for (ei_version item) (ei_item_id item) (ei_revision item))
                  (ei_ciphertext item) of
             None \<Rightarrow> Inl Decrypt
           | Some plain \<Rightarrow> if ei_version item = 2 then unpad_plaintext plain else Inr plain)"

definition encrypt_item_v1 ::
    "crypto \<Rightarrow> bytes \<Rightarrow> vault_key \<Rightarrow> text \<Rightarrow> u64 \<Rightarrow> bytes \<Rightarrow> encrypted_item option" where
  "encrypt_item_v1 C nonce vk item_id revision plaintext =
     map_option (\<lambda>ct. \<lparr>ei_version = 1, ei_item_id = item_id, ei_revision = revision,
                       ei_nonce = nonce, ei_ciphertext = ct\<rparr>)
       (aead_encrypt C (vk_bytes vk) nonce (aad_for 1 item_id revision) plaintext)"

section \<open>Bucket arithmetic\<close>

lemma bit_length_bounds: "0 < n \<Longrightarrow> 2 ^ (bit_length n - 1) \<le> n \<and> n < 2 ^ bit_length n"
proof (induction n rule: bit_length.induct)
  case (1 n)
  show ?case
  proof (cases "n div 2 = 0")
    case True
    with 1(2) have "n = 1" by auto
    then show ?thesis by (simp add: bit_length.simps)
  next
    case False
    with 1 have IH: "2 ^ (bit_length (n div 2) - 1) \<le> n div 2" "n div 2 < 2 ^ bit_length (n div 2)"
      by auto
    have pos: "0 < bit_length (n div 2)"
      using False by (subst bit_length.simps) simp
    have bl: "bit_length n = Suc (bit_length (n div 2))"
      using 1(2) by (subst bit_length.simps) simp
    obtain k where k: "bit_length (n div 2) = Suc k" using pos gr0_implies_Suc by blast
    have "2 * 2 ^ k \<le> n" using IH(1) k by simp
    moreover have "n < 2 * 2 ^ bit_length (n div 2)" using IH(2) by linarith
    ultimately show ?thesis by (simp add: bl k)
  qed
qed

lemma bit_length_mono: "n \<le> m \<Longrightarrow> bit_length n \<le> bit_length m"
proof (cases "n = 0")
  case True
  then show ?thesis by (simp add: bit_length.simps)
next
  case False
  assume "n \<le> m"
  show ?thesis
  proof (rule ccontr)
    assume "\<not> bit_length n \<le> bit_length m"
    then have "bit_length m \<le> bit_length n - 1" by simp
    then have "(2::nat) ^ bit_length m \<le> 2 ^ (bit_length n - 1)" by simp
    also have "\<dots> \<le> n" using bit_length_bounds[of n] False by simp
    finally show False using bit_length_bounds[of m] False \<open>n \<le> m\<close> by simp
  qed
qed

lemma bit_length_le: "n < 2 ^ k \<Longrightarrow> bit_length n \<le> k"
proof (rule ccontr)
  assume n: "n < 2 ^ k" and "\<not> bit_length n \<le> k"
  then have k: "k \<le> bit_length n - 1" "0 < n" by (auto simp: bit_length.simps[of 0] intro: gr0I)
  then have "(2::nat) ^ k \<le> 2 ^ (bit_length n - 1)" by simp
  also have "\<dots> \<le> n" using bit_length_bounds[of n] k by simp
  finally show False using n by simp
qed

lemma bucket_block_eq:
  assumes "tot < 2 ^ 64"
  shows "bucket_block tot = 2 ^ max 8 (bit_length tot - 5)"
proof -
  have bl: "bit_length tot \<le> 64" by (rule bit_length_le) (use assms in simp)
  show ?thesis
  proof (cases "tot \<le> PAD_BLOCK")
    case True
    then have "tot < 2 ^ 9" by (simp add: PAD_BLOCK_def)
    then have "bit_length tot \<le> 9" by (rule bit_length_le)
    then have "max 8 (bit_length tot - 5) = 8" by simp
    with True show ?thesis by (simp add: bucket_block_def PAD_BLOCK_def)
  next
    case False
    then have "bit_length tot \<noteq> 0" by (auto simp: bit_length.simps[of tot])
    then have "64 - 1 - (64 - bit_length tot) - 4 = bit_length tot - 5"
      using bl by arith
    moreover have "max (256::nat) (2 ^ k) = 2 ^ max 8 k" for k
    proof (cases "8 \<le> k")
      case True
      then have "(2::nat) ^ 8 \<le> 2 ^ k" by (rule power_increasing) simp
      with True show ?thesis by (simp add: max_def)
    next
      case False
      then have "(2::nat) ^ k \<le> 2 ^ 8" by (intro power_increasing) auto
      with False show ?thesis by (simp add: max_def)
    qed
    ultimately show ?thesis
      using False by (simp add: bucket_block_def Let_def leading_zeros_def USIZE_BITS_def PAD_BLOCK_def)
  qed
qed

lemma next_multiple_of_ge: "0 < b \<Longrightarrow> n \<le> next_multiple_of n b"
  using mod_less_divisor[of b n] by (auto simp: next_multiple_of_def simp del: mod_less_divisor)

lemma next_multiple_of_dvd: "0 < b \<Longrightarrow> b dvd next_multiple_of n b"
proof -
  assume b: "0 < b"
  have "n + (b - n mod b) = n div b * b + b"
    using mod_less_divisor[OF b, of n] div_mult_mod_eq[of n b] by linarith
  then show ?thesis by (auto simp: next_multiple_of_def mod_eq_0_iff_dvd)
qed

lemma next_multiple_of_less: "0 < b \<Longrightarrow> next_multiple_of n b < n + b"
  by (auto simp: next_multiple_of_def)

lemma next_multiple_of_least:
  assumes "0 < b" and "b dvd m" and "n \<le> m"
  shows "next_multiple_of n b \<le> m"
proof (rule ccontr)
  assume c: "\<not> next_multiple_of n b \<le> m"
  from next_multiple_of_dvd[OF assms(1)] obtain q where q: "next_multiple_of n b = b * q" by blast
  from assms(2) obtain r where r: "m = b * r" by blast
  from c q r have "b * r < b * q" by simp
  then have "r + 1 \<le> q" using assms(1) by simp
  then have "b * (r + 1) \<le> b * q" by (rule mult_le_mono2)
  then show False using next_multiple_of_less[OF assms(1), of n] q r assms(3) by simp
qed

lemma bucket_block_pos: "tot < 2 ^ 64 \<Longrightarrow> 0 < bucket_block tot"
  by (simp add: bucket_block_eq)

lemma bucketed_len_ge: "tot < 2 ^ 64 \<Longrightarrow> tot \<le> bucketed_len tot"
  by (simp add: bucketed_len_def next_multiple_of_ge bucket_block_pos)

section \<open>Properties\<close>

text \<open>The padded size fits the data, is a whole number of 256-byte blocks and exceeds the
  data by less than 256 bytes plus a sixteenth of its size.\<close>

lemma bucketed_len_bounds:
  assumes "0 < tot" and "tot < 2 ^ 64"
  shows "tot \<le> bucketed_len tot \<and> PAD_BLOCK dvd bucketed_len tot
    \<and> bucketed_len tot < tot + max 256 (tot div 16 + 1)"
proof -
  let ?b = "bucket_block tot"
  have b: "?b = 2 ^ max 8 (bit_length tot - 5)" by (rule bucket_block_eq[OF assms(2)])
  have "PAD_BLOCK dvd ?b"
    unfolding b PAD_BLOCK_def using le_imp_power_dvd[of 8 "max 8 (bit_length tot - 5)" "2::nat"]
    by simp
  moreover have "?b dvd bucketed_len tot"
    by (simp add: bucketed_len_def next_multiple_of_dvd bucket_block_pos[OF assms(2)])
  moreover have "?b \<le> max 256 (tot div 16)"
  proof (cases "bit_length tot - 5 \<le> 8")
    case True
    then show ?thesis by (simp add: b max_def)
  next
    case False
    have "16 * 2 ^ (bit_length tot - 5) = (2::nat) ^ (bit_length tot - 1)"
    proof -
      have "bit_length tot - 1 = 4 + (bit_length tot - 5)" using False by simp
      then show ?thesis by (simp only: power_add) simp
    qed
    also have "\<dots> \<le> tot" using bit_length_bounds[OF assms(1)] by simp
    finally have "2 ^ (bit_length tot - 5) \<le> tot div 16" by simp
    with False show ?thesis by (simp add: b max_def)
  qed
  ultimately show ?thesis
    using bucketed_len_ge[OF assms(2)] next_multiple_of_less[OF bucket_block_pos[OF assms(2)], of tot]
    by (auto simp: bucketed_len_def)
qed


text \<open>The schedule never shrinks as the item grows, so a longer item is never stored shorter than a
  shorter one.\<close>

lemma bucketed_len_mono:
  assumes "n \<le> m" and "m < 2 ^ 64"
  shows "bucketed_len n \<le> bucketed_len m"
proof -
  have n: "n < 2 ^ 64" using assms by simp
  have "bucket_block n dvd bucket_block m"
    using bit_length_mono[OF assms(1)]
    by (simp add: bucket_block_eq[OF n] bucket_block_eq[OF assms(2)] le_imp_power_dvd)
  also have "bucket_block m dvd bucketed_len m"
    by (simp add: bucketed_len_def next_multiple_of_dvd bucket_block_pos[OF assms(2)])
  finally have "bucket_block n dvd bucketed_len m" .
  moreover have "n \<le> bucketed_len m" using assms bucketed_len_ge[OF assms(2)] by simp
  ultimately show ?thesis
    unfolding bucketed_len_def[of n] by (rule next_multiple_of_least[OF bucket_block_pos[OF n]])
qed

lemma bucketed_len_small: "0 < n \<Longrightarrow> n \<le> 256 \<Longrightarrow> bucketed_len n = 256"
  by (cases "n = 256") (auto simp: bucketed_len_def bucket_block_def PAD_BLOCK_def next_multiple_of_def)

lemma pad_plaintext_ok:
  assumes "length pt < 2 ^ 32"
  obtains buf where "pad_plaintext pt = Inr buf" and "length buf = bucketed_len (4 + length pt)"
    and "take 4 buf = le_bytes 4 (length pt)" and "take (length pt) (drop 4 buf) = pt"
proof -
  have "4 + length pt \<le> bucketed_len (4 + length pt)"
    by (rule bucketed_len_ge) (use assms in simp)
  then show thesis using assms that by (auto simp: pad_plaintext_def Let_def LEN_PREFIX_def)
qed

lemma unpad_pad_plaintext:
  assumes "pad_plaintext pt = Inr buf"
  shows "unpad_plaintext buf = Inr pt"
proof -
  have len: "length pt < 2 ^ 32" using assms by (auto simp: pad_plaintext_def split: if_splits)
  from pad_plaintext_ok[OF len] assms have buf: "length buf = bucketed_len (4 + length pt)"
    "take 4 buf = le_bytes 4 (length pt)" "take (length pt) (drop 4 buf) = pt"
    by (metis Inr_inject)+
  have "4 + length pt \<le> length buf"
    unfolding buf by (rule bucketed_len_ge) (use len in simp)
  moreover have "of_le_bytes (take 4 buf) = length pt"
    using len by (simp add: buf of_le_bytes_le_bytes)
  ultimately show ?thesis by (simp add: unpad_plaintext_def Let_def LEN_PREFIX_def buf)
qed

text \<open>Padding and unpadding: every plaintext the format admits (fewer than \<open>2^32\<close>
  bytes) is padded to its bucket and unpadded to itself; a longer one is refused.\<close>

lemma pad_unpad_roundtrip:
  "(if length pt < 2 ^ 32
    then \<exists>buf. pad_plaintext pt = Inr buf \<and> length buf = bucketed_len (4 + length pt)
               \<and> unpad_plaintext buf = Inr pt
    else pad_plaintext pt = Inl (Malformed (lit ''item plaintext too large'')))"
proof (cases "length pt < 2 ^ 32")
  case True
  from pad_plaintext_ok[OF True] unpad_pad_plaintext show ?thesis using True by metis
next
  case False
  then show ?thesis by (simp add: pad_plaintext_def)
qed

text \<open>Unpadding never reads outside its buffer: it returns exactly the slice its
  length prefix names, and only when that slice lies inside the buffer; any other buffer is an error.\<close>

lemma unpad_in_bounds:
  "(case unpad_plaintext buf of
      Inr pt \<Rightarrow> 4 + length pt \<le> length buf \<and> length pt = of_le_bytes (take 4 buf)
                \<and> (\<forall>i < length pt. pt ! i = buf ! (4 + i))
    | Inl e \<Rightarrow> (length buf < 4 \<or> length buf < 4 + of_le_bytes (take 4 buf))
                \<and> (\<exists>msg. e = Malformed msg))"
  by (auto simp: unpad_plaintext_def Let_def LEN_PREFIX_def)

section \<open>Items bind their identity\<close>

lemma aad_for_inj:
  assumes "aad_for v i r = aad_for v' i' r'"
    and "length (as_bytes i) < 2 ^ 64" and "length (as_bytes i') < 2 ^ 64"
  shows "v = v' \<and> as_bytes i = as_bytes i' \<and> r = r'"
proof -
  from assms(1) have eqs: "le_bytes 2 (unat v) = le_bytes 2 (unat v')"
    "le_bytes 8 (length (as_bytes i)) = le_bytes 8 (length (as_bytes i'))"
    "as_bytes i @ le_bytes 8 (unat r) = as_bytes i' @ le_bytes 8 (unat r')"
    by (simp_all add: aad_for_def)
  have "unat w < 256 ^ 2" for w :: u16 using unsigned_less[of w, where 'a = nat] by simp
  then have "v = v'" using le_bytes_inj[OF eqs(1)] by (simp add: word_unat_eq_iff)
  moreover have "length (as_bytes i) = length (as_bytes i')"
    using le_bytes_inj[OF eqs(2)] assms(2,3) by simp
  then have "as_bytes i = as_bytes i'" and r: "le_bytes 8 (unat r) = le_bytes 8 (unat r')"
    using eqs(3) by auto
  moreover have "unat w < 256 ^ 8" for w :: u64 using unsigned_less[of w, where 'a = nat] by simp
  then have "r = r'" using le_bytes_inj[OF r] by (simp add: word_unat_eq_iff)
  ultimately show ?thesis by simp
qed

lemma encrypt_item_InrD:
  assumes "encrypt_item C nonce vk i r pt = Inr it"
  obtains padded ct where "pad_plaintext pt = Inr padded"
    and "aead_encrypt C (vk_bytes vk) nonce (aad_for ITEM_VERSION i r) padded = Some ct"
    and "it = \<lparr>ei_version = ITEM_VERSION, ei_item_id = i, ei_revision = r,
               ei_nonce = nonce, ei_ciphertext = ct\<rparr>"
  using assms by (auto simp: encrypt_item_def res_simps split: option.splits)

text \<open>Encrypting an item always succeeds on a plaintext the format admits, and the
  item decrypts under the same key to exactly that plaintext.\<close>

lemma encrypt_decrypt_item:
  assumes "aead_roundtrip C" and "aead_total C" and "length pt < 2 ^ 32"
  shows "\<exists>it. encrypt_item C nonce vk i r pt = Inr it \<and> ei_item_id it = i \<and> ei_revision it = r
    \<and> ei_version it = 2 \<and> decrypt_item C vk it = Inr pt"
proof -
  obtain buf where buf: "pad_plaintext pt = Inr buf" "length buf = bucketed_len (4 + length pt)"
    using pad_plaintext_ok[OF assms(3)] by blast
  have "bucketed_len (4 + length pt) < 2 ^ 37"
    using bucketed_len_bounds[of "4 + length pt"] assms(3) by auto
  with buf obtain ct where ct:
    "aead_encrypt C (vk_bytes vk) nonce (aad_for ITEM_VERSION i r) buf = Some ct"
    using aead_totalE[OF assms(2)] by metis
  show ?thesis
    using buf(1) ct aead_roundtripD[OF assms(1) ct] unpad_pad_plaintext[OF buf(1)]
    by (simp add: encrypt_item_def decrypt_item_def ITEM_VERSION_def)
qed

text \<open>Claim C39.  A stored item cannot be passed off as another record: presented under a different
  item id, revision, version or vault key, its ciphertext does not decrypt.\<close>

theorem item_binds_identity:
  assumes auth: "aead_authentic C" and enc: "encrypt_item C nonce vk i r pt = Inr it"
    and ct: "ei_ciphertext it' = ei_ciphertext it"
    and diff: "as_bytes (ei_item_id it') \<noteq> as_bytes i \<or> ei_revision it' \<noteq> r
      \<or> ei_version it' \<noteq> ITEM_VERSION \<or> ei_nonce it' \<noteq> nonce \<or> vk' \<noteq> vk"
    and lens: "length (as_bytes i) < 2 ^ 64" "length (as_bytes (ei_item_id it')) < 2 ^ 64"
  shows "\<exists>e. decrypt_item C vk' it' = Inl e"
proof (cases "aead_decrypt C (vk_bytes vk') (ei_nonce it')
    (aad_for (ei_version it') (ei_item_id it') (ei_revision it')) (ei_ciphertext it')")
  case None
  then show ?thesis by (auto simp: decrypt_item_def)
next
  case (Some m)
  from enc obtain padded c where c: "it = \<lparr>ei_version = ITEM_VERSION, ei_item_id = i,
      ei_revision = r, ei_nonce = nonce, ei_ciphertext = c\<rparr>"
    "aead_encrypt C (vk_bytes vk) nonce (aad_for ITEM_VERSION i r) padded = Some c"
    by (elim encrypt_item_InrD)
  from aead_authenticD[OF auth c(2)] Some ct c(1)
  have "vk_bytes vk' = vk_bytes vk \<and> ei_nonce it' = nonce
    \<and> aad_for (ei_version it') (ei_item_id it') (ei_revision it') = aad_for ITEM_VERSION i r"
    by simp
  with aad_for_inj[OF _ lens(2,1)] diff show ?thesis by (metis vault_key.expand)
qed

theorem item_binds_identity_witness:
  "\<exists>e. decrypt_item toy_crypto (VaultKey [1])
     \<lparr>ei_version = 2, ei_item_id = lit ''b'', ei_revision = 1, ei_nonce = [7],
      ei_ciphertext = toy_header [1] [7] (aad_for 2 (lit ''a'') 1) @
         (case pad_plaintext [9] of Inr b \<Rightarrow> b)\<rparr> = Inl e"
proof (rule item_binds_identity[where C = toy_crypto and nonce = "[7]" and vk = "VaultKey [1]"
      and i = "lit ''a''" and r = 1 and pt = "[9]"
      and it = "\<lparr>ei_version = 2, ei_item_id = lit ''a'', ei_revision = 1, ei_nonce = [7],
      ei_ciphertext = toy_header [1] [7] (aad_for 2 (lit ''a'') 1) @
         (case pad_plaintext [9] of Inr b \<Rightarrow> b)\<rparr>"])
  show "encrypt_item toy_crypto [7] (VaultKey [1]) (lit ''a'') 1 [9] =
    Inr \<lparr>ei_version = 2, ei_item_id = lit ''a'', ei_revision = 1, ei_nonce = [7],
      ei_ciphertext = toy_header [1] [7] (aad_for 2 (lit ''a'') 1) @
         (case pad_plaintext [9] of Inr b \<Rightarrow> b)\<rparr>"
  proof -
    obtain b where "pad_plaintext [9] = Inr b" using pad_plaintext_ok[of "[9]"] by auto
    then show ?thesis by (simp add: encrypt_item_def toy_crypto_sel ITEM_VERSION_def)
  qed
qed (simp_all add: as_bytes_def lit_def utf8_char_def)

end
