(* ===== verification/Envelope.thy ===== *)
theory Envelope
  imports Item_Crypt
begin

text \<open>
  vault-core \<open>envelope.rs\<close> (the Vault Key wrapped for the server) and \<open>export.rs\<close>
  (self-contained encrypted backups).
\<close>

section \<open>Wrapped keys\<close>

datatype wrap_purpose = MasterWrap | RecoveryWrap

definition purpose_aad :: "wrap_purpose \<Rightarrow> bytes" where
  "purpose_aad p = (case p of
      MasterWrap \<Rightarrow> blit ''basementen-vault/v1/wrap/master''
    | RecoveryWrap \<Rightarrow> blit ''basementen-vault/v1/wrap/recovery'')"

record wrapped_key =
  wr_version :: u16
  wr_purpose :: wrap_purpose
  wr_nonce :: bytes
  wr_ciphertext :: bytes

definition WRAP_VERSION :: u16 where "WRAP_VERSION = 1"

definition wrap_aad :: "u16 \<Rightarrow> wrap_purpose \<Rightarrow> bytes" where
  "wrap_aad version purpose = purpose_aad purpose @ le_bytes 2 (unat version)"

definition wrap :: "crypto \<Rightarrow> bytes \<Rightarrow> bytes \<Rightarrow> vault_key \<Rightarrow> wrap_purpose \<Rightarrow> wrapped_key cres" where
  "wrap C nonce key vk purpose =
     (case aead_encrypt C key nonce (wrap_aad WRAP_VERSION purpose) (vk_bytes vk) of
        None \<Rightarrow> Inl Panic
      | Some ct \<Rightarrow> Inr \<lparr>wr_version = WRAP_VERSION, wr_purpose = purpose,
                       wr_nonce = nonce, wr_ciphertext = ct\<rparr>)"

definition unwrap :: "crypto \<Rightarrow> bytes \<Rightarrow> wrapped_key \<Rightarrow> wrap_purpose \<Rightarrow> vault_key cres" where
  "unwrap C key wrapped expected =
     (if wr_version wrapped \<noteq> 1 then Inl (Err (UnsupportedVersion (wr_version wrapped)))
      else if wr_purpose wrapped \<noteq> expected
        then Inl (Err (Malformed (lit ''wrap purpose mismatch'')))
      else case aead_decrypt C key (wr_nonce wrapped) (wrap_aad (wr_version wrapped) expected)
                  (wr_ciphertext wrapped) of
             None \<Rightarrow> Inl (Err Decrypt)
           | Some plaintext \<Rightarrow>
               if length plaintext = KEY_LEN then Inr (VaultKey plaintext)
               else Inl (Err Decrypt))"

definition wrap_vault_key :: "crypto \<Rightarrow> bytes \<Rightarrow> wrapping_key \<Rightarrow> vault_key \<Rightarrow> wrapped_key cres" where
  "wrap_vault_key C nonce k vk = wrap C nonce (wk_bytes k) vk MasterWrap"

definition unwrap_vault_key :: "crypto \<Rightarrow> wrapping_key \<Rightarrow> wrapped_key \<Rightarrow> vault_key cres" where
  "unwrap_vault_key C k w = unwrap C (wk_bytes k) w MasterWrap"

definition recovery_wrap_vault_key ::
    "crypto \<Rightarrow> bytes \<Rightarrow> recovery_key \<Rightarrow> vault_key \<Rightarrow> wrapped_key cres" where
  "recovery_wrap_vault_key C nonce k vk = wrap C nonce (rk_bytes k) vk RecoveryWrap"

definition recovery_unwrap_vault_key :: "crypto \<Rightarrow> recovery_key \<Rightarrow> wrapped_key \<Rightarrow> vault_key cres" where
  "recovery_unwrap_vault_key C k w = unwrap C (rk_bytes k) w RecoveryWrap"

section \<open>Exports\<close>

definition EXPORT_AAD_CONTEXT :: bytes where "EXPORT_AAD_CONTEXT = blit ''basementen-vault/export''"
definition EXPORT_VERSION :: u16 where "EXPORT_VERSION = 1"

definition export_aad :: "u16 \<Rightarrow> bytes" where
  "export_aad version = EXPORT_AAD_CONTEXT @ le_bytes 2 (unat version)"

record export_envelope =
  ex_format :: "text"
  ex_version :: u16
  ex_kdf_params :: kdf_params
  ex_salt :: bytes
  ex_nonce :: bytes
  ex_ciphertext :: bytes

definition derive_export_key :: "crypto \<Rightarrow> text \<Rightarrow> bytes \<Rightarrow> kdf_params \<Rightarrow> crypto_error + bytes" where
  "derive_export_key C passphrase salt params =
     bind_r (kdf_validate params) (\<lambda>_.
       let m = unat (memory_kib params); t = unat (iterations params); p = unat (parallelism params)
       in case argon2_params C m t p 32 of
            Some msg \<Rightarrow> Inl (InvalidKdfParams msg)
          | None \<Rightarrow> ok_or KeyDerivation (argon2id C m t p 32 (as_bytes passphrase) salt))"

text \<open>\<open>salt\<close> and \<open>nonce\<close> are the fresh random values.\<close>

definition encrypt_export ::
    "crypto \<Rightarrow> bytes \<Rightarrow> bytes \<Rightarrow> bytes \<Rightarrow> text \<Rightarrow> crypto_error + export_envelope" where
  "encrypt_export C salt nonce plaintext passphrase =
     bind_r (derive_export_key C passphrase salt kdf_desktop) (\<lambda>key.
     bind_r (ok_or Encrypt (aead_encrypt C key nonce (export_aad EXPORT_VERSION) plaintext)) (\<lambda>ct.
       Inr \<lparr>ex_format = lit ''basementen-vault-export'', ex_version = EXPORT_VERSION,
            ex_kdf_params = kdf_desktop, ex_salt = salt, ex_nonce = nonce, ex_ciphertext = ct\<rparr>))"

definition decrypt_export :: "crypto \<Rightarrow> export_envelope \<Rightarrow> text \<Rightarrow> crypto_error + bytes" where
  "decrypt_export C env passphrase =
     (if ex_version env \<noteq> 1 then Inl (UnsupportedVersion (ex_version env))
      else
        bind_r (derive_export_key C passphrase (ex_salt env) (ex_kdf_params env)) (\<lambda>key.
          ok_or Decrypt (aead_decrypt C key (ex_nonce env) (export_aad (ex_version env))
                           (ex_ciphertext env))))"

section \<open>Facts\<close>

lemma wrap_aad_inj: "wrap_aad v p = wrap_aad v' p' \<longleftrightarrow> v = v' \<and> p = p'"
proof
  assume eq: "wrap_aad v p = wrap_aad v' p'"
  have p: "p = p'"
  proof (rule ccontr)
    assume "p \<noteq> p'"
    then have "length (wrap_aad v p) \<noteq> length (wrap_aad v' p')"
      by (cases p; cases p') (simp_all add: wrap_aad_def purpose_aad_def blit_def)
    with eq show False by simp
  qed
  have "unat w < 256 ^ 2" for w :: u16 using unsigned_less[of w, where 'a = nat] by simp
  then have "v = v'"
    using eq p le_bytes_inj[of 2 "unat v" "unat v'"] by (simp add: wrap_aad_def word_unat_eq_iff)
  with p show "v = v' \<and> p = p'" by simp
qed simp

lemma unwrap_wrap:
  assumes "aead_roundtrip C" and "wrap C nonce key vk p = Inr w" and "length (vk_bytes vk) = KEY_LEN"
  shows "unwrap C key w p = Inr vk"
  using assms(2,3)
  by (auto simp: wrap_def unwrap_def WRAP_VERSION_def split: option.splits
      dest!: aead_roundtripD[OF assms(1)])

lemma wrap_total:
  assumes "aead_total C" and "length (vk_bytes vk) = KEY_LEN"
  shows "\<exists>w. wrap C nonce key vk p = Inr w"
proof -
  have "length (vk_bytes vk) < 2 ^ 37" using assms(2) by (simp add: KEY_LEN_def)
  from aead_totalE[OF assms(1) this] obtain c where
    "aead_encrypt C key nonce (wrap_aad WRAP_VERSION p) (vk_bytes vk) = Some c" .
  then show ?thesis by (simp add: wrap_def)
qed

lemma unwrap_other_key:
  assumes "aead_authentic C" and "wrap C nonce key vk p = Inr w" and "key' \<noteq> key"
  shows "unwrap C key' w p = Inl (Err Decrypt)"
proof -
  from assms(2) obtain ct where ct: "aead_encrypt C key nonce (wrap_aad 1 p) (vk_bytes vk) = Some ct"
    "w = \<lparr>wr_version = 1, wr_purpose = p, wr_nonce = nonce, wr_ciphertext = ct\<rparr>"
    by (auto simp: wrap_def WRAP_VERSION_def split: option.splits)
  have "aead_decrypt C key' nonce (wrap_aad 1 p) ct = None"
    using aead_authenticD[OF assms(1) ct(1)] assms(3) by (metis option.exhaust)
  with ct(2) show ?thesis by (simp add: unwrap_def)
qed

text \<open>A wrapped Vault Key cannot change roles: even with its purpose field rewritten, a
  blob made for one purpose never opens for the other, under any key.\<close>

lemma wrap_purpose_confusion_refused:
  assumes "aead_authentic C" and "wrap C nonce key vk p = Inr w" and "q \<noteq> p"
  shows "unwrap C key' (w\<lparr>wr_purpose := q\<rparr>) q = Inl (Err Decrypt)
    \<and> unwrap C key' w q = Inl (Err (Malformed (lit ''wrap purpose mismatch'')))"
proof -
  from assms(2) obtain ct where ct: "aead_encrypt C key nonce (wrap_aad 1 p) (vk_bytes vk) = Some ct"
    "w = \<lparr>wr_version = 1, wr_purpose = p, wr_nonce = nonce, wr_ciphertext = ct\<rparr>"
    by (auto simp: wrap_def WRAP_VERSION_def split: option.splits)
  have "aead_decrypt C key' nonce (wrap_aad 1 q) ct = None"
    using aead_authenticD[OF assms(1) ct(1)] assms(3) by (metis option.exhaust wrap_aad_inj)
  with ct(2) assms(3) show ?thesis by (simp add: unwrap_def)
qed

lemma derive_export_key_ok:
  assumes "argon2_total C" and "kdf_validate params = Inr ()" and "8 \<le> length salt"
    and "8 * unat (parallelism params) \<le> unat (memory_kib params)"
  shows "\<exists>key. derive_export_key C pw salt params = Inr key"
proof -
  have "1 \<le> unat (iterations params)" "1 \<le> unat (parallelism params)"
    using assms(2) by (auto simp: kdf_validate_cases MIN_ITERATIONS_def MIN_PARALLELISM_def
        word_le_nat_alt)
  then have "argon2_params C (unat (memory_kib params)) (unat (iterations params))
      (unat (parallelism params)) 32 = None"
    using assms(1,4) by (simp add: argon2_total_def)
  moreover have "argon2id C (unat (memory_kib params)) (unat (iterations params))
      (unat (parallelism params)) 32 (as_bytes pw) salt \<noteq> None"
    using assms(1,3) unfolding argon2_total_def by blast
  ultimately show ?thesis using assms(2) by (auto simp: derive_export_key_def Let_def)
qed

lemma kdf_desktop_valid: "kdf_validate kdf_desktop = Inr ()"
  by (simp add: kdf_validate_cases kdf_desktop_def MIN_MEMORY_KIB_def MAX_MEMORY_KIB_def
      MIN_ITERATIONS_def MAX_ITERATIONS_def MIN_PARALLELISM_def MAX_PARALLELISM_def)

lemma exported_opens:
  assumes "aead_roundtrip C" and "aead_total C" and "aead_authentic C" and "argon2_total C"
    and "length salt = SALT_LEN" and "length pt < 2 ^ 37"
  shows "\<exists>env. encrypt_export C salt nonce pt pw = Inr env \<and> decrypt_export C env pw = Inr pt
    \<and> (\<forall>pw'. derive_export_key C pw' salt kdf_desktop \<noteq> derive_export_key C pw salt kdf_desktop
              \<longrightarrow> (\<exists>e. decrypt_export C env pw' = Inl e))
    \<and> (\<forall>v. v \<noteq> 1 \<longrightarrow> decrypt_export C (env\<lparr>ex_version := v\<rparr>) pw = Inl (UnsupportedVersion v))"
proof -
  have "8 \<le> length salt" using assms(5) by (simp add: SALT_LEN_def)
  with derive_export_key_ok[OF assms(4) kdf_desktop_valid] obtain key where
    key: "derive_export_key C pw salt kdf_desktop = Inr key"
    by (auto simp: kdf_desktop_def)
  obtain ct where ct: "aead_encrypt C key nonce (export_aad 1) pt = Some ct"
    using aead_totalE[OF assms(2,6)] .
  let ?env = "\<lparr>ex_format = lit ''basementen-vault-export'', ex_version = 1,
    ex_kdf_params = kdf_desktop, ex_salt = salt, ex_nonce = nonce, ex_ciphertext = ct\<rparr>"
  have "encrypt_export C salt nonce pt pw = Inr ?env"
    by (simp add: encrypt_export_def key ct EXPORT_VERSION_def)
  moreover have "decrypt_export C ?env pw = Inr pt"
    by (simp add: decrypt_export_def key aead_roundtripD[OF assms(1) ct])
  moreover have "\<exists>e. decrypt_export C ?env pw' = Inl e"
    if "derive_export_key C pw' salt kdf_desktop \<noteq> Inr key" for pw'
  proof (cases "derive_export_key C pw' salt kdf_desktop")
    case (Inr key')
    with that have "key' \<noteq> key" by simp
    then have "aead_decrypt C key' nonce (export_aad 1) ct = None"
      using aead_authenticD[OF assms(3) ct] by (metis option.exhaust)
    with Inr show ?thesis by (simp add: decrypt_export_def)
  qed (simp add: decrypt_export_def)
  ultimately show ?thesis by (auto simp: key decrypt_export_def)
qed

text \<open>An export can always be made, and the passphrase opens it again; a different
  derived key or a changed version never does.\<close>

lemma export_roundtrip:
  assumes "aead_roundtrip C" and "aead_total C" and "aead_authentic C" and "argon2_total C"
    and "length salt = SALT_LEN" and "length pt < 2 ^ 37"
  shows "\<exists>env. encrypt_export C salt nonce pt pw = Inr env \<and> decrypt_export C env pw = Inr pt
    \<and> (\<forall>pw'. derive_export_key C pw' salt kdf_desktop \<noteq> derive_export_key C pw salt kdf_desktop
              \<longrightarrow> (\<exists>e. decrypt_export C env pw' = Inl e))
    \<and> (\<forall>v. v \<noteq> 1 \<longrightarrow> decrypt_export C (env\<lparr>ex_version := v\<rparr>) pw = Inl (UnsupportedVersion v))"
  by (rule exported_opens[OF assms])

end
