(* ===== verification/Recovery_Code.thy ===== *)
theory Recovery_Code
  imports Envelope
begin

text \<open>
  vault-core \<open>recovery.rs\<close>: the Recovery Kit code (Crockford base32 with a checksum) and
  its tolerant parser.  The shift registers keep the source's \<open>u32\<close> width; the proofs
  read them as bit lists (\<open>pend\<close>).
\<close>

unbundle bit_operations_syntax

section \<open>Base32\<close>

definition PREFIX :: "text" where "PREFIX = lit ''BV1''"
definition CHECKSUM_LEN :: nat where "CHECKSUM_LEN = 2"
definition ALPHABET :: "text" where "ALPHABET = lit ''0123456789ABCDEFGHJKMNPQRSTVWXYZ''"
definition GROUP :: nat where "GROUP = 5"

definition checksum :: "crypto \<Rightarrow> bytes \<Rightarrow> bytes" where
  "checksum C key = (let digest = sha256_digest C key in [digest ! 0, digest ! 1])"

text \<open>The inner \<open>while bits >= 5\<close> loop: emitted characters and the bits left.\<close>

fun emit_quintets :: "u32 \<Rightarrow> nat \<Rightarrow> text \<times> nat" where
  "emit_quintets buffer bits =
     (if 5 \<le> bits then
        (let bits' = bits - 5;
             c = ALPHABET ! unat ((drop_bit bits' buffer) AND 0x1f);
             (cs, rest) = emit_quintets buffer bits'
         in (c # cs, rest))
      else ([], bits))"

declare emit_quintets.simps [simp del]

fun encode_loop :: "u32 \<Rightarrow> nat \<Rightarrow> bytes \<Rightarrow> text" where
  "encode_loop buffer bits [] =
     (if bits > 0 then [ALPHABET ! unat ((push_bit (5 - bits) buffer) AND 0x1f)] else [])"
| "encode_loop buffer bits (byte # data) =
     (let buffer' = (push_bit 8 buffer) OR ucast byte;
          (cs, bits') = emit_quintets buffer' (bits + 8)
      in cs @ encode_loop buffer' bits' data)"

definition encode_base32 :: "bytes \<Rightarrow> text" where
  "encode_base32 data = encode_loop 0 0 data"

fun position :: "uchar \<Rightarrow> text \<Rightarrow> nat option" where
  "position c [] = None"
| "position c (a # as) = (if a = c then Some 0 else map_option Suc (position c as))"

text \<open>Crockford folding of the ambiguous letters (after upper-casing).\<close>

definition fold_ambiguous :: "uchar \<Rightarrow> uchar" where
  "fold_ambiguous c =
     (let c = to_ascii_uppercase c
      in if c = of_char (CHR ''O'') then of_char (CHR ''0'')
         else if c = of_char (CHR ''I'') \<or> c = of_char (CHR ''L'') then of_char (CHR ''1'')
         else c)"

definition decode_char :: "uchar \<Rightarrow> u32 option" where
  "decode_char c = map_option word_of_nat (position (fold_ambiguous c) ALPHABET)"

fun decode_loop :: "u32 \<Rightarrow> nat \<Rightarrow> text \<Rightarrow> crypto_error + bytes \<times> u32 \<times> nat" where
  "decode_loop buffer bits [] = Inr ([], buffer, bits)"
| "decode_loop buffer bits (c # s) =
     (case decode_char c of
        None \<Rightarrow> Inl (Malformed (lit ''invalid character '' @ [39, c, 39]))
      | Some v \<Rightarrow>
          (let buffer' = (push_bit 5 buffer) OR v; bits' = bits + 5
           in if 8 \<le> bits' then
                bind_r (decode_loop buffer' (bits' - 8) s) (\<lambda>(out, st).
                  Inr (ucast (drop_bit (bits' - 8) buffer') # out, st))
              else decode_loop buffer' bits' s))"

definition decode_base32 :: "text \<Rightarrow> nat \<Rightarrow> crypto_error + bytes" where
  "decode_base32 s expected_len =
     bind_r (decode_loop 0 0 s) (\<lambda>(out, buffer, bits).
       if bits > 0 \<and> (buffer AND (push_bit bits 1 - 1)) \<noteq> 0
         then Inl (Malformed (lit ''non-zero padding bits''))
       else if length out \<noteq> expected_len
         then Inl (Malformed (lit ''expected '' @ dec expected_len @ lit '' bytes, got ''
                              @ dec (length out)))
       else Inr out)"

section \<open>The code\<close>

fun group_chars :: "nat \<Rightarrow> text \<Rightarrow> text" where
  "group_chars i [] = []"
| "group_chars i (c # cs) =
     (if i mod GROUP = 0 then [of_char (CHR ''-''), c] else [c]) @ group_chars (Suc i) cs"

definition to_recovery_code :: "crypto \<Rightarrow> recovery_key \<Rightarrow> text" where
  "to_recovery_code C rk =
     (let payload = rk_bytes rk @ checksum C (rk_bytes rk); raw = encode_base32 payload
      in PREFIX @ group_chars 0 raw)"

definition clean_code :: "text \<Rightarrow> text" where
  "clean_code code = filter (\<lambda>c. \<not> is_whitespace c \<and> c \<noteq> of_char (CHR ''-'')) code"

definition from_recovery_code :: "crypto \<Rightarrow> text \<Rightarrow> crypto_error + recovery_key" where
  "from_recovery_code C code =
     (let cleaned = clean_code code;
          folded_prefix = map fold_ambiguous (take (length PREFIX) cleaned)
      in if folded_prefix \<noteq> PREFIX then Inl (Malformed (lit ''missing BV1 prefix''))
         else
           (let body = drop (length PREFIX) cleaned
            in bind_r (decode_base32 body (KEY_LEN + CHECKSUM_LEN)) (\<lambda>payload.
                 let key = take KEY_LEN payload
                 in if checksum C key \<noteq> drop KEY_LEN payload
                    then Inl (Malformed (lit ''checksum mismatch '' @ [8212]
                                         @ lit '' the code was mistyped''))
                    else Inr (RecoveryKey key))))"

section \<open>Bit lists\<close>

text \<open>The low \<open>k\<close> bits of a register, most significant first.\<close>

definition pend :: "'a::len word \<Rightarrow> nat \<Rightarrow> bool list" where
  "pend w k = map (bit w) (rev [0..<k])"

definition bits5 :: "u32 \<Rightarrow> bool list" where "bits5 v = pend v 5"
definition bits8 :: "byte \<Rightarrow> bool list" where "bits8 b = pend b 8"

lemma length_pend [simp]: "length (pend w k) = k"
  by (simp add: pend_def)

lemma length_bits5 [simp]: "length (bits5 v) = 5"
  by (simp add: bits5_def)

lemma length_bits8 [simp]: "length (bits8 v) = 8"
  by (simp add: bits8_def)

lemma bits5_not_Nil [simp]: "bits5 v \<noteq> []"
  by (metis length_bits5 list.size(3) zero_neq_numeral)

lemma pend_0 [simp]: "pend w 0 = []"
  by (simp add: pend_def)

lemma nth_pend: "i < k \<Longrightarrow> pend w k ! i = bit w (k - Suc i)"
  by (simp add: pend_def rev_nth)

lemma pend_eq_iff: "pend v k = pend w k \<longleftrightarrow> (\<forall>i < k. bit v i = bit w i)"
  by (auto simp: pend_def)

lemma bits8_inj: "bits8 b = bits8 c \<longleftrightarrow> b = c"
  by (auto simp: bits8_def pend_eq_iff intro: bit_word_eqI)

lemma pend_shift_or:
  fixes w :: u32 and b :: "'b::len word"
  assumes "k + j \<le> 32" and "\<And>i. j \<le> i \<Longrightarrow> \<not> bit b i"
  shows "pend (push_bit j w OR ucast b) (k + j) = pend w k @ pend b j"
proof (rule nth_equalityI)
  fix i assume i: "i < length (pend (push_bit j w OR ucast b) (k + j))"
  show "pend (push_bit j w OR ucast b) (k + j) ! i = (pend w k @ pend b j) ! i"
  proof (cases "i < k")
    case True
    then obtain m where m: "k = Suc i + m" by (metis less_iff_Suc_add add_Suc)
    have "\<not> bit b (j + m)" using assms(2) by simp
    then show ?thesis using assms(1)
      by (simp add: m nth_pend nth_append bit_or_iff bit_push_bit_iff bit_ucast_iff add.commute)
  next
    case False
    then have "k + j - Suc i = j - Suc (i - k)" "j - Suc (i - k) < j" using i by auto
    then show ?thesis using False i assms(1)
      by (simp add: nth_pend nth_append bit_or_iff bit_push_bit_iff bit_ucast_iff)
  qed
qed simp

lemma pend_split:
  fixes w :: u32
  assumes "k + j \<le> 32"
  shows "pend w (k + j) = pend (drop_bit k w) j @ pend w k"
proof (rule nth_equalityI)
  fix i assume i: "i < length (pend w (k + j))"
  show "pend w (k + j) ! i = (pend (drop_bit k w) j @ pend w k) ! i"
    using i by (cases "i < j") (auto simp: nth_pend nth_append bit_drop_bit_eq intro!: arg_cong[of _ _ "bit w"])
qed simp

lemma mask5: "(0x1f :: u32) = mask 5"
  by (simp add: mask_eq_exp_minus_1)

lemma pend_mask5: "pend (w AND 0x1f :: u32) 5 = pend w 5"
  by (simp add: pend_eq_iff mask5 bit_and_iff bit_mask_iff)

lemma pend_ucast8: "pend (ucast (w :: u32) :: byte) 8 = pend w 8"
  by (simp add: pend_eq_iff bit_ucast_iff)

lemma pend_pad:
  fixes w :: u32
  assumes "k \<le> 5"
  shows "pend (push_bit (5 - k) w) 5 = pend w k @ replicate (5 - k) False"
proof (rule nth_equalityI)
  fix i assume "i < length (pend (push_bit (5 - k) w) 5)"
  then show "pend (push_bit (5 - k) w) 5 ! i = (pend w k @ replicate (5 - k) False) ! i"
    using assms by (cases "i < k")
      (auto simp: nth_pend nth_append bit_push_bit_iff intro!: arg_cong[of _ _ "bit w"])
qed (use assms in simp)

lemma pend_zero_iff:
  fixes w :: u32
  assumes "k < 32"
  shows "w AND (push_bit k 1 - 1) = 0 \<longleftrightarrow> pend w k = replicate k False"
proof -
  have m: "push_bit k (1 :: u32) - 1 = mask k" by (simp add: mask_eq_exp_minus_1 push_bit_eq_mult)
  have "w AND (push_bit k 1 - 1) = 0 \<longleftrightarrow> (\<forall>i < k. \<not> bit w i)"
    using assms unfolding m bit_eq_iff by (auto simp: bit_and_iff bit_mask_iff) (metis less_trans)
  moreover have "pend w k = replicate k False \<longleftrightarrow> (\<forall>i < k. \<not> bit w i)"
  proof
    assume "pend w k = replicate k False"
    then have "\<forall>j \<in> set (rev [0..<k]). \<not> bit w j"
      by (metis (mono_tags, lifting) imageI in_set_replicate list.set_map pend_def)
    then show "\<forall>i < k. \<not> bit w i" by simp
  qed (auto simp: pend_def intro!: replicate_eqI)
  ultimately show ?thesis by simp
qed


section \<open>The loops over bit lists\<close>

definition alpha :: "u32 \<Rightarrow> uchar" where
  "alpha v = ALPHABET ! unat v"

lemma emit_quintets_bits:
  assumes "emit_quintets buffer bits = (cs, rest)" and "bits \<le> 32"
  shows "\<exists>vs. cs = map alpha vs \<and> (\<forall>v \<in> set vs. unat v < 32)
    \<and> concat (map bits5 vs) @ pend buffer rest = pend buffer bits \<and> rest < 5"
  using assms
proof (induction buffer bits arbitrary: cs rest rule: emit_quintets.induct)
  case (1 buffer bits)
  show ?case
  proof (cases "5 \<le> bits")
    case False
    with "1.prems" show ?thesis by (auto simp: emit_quintets.simps intro!: exI[of _ "[]"])
  next
    case True
    let ?v = "drop_bit (bits - 5) buffer AND 0x1f"
    obtain cs' where cs': "emit_quintets buffer (bits - 5) = (cs', rest)" "cs = alpha ?v # cs'"
      using "1.prems" True by (subst (asm) emit_quintets.simps)
        (auto simp: Let_def alpha_def split: prod.splits)
    have "bits - 5 \<le> 32" using "1.prems"(2) by simp
    from "1.IH"[OF True refl refl cs'(1) this] obtain vs where vs:
      "cs' = map alpha vs" "\<forall>v \<in> set vs. unat v < 32" "rest < 5"
      "concat (map bits5 vs) @ pend buffer rest = pend buffer (bits - 5)"
      by blast
    have "unat ?v < 32"
      using word_and_le1[of "drop_bit (bits - 5) buffer" "0x1f"] by (simp add: word_le_nat_alt)
    moreover have "pend buffer bits = bits5 ?v @ pend buffer (bits - 5)"
      using pend_split[of "bits - 5" 5 buffer] True "1.prems"(2)
      by (simp add: bits5_def pend_mask5)
    ultimately show ?thesis using cs' vs by (intro exI[of _ "?v # vs"]) simp
  qed
qed

lemma encode_loop_bits:
  assumes "bits < 5"
  shows "\<exists>vs pad. encode_loop buffer bits data = map alpha vs \<and> (\<forall>v \<in> set vs. unat v < 32)
    \<and> concat (map bits5 vs) = pend buffer bits @ concat (map bits8 data) @ replicate pad False
    \<and> pad < 5"
  using assms
proof (induction data arbitrary: buffer bits)
  case Nil
  show ?case
  proof (cases "bits = 0")
    case True
    then show ?thesis by (auto intro!: exI[of _ "[]"])
  next
    case False
    let ?v = "push_bit (5 - bits) buffer AND 0x1f"
    have "unat ?v < 32"
      using word_and_le1[of "push_bit (5 - bits) buffer" "0x1f"] by (simp add: word_le_nat_alt)
    with False Nil show ?thesis
      by (intro exI[of _ "[?v]"] exI[of _ "5 - bits"])
        (simp add: alpha_def bits5_def pend_mask5 pend_pad)
  qed
next
  case (Cons byte data)
  let ?b = "push_bit 8 buffer OR ucast byte"
  obtain cs rest where e: "emit_quintets ?b (bits + 8) = (cs, rest)" by fastforce
  from emit_quintets_bits[OF e] Cons.prems obtain vs where vs: "cs = map alpha vs"
    "\<forall>v \<in> set vs. unat v < 32" "concat (map bits5 vs) @ pend ?b rest = pend ?b (bits + 8)" "rest < 5"
    by auto
  from Cons.IH[OF vs(4), of ?b] obtain ws pad where ws:
    "encode_loop ?b rest data = map alpha ws" "\<forall>v \<in> set ws. unat v < 32" "pad < 5"
    "concat (map bits5 ws) = pend ?b rest @ concat (map bits8 data) @ replicate pad False"
    by blast
  have "pend ?b (bits + 8) = pend buffer bits @ bits8 byte"
    unfolding bits8_def by (rule pend_shift_or) (use Cons.prems in \<open>auto dest: bit_imp_le_length\<close>)
  with e vs ws show ?case
    by (intro exI[of _ "vs @ ws"] exI[of _ pad]) (auto simp flip: append_assoc)
qed

lemma decode_char_alpha_nat: "\<forall>n \<in> set [0..<32]. decode_char (ALPHABET ! n) = Some (word_of_nat n)"
  by code_simp

lemma decode_char_alpha: "unat v < 32 \<Longrightarrow> decode_char (alpha v) = Some v"
  using decode_char_alpha_nat by (auto simp: alpha_def)

lemma position_less: "position c s = Some n \<Longrightarrow> n < length s \<and> s ! n = c"
  by (induction s arbitrary: n) (auto split: if_splits)

lemma decode_char_Some:
  assumes "decode_char c = Some v"
  shows "unat v < 32 \<and> alpha v = fold_ambiguous c"
proof -
  from assms obtain n where n: "position (fold_ambiguous c) ALPHABET = Some n" "v = word_of_nat n"
    by (auto simp: decode_char_def)
  have "length ALPHABET = 32" by (simp add: ALPHABET_def)
  with position_less[OF n(1)] have "n < 32" "ALPHABET ! n = fold_ambiguous c" by auto
  moreover from this have "unat v = n" by (simp add: n(2) unat_of_nat)
  ultimately show ?thesis by (simp add: alpha_def)
qed

lemma not_bit_ge5: "unat (v :: u32) < 32 \<Longrightarrow> 5 \<le> i \<Longrightarrow> \<not> bit v i"
proof -
  assume v: "unat v < 32" and i: "5 \<le> i"
  have "(2::nat) ^ 5 \<le> 2 ^ i" using i by (rule power_increasing) simp
  then have "unat v < 2 ^ i" using v by simp
  then have "unat v div 2 ^ i = 0" by simp
  then have "\<not> bit (unat v) i" by (simp add: bit_iff_odd)
  then show ?thesis by (simp add: bit_unsigned_iff)
qed

lemma decode_loop_bits:
  assumes "decode_loop buffer bits s = Inr (out, buffer', bits')" and "bits < 8"
  shows "\<exists>vs. map decode_char s = map Some vs \<and> bits' < 8
    \<and> concat (map bits8 out) @ pend buffer' bits' = pend buffer bits @ concat (map bits5 vs)"
  using assms
proof (induction s arbitrary: buffer bits out)
  case Nil
  then show ?case by simp
next
  case (Cons c s)
  obtain v where v: "decode_char c = Some v" using Cons.prems(1) by (cases "decode_char c") auto
  let ?b = "push_bit 5 buffer OR v"
  have p: "pend ?b (bits + 5) = pend buffer bits @ bits5 v"
    using pend_shift_or[of bits 5 v buffer] not_bit_ge5 decode_char_Some[OF v] Cons.prems(2)
    by (simp add: bits5_def)
  show ?case
  proof (cases "8 \<le> bits + 5")
    case False
    with Cons v obtain vs where "map decode_char s = map Some vs" "bits' < 8"
      "concat (map bits8 out) @ pend buffer' bits' = pend ?b (bits + 5) @ concat (map bits5 vs)"
      by (fastforce simp: Let_def)
    with v p show ?thesis by (intro exI[of _ "v # vs"]) simp
  next
    case True
    let ?k = "bits + 5 - 8"
    from Cons.prems v True obtain out' where out': "decode_loop ?b ?k s = Inr (out', buffer', bits')"
      "out = ucast (drop_bit ?k ?b) # out'"
      by (auto simp: Let_def res_simps)
    have "?k < 8" using Cons.prems(2) by simp
    from Cons.IH[OF out'(1) this] obtain vs where vs: "map decode_char s = map Some vs"
      "bits' < 8" "concat (map bits8 out') @ pend buffer' bits' = pend ?b ?k @ concat (map bits5 vs)"
      by blast
    have "bits8 (ucast (drop_bit ?k ?b)) @ pend ?b ?k = pend ?b (bits + 5)"
    proof -
      have "?k + 8 = bits + 5" "?k + 8 \<le> 32" using True Cons.prems(2) by simp_all
      with pend_split[of ?k 8 ?b] show ?thesis by (simp only: bits8_def pend_ucast8)
    qed
    note head = this
    have "concat (map bits8 out) @ pend buffer' bits'
        = bits8 (ucast (drop_bit ?k ?b)) @ (concat (map bits8 out') @ pend buffer' bits')"
      by (simp only: out'(2) list.map concat.simps append_assoc)
    also have "\<dots> = (bits8 (ucast (drop_bit ?k ?b)) @ pend ?b ?k) @ concat (map bits5 vs)"
      by (simp only: vs(3) append_assoc)
    finally have "concat (map bits8 out) @ pend buffer' bits' = pend ?b (bits + 5) @ concat (map bits5 vs)"
      by (simp only: head)
    with v p vs(1,2) show ?thesis by (intro exI[of _ "v # vs"]) simp
  qed
qed

lemma decode_loop_total:
  assumes "map decode_char s = map Some vs"
  shows "\<exists>r. decode_loop buffer bits s = Inr r"
  using assms
proof (induction s arbitrary: buffer bits vs)
  case (Cons c s)
  then obtain v vs' where v: "decode_char c = Some v" "map decode_char s = map Some vs'"
    by (cases vs) auto
  then show ?case using Cons.IH[OF v(2)] by (fastforce simp: Let_def res_simps)
qed simp

lemma length_concat_bits:
  "length (concat (map bits8 xs)) = 8 * length xs"
  "length (concat (map bits5 vs)) = 5 * length vs"
  by (induction xs, auto) (induction vs, auto)

lemma concat_bits8_inj:
  assumes "concat (map bits8 xs) @ r = concat (map bits8 ys) @ r'"
    and "length r < 8" and "length r' < 8"
  shows "xs = ys \<and> r = r'"
proof -
  have "8 * length xs + length r = 8 * length ys + length r'"
    using arg_cong[OF assms(1), of length] by (simp add: length_concat_bits)
  with assms(2,3) have "length xs = length ys" by presburger
  then show ?thesis using assms(1)
    by (induction xs ys rule: list_induct2) (auto simp: bits8_inj)
qed

section \<open>Properties of the encoding\<close>

text \<open>Decoding an encoded byte string of any length gives it back.\<close>

lemma base32_roundtrip: "decode_base32 (encode_base32 data) (length data) = Inr data"
proof -
  obtain vs pad where enc: "encode_base32 data = map alpha vs" "\<forall>v \<in> set vs. unat v < 32" "pad < 5"
    "concat (map bits5 vs) = concat (map bits8 data) @ replicate pad False"
    using encode_loop_bits[of 0 0 data] unfolding encode_base32_def by auto
  have dc: "map decode_char (encode_base32 data) = map Some vs"
    using enc by (simp add: decode_char_alpha)
  obtain out buffer bits where d: "decode_loop 0 0 (encode_base32 data) = Inr (out, buffer, bits)"
    using decode_loop_total[OF dc] by (metis prod_cases3)
  from decode_loop_bits[OF d] dc obtain vs' where vs': "map Some vs = map Some vs'" "bits < 8"
    "concat (map bits8 out) @ pend buffer bits = concat (map bits5 vs')"
    by auto
  then have "vs' = vs" by (auto simp: inj_map_eq_map)
  with vs' enc(3,4) have "out = data \<and> pend buffer bits = replicate pad False"
    by (intro concat_bits8_inj) auto
  moreover from this have "bits = pad" by (metis length_pend length_replicate)
  moreover from calculation have "buffer AND (push_bit bits 1 - 1) = 0"
    using vs'(2) pend_zero_iff[of bits buffer] by simp
  ultimately show ?thesis using d by (simp add: decode_base32_def)
qed

text \<open>Strictness: whatever 55-character (or other) body decodes to the 34-byte payload is,
  up to case and ambiguous letters, the one canonical encoding of that payload.\<close>

lemma base32_canonical:
  assumes "decode_base32 s 34 = Inr data"
  shows "map fold_ambiguous s = encode_base32 data"
proof -
  from assms obtain buffer bits where d: "decode_loop 0 0 s = Inr (data, buffer, bits)"
    and zero: "bits = 0 \<or> buffer AND (push_bit bits 1 - 1) = 0" and len: "length data = 34"
    by (auto simp: decode_base32_def res_simps split: if_splits)
  from decode_loop_bits[OF d] obtain vs where vs: "map decode_char s = map Some vs" "bits < 8"
    "concat (map bits8 data) @ pend buffer bits = concat (map bits5 vs)"
    by auto
  have R: "pend buffer bits = replicate bits False"
    using zero pend_zero_iff[of bits buffer] vs(2) by auto
  obtain ws pad where enc: "encode_base32 data = map alpha ws" "\<forall>v \<in> set ws. unat v < 32" "pad < 5"
    "concat (map bits5 ws) = concat (map bits8 data) @ replicate pad False"
    using encode_loop_bits[of 0 0 data] unfolding encode_base32_def by auto
  have "8 * 34 + bits = 5 * length vs" "8 * 34 + pad = 5 * length ws"
    using arg_cong[OF vs(3), of length] arg_cong[OF enc(4), of length] by (simp_all add: length_concat_bits len)
  with vs(2) enc(3) have "bits = pad" by presburger
  with vs(3) R enc(4) have eq: "concat (map bits5 vs) = concat (map bits5 ws)" by simp
  have v32: "\<forall>v \<in> set vs. unat v < 32 \<and> alpha v \<in> set (map fold_ambiguous s)"
    using vs(1) decode_char_Some by (metis (no_types, lifting) imageE imageI list.set_map)
  have bits5_inj: "v = w" if "bits5 v = bits5 w" "unat v < 32" "unat w < 32" for v w
    using that not_bit_ge5 by (auto simp: bits5_def pend_eq_iff bit_eq_iff) (metis not_le)+
  have "vs = ws"
    using eq v32 enc(2)
  proof (induction vs arbitrary: ws)
    case Nil
    then show ?case by (cases ws) auto
  next
    case (Cons v vs)
    then show ?case by (cases ws) (auto intro: bits5_inj)
  qed
  moreover have "map fold_ambiguous s = map alpha vs"
    using vs(1) decode_char_Some
  proof (induction s arbitrary: vs)
    case (Cons c s)
    then show ?case by (cases vs) auto
  qed simp
  ultimately show ?thesis using enc(1) by simp
qed


section \<open>The printed code\<close>

lemma ALPHABET_canonical:
  "\<forall>c \<in> set ALPHABET. \<not> is_whitespace c \<and> c \<noteq> 45 \<and> fold_ambiguous c = c"
  by (simp add: ALPHABET_def lit_def is_whitespace_def fold_ambiguous_def to_ascii_uppercase_def
      is_ascii_lower_def)

lemma alpha_canonical:
  assumes "unat v < 32"
  shows "\<not> is_whitespace (alpha v) \<and> alpha v \<noteq> 45 \<and> fold_ambiguous (alpha v) = alpha v"
proof -
  have "alpha v \<in> set ALPHABET" using assms by (simp add: alpha_def ALPHABET_def)
  with ALPHABET_canonical show ?thesis by blast
qed

lemma encode_base32_chars:
  "c \<in> set (encode_base32 data) \<Longrightarrow> \<not> is_whitespace c \<and> c \<noteq> 45 \<and> fold_ambiguous c = c"
  using encode_loop_bits[of 0 0 data] alpha_canonical unfolding encode_base32_def by auto

lemma dash [simp]: "of_char (CHR ''-'') = (45 :: nat)"
  by simp

lemma clean_code_append [simp]: "clean_code (s @ t) = clean_code s @ clean_code t"
  by (simp add: clean_code_def)

lemma clean_code_group_chars:
  "(\<And>c. c \<in> set s \<Longrightarrow> \<not> is_whitespace c \<and> c \<noteq> 45) \<Longrightarrow> clean_code (group_chars i s) = s"
proof (induction s arbitrary: i)
  case (Cons c s)
  then have "clean_code (group_chars (Suc i) s) = s" by simp
  moreover have "\<not> is_whitespace 45" by (simp add: is_whitespace_def)
  ultimately show ?case using Cons.prems[of c] by (auto simp: clean_code_def)
qed (simp add: clean_code_def)

lemma clean_code_to_recovery_code:
  "clean_code (to_recovery_code C rk)
   = PREFIX @ encode_base32 (rk_bytes rk @ checksum C (rk_bytes rk))"
proof -
  have "clean_code PREFIX = PREFIX" by (simp add: clean_code_def PREFIX_def lit_def is_whitespace_def)
  then show ?thesis
    by (simp add: to_recovery_code_def Let_def clean_code_group_chars encode_base32_chars)
qed

lemma fold_prefix: "map fold_ambiguous PREFIX = PREFIX"
  by (simp add: PREFIX_def lit_def fold_ambiguous_def to_ascii_uppercase_def is_ascii_lower_def Let_def)

lemma length_checksum [simp]: "length (checksum C key) = 2"
  by (simp add: checksum_def Let_def)

lemma position_fold_depends: "fold_ambiguous c = fold_ambiguous d \<Longrightarrow> decode_char c = decode_char d"
  by (simp add: decode_char_def)

lemma decode_loop_fold:
  "map fold_ambiguous s = map fold_ambiguous t \<Longrightarrow> is_ok (decode_loop b k t) \<Longrightarrow>
   decode_loop b k s = decode_loop b k t"
proof (induction s arbitrary: b k t)
  case (Cons c s)
  then obtain d t' where t: "t = d # t'" "fold_ambiguous c = fold_ambiguous d"
    "map fold_ambiguous s = map fold_ambiguous t'"
    by (cases t) auto
  from position_fold_depends[OF t(2)] have cd: "decode_char c = decode_char d" .
  then obtain v where v: "decode_char d = Some v"
    using Cons.prems(2) t(1) by (cases "decode_char d") auto
  let ?b = "push_bit 5 b OR v"
  have "is_ok (decode_loop ?b (if 8 \<le> k + 5 then k + 5 - 8 else k + 5) t')"
    using Cons.prems(2) t(1) v
    by (auto simp: Let_def is_ok_iff res_simps split: if_splits)
  with Cons.IH[OF t(3)] t(1) cd v show ?case by (auto simp: Let_def split: if_splits)
qed simp

lemma decode_base32_fold:
  assumes "map fold_ambiguous s = map fold_ambiguous t" and "decode_base32 t n = Inr data"
  shows "decode_base32 s n = Inr data"
proof -
  have "is_ok (decode_loop 0 0 t)" using assms(2)
    by (auto simp: decode_base32_def is_ok_iff res_simps)
  from decode_loop_fold[OF assms(1) this] assms(2) show ?thesis by (simp add: decode_base32_def)
qed

lemma fold_lowercase [simp]: "fold_ambiguous (to_ascii_lowercase c) = fold_ambiguous c"
  by (auto simp: fold_ambiguous_def to_ascii_uppercase_def to_ascii_lowercase_def is_ascii_lower_def
      is_ascii_upper_def Let_def)

lemma clean_code_lowercase: "clean_code (map to_ascii_lowercase s) = map to_ascii_lowercase (clean_code s)"
  by (induction s) (auto simp: clean_code_def to_ascii_lowercase_def is_ascii_upper_def is_whitespace_def)

lemma from_recovery_code_similar:
  assumes "length (rk_bytes rk) = 32"
    and "map fold_ambiguous (clean_code typed) = map fold_ambiguous (clean_code (to_recovery_code C rk))"
  shows "from_recovery_code C typed = Inr rk"
proof -
  let ?payload = "rk_bytes rk @ checksum C (rk_bytes rk)"
  have typed: "map fold_ambiguous (clean_code typed) = PREFIX @ map fold_ambiguous (encode_base32 ?payload)"
    using assms(2) by (simp add: clean_code_to_recovery_code fold_prefix)
  have "map fold_ambiguous (take (length PREFIX) (clean_code typed)) = PREFIX"
    using arg_cong[OF typed, of "take (length PREFIX)"] by (simp add: take_map)
  moreover have "map fold_ambiguous (drop (length PREFIX) (clean_code typed))
      = map fold_ambiguous (encode_base32 ?payload)"
    using arg_cong[OF typed, of "drop (length PREFIX)"] by (simp add: drop_map)
  from decode_base32_fold[OF this base32_roundtrip]
  have "decode_base32 (drop (length PREFIX) (clean_code typed)) 34 = Inr ?payload"
    using assms(1) by simp
  ultimately show ?thesis
    using assms(1) by (simp add: from_recovery_code_def Let_def KEY_LEN_def CHECKSUM_LEN_def)
qed

text \<open>Claim C40.  A printed Recovery Kit code restores its key however it was retyped: any text that
  agrees with the code up to white space, dashes, letter case and the ambiguous letters
  (\<open>O\<close>/\<open>0\<close>, \<open>I\<close>/\<open>L\<close>/\<open>1\<close>) parses back to the key.\<close>

theorem recovery_code_roundtrip:
  assumes "length (rk_bytes rk) = 32"
    and "map fold_ambiguous (clean_code typed) = map fold_ambiguous (clean_code (to_recovery_code C rk))"
  shows "from_recovery_code C typed = Inr rk"
  by (rule from_recovery_code_similar[OF assms])

theorem recovery_code_roundtrip_witness:
  "from_recovery_code toy_crypto
     (map to_ascii_lowercase (to_recovery_code toy_crypto (RecoveryKey (replicate 32 171))))
   = Inr (RecoveryKey (replicate 32 171))"
  by (rule recovery_code_roundtrip) (simp_all add: clean_code_lowercase)

text \<open>Nothing but a key's own code is accepted: a text parses to \<open>rk\<close> only if, once
  separators, case and ambiguous letters are folded away, it is the code printed for \<open>rk\<close>, so a
  typo that changes any character's value is refused locally.\<close>

lemma recovery_code_canonical:
  assumes "from_recovery_code C typed = Inr rk"
  shows "map fold_ambiguous (clean_code typed) = clean_code (to_recovery_code C rk)
    \<and> length (rk_bytes rk) = 32"
proof -
  let ?body = "drop (length PREFIX) (clean_code typed)"
  from assms obtain payload where pre: "map fold_ambiguous (take (length PREFIX) (clean_code typed)) = PREFIX"
    and dec: "decode_base32 ?body 34 = Inr payload"
    and sum: "checksum C (take 32 payload) = drop 32 payload" and rk: "rk = RecoveryKey (take 32 payload)"
    by (auto simp: from_recovery_code_def Let_def res_simps KEY_LEN_def CHECKSUM_LEN_def split: if_splits)
  have len: "length payload = 34"
    using dec by (auto simp: decode_base32_def res_simps split: if_splits)
  have "payload = rk_bytes rk @ checksum C (rk_bytes rk)" using sum rk by simp
  then have "map fold_ambiguous ?body = encode_base32 (rk_bytes rk @ checksum C (rk_bytes rk))"
    using base32_canonical[OF dec] by simp
  moreover have "map fold_ambiguous (clean_code typed)
      = map fold_ambiguous (take (length PREFIX) (clean_code typed)) @ map fold_ambiguous ?body"
    by (simp flip: map_append)
  ultimately show ?thesis using pre rk len by (simp add: clean_code_to_recovery_code)
qed

end
