(* ===== verification/Account_Flows.thy ===== *)
theory Account_Flows
  imports Recovery_Code Envelope
begin

text \<open>
  vault-core \<open>account.rs\<close>: the client flows that compose the KDF, the key hierarchy and the
  envelopes.  The random draws of the code (\<open>generate_salt\<close>, \<open>VaultKey::generate\<close>,
  \<open>RecoveryKey::generate\<close>, the wrap nonces) are arguments.
\<close>

section \<open>The flows\<close>

record account_secrets =
  as_auth_key :: auth_key
  as_vault_key :: vault_key

record registration_bundle =
  rb_kdf_params :: kdf_params
  rb_kdf_salt :: bytes
  rb_auth_credential :: bytes
  rb_recovery_verifier :: bytes
  rb_master_wrapped :: wrapped_key
  rb_recovery_wrapped :: wrapped_key

record registration =
  rg_bundle :: registration_bundle
  rg_secrets :: account_secrets
  rg_recovery_code :: "text"

text \<open>What \<open>build_registration\<close> draws: the recovery key and the two nonces.\<close>

record draws =
  dr_recovery :: recovery_key
  dr_nonce1 :: bytes
  dr_nonce2 :: bytes

definition to_salt :: "bytes \<Rightarrow> bytes cres" where
  "to_salt salt =
     (if length salt = SALT_LEN then Inr salt
      else Inl (Err (InvalidKdfParams (lit ''salt must be '' @ dec SALT_LEN @ lit '' bytes''))))"

definition build_registration ::
    "crypto \<Rightarrow> draws \<Rightarrow> kdf_params \<Rightarrow> bytes \<Rightarrow> text \<Rightarrow> vault_key \<Rightarrow> registration cres" where
  "build_registration C d params salt new_password vk =
     bind_r (derive_master_key C new_password salt params) (\<lambda>mk.
     let (ak, wk) = derive_subkeys C mk; rk = dr_recovery d in
     bind_r (wrap_vault_key C (dr_nonce1 d) wk vk) (\<lambda>mw.
     bind_r (recovery_wrap_vault_key C (dr_nonce2 d) rk vk) (\<lambda>rw.
       Inr \<lparr>rg_bundle = \<lparr>rb_kdf_params = params, rb_kdf_salt = salt,
              rb_auth_credential = to_server_credential ak,
              rb_recovery_verifier = recovery_verifier C vk,
              rb_master_wrapped = mw, rb_recovery_wrapped = rw\<rparr>,
            rg_secrets = \<lparr>as_auth_key = ak, as_vault_key = vk\<rparr>,
            rg_recovery_code = to_recovery_code C rk\<rparr>)))"

definition register ::
    "crypto \<Rightarrow> draws \<Rightarrow> bytes \<Rightarrow> vault_key \<Rightarrow> text \<Rightarrow> kdf_params \<Rightarrow> registration cres" where
  "register C d salt vk password params = build_registration C d params salt password vk"

definition login_credential :: "crypto \<Rightarrow> text \<Rightarrow> bytes \<Rightarrow> kdf_params \<Rightarrow> auth_key cres" where
  "login_credential C password salt params =
     bind_r (derive_master_key C password salt params) (\<lambda>mk. Inr (fst (derive_subkeys C mk)))"

definition unlock ::
    "crypto \<Rightarrow> text \<Rightarrow> bytes \<Rightarrow> kdf_params \<Rightarrow> wrapped_key \<Rightarrow> account_secrets cres" where
  "unlock C password salt params wrapped =
     bind_r (derive_master_key C password salt params) (\<lambda>mk.
     let (ak, wk) = derive_subkeys C mk in
     bind_r (unwrap_vault_key C wk wrapped) (\<lambda>vk.
       Inr \<lparr>as_auth_key = ak, as_vault_key = vk\<rparr>))"

definition lift_err :: "crypto_error + 'a \<Rightarrow> 'a cres" where
  "lift_err r = (case r of Inl e \<Rightarrow> Inl (Err e) | Inr x \<Rightarrow> Inr x)"

definition recover_and_rekey ::
    "crypto \<Rightarrow> draws \<Rightarrow> text \<Rightarrow> wrapped_key \<Rightarrow> text \<Rightarrow> bytes \<Rightarrow> kdf_params \<Rightarrow> registration cres" where
  "recover_and_rekey C d code wrapped new_password salt params =
     bind_r (lift_err (from_recovery_code C code)) (\<lambda>rk.
     bind_r (recovery_unwrap_vault_key C rk wrapped) (\<lambda>vk.
     bind_r (to_salt salt) (\<lambda>salt'.
       build_registration C d params salt' new_password vk)))"

definition change_password ::
    "crypto \<Rightarrow> draws \<Rightarrow> account_secrets \<Rightarrow> text \<Rightarrow> bytes \<Rightarrow> kdf_params \<Rightarrow> registration cres" where
  "change_password C d secrets new_password salt params =
     bind_r (to_salt salt) (\<lambda>salt'.
       build_registration C d params salt' new_password (as_vault_key secrets))"

section \<open>Facts\<close>

definition crypto_ok :: "crypto \<Rightarrow> bool" where
  "crypto_ok C \<longleftrightarrow> aead_roundtrip C \<and> aead_total C \<and> aead_authentic C \<and> argon2_total C
     \<and> hkdf_separates C"

lemma toy_crypto_ok [simp]: "crypto_ok toy_crypto"
  by (simp add: crypto_ok_def)

lemma derive_master_key_total:
  assumes "argon2_total C" and "kdf_validate params = Inr ()" and "length salt = SALT_LEN"
  shows "\<exists>mk. derive_master_key C pw salt params = Inr mk"
proof -
  have ge: "1 \<le> unat (iterations params)" "1 \<le> unat (parallelism params)"
    "8 * unat (parallelism params) \<le> unat (memory_kib params)"
    using assms(2) by (auto simp: kdf_validate_cases MIN_ITERATIONS_def MIN_PARALLELISM_def
        MIN_MEMORY_KIB_def MAX_PARALLELISM_def word_le_nat_alt)
  with assms(1) have "argon2_params C (unat (memory_kib params)) (unat (iterations params))
      (unat (parallelism params)) KEY_LEN = None"
    by (simp add: argon2_total_def)
  moreover obtain out where "argon2id C (unat (memory_kib params)) (unat (iterations params))
      (unat (parallelism params)) KEY_LEN (as_bytes pw) salt = Some out"
    using assms(1,3) unfolding argon2_total_def SALT_LEN_def by fastforce
  ultimately show ?thesis using assms by (simp add: derive_master_key_def SALT_LEN_def Let_def)
qed

text \<open>What a registration built over a vault key contains, whichever flow built it.\<close>

lemma build_registration_Inr:
  assumes "build_registration C d params salt pw vk = Inr r"
  obtains mk where "derive_master_key C pw salt params = Inr mk"
    and "as_vault_key (rg_secrets r) = vk"
    and "rb_recovery_verifier (rg_bundle r) = recovery_verifier C vk"
    and "rb_kdf_salt (rg_bundle r) = salt" and "rb_kdf_params (rg_bundle r) = params"
    and "rb_auth_credential (rg_bundle r) = ak_bytes (as_auth_key (rg_secrets r))"
    and "as_auth_key (rg_secrets r) = fst (derive_subkeys C mk)"
    and "rg_recovery_code r = to_recovery_code C (dr_recovery d)"
    and "wrap_vault_key C (dr_nonce1 d) (snd (derive_subkeys C mk)) vk = Inr (rb_master_wrapped (rg_bundle r))"
    and "recovery_wrap_vault_key C (dr_nonce2 d) (dr_recovery d) vk = Inr (rb_recovery_wrapped (rg_bundle r))"
proof -
  from assms obtain mk mw rw where "derive_master_key C pw salt params = Inr mk"
    "wrap_vault_key C (dr_nonce1 d) (snd (derive_subkeys C mk)) vk = Inr mw"
    "recovery_wrap_vault_key C (dr_nonce2 d) (dr_recovery d) vk = Inr rw"
    "r = \<lparr>rg_bundle = \<lparr>rb_kdf_params = params, rb_kdf_salt = salt,
            rb_auth_credential = ak_bytes (fst (derive_subkeys C mk)),
            rb_recovery_verifier = recovery_verifier C vk, rb_master_wrapped = mw, rb_recovery_wrapped = rw\<rparr>,
          rg_secrets = \<lparr>as_auth_key = fst (derive_subkeys C mk), as_vault_key = vk\<rparr>,
          rg_recovery_code = to_recovery_code C (dr_recovery d)\<rparr>"
    unfolding build_registration_def Let_def case_prod_unfold to_server_credential_def bind_r_eq_Inr
    by auto
  then show thesis using that[of mk] by simp
qed

lemma build_registration_total:
  assumes "crypto_ok C" and "kdf_validate params = Inr ()" and "length salt = SALT_LEN"
    and "length (vk_bytes vk) = KEY_LEN"
  shows "\<exists>r. build_registration C d params salt pw vk = Inr r"
proof -
  obtain mk where "derive_master_key C pw salt params = Inr mk"
    using derive_master_key_total[OF _ assms(2,3)] assms(1) unfolding crypto_ok_def by blast
  moreover obtain w1 where "wrap C (dr_nonce1 d) (wk_bytes (snd (derive_subkeys C mk))) vk MasterWrap = Inr w1"
    using wrap_total assms by (metis crypto_ok_def)
  moreover obtain w2 where "wrap C (dr_nonce2 d) (rk_bytes (dr_recovery d)) vk RecoveryWrap = Inr w2"
    using wrap_total assms by (metis crypto_ok_def)
  ultimately show ?thesis
    by (simp add: build_registration_def wrap_vault_key_def recovery_wrap_vault_key_def case_prod_unfold Let_def)
qed

text \<open>The password that built a registration unlocks it, with the secrets it was built from.\<close>

lemma unlock_built:
  assumes "aead_roundtrip C" and "length (vk_bytes vk) = KEY_LEN"
    and "build_registration C d params salt pw vk = Inr r"
  shows "unlock C pw salt params (rb_master_wrapped (rg_bundle r)) = Inr (rg_secrets r)"
proof -
  from assms(3) obtain mk where r: "derive_master_key C pw salt params = Inr mk"
    "as_vault_key (rg_secrets r) = vk" "as_auth_key (rg_secrets r) = fst (derive_subkeys C mk)"
    "wrap_vault_key C (dr_nonce1 d) (snd (derive_subkeys C mk)) vk = Inr (rb_master_wrapped (rg_bundle r))"
    by (rule build_registration_Inr) blast
  from r(4) have "unwrap_vault_key C (snd (derive_subkeys C mk)) (rb_master_wrapped (rg_bundle r)) = Inr vk"
    unfolding wrap_vault_key_def unwrap_vault_key_def by (rule unwrap_wrap[OF assms(1) _ assms(2)])
  with r(1-3) show ?thesis by (auto simp: unlock_def case_prod_unfold Let_def)
qed

lemma unlock_wrong:
  assumes "crypto_ok C" and "build_registration C d params salt pw vk = Inr r"
    and "derive_master_key C pw' salt' params' \<noteq> derive_master_key C pw salt params"
  shows "\<exists>e. unlock C pw' salt' params' (rb_master_wrapped (rg_bundle r)) = Inl e"
proof (cases "derive_master_key C pw' salt' params'")
  case (Inr mk')
  from assms(2) obtain mk where mk: "derive_master_key C pw salt params = Inr mk"
    "wrap_vault_key C (dr_nonce1 d) (snd (derive_subkeys C mk)) vk = Inr (rb_master_wrapped (rg_bundle r))"
    by (rule build_registration_Inr) blast
  have "mk_bytes mk' \<noteq> mk_bytes mk"
    using Inr mk(1) assms(3) by (cases mk, cases mk') auto
  moreover have "hkdf_separates C" "aead_authentic C" using assms(1) by (simp_all add: crypto_ok_def)
  ultimately have other: "wk_bytes (snd (derive_subkeys C mk')) \<noteq> wk_bytes (snd (derive_subkeys C mk))"
    unfolding derive_subkeys_def hkdf_separates_def snd_conv wrapping_key.sel by blast
  from mk(2) have "unwrap_vault_key C (snd (derive_subkeys C mk')) (rb_master_wrapped (rg_bundle r))
      = Inl (Err Decrypt)"
    unfolding wrap_vault_key_def unwrap_vault_key_def
    by (rule unwrap_other_key[OF \<open>aead_authentic C\<close> _ other])
  with Inr show ?thesis by (simp add: unlock_def case_prod_unfold Let_def)
qed (simp add: unlock_def)

section \<open>Properties\<close>

text \<open>Claim C37.  Registration over valid parameters succeeds, and the password then unlocks the vault:
  the credential presented at login is the one the server was given, and the vault key comes
  back.  A password that derives another master key never unlocks.\<close>

theorem register_then_unlock:
  assumes "crypto_ok C" and "kdf_validate params = Inr ()" and "length salt = SALT_LEN"
    and "length (vk_bytes vk) = KEY_LEN"
  shows "\<exists>r. register C d salt vk pw params = Inr r
    \<and> unlock C pw salt params (rb_master_wrapped (rg_bundle r)) = Inr (rg_secrets r)
    \<and> as_vault_key (rg_secrets r) = vk
    \<and> map_sum id to_server_credential (login_credential C pw salt params)
        = Inr (rb_auth_credential (rg_bundle r))
    \<and> (\<forall>pw'. derive_master_key C pw' salt params \<noteq> derive_master_key C pw salt params \<longrightarrow>
         (\<exists>e. unlock C pw' salt params (rb_master_wrapped (rg_bundle r)) = Inl e))"
proof -
  obtain r where r: "build_registration C d params salt pw vk = Inr r"
    using build_registration_total[OF assms] by blast
  from r obtain mk where mk: "derive_master_key C pw salt params = Inr mk"
    "as_vault_key (rg_secrets r) = vk" "as_auth_key (rg_secrets r) = fst (derive_subkeys C mk)"
    "rb_auth_credential (rg_bundle r) = ak_bytes (as_auth_key (rg_secrets r))"
    by (rule build_registration_Inr) blast
  have "unlock C pw salt params (rb_master_wrapped (rg_bundle r)) = Inr (rg_secrets r)"
    using unlock_built[OF _ assms(4) r] assms(1) by (simp add: crypto_ok_def)
  with r mk unlock_wrong[OF assms(1) r] show ?thesis
    by (auto simp: register_def login_credential_def to_server_credential_def)
qed

theorem register_then_unlock_witness:
  "\<exists>r. register toy_crypto \<lparr>dr_recovery = RecoveryKey (replicate 32 7), dr_nonce1 = [1], dr_nonce2 = [2]\<rparr>
         (replicate 16 0) (VaultKey (replicate 32 9)) (lit ''pw'') kdf_desktop = Inr r
    \<and> unlock toy_crypto (lit ''pw'') (replicate 16 0) kdf_desktop (rb_master_wrapped (rg_bundle r))
        = Inr (rg_secrets r)"
  using register_then_unlock[OF toy_crypto_ok kdf_desktop_valid, of "replicate 16 0"
      "VaultKey (replicate 32 9)"
      "\<lparr>dr_recovery = RecoveryKey (replicate 32 7), dr_nonce1 = [1], dr_nonce2 = [2]\<rparr>" "lit ''pw''"]
  by (auto simp: SALT_LEN_def KEY_LEN_def)

text \<open>Claim C38.  Recovery with the printed kit, typed with any spelling of separators, case and
  ambiguous letters, re-establishes the account under the new password over the same vault key and
  recovery verifier and the same salt; the new password then unlocks the same vault key.\<close>

theorem recovery_preserves_vault_key:
  assumes "crypto_ok C" and "kdf_validate params' = Inr ()" and "length (rk_bytes (dr_recovery d)) = 32"
    and "length salt = SALT_LEN" and "length (vk_bytes vk) = KEY_LEN"
    and "register C d salt vk pw params = Inr r"
    and "map fold_ambiguous (clean_code typed) = map fold_ambiguous (clean_code (rg_recovery_code r))"
  shows "\<exists>r'. recover_and_rekey C d' typed (rb_recovery_wrapped (rg_bundle r)) pw' salt params' = Inr r'
    \<and> unlock C pw' salt params' (rb_master_wrapped (rg_bundle r')) = Inr (rg_secrets r')
    \<and> as_vault_key (rg_secrets r') = vk \<and> rb_kdf_salt (rg_bundle r') = salt
    \<and> rb_recovery_verifier (rg_bundle r') = rb_recovery_verifier (rg_bundle r)"
proof -
  have rt: "aead_roundtrip C" using assms(1) by (simp add: crypto_ok_def)
  from assms(6)[unfolded register_def] have r: "rg_recovery_code r = to_recovery_code C (dr_recovery d)"
    "recovery_wrap_vault_key C (dr_nonce2 d) (dr_recovery d) vk = Inr (rb_recovery_wrapped (rg_bundle r))"
    "rb_recovery_verifier (rg_bundle r) = recovery_verifier C vk"
    by (auto elim: build_registration_Inr)
  have "from_recovery_code C typed = Inr (dr_recovery d)"
    using from_recovery_code_similar[OF assms(3)] assms(7) r(1) by simp
  moreover from r(2) have "recovery_unwrap_vault_key C (dr_recovery d) (rb_recovery_wrapped (rg_bundle r)) = Inr vk"
    unfolding recovery_wrap_vault_key_def recovery_unwrap_vault_key_def
    by (rule unwrap_wrap[OF rt _ assms(5)])
  moreover obtain r' where r': "build_registration C d' params' salt pw' vk = Inr r'"
    using build_registration_total[OF assms(1,2,4,5)] by blast
  ultimately have "recover_and_rekey C d' typed (rb_recovery_wrapped (rg_bundle r)) pw' salt params' = Inr r'"
    using assms(4) by (simp add: recover_and_rekey_def lift_err_def to_salt_def)
  moreover have "unlock C pw' salt params' (rb_master_wrapped (rg_bundle r')) = Inr (rg_secrets r')"
    by (rule unlock_built[OF rt assms(5) r'])
  moreover have "as_vault_key (rg_secrets r') = vk" "rb_kdf_salt (rg_bundle r') = salt"
    "rb_recovery_verifier (rg_bundle r') = recovery_verifier C vk"
    using r' by (auto elim: build_registration_Inr)
  ultimately show ?thesis using r(3) by simp
qed

theorem recovery_preserves_vault_key_witness:
  "\<exists>r r'. register toy_crypto \<lparr>dr_recovery = RecoveryKey (replicate 32 7), dr_nonce1 = [1], dr_nonce2 = [2]\<rparr>
         (replicate 16 0) (VaultKey (replicate 32 9)) (lit ''old'') kdf_desktop = Inr r
    \<and> recover_and_rekey toy_crypto
        \<lparr>dr_recovery = RecoveryKey (replicate 32 8), dr_nonce1 = [3], dr_nonce2 = [4]\<rparr>
        (rg_recovery_code r) (rb_recovery_wrapped (rg_bundle r)) (lit ''new'') (replicate 16 0) kdf_desktop = Inr r'
    \<and> as_vault_key (rg_secrets r') = VaultKey (replicate 32 9)"
proof -
  let ?d = "\<lparr>dr_recovery = RecoveryKey (replicate 32 7), dr_nonce1 = [1], dr_nonce2 = [2]\<rparr>"
  have len: "length (rk_bytes (dr_recovery ?d)) = 32" "length (replicate 16 (0::byte)) = SALT_LEN"
    "length (vk_bytes (VaultKey (replicate 32 9))) = KEY_LEN"
    by (simp_all add: SALT_LEN_def KEY_LEN_def)
  obtain r where r: "register toy_crypto ?d (replicate 16 0) (VaultKey (replicate 32 9)) (lit ''old'')
      kdf_desktop = Inr r"
    using build_registration_total[OF toy_crypto_ok kdf_desktop_valid len(2,3)]
    unfolding register_def by blast
  from recovery_preserves_vault_key[OF toy_crypto_ok kdf_desktop_valid len r refl,
      of "\<lparr>dr_recovery = RecoveryKey (replicate 32 8), dr_nonce1 = [3], dr_nonce2 = [4]\<rparr>" "lit ''new''"] r
  show ?thesis by blast
qed

text \<open>Changing the password keeps the vault key, the salt and the recovery verifier, so
  items stay readable, and the new password unlocks; the old password no longer opens the new
  bundle, and a salt of any other length is refused.\<close>

lemma change_password_keeps_vault:
  assumes "crypto_ok C" and "kdf_validate params = Inr ()" and "length (vk_bytes (as_vault_key s)) = KEY_LEN"
  shows "if length salt = SALT_LEN
    then \<exists>r. change_password C d s pw salt params = Inr r
        \<and> unlock C pw salt params (rb_master_wrapped (rg_bundle r)) = Inr (rg_secrets r)
        \<and> as_vault_key (rg_secrets r) = as_vault_key s \<and> rb_kdf_salt (rg_bundle r) = salt
        \<and> rb_recovery_verifier (rg_bundle r) = recovery_verifier C (as_vault_key s)
        \<and> (\<forall>old oldp. derive_master_key C old salt oldp \<noteq> derive_master_key C pw salt params \<longrightarrow>
             (\<exists>e. unlock C old salt oldp (rb_master_wrapped (rg_bundle r)) = Inl e))
    else change_password C d s pw salt params
        = Inl (Err (InvalidKdfParams (lit ''salt must be '' @ dec 16 @ lit '' bytes'')))"
proof (cases "length salt = SALT_LEN")
  case len: True
  obtain r where r: "build_registration C d params salt pw (as_vault_key s) = Inr r"
    using build_registration_total[OF assms(1,2) len assms(3)] by blast
  have "unlock C pw salt params (rb_master_wrapped (rg_bundle r)) = Inr (rg_secrets r)"
    using unlock_built[OF _ assms(3) r] assms(1) by (simp add: crypto_ok_def)
  moreover have "as_vault_key (rg_secrets r) = as_vault_key s" "rb_kdf_salt (rg_bundle r) = salt"
    "rb_recovery_verifier (rg_bundle r) = recovery_verifier C (as_vault_key s)"
    using r by (auto elim: build_registration_Inr)
  ultimately show ?thesis
    using r len unlock_wrong[OF assms(1) r] by (simp add: change_password_def to_salt_def)
qed (simp add: change_password_def to_salt_def SALT_LEN_def)

end
