(* ===== verification/Toy_Codec.thy ===== *)
theory Toy_Codec
  imports Item_Crypt
begin

text \<open>
  A concrete text codec for encrypted items.  JSON is third-party code and a parameter
  everywhere; this instance is used by witnesses only, to show that the round-trip law can hold.
\<close>

definition toy_item_to :: "encrypted_item \<Rightarrow> text" where
  "toy_item_to e =
     [unat (ei_version e), unat (ei_revision e), length (ei_item_id e), length (ei_nonce e)]
     @ ei_item_id e @ map unat (ei_nonce e) @ map unat (ei_ciphertext e)"

definition toy_item_raw :: "text \<Rightarrow> encrypted_item" where
  "toy_item_raw t =
     (let n = t ! 2; k = t ! 3; body = drop 4 t
      in \<lparr>ei_version = word_of_nat (t ! 0), ei_item_id = take n body,
          ei_revision = word_of_nat (t ! 1), ei_nonce = map word_of_nat (take k (drop n body)),
          ei_ciphertext = map word_of_nat (drop k (drop n body))\<rparr>)"

definition toy_item_of :: "text \<Rightarrow> encrypted_item option" where
  "toy_item_of t = (if 4 \<le> length t \<and> toy_item_to (toy_item_raw t) = t
                    then Some (toy_item_raw t) else None)"

lemma word_of_nat_unat_map: "map (word_of_nat \<circ> unat) (xs :: bytes) = xs"
  by (induction xs) simp_all

lemma toy_item_raw_to: "toy_item_raw (toy_item_to e) = e"
  by (cases e) (simp add: toy_item_raw_def toy_item_to_def word_of_nat_unat_map)

lemma toy_item_roundtrip [simp]: "toy_item_of (toy_item_to e) = Some e"
  by (simp add: toy_item_of_def toy_item_raw_to) (simp add: toy_item_to_def)

lemma toy_item_of_Some: "toy_item_of t = Some e \<Longrightarrow> t = toy_item_to e"
  by (auto simp: toy_item_of_def split: if_splits)

end
