(* ===== verification/Server_State.thy ===== *)
theory Server_State
  imports Toy_Codec
begin

text \<open>
  vault-server: the database (\<open>db.rs\<close> and \<open>migrations/\<close>), errors (\<open>error.rs\<close>), \<open>security.rs\<close>,
  the IP limiter (\<open>rate_limit.rs\<close>), configuration and request extraction (\<open>config.rs\<close>, \<open>state.rs\<close>).

  Every table is the list of its rows; a handler takes the clock (\<open>now\<close>, read once per
  request), the bytes it draws from the OS generator and the state, and returns a result and the
  new state.  Statements on one SQLite database do not fail here.  Third-party code (hashes,
  Argon2 PHC strings, base64, base32, JSON) is the record \<open>env\<close>.
\<close>

section \<open>Third-party functions\<close>

record env =
  e_sha256 :: "bytes \<Rightarrow> bytes"
  e_hash_password :: "bytes \<Rightarrow> bytes \<Rightarrow> text"  \<comment> \<open>salt, credential; a PHC string\<close>
  e_verify_password :: "bytes \<Rightarrow> text \<Rightarrow> bool"  \<comment> \<open>credential, PHC string (false if unparsable)\<close>
  e_hmac_sha256 :: "bytes \<Rightarrow> bytes \<Rightarrow> bytes"
  e_hmac_sha1 :: "bytes \<Rightarrow> bytes \<Rightarrow> bytes"
  e_b64_encode :: "bytes \<Rightarrow> text"
  e_b64_decode :: "text \<Rightarrow> bytes option"
  e_b32_encode :: "bytes \<Rightarrow> text"
  e_b32_decode :: "text \<Rightarrow> bytes option"
  e_kdf_to_json :: "kdf_params \<Rightarrow> text"
  e_json_value :: "text \<Rightarrow> text option"  \<comment> \<open>\<open>from_str::<Value>\<close>, a value being its own text\<close>
  e_item_of_json :: "text \<Rightarrow> encrypted_item option"  \<comment> \<open>\<open>from_value::<EncryptedItem>\<close>\<close>
  e_json_error :: "text \<Rightarrow> text"
  e_lower :: "uchar \<Rightarrow> text"
  e_parse_ip :: "text \<Rightarrow> nat option"

section \<open>Errors (\<open>error.rs\<close>)\<close>

datatype api_error =
    BadRequest "text"
  | InvalidCredentials
  | EmailNotVerified
  | MfaRequired
  | LockedOut secs
  | RateLimited secs
  | InvalidToken
  | CoolingOff secs
  | NotFound
  | Internal

fun api_error_code :: "api_error \<Rightarrow> text" where
  "api_error_code (BadRequest m) = lit ''bad_request''"
| "api_error_code InvalidCredentials = lit ''invalid_credentials''"
| "api_error_code EmailNotVerified = lit ''email_not_verified''"
| "api_error_code MfaRequired = lit ''mfa_required''"
| "api_error_code (LockedOut r) = lit ''locked_out''"
| "api_error_code (RateLimited r) = lit ''rate_limited''"
| "api_error_code InvalidToken = lit ''invalid_token''"
| "api_error_code (CoolingOff r) = lit ''cooling_off''"
| "api_error_code NotFound = lit ''not_found''"
| "api_error_code Internal = lit ''internal''"

fun api_error_status :: "api_error \<Rightarrow> nat" where
  "api_error_status (BadRequest m) = 400"
| "api_error_status InvalidCredentials = 401"
| "api_error_status InvalidToken = 401"
| "api_error_status EmailNotVerified = 403"
| "api_error_status MfaRequired = 401"
| "api_error_status (LockedOut r) = 429"
| "api_error_status (RateLimited r) = 429"
| "api_error_status (CoolingOff r) = 425"
| "api_error_status NotFound = 404"
| "api_error_status Internal = 500"

text \<open>\<open>StatusCode\<close> as text: the number and its canonical reason.\<close>

definition canonical_reasons :: "(nat \<times> string) list" where
  "canonical_reasons = [
    (100, ''Continue''), (101, ''Switching Protocols''), (102, ''Processing''), (200, ''OK''),
    (201, ''Created''), (202, ''Accepted''), (203, ''Non Authoritative Information''),
    (204, ''No Content''), (205, ''Reset Content''), (206, ''Partial Content''),
    (207, ''Multi-Status''), (208, ''Already Reported''), (226, ''IM Used''),
    (300, ''Multiple Choices''), (301, ''Moved Permanently''), (302, ''Found''),
    (303, ''See Other''), (304, ''Not Modified''), (305, ''Use Proxy''),
    (307, ''Temporary Redirect''), (308, ''Permanent Redirect''), (400, ''Bad Request''),
    (401, ''Unauthorized''), (402, ''Payment Required''), (403, ''Forbidden''),
    (404, ''Not Found''), (405, ''Method Not Allowed''), (406, ''Not Acceptable''),
    (407, ''Proxy Authentication Required''), (408, ''Request Timeout''), (409, ''Conflict''),
    (410, ''Gone''), (411, ''Length Required''), (412, ''Precondition Failed''),
    (413, ''Payload Too Large''), (414, ''URI Too Long''), (415, ''Unsupported Media Type''),
    (416, ''Range Not Satisfiable''), (417, ''Expectation Failed''),
    (421, ''Misdirected Request''), (422, ''Unprocessable Entity''), (423, ''Locked''),
    (424, ''Failed Dependency''), (425, ''Too Early''), (426, ''Upgrade Required''),
    (428, ''Precondition Required''), (429, ''Too Many Requests''),
    (431, ''Request Header Fields Too Large''), (451, ''Unavailable For Legal Reasons''),
    (500, ''Internal Server Error''), (501, ''Not Implemented''), (502, ''Bad Gateway''),
    (503, ''Service Unavailable''), (504, ''Gateway Timeout''),
    (505, ''HTTP Version Not Supported''), (506, ''Variant Also Negotiates''),
    (507, ''Insufficient Storage''), (508, ''Loop Detected''), (510, ''Not Extended''),
    (511, ''Network Authentication Required'')]"

definition status_text :: "nat \<Rightarrow> text" where
  "status_text n = dec n @ lit '' '' @
     (case map_of canonical_reasons n of Some r \<Rightarrow> lit r | None \<Rightarrow> lit ''<unknown status code>'')"

text \<open>\<open>into_response\<close>: status, code and the seconds of the body and the \<open>Retry-After\<close> header.\<close>

definition api_error_response :: "api_error \<Rightarrow> nat \<times> text \<times> secs option" where
  "api_error_response e =
     (let retry_after = (case e of LockedOut r \<Rightarrow> Some r | RateLimited r \<Rightarrow> Some r
                         | CoolingOff r \<Rightarrow> Some r | _ \<Rightarrow> None)
      in (api_error_status e, api_error_code e, retry_after))"

section \<open>Tables\<close>

record account_row =
  ac_id :: int
  ac_email :: "text"
  ac_email_verified_at :: "secs option"
  ac_server_auth_hash :: "text"
  ac_kdf_params :: "text"
  ac_kdf_salt :: bytes
  ac_master_wrapped :: "text"
  ac_recovery_wrapped :: "text"
  ac_failed_attempts :: int
  ac_lockout_until :: "secs option"
  ac_created_at :: secs
  ac_sync_seq :: int
  ac_purged_before_seq :: int
  ac_recovery_verifier_hash :: "bytes option"
  ac_backup_email :: "text option"
  ac_backup_verified_at :: "secs option"
  ac_checkpoint_seq :: "int option"
  ac_checkpoint_tag :: "bytes option"

datatype token_purpose = Verify_Email | Verify_Backup_Email

record email_token_row =
  et_id :: int
  et_account_id :: int
  et_purpose :: token_purpose
  et_token_hash :: bytes
  et_expires_at :: secs
  et_used_at :: "secs option"

record session_row =
  se_id :: int
  se_account_id :: int
  se_family_id :: "text"
  se_access_hash :: bytes
  se_refresh_hash :: bytes
  se_access_expires_at :: secs
  se_refresh_expires_at :: secs
  se_device_name :: "text"
  se_created_at :: secs
  se_revoked_at :: "secs option"
  se_last_used_at :: "secs option"
  se_absolute_expires_at :: "secs option"

record totp_row =
  to_account_id :: int
  to_secret_base32 :: "text"
  to_activated_at :: "secs option"
  to_created_at :: secs
  to_last_used_step :: "int option"

record recovery_code_row =
  rc_id :: int
  rc_account_id :: int
  rc_code_hash :: bytes
  rc_used_at :: "secs option"

record item_row =
  vi_account_id :: int
  vi_item_id :: "text"
  vi_revision :: int
  vi_seq :: int
  vi_deleted :: bool
  vi_content :: "text option"
  vi_updated_at :: secs

record recovery_request_row =
  rr_id :: int
  rr_account_id :: int
  rr_completion_hash :: bytes
  rr_cancel_hash :: bytes
  rr_created_at :: secs
  rr_usable_at :: secs
  rr_expires_at :: secs
  rr_cancelled_at :: "secs option"
  rr_completed_at :: "secs option"

text \<open>Outgoing mail: recipient and what the message says (links and tokens, not the prose).\<close>

datatype mail_body =
    Mail_Registration_Attempt
  | Mail_Verify "text"
  | Mail_Failed_Logins
  | Mail_New_Sign_In "text"
  | Mail_Recovery int "text" "text"
  | Mail_Recovered bool
  | Mail_Confirm_Backup "text"
  | Mail_Backup_Changed "text"
  | Mail_Backup_Removed
  | Mail_Password_Changed

type_synonym mail = "text \<times> mail_body"

type_synonym ip_addr = nat

record config =
  cfg_base_url :: "text"
  cfg_registration_open :: bool
  cfg_trust_proxy :: bool
  cfg_recovery_cooloff_secs :: secs

record srv =
  accounts :: "account_row list"
  email_tokens :: "email_token_row list"
  sessions :: "session_row list"
  totps :: "totp_row list"
  recovery_codes :: "recovery_code_row list"
  vault_items :: "item_row list"
  recovery_requests :: "recovery_request_row list"
  server_secrets :: "(text \<times> bytes) list"
  ip_failures :: "(ip_addr \<times> secs list) list"
  outbox :: "mail list"
  nudges :: "(int \<times> int) list"
  dummy_hash :: "text"
  enumeration_secret :: bytes

type_synonym 'a reply = "(api_error + 'a) \<times> srv"

text \<open>A handler's \<open>?\<close>: stop at an error, keeping what has been written.\<close>

definition and_then :: "'a reply \<Rightarrow> ('a \<Rightarrow> srv \<Rightarrow> 'b reply) \<Rightarrow> 'b reply" where
  "and_then m f = (case m of (Inl e, s) \<Rightarrow> (Inl e, s) | (Inr x, s) \<Rightarrow> f x s)"

lemma and_then_simps [simp]:
  "and_then (Inl e, s) f = (Inl e, s)" "and_then (Inr x, s) f = f x s"
  by (simp_all add: and_then_def)

lemma and_then_Inr:
  "and_then m f = (Inr y, s') \<longleftrightarrow> (\<exists>x s1. m = (Inr x, s1) \<and> f x s1 = (Inr y, s'))"
  by (auto simp: and_then_def split: prod.split sum.split)

lemma and_then_snd:
  "snd (and_then m f) = (case m of (Inl e, s) \<Rightarrow> s | (Inr x, s) \<Rightarrow> snd (f x s))"
  by (simp add: and_then_def split: prod.split sum.split)

definition send_mail :: "text \<Rightarrow> mail_body \<Rightarrow> srv \<Rightarrow> srv" where
  "send_mail to body s = s\<lparr>outbox := outbox s @ [(to, body)]\<rparr>"

text \<open>\<open>ChangeNotifier::notify\<close>: the account and the new sequence number, nothing else.\<close>

definition notify :: "int \<Rightarrow> int \<Rightarrow> srv \<Rightarrow> srv" where
  "notify account_id seq s = s\<lparr>nudges := nudges s @ [(account_id, seq)]\<rparr>"

definition update_account :: "int \<Rightarrow> (account_row \<Rightarrow> account_row) \<Rightarrow> srv \<Rightarrow> srv" where
  "update_account i f s = s\<lparr>accounts := update_where (\<lambda>a. ac_id a = i) f (accounts s)\<rparr>"

definition account_by_email :: "srv \<Rightarrow> text \<Rightarrow> account_row option" where
  "account_by_email s email = List.find (\<lambda>a. ac_email a = email) (accounts s)"

definition account_by_id :: "srv \<Rightarrow> int \<Rightarrow> account_row option" where
  "account_by_id s i = List.find (\<lambda>a. ac_id a = i) (accounts s)"

text \<open>\<open>load_or_create_secret\<close>: \<open>fresh\<close> is the draw; the failure is a row of the wrong length.\<close>

definition load_or_create_secret :: "bytes \<Rightarrow> text \<Rightarrow> srv \<Rightarrow> bytes option \<times> srv" where
  "load_or_create_secret fresh name s =
     (case map_of (server_secrets s) name of
        Some v \<Rightarrow> (if length v = 32 then Some v else None, s)
      | None \<Rightarrow>
          (let s' = s\<lparr>server_secrets := server_secrets s @ [(name, fresh)]\<rparr>
           in case map_of (server_secrets s') name of
                None \<Rightarrow> (None, s')
              | Some v \<Rightarrow> (if length v = 32 then Some v else None, s')))"

section \<open>Security helpers (\<open>security.rs\<close>)\<close>

definition LOCKOUT_THRESHOLD :: int where "LOCKOUT_THRESHOLD = 10"
definition LOCKOUT_BASE_SECS :: int where "LOCKOUT_BASE_SECS = 60"
definition LOCKOUT_CAP_SECS :: int where "LOCKOUT_CAP_SECS = 3600"

definition lockout_duration :: "int \<Rightarrow> secs option" where
  "lockout_duration failed_attempts =
     (if failed_attempts < LOCKOUT_THRESHOLD then None
      else
        (let doublings = nat (min (failed_attempts - LOCKOUT_THRESHOLD) 6)
         in Some (min (push_bit doublings LOCKOUT_BASE_SECS) LOCKOUT_CAP_SECS)))"

definition FAILURE_DELAY_MIN_MS :: u64 where "FAILURE_DELAY_MIN_MS = 250"
definition FAILURE_DELAY_MAX_MS :: u64 where "FAILURE_DELAY_MAX_MS = 300"

text \<open>The milliseconds \<open>failure_delay\<close> sleeps, from eight random bytes.\<close>

definition failure_delay_ms :: "bytes \<Rightarrow> u64" where
  "failure_delay_ms bs =
     (let span = FAILURE_DELAY_MAX_MS - FAILURE_DELAY_MIN_MS + 1
      in FAILURE_DELAY_MIN_MS + (word_of_nat (of_le_bytes bs)) mod span)"

text \<open>An opaque token and the hash stored for it.\<close>

definition new_token :: "env \<Rightarrow> bytes \<Rightarrow> text \<Rightarrow> text \<times> bytes" where
  "new_token E draw pfx =
     (let token = pfx @ e_b64_encode E draw in (token, e_sha256 E (as_bytes token)))"

definition dummy_kdf_salt :: "env \<Rightarrow> bytes \<Rightarrow> text \<Rightarrow> bytes" where
  "dummy_kdf_salt E secret normalized_email =
     take 16 (e_hmac_sha256 E secret (as_bytes normalized_email))"

section \<open>The IP limiter (\<open>rate_limit.rs\<close>)\<close>

definition WINDOW_SECS :: secs where "WINDOW_SECS = 15 * 60"
definition MAX_FAILURES_PER_WINDOW :: nat where "MAX_FAILURES_PER_WINDOW = 20"

definition ip_check ::
    "ip_addr \<Rightarrow> secs \<Rightarrow> (ip_addr \<times> secs list) list \<Rightarrow> secs option \<times> (ip_addr \<times> secs list) list" where
  "ip_check ip now m =
     (case map_of m ip of
        None \<Rightarrow> (None, m)
      | Some ts0 \<Rightarrow>
          (let ts = filter (\<lambda>t. now - t < WINDOW_SECS) ts0
           in if ts = [] then (None, AList.delete ip m)
              else
                (let m' = AList.update ip ts m
                 in if MAX_FAILURES_PER_WINDOW \<le> length ts
                    then (Some (max (Min (set ts) + WINDOW_SECS - now) 1), m')
                    else (None, m'))))"

definition ip_record_failure ::
    "ip_addr \<Rightarrow> secs \<Rightarrow> (ip_addr \<times> secs list) list \<Rightarrow> (ip_addr \<times> secs list) list" where
  "ip_record_failure ip now m =
     (let m1 = (if length m > 10000
                then filter (\<lambda>(_, ts). \<exists>t \<in> set ts. now - t < WINDOW_SECS) m else m)
      in case map_of m1 ip of
           None \<Rightarrow> AList.update ip [now] m1
         | Some ts \<Rightarrow> AList.update ip (ts @ [now]) m1)"

definition check_ip :: "ip_addr \<Rightarrow> secs \<Rightarrow> srv \<Rightarrow> secs option \<times> srv" where
  "check_ip ip now s =
     (let (r, m) = ip_check ip now (ip_failures s) in (r, s\<lparr>ip_failures := m\<rparr>))"

definition record_failure :: "ip_addr \<Rightarrow> secs \<Rightarrow> srv \<Rightarrow> srv" where
  "record_failure ip now s = s\<lparr>ip_failures := ip_record_failure ip now (ip_failures s)\<rparr>"

section \<open>Extraction from a request (\<open>state.rs\<close>)\<close>

definition client_ip :: "env \<Rightarrow> config \<Rightarrow> text option \<Rightarrow> ip_addr option \<Rightarrow> ip_addr" where
  "client_ip E cfg xff peer =
     (let forwarded =
            (if cfg_trust_proxy cfg then
               (case xff of
                  None \<Rightarrow> None
                | Some v \<Rightarrow> e_parse_ip E (trim (takeWhile (\<lambda>c. c \<noteq> of_char (CHR '','')) v)))
             else None)
      in case forwarded of Some ip \<Rightarrow> ip | None \<Rightarrow> (case peer of Some ip \<Rightarrow> ip | None \<Rightarrow> 0))"

record auth_session =
  au_account_id :: int
  au_session_id :: int
  au_family_id :: "text"

definition session_live :: "secs \<Rightarrow> bytes \<Rightarrow> session_row \<Rightarrow> bool" where
  "session_live now hash r \<longleftrightarrow> se_access_hash r = hash \<and> se_revoked_at r = None
     \<and> se_access_expires_at r > now
     \<and> (case se_absolute_expires_at r of None \<Rightarrow> True | Some cap \<Rightarrow> cap > now)"

definition authenticate :: "env \<Rightarrow> secs \<Rightarrow> text option \<Rightarrow> srv \<Rightarrow> api_error + auth_session" where
  "authenticate E now authorization s =
     (case authorization of
        None \<Rightarrow> Inl InvalidToken
      | Some v \<Rightarrow>
          (case strip_prefix v (lit ''Bearer '') of
             None \<Rightarrow> Inl InvalidToken
           | Some token \<Rightarrow>
               (case List.find (session_live now (e_sha256 E (as_bytes token))) (sessions s) of
                  None \<Rightarrow> Inl InvalidToken
                | Some r \<Rightarrow> Inr \<lparr>au_account_id = se_account_id r, au_session_id = se_id r,
                                au_family_id = se_family_id r\<rparr>)))"

section \<open>Facts\<close>

text \<open>An operation that touches one table leaves the others alone.\<close>

lemma send_mail_sel [simp]:
  "accounts (send_mail t b s) = accounts s" "email_tokens (send_mail t b s) = email_tokens s"
  "sessions (send_mail t b s) = sessions s" "totps (send_mail t b s) = totps s"
  "recovery_codes (send_mail t b s) = recovery_codes s"
  "vault_items (send_mail t b s) = vault_items s"
  "recovery_requests (send_mail t b s) = recovery_requests s"
  "ip_failures (send_mail t b s) = ip_failures s"
  "outbox (send_mail t b s) = outbox s @ [(t, b)]"
  "nudges (send_mail t b s) = nudges s"
  by (simp_all add: send_mail_def)

lemma notify_sel [simp]:
  "accounts (notify i q s) = accounts s" "email_tokens (notify i q s) = email_tokens s"
  "sessions (notify i q s) = sessions s" "totps (notify i q s) = totps s"
  "recovery_codes (notify i q s) = recovery_codes s" "vault_items (notify i q s) = vault_items s"
  "recovery_requests (notify i q s) = recovery_requests s" "outbox (notify i q s) = outbox s"
  "ip_failures (notify i q s) = ip_failures s"
  by (simp_all add: notify_def)

lemma update_account_sel [simp]:
  "email_tokens (update_account i f s) = email_tokens s"
  "sessions (update_account i f s) = sessions s" "totps (update_account i f s) = totps s"
  "recovery_codes (update_account i f s) = recovery_codes s"
  "vault_items (update_account i f s) = vault_items s"
  "recovery_requests (update_account i f s) = recovery_requests s"
  "outbox (update_account i f s) = outbox s" "ip_failures (update_account i f s) = ip_failures s"
  "accounts (update_account i f s) = update_where (\<lambda>a. ac_id a = i) f (accounts s)"
  by (simp_all add: update_account_def)

lemma record_failure_sel [simp]:
  "accounts (record_failure ip now s) = accounts s"
  "email_tokens (record_failure ip now s) = email_tokens s"
  "sessions (record_failure ip now s) = sessions s" "totps (record_failure ip now s) = totps s"
  "recovery_codes (record_failure ip now s) = recovery_codes s"
  "vault_items (record_failure ip now s) = vault_items s"
  "recovery_requests (record_failure ip now s) = recovery_requests s"
  "outbox (record_failure ip now s) = outbox s"
  "ip_failures (record_failure ip now s) = ip_record_failure ip now (ip_failures s)"
  by (simp_all add: record_failure_def)

lemma check_ip_sel:
  assumes "check_ip ip now s = (r, s')"
  shows "accounts s' = accounts s" "email_tokens s' = email_tokens s" "sessions s' = sessions s"
    "totps s' = totps s" "recovery_codes s' = recovery_codes s" "vault_items s' = vault_items s"
    "recovery_requests s' = recovery_requests s" "outbox s' = outbox s"
  using assms by (auto simp: check_ip_def split: prod.splits)

lemma account_by_id_update:
  assumes "\<And>a. ac_id (f a) = ac_id a"
  shows "account_by_id (update_account i f s) j =
    (if i = j then map_option f (account_by_id s i) else account_by_id s j)"
proof -
  have "List.find (\<lambda>a. ac_id a = j) (update_where (\<lambda>a. ac_id a = i) f t) =
    (if i = j then map_option f (List.find (\<lambda>a. ac_id a = i) t) else List.find (\<lambda>a. ac_id a = j) t)" for t
    by (induction t) (auto simp: assms)
  then show ?thesis by (simp add: account_by_id_def)
qed

lemma snd_new_token: "snd (new_token E d pfx) = e_sha256 E (as_bytes (fst (new_token E d pfx)))"
  by (simp add: new_token_def Let_def)

lemma account_by_idD: "account_by_id s i = Some a \<Longrightarrow> a \<in> set (accounts s) \<and> ac_id a = i"
  unfolding account_by_id_def using find_SomeD by fastforce

lemma account_by_emailD: "account_by_email s m = Some a \<Longrightarrow> a \<in> set (accounts s) \<and> ac_email a = m"
  unfolding account_by_email_def using find_SomeD by fastforce

lemma account_by_id_cong: "accounts s' = accounts s \<Longrightarrow> account_by_id s' i = account_by_id s i"
  by (simp add: account_by_id_def)

lemma authenticate_Inr:
  assumes "authenticate E now h s = Inr au"
  obtains token r where "h = Some (lit ''Bearer '' @ token)" and "r \<in> set (sessions s)"
    and "session_live now (e_sha256 E (as_bytes token)) r"
    and "au = \<lparr>au_account_id = se_account_id r, au_session_id = se_id r, au_family_id = se_family_id r\<rparr>"
  using assms by (auto simp: authenticate_def strip_prefix_Some split: option.splits
      dest!: find_SomeD)

section \<open>A concrete instance\<close>

text \<open>For witnesses only: third-party functions that satisfy the laws the properties assume.\<close>

definition toy_env :: env where
  "toy_env = \<lparr>
     e_sha256 = (\<lambda>m. m),
     e_hash_password = (\<lambda>salt c. map unat (frame c @ salt)),
     e_verify_password = (\<lambda>c phc. take (length (frame c)) phc = map unat (frame c)),
     e_hmac_sha256 = (\<lambda>k m. frame k @ m),
     e_hmac_sha1 = (\<lambda>k m. take 20 (m @ replicate 20 0)),
     e_b64_encode = map unat,
     e_b64_decode = (\<lambda>t. if \<forall>c \<in> set t. c < 256 then Some (map word_of_nat t) else None),
     e_b32_encode = map unat,
     e_b32_decode = (\<lambda>t. if \<forall>c \<in> set t. c < 256 then Some (map word_of_nat t) else None),
     e_kdf_to_json = (\<lambda>p. [unat (kp_version p), unat (memory_kib p), unat (iterations p),
                           unat (parallelism p)]),
     e_json_value = Some,
     e_item_of_json = toy_item_of,
     e_json_error = (\<lambda>t. lit ''bad json''),
     e_lower = (\<lambda>c. [c]),
     e_parse_ip = (\<lambda>t. None)\<rparr>"

definition toy_account :: "int \<Rightarrow> text \<Rightarrow> account_row" where
  "toy_account i email = \<lparr>ac_id = i, ac_email = email, ac_email_verified_at = Some 0,
     ac_server_auth_hash = map unat (frame (replicate 32 7) @ [1]), ac_kdf_params = [], ac_kdf_salt = replicate 16 0,
     ac_master_wrapped = [], ac_recovery_wrapped = [], ac_failed_attempts = 0,
     ac_lockout_until = None, ac_created_at = 0, ac_sync_seq = 0, ac_purged_before_seq = 0,
     ac_recovery_verifier_hash = Some (replicate 32 9), ac_backup_email = None,
     ac_backup_verified_at = None, ac_checkpoint_seq = None, ac_checkpoint_tag = None\<rparr>"

definition toy_srv :: srv where
  "toy_srv = \<lparr>accounts = [toy_account 1 (lit ''a@b.c'')], email_tokens = [], sessions = [],
     totps = [], recovery_codes = [], vault_items = [], recovery_requests = [],
     server_secrets = [], ip_failures = [], outbox = [], nudges = [], dummy_hash = [],
     enumeration_secret = []\<rparr>"

definition toy_auth :: auth_session where
  "toy_auth = \<lparr>au_account_id = 1, au_session_id = 1, au_family_id = lit ''f''\<rparr>"

text \<open>The laws, as predicates on the third-party functions.\<close>

definition b64_ok :: "env \<Rightarrow> bool" where
  "b64_ok E \<longleftrightarrow> (\<forall>b. e_b64_decode E (e_b64_encode E b) = Some b)"

definition json_ok :: "env \<Rightarrow> bool" where
  "json_ok E \<longleftrightarrow> (\<forall>t. e_item_of_json E t \<noteq> None \<longrightarrow> e_json_value E t = Some t)"

text \<open>SHA-256 without collisions, and Argon2 hashes that only their credential verifies.\<close>

definition sha_ok :: "env \<Rightarrow> bool" where
  "sha_ok E \<longleftrightarrow> (\<forall>a b. e_sha256 E a = e_sha256 E b \<longrightarrow> a = b)"

definition phc_ok :: "env \<Rightarrow> bool" where
  "phc_ok E \<longleftrightarrow> (\<forall>c c' salt. e_verify_password E c (e_hash_password E salt c') \<longleftrightarrow> c = c')"

lemma toy_b64 [simp]: "b64_ok toy_env"
proof -
  have "\<forall>c \<in> set (map unat (b :: bytes)). c < 256" for b
    using unsigned_less[where 'a = nat and 'b = 8] by auto
  then show ?thesis by (auto simp: b64_ok_def toy_env_def word_of_nat_unat_map)
qed

lemma toy_json [simp]: "json_ok toy_env"
  by (simp add: json_ok_def toy_env_def)

lemma toy_sha [simp]: "sha_ok toy_env"
  by (simp add: sha_ok_def toy_env_def)

lemma map_unat_inj: "map unat (a :: bytes) = map unat b \<longleftrightarrow> a = b"
  by (rule inj_map_eq_map) (auto simp: inj_def intro: word_unat_eq_iff[THEN iffD2])

lemma toy_phc [simp]: "phc_ok toy_env"
proof -
  have "take (length (frame c)) (map unat (frame c' @ salt)) = map unat (frame c) \<longleftrightarrow> c = c'" for c c' salt
  proof
    assume "take (length (frame c)) (map unat (frame c' @ salt)) = map unat (frame c)"
    then have "take (length (frame c)) (frame c' @ salt) = frame c"
      by (simp only: take_map map_unat_inj)
    then have "frame c' @ salt = frame c @ drop (length (frame c)) (frame c' @ salt)"
      by (metis append_take_drop_id)
    then show "c = c'" by (metis frame_prefix_free)
  qed (simp add: take_map)
  then show ?thesis by (simp add: phc_ok_def toy_env_def)
qed

lemma toy_verify:
  "e_verify_password toy_env c (ac_server_auth_hash (toy_account i m)) \<longleftrightarrow> c = replicate 32 7"
proof -
  have "ac_server_auth_hash (toy_account i m) = e_hash_password toy_env [1] (replicate 32 7)"
    by (simp add: toy_account_def toy_env_def)
  then show ?thesis using toy_phc unfolding phc_ok_def by metis
qed

section \<open>Properties\<close>

lemma lockout_closed:
  "lockout_duration n = (if n < 10 then None else Some (min (60 * 2 ^ nat (n - 10)) 3600))"
proof (cases "n < 10 \<or> n - 10 \<le> 6")
  case True
  then show ?thesis
    by (auto simp: lockout_duration_def LOCKOUT_THRESHOLD_def LOCKOUT_BASE_SECS_def
        LOCKOUT_CAP_SECS_def push_bit_eq_mult)
next
  case False
  then have "(2::int) ^ 6 \<le> 2 ^ nat (n - 10)" by (intro power_increasing) auto
  with False show ?thesis
    by (simp add: lockout_duration_def LOCKOUT_THRESHOLD_def LOCKOUT_BASE_SECS_def
        LOCKOUT_CAP_SECS_def push_bit_eq_mult)
qed

text \<open>Progressive lockout: nothing below ten failures, then one minute doubling with each
  further failure up to one hour, and never less for more failures.\<close>

lemma lockout_schedule:
  "lockout_duration n = (if n < 10 then None else Some (min (60 * 2 ^ nat (n - 10)) 3600))
   \<and> (10 \<le> n \<and> n \<le> m \<longrightarrow> the (lockout_duration n) \<le> the (lockout_duration m))"
proof (intro conjI impI lockout_closed)
  assume nm: "10 \<le> n \<and> n \<le> m"
  then have "(2::int) ^ nat (n - 10) \<le> 2 ^ nat (m - 10)" by (intro power_increasing) auto
  then have "min (60 * 2 ^ nat (n - 10)) 3600 \<le> min (60 * 2 ^ nat (m - 10)) (3600 :: int)"
    by (intro min.mono) simp_all
  with nm show "the (lockout_duration n) \<le> the (lockout_duration m)" by (simp add: lockout_closed)
qed

text \<open>The failure delay is always 250 to 300 milliseconds, and every value in that range
  is reached by some draw.\<close>

lemma failure_delay_range:
  "(\<forall>bs. 250 \<le> unat (failure_delay_ms bs) \<and> unat (failure_delay_ms bs) \<le> 300)
   \<and> (\<forall>ms \<in> {250..300}. \<exists>bs. length bs = 8 \<and> unat (failure_delay_ms bs) = ms)"
proof -
  have val: "unat (failure_delay_ms bs) = 250 + of_le_bytes bs mod 2 ^ 64 mod 51" for bs
  proof -
    let ?w = "word_of_nat (of_le_bytes bs) :: u64"
    have m: "unat (?w mod 51) = of_le_bytes bs mod 2 ^ 64 mod 51"
      by (simp add: unat_mod unat_of_nat)
    have "of_le_bytes bs mod 2 ^ 64 mod 51 < 51" by simp
    with m have "unat (250 + ?w mod 51) = 250 + unat (?w mod 51)"
      by (subst unat_add_lem[THEN iffD1]) simp_all
    with m show ?thesis
      by (simp add: failure_delay_ms_def FAILURE_DELAY_MIN_MS_def FAILURE_DELAY_MAX_MS_def)
  qed
  have lo: "250 \<le> unat (failure_delay_ms bs) \<and> unat (failure_delay_ms bs) \<le> 300" for bs
  proof -
    have "of_le_bytes bs mod 2 ^ 64 mod 51 < 51" by simp
    then show ?thesis unfolding val by linarith
  qed
  have "unat (failure_delay_ms (le_bytes 8 (ms - 250))) = ms" if "250 \<le> ms" "ms \<le> 300" for ms
    using that by (simp add: val of_le_bytes_le_bytes)
  then have "\<forall>ms \<in> {250..300}. \<exists>bs. length bs = 8 \<and> unat (failure_delay_ms bs) = ms"
    by (metis atLeastAtMost_iff length_le_bytes)
  with lo show ?thesis by blast
qed

lemma map_of_ip_record_failure:
  assumes "distinct (map fst m)" and "\<And>i ts. (i, ts) \<in> set m \<Longrightarrow> \<exists>t \<in> set ts. now - t < WINDOW_SECS"
  shows "map_of (ip_record_failure ip now m) j =
    (if j = ip then Some ((case map_of m ip of None \<Rightarrow> [] | Some ts \<Rightarrow> ts) @ [now]) else map_of m j)"
proof -
  have "filter (\<lambda>(_, ts). \<exists>t \<in> set ts. now - t < WINDOW_SECS) m = m"
    using assms(2) by (auto simp: filter_id_conv)
  then show ?thesis
    by (auto simp: ip_record_failure_def Let_def update_conv' split: option.splits)
qed

text \<open>Failures an address has inside the window.\<close>

definition recent_failures :: "ip_addr \<Rightarrow> secs \<Rightarrow> (ip_addr \<times> secs list) list \<Rightarrow> nat" where
  "recent_failures ip now m =
     (case map_of m ip of None \<Rightarrow> 0 | Some ts \<Rightarrow> length (filter (\<lambda>t. now - t < WINDOW_SECS) ts))"

lemma map_of_filter_vals:
  assumes "distinct (map fst m)"
  shows "map_of (filter (\<lambda>(_, v). P v) m) k
    = (case map_of m k of None \<Rightarrow> None | Some v \<Rightarrow> if P v then Some v else None)"
  using assms
proof (induction m)
  case (Cons p m)
  obtain k' v where p: "p = (k', v)" by (cases p)
  show ?case
  proof (cases "k' = k")
    case True
    with Cons.prems p have "map_of m k = None" by (simp add: map_of_eq_None_iff)
    with Cons True p show ?thesis by simp
  next
    case False
    with Cons p show ?thesis by simp
  qed
qed simp

lemma recent_record:
  assumes "distinct (map fst m)"
  shows "recent_failures j now (ip_record_failure ip now m)
    = recent_failures j now m + (if j = ip then 1 else 0)"
proof -
  let ?P = "\<lambda>ts. \<exists>t \<in> set ts. now - t < WINDOW_SECS"
  have zero: "\<not> ?P ts \<Longrightarrow> filter (\<lambda>t. now - t < WINDOW_SECS) ts = []" for ts
    by (auto simp: filter_empty_conv)
  have W: "0 < WINDOW_SECS" by (simp add: WINDOW_SECS_def)
  let ?m = "if length m > 10000 then filter (\<lambda>(_, ts). ?P ts) m else m"
  have gc: "recent_failures j now ?m = recent_failures j now m" for j
    using map_of_filter_vals[OF assms, of ?P j]
    by (auto simp: recent_failures_def zero split: option.splits)
  have "recent_failures j now (ip_record_failure ip now m)
      = recent_failures j now ?m + (if j = ip then 1 else 0)"
    using W unfolding ip_record_failure_def recent_failures_def Let_def
    by (cases "map_of ?m ip") (auto simp: update_conv')
  then show ?thesis by (simp only: gc)
qed

text \<open>The per-address budget is exact: an address is refused just when it has twenty or
  more failures in the last fifteen minutes; the wait it is told is between a second and the
  window; recording a failure counts one more for that address and nothing for any other; checking
  never changes anyone's count.\<close>

lemma ip_budget:
  assumes "distinct (map fst m)"
  shows "(fst (ip_check ip now m) \<noteq> None \<longleftrightarrow> 20 \<le> recent_failures ip now m)
    \<and> (\<forall>r. fst (ip_check ip now m) = Some r \<longrightarrow> (\<forall>ts \<in> set (map snd m). \<forall>t \<in> set ts. t \<le> now)
           \<longrightarrow> 1 \<le> r \<and> r \<le> 900)
    \<and> recent_failures j now (ip_record_failure ip now m)
           = recent_failures j now m + (if j = ip then 1 else 0)
    \<and> recent_failures j now (snd (ip_check ip now m)) = recent_failures j now m"
proof (intro conjI allI impI)
  let ?f = "filter (\<lambda>t. now - t < WINDOW_SECS)"
  show "fst (ip_check ip now m) \<noteq> None \<longleftrightarrow> 20 \<le> recent_failures ip now m"
    by (auto simp: ip_check_def recent_failures_def Let_def MAX_FAILURES_PER_WINDOW_def
        split: option.splits if_splits)
  fix r
  assume r: "fst (ip_check ip now m) = Some r" and past: "\<forall>ts \<in> set (map snd m). \<forall>t \<in> set ts. t \<le> now"
  have w: "1 \<le> r \<and> r \<le> 900"
  proof -
    from r obtain ts where ts: "map_of m ip = Some ts" "?f ts \<noteq> []"
      "r = max (Min (set (?f ts)) + WINDOW_SECS - now) 1"
      by (auto simp: ip_check_def Let_def split: option.splits if_splits)
    have "Min (set (?f ts)) \<in> set (?f ts)" using ts(2) by (intro Min_in) (auto simp: filter_empty_conv)
    moreover have "ts \<in> set (map snd m)" using map_of_SomeD[OF ts(1)] by force
    ultimately have "Min (set (?f ts)) \<le> now" using past by auto
    with ts(3) show ?thesis by (simp add: WINDOW_SECS_def)
  qed
  then show "1 \<le> r" "r \<le> 900" by simp_all
next
  show "recent_failures j now (ip_record_failure ip now m)
      = recent_failures j now m + (if j = ip then 1 else 0)"
    by (rule recent_record[OF assms])
  show "recent_failures j now (snd (ip_check ip now m)) = recent_failures j now m"
    by (auto simp: ip_check_def recent_failures_def Let_def update_conv' delete_conv'
        filter_empty_conv split: option.splits if_splits)
qed

end
