(* ===== verification/Server_Items.thy ===== *)
theory Server_Items
  imports Server_State
begin

text \<open>
  vault-server \<open>routes/items.rs\<close>: encrypted item storage, delta pulls with the lazy tombstone
  purge, optimistic concurrency, and the rollback checkpoint.  Each handler is one SQLite
  transaction, so it is one state transformer.
\<close>

section \<open>Wire data\<close>

record wire_item =
  wi_item_id :: "text"
  wi_revision :: int
  wi_seq :: int
  wi_deleted :: bool
  wi_content :: "text option"

record list_reply =
  lr_items :: "wire_item list"
  lr_latest_seq :: int
  lr_full_resync :: bool
  lr_checkpoint :: "(int \<times> text) option"

datatype write_reply =
    Written "text" int "int option" bool
    \<comment> \<open>200: item, revision, sequence number where the body has one, deleted\<close>
  | Conflict_409 "wire_item option"

definition TOMBSTONE_TTL_SECS :: secs where "TOMBSTONE_TTL_SECS = 30 * 24 * 3600"
definition MAX_CONTENT_BYTES :: nat where "MAX_CONTENT_BYTES = 512 * 1024"

definition row_to_remote :: "env \<Rightarrow> item_row \<Rightarrow> wire_item" where
  "row_to_remote E row =
     \<lparr>wi_item_id = vi_item_id row, wi_revision = vi_revision row, wi_seq = vi_seq row,
      wi_deleted = vi_deleted row, wi_content = Option.bind (vi_content row) (e_json_value E)\<rparr>"

text \<open>The row of an item, the primary key being (account, item).\<close>

definition is_item :: "int \<Rightarrow> text \<Rightarrow> item_row \<Rightarrow> bool" where
  "is_item acc item_id r \<longleftrightarrow> vi_account_id r = acc \<and> vi_item_id r = item_id"

definition item_row_of :: "srv \<Rightarrow> int \<Rightarrow> text \<Rightarrow> item_row option" where
  "item_row_of s acc item_id = List.find (is_item acc item_id) (vault_items s)"

section \<open>Handlers\<close>

text \<open>\<open>UPDATE .. RETURNING sync_seq\<close>; no row is an error.\<close>

definition next_seq :: "int \<Rightarrow> srv \<Rightarrow> int option \<times> srv" where
  "next_seq acc s =
     (case account_by_id s acc of
        None \<Rightarrow> (None, s)
      | Some a \<Rightarrow> (Some (ac_sync_seq a + 1),
                   update_account acc (\<lambda>a. a\<lparr>ac_sync_seq := ac_sync_seq a + 1\<rparr>) s))"

definition purgeable :: "int \<Rightarrow> secs \<Rightarrow> item_row \<Rightarrow> bool" where
  "purgeable acc now r \<longleftrightarrow>
     vi_account_id r = acc \<and> vi_deleted r \<and> vi_updated_at r < now - TOMBSTONE_TTL_SECS"

definition purge_tombstones :: "int \<Rightarrow> secs \<Rightarrow> srv \<Rightarrow> srv" where
  "purge_tombstones acc now s =
     (let old = filter (purgeable acc now) (vault_items s)
      in if old = [] then s
         else
           (let purged_max = Max (set (map vi_seq old))
            in update_account acc
                 (\<lambda>a. a\<lparr>ac_purged_before_seq := max (ac_purged_before_seq a) purged_max\<rparr>)
                 (s\<lparr>vault_items := delete_where (purgeable acc now) (vault_items s)\<rparr>)))"

definition checkpoint_json :: "env \<Rightarrow> account_row \<Rightarrow> (int \<times> text) option" where
  "checkpoint_json E a =
     (case (ac_checkpoint_seq a, ac_checkpoint_tag a) of
        (Some seq, Some tag) \<Rightarrow> Some (seq, e_b64_encode E tag)
      | _ \<Rightarrow> None)"

definition list_items :: "env \<Rightarrow> secs \<Rightarrow> auth_session \<Rightarrow> int \<Rightarrow> srv \<Rightarrow> list_reply reply" where
  "list_items E now au since s =
     (let acc = au_account_id au; s1 = purge_tombstones acc now s
      in case account_by_id s1 acc of
           None \<Rightarrow> (Inl Internal, s)
         | Some a \<Rightarrow>
             (let full_resync = (since > 0 \<and> since < ac_purged_before_seq a);
                  since' = (if full_resync then 0 else since);
                  rows = sort_key vi_seq
                    (filter (\<lambda>r. vi_account_id r = acc \<and> vi_seq r > since') (vault_items s1));
                  items = filter (\<lambda>i. \<not> (full_resync \<and> wi_deleted i)) (map (row_to_remote E) rows)
              in (Inr \<lparr>lr_items = items, lr_latest_seq = ac_sync_seq a, lr_full_resync = full_resync,
                       lr_checkpoint = checkpoint_json E a\<rparr>, s1)))"

definition get_checkpoint :: "env \<Rightarrow> auth_session \<Rightarrow> srv \<Rightarrow> (int \<times> text) option reply" where
  "get_checkpoint E au s =
     (Inr (Option.bind (account_by_id s (au_account_id au)) (checkpoint_json E)), s)"

definition put_checkpoint :: "env \<Rightarrow> auth_session \<Rightarrow> int \<Rightarrow> text \<Rightarrow> srv \<Rightarrow> unit reply" where
  "put_checkpoint E au seq tag64 s =
     (case e_b64_decode E tag64 of
        None \<Rightarrow> (Inl (BadRequest (lit ''tag must be base64url'')), s)
      | Some tag \<Rightarrow>
          if length tag \<noteq> 32 then (Inl (BadRequest (lit ''tag must be 32 bytes'')), s)
          else (Inr (), s\<lparr>accounts := update_where
                  (\<lambda>a. ac_id a = au_account_id au
                     \<and> (case ac_checkpoint_seq a of None \<Rightarrow> True | Some c \<Rightarrow> c < seq))
                  (\<lambda>a. a\<lparr>ac_checkpoint_seq := Some seq, ac_checkpoint_tag := Some tag\<rparr>)
                  (accounts s)\<rparr>))"

definition conflict_response :: "env \<Rightarrow> int \<Rightarrow> text \<Rightarrow> srv \<Rightarrow> write_reply" where
  "conflict_response E acc item_id s =
     Conflict_409 (map_option (row_to_remote E) (item_row_of s acc item_id))"

definition put_item ::
    "env \<Rightarrow> secs \<Rightarrow> auth_session \<Rightarrow> text \<Rightarrow> text \<Rightarrow> srv \<Rightarrow> write_reply reply" where
  "put_item E now au item_id body s =
     (case e_item_of_json E body of
        None \<Rightarrow> (Inl (BadRequest (e_json_error E body)), s)
      | Some envelope \<Rightarrow>
          if ei_item_id envelope \<noteq> item_id
          then (Inl (BadRequest (lit ''item_id mismatch with envelope'')), s)
          else if ei_revision envelope = 0 \<or> unat (ei_revision envelope) > 2 ^ 63 - 1
          then (Inl (BadRequest (lit ''revision must be >= 1'')), s)
          else if str_len body > MAX_CONTENT_BYTES
          then (Inl (BadRequest (lit ''item too large'')), s)
          else
            (let acc = au_account_id au;
                 new_revision = as_i64 (ei_revision envelope);
                 current = item_row_of s acc item_id;
                 current_revision = (case current of None \<Rightarrow> 0 | Some r \<Rightarrow> vi_revision r)
             in if new_revision \<noteq> current_revision + 1
                then (Inr (conflict_response E acc item_id s), s)
                else case next_seq acc s of
                       (None, _) \<Rightarrow> (Inl Internal, s)
                     | (Some seq, s1) \<Rightarrow>
                         (let fresh = \<lparr>vi_account_id = acc, vi_item_id = item_id,
                                vi_revision = new_revision, vi_seq = seq, vi_deleted = False,
                                vi_content = Some body, vi_updated_at = now\<rparr>;
                              s2 = s1\<lparr>vault_items := upsert_where (is_item acc item_id)
                                (\<lambda>r. r\<lparr>vi_revision := new_revision, vi_seq := seq,
                                      vi_deleted := False, vi_content := Some body,
                                      vi_updated_at := now\<rparr>) fresh (vault_items s1)\<rparr>
                          in (Inr (Written item_id new_revision (Some seq) False),
                              notify acc seq s2))))"

definition delete_item ::
    "env \<Rightarrow> secs \<Rightarrow> auth_session \<Rightarrow> text \<Rightarrow> int \<Rightarrow> srv \<Rightarrow> write_reply reply" where
  "delete_item E now au item_id base_revision s =
     (let acc = au_account_id au
      in case item_row_of s acc item_id of
           None \<Rightarrow> (Inl NotFound, s)
         | Some r \<Rightarrow>
             if vi_deleted r then (Inr (Written item_id (vi_revision r) None True), s)
             else if base_revision \<noteq> vi_revision r
             then (Inr (conflict_response E acc item_id s), s)
             else case next_seq acc s of
                    (None, _) \<Rightarrow> (Inl Internal, s)
                  | (Some seq, s1) \<Rightarrow>
                      (let new_revision = vi_revision r + 1;
                           s2 = s1\<lparr>vault_items := update_where (is_item acc item_id)
                             (\<lambda>r. r\<lparr>vi_revision := new_revision, vi_seq := seq,
                                   vi_deleted := True, vi_content := None, vi_updated_at := now\<rparr>)
                             (vault_items s1)\<rparr>
                       in (Inr (Written item_id new_revision None True), notify acc seq s2)))"

section \<open>The store invariant\<close>

text \<open>Keys are unique, every row belongs to an account and its sequence number is positive and
  at most the account's counter, the purge horizon never passes the counter, tombstones hold
  nothing and live rows hold an envelope of their own item.\<close>

definition row_ok :: "env \<Rightarrow> item_row \<Rightarrow> bool" where
  "row_ok E r \<longleftrightarrow> 1 \<le> vi_revision r \<and> 0 < vi_seq r
     \<and> (if vi_deleted r then vi_content r = None
        else \<exists>c e. vi_content r = Some c \<and> e_item_of_json E c = Some e \<and> ei_item_id e = vi_item_id r
               \<and> as_i64 (ei_revision e) = vi_revision r)"

definition items_ok :: "env \<Rightarrow> srv \<Rightarrow> bool" where
  "items_ok E s \<longleftrightarrow>
     distinct (map ac_id (accounts s))
     \<and> distinct (map (\<lambda>r. (vi_account_id r, vi_item_id r)) (vault_items s))
     \<and> (\<forall>r \<in> set (vault_items s). row_ok E r
          \<and> (\<exists>a \<in> set (accounts s). ac_id a = vi_account_id r \<and> vi_seq r \<le> ac_sync_seq a))
     \<and> (\<forall>a \<in> set (accounts s). 0 \<le> ac_purged_before_seq a \<and> ac_purged_before_seq a \<le> ac_sync_seq a)"

lemma find_item_unique:
  assumes "distinct (map (\<lambda>r. (vi_account_id r, vi_item_id r)) t)"
  shows "List.find (is_item acc i) t = Some r \<longleftrightarrow> r \<in> set t \<and> is_item acc i r"
proof
  show "List.find (is_item acc i) t = Some r \<Longrightarrow> r \<in> set t \<and> is_item acc i r" by (rule find_SomeD)
  show "r \<in> set t \<and> is_item acc i r \<Longrightarrow> List.find (is_item acc i) t = Some r"
    using assms by (intro find_unique[where k = "\<lambda>r. (vi_account_id r, vi_item_id r)"])
      (auto simp: is_item_def)
qed

lemma item_row_of_iff:
  "items_ok E s \<Longrightarrow> item_row_of s acc i = Some r \<longleftrightarrow> r \<in> set (vault_items s) \<and> is_item acc i r"
  by (simp add: items_ok_def item_row_of_def find_item_unique)

lemma account_by_id_iff:
  assumes "items_ok E s"
  shows "account_by_id s i = Some a \<longleftrightarrow> a \<in> set (accounts s) \<and> ac_id a = i"
proof
  show "account_by_id s i = Some a \<Longrightarrow> a \<in> set (accounts s) \<and> ac_id a = i" by (rule account_by_idD)
  show "a \<in> set (accounts s) \<and> ac_id a = i \<Longrightarrow> account_by_id s i = Some a"
    using assms unfolding account_by_id_def items_ok_def
    by (intro find_unique[where k = ac_id]) auto
qed

text \<open>What an accepted write does to the rows, stated once for both writes.\<close>

definition written :: "int \<Rightarrow> text \<Rightarrow> item_row \<Rightarrow> srv \<Rightarrow> srv \<Rightarrow> bool" where
  "written acc item_id row s s' \<longleftrightarrow>
     is_item acc item_id row
     \<and> account_by_id s acc \<noteq> None
     \<and> vi_seq row = ac_sync_seq (the (account_by_id s acc)) + 1
     \<and> accounts s' = update_where (\<lambda>a. ac_id a = acc) (\<lambda>a. a\<lparr>ac_sync_seq := ac_sync_seq a + 1\<rparr>) (accounts s)
     \<and> (\<forall>acc' i'. item_row_of s' acc' i' =
          (if acc' = acc \<and> i' = item_id then Some row else item_row_of s acc' i'))
     \<and> set (vault_items s') = insert row {r \<in> set (vault_items s). \<not> is_item acc item_id r}
     \<and> distinct (map (\<lambda>r. (vi_account_id r, vi_item_id r)) (vault_items s'))"

lemma find_upsert:
  assumes "distinct (map (\<lambda>r. (vi_account_id r, vi_item_id r)) t)"
    and "\<And>r. vi_account_id (f r) = vi_account_id r \<and> vi_item_id (f r) = vi_item_id r"
    and "is_item acc i row" and "\<And>r. r \<in> set t \<Longrightarrow> is_item acc i r \<Longrightarrow> f r = row"
  defines "t' \<equiv> upsert_where (is_item acc i) f row t"
  shows "distinct (map (\<lambda>r. (vi_account_id r, vi_item_id r)) t')"
    and "set t' = insert row {r \<in> set t. \<not> is_item acc i r}"
    and "List.find (is_item acc' i') t' =
      (if acc' = acc \<and> i' = i then Some row else List.find (is_item acc' i') t)"
proof -
  let ?k = "\<lambda>r. (vi_account_id r, vi_item_id r)"
  show d: "distinct (map ?k t')"
    using assms(1-3) by (auto simp: t'_def upsert_where_def list_ex_iff is_item_def)
  show st: "set t' = insert row {r \<in> set t. \<not> is_item acc i r}"
    using assms(4) by (auto simp: t'_def upsert_where_def list_ex_iff set_update_where image_iff)
  show "List.find (is_item acc' i') t' =
      (if acc' = acc \<and> i' = i then Some row else List.find (is_item acc' i') t)"
  proof (cases "acc' = acc \<and> i' = i")
    case True
    then show ?thesis using find_item_unique[OF d, of acc i row] st assms(3) by simp
  next
    case False
    have "List.find (is_item acc' i') t' = Some r \<longleftrightarrow> List.find (is_item acc' i') t = Some r" for r
      using False assms(3) by (auto simp: find_item_unique[OF d] find_item_unique[OF assms(1)] st is_item_def)
    then have "List.find (is_item acc' i') t' = List.find (is_item acc' i') t"
      by (metis option.exhaust)
    with False show ?thesis by (simp only: if_False)
  qed
qed

text \<open>\<open>put_item\<close> on every branch.\<close>

definition put_valid :: "env \<Rightarrow> text \<Rightarrow> text \<Rightarrow> encrypted_item \<Rightarrow> bool" where
  "put_valid E item_id body e \<longleftrightarrow> e_item_of_json E body = Some e \<and> ei_item_id e = item_id
     \<and> 1 \<le> unat (ei_revision e) \<and> unat (ei_revision e) < 2 ^ 63 \<and> str_len body \<le> 524288"

lemma as_i64_small:
  assumes "unat w < 2 ^ 63"
  shows "as_i64 w = int (unat w)"
proof -
  have "int (unat w) < int (2 ^ 63)" using assms by (simp only: of_nat_less_iff)
  then have lt: "int (unat w) < 2 ^ 63" by simp
  have "- (2 ^ 63) \<le> int (unat w)" by (rule order_trans[of _ 0]) simp_all
  then have "signed_take_bit 63 (int (unat w)) = int (unat w)"
    using lt by (rule signed_take_bit_int_eq_self)
  moreover have "sint w = signed_take_bit 63 (int (unat w))"
    by (simp add: sint_uint)
  ultimately show ?thesis by (simp only: as_i64_def)
qed

lemma put_item_cases:
  assumes "items_ok E s"
  shows "(\<exists>m. put_item E now au item_id body s = (Inl (BadRequest m), s)
           \<and> (\<forall>e. \<not> put_valid E item_id body e))
    \<or> (\<exists>e. put_valid E item_id body e \<and>
        (let current = item_row_of s (au_account_id au) item_id;
             rev = (case current of None \<Rightarrow> 0 | Some r \<Rightarrow> vi_revision r)
         in if int (unat (ei_revision e)) \<noteq> rev + 1
            then put_item E now au item_id body s
                   = (Inr (Conflict_409 (map_option (row_to_remote E) current)), s)
            else if account_by_id s (au_account_id au) = None
            then put_item E now au item_id body s = (Inl Internal, s)
            else \<exists>row s'. put_item E now au item_id body s
                     = (Inr (Written item_id (rev + 1) (Some (vi_seq row)) False), s')
                   \<and> written (au_account_id au) item_id row s s'
                   \<and> vi_revision row = rev + 1 \<and> vi_content row = Some body
                   \<and> \<not> vi_deleted row \<and> vi_updated_at row = now))"
proof (cases "\<exists>e. put_valid E item_id body e")
  case False
  then show ?thesis
    by (auto simp: put_item_def put_valid_def MAX_CONTENT_BYTES_def unat_eq_0[symmetric] not_less
        not_le split: option.splits)
next
  case True
  then obtain e where e: "put_valid E item_id body e" by blast
  let ?acc = "au_account_id au" and ?cur = "item_row_of s (au_account_id au) item_id"
  let ?rev = "case ?cur of None \<Rightarrow> 0 | Some r \<Rightarrow> vi_revision r"
  have v: "e_item_of_json E body = Some e" "ei_item_id e = item_id" "ei_revision e \<noteq> 0"
    "\<not> unat (ei_revision e) > 2 ^ 63 - 1" "\<not> str_len body > MAX_CONTENT_BYTES"
    "as_i64 (ei_revision e) = int (unat (ei_revision e))"
    using e as_i64_small by (auto simp: put_valid_def MAX_CONTENT_BYTES_def)
  note step = put_item_def[of E now au item_id body s, unfolded v(1) option.case Let_def v(6)]
  consider "int (unat (ei_revision e)) \<noteq> ?rev + 1" | "int (unat (ei_revision e)) = ?rev + 1" "account_by_id s ?acc = None"
    | a where "int (unat (ei_revision e)) = ?rev + 1" "account_by_id s ?acc = Some a"
    by (cases "account_by_id s ?acc") auto
  then show ?thesis
  proof cases
    case 1
    then have "put_item E now au item_id body s
                   = (Inr (Conflict_409 (map_option (row_to_remote E) ?cur)), s)"
      unfolding step using v(2-5) by (simp add: conflict_response_def)
    with 1 e show ?thesis by (auto simp: Let_def)
  next
    case 2
    then have "put_item E now au item_id body s = (Inl Internal, s)"
      unfolding step using v(2-5) by (simp add: next_seq_def)
    with 2 e show ?thesis by (auto simp: Let_def)
  next
    case 3
    let ?seq = "ac_sync_seq a + 1"
    let ?row = "\<lparr>vi_account_id = ?acc, vi_item_id = item_id, vi_revision = ?rev + 1, vi_seq = ?seq,
      vi_deleted = False, vi_content = Some body, vi_updated_at = now\<rparr>"
    let ?f = "\<lambda>r. r\<lparr>vi_revision := ?rev + 1, vi_seq := ?seq, vi_deleted := False,
      vi_content := Some body, vi_updated_at := now\<rparr>"
    let ?s' = "notify ?acc ?seq ((update_account ?acc (\<lambda>a. a\<lparr>ac_sync_seq := ac_sync_seq a + 1\<rparr>) s)
      \<lparr>vault_items := upsert_where (is_item ?acc item_id) ?f ?row (vault_items s)\<rparr>)"
    have run: "put_item E now au item_id body s
        = (Inr (Written item_id (?rev + 1) (Some ?seq) False), ?s')"
      unfolding step using 3 v(2-5) by (simp add: next_seq_def)
    have d: "distinct (map (\<lambda>r. (vi_account_id r, vi_item_id r)) (vault_items s))"
      using assms by (simp add: items_ok_def)
    have up: "distinct (map (\<lambda>r. (vi_account_id r, vi_item_id r)) (vault_items ?s'))"
      "set (vault_items ?s') = insert ?row {r \<in> set (vault_items s). \<not> is_item ?acc item_id r}"
      "\<And>acc' i'. List.find (is_item acc' i') (vault_items ?s') = (if acc' = ?acc \<and> i' = item_id
         then Some ?row else List.find (is_item acc' i') (vault_items s))"
      using find_upsert[OF d, of ?f ?acc item_id ?row] by (auto simp: is_item_def)
    have "written ?acc item_id ?row s ?s'"
      using 3(2) up by (simp add: written_def item_row_of_def is_item_def update_account_def notify_def)
    with run have "\<exists>row s'. put_item E now au item_id body s
                     = (Inr (Written item_id (?rev + 1) (Some (vi_seq row)) False), s')
                   \<and> written ?acc item_id row s s'
                   \<and> vi_revision row = ?rev + 1 \<and> vi_content row = Some body
                   \<and> \<not> vi_deleted row \<and> vi_updated_at row = now"
      by (intro exI[of _ ?row] exI[of _ ?s']) simp
    with 3 e show ?thesis by (auto simp: Let_def)
  qed
qed

text \<open>\<open>delete_item\<close> on every branch.\<close>

lemma delete_item_cases:
  assumes "items_ok E s"
  shows "case item_row_of s (au_account_id au) item_id of
      None \<Rightarrow> delete_item E now au item_id base s = (Inl NotFound, s)
    | Some r \<Rightarrow>
        if vi_deleted r then delete_item E now au item_id base s
                              = (Inr (Written item_id (vi_revision r) None True), s)
        else if base \<noteq> vi_revision r
        then delete_item E now au item_id base s
               = (Inr (Conflict_409 (Some (row_to_remote E r))), s)
        else \<exists>row s'. delete_item E now au item_id base s
                     = (Inr (Written item_id (vi_revision r + 1) None True), s')
                   \<and> written (au_account_id au) item_id row s s'
                   \<and> vi_revision row = vi_revision r + 1 \<and> vi_content row = None
                   \<and> vi_deleted row \<and> vi_updated_at row = now"
proof (cases "item_row_of s (au_account_id au) item_id")
  case None
  then show ?thesis by (simp add: delete_item_def)
next
  case (Some r)
  let ?acc = "au_account_id au"
  have r: "r \<in> set (vault_items s)" "is_item ?acc item_id r"
    using Some item_row_of_iff[OF assms] by auto
  show ?thesis
  proof (cases "vi_deleted r \<or> base \<noteq> vi_revision r")
    case True
    with Some show ?thesis by (auto simp: delete_item_def conflict_response_def Let_def)
  next
    case False
    from r assms obtain a where a: "a \<in> set (accounts s)" "ac_id a = ?acc"
      unfolding items_ok_def is_item_def by auto
    then have acc: "account_by_id s ?acc = Some a" using account_by_id_iff[OF assms] by simp
    let ?seq = "ac_sync_seq a + 1"
    let ?f = "\<lambda>q. q\<lparr>vi_revision := vi_revision r + 1, vi_seq := ?seq, vi_deleted := True,
      vi_content := None, vi_updated_at := now\<rparr>"
    let ?row = "?f r"
    let ?s' = "notify ?acc ?seq ((update_account ?acc (\<lambda>a. a\<lparr>ac_sync_seq := ac_sync_seq a + 1\<rparr>) s)
      \<lparr>vault_items := update_where (is_item ?acc item_id) ?f (vault_items s)\<rparr>)"
    have run: "delete_item E now au item_id base s
        = (Inr (Written item_id (vi_revision r + 1) None True), ?s')"
      using False Some acc by (simp add: delete_item_def next_seq_def Let_def)
    have d: "distinct (map (\<lambda>r. (vi_account_id r, vi_item_id r)) (vault_items s))"
      using assms by (simp add: items_ok_def)
    have only: "q = r" if "q \<in> set (vault_items s)" "is_item ?acc item_id q" for q
      using that r find_item_unique[OF d, of ?acc item_id] by (metis option.inject)
    have up_eq: "update_where (is_item ?acc item_id) ?f (vault_items s)
        = upsert_where (is_item ?acc item_id) ?f ?row (vault_items s)"
      using r by (auto simp: upsert_where_def list_ex_iff)
    have up: "distinct (map (\<lambda>r. (vi_account_id r, vi_item_id r)) (vault_items ?s'))"
      "set (vault_items ?s') = insert ?row {q \<in> set (vault_items s). \<not> is_item ?acc item_id q}"
      "\<And>acc' i'. List.find (is_item acc' i') (vault_items ?s') = (if acc' = ?acc \<and> i' = item_id
         then Some ?row else List.find (is_item acc' i') (vault_items s))"
      using find_upsert[OF d, of ?f ?acc item_id ?row] r(2) only
      by (auto simp: is_item_def up_eq)
    have "written ?acc item_id ?row s ?s'"
      using acc up r(2) by (simp add: written_def item_row_of_def is_item_def update_account_def notify_def)
    with run have "\<exists>row s'. delete_item E now au item_id base s
                     = (Inr (Written item_id (vi_revision r + 1) None True), s')
                   \<and> written ?acc item_id row s s'
                   \<and> vi_revision row = vi_revision r + 1 \<and> vi_content row = None
                   \<and> vi_deleted row \<and> vi_updated_at row = now"
      by (intro exI[of _ ?row] exI[of _ ?s']) simp
    with Some False show ?thesis by simp
  qed
qed

lemma written_items_ok:
  assumes "items_ok E s" and "written acc i row s s'" and "row_ok E row"
  shows "items_ok E s'"
proof -
  from assms(2) obtain a where a: "account_by_id s acc = Some a" "vi_seq row = ac_sync_seq a + 1"
    unfolding written_def by auto
  have acs: "accounts s' = update_where (\<lambda>a. ac_id a = acc) (\<lambda>a. a\<lparr>ac_sync_seq := ac_sync_seq a + 1\<rparr>) (accounts s)"
    using assms(2) by (simp add: written_def)
  have am: "a \<in> set (accounts s)" "ac_id a = acc" using account_by_idD[OF a(1)] by simp_all
  have owner: "\<exists>b \<in> set (accounts s'). ac_id b = vi_account_id r \<and> vi_seq r \<le> ac_sync_seq b"
    if "r \<in> set (vault_items s')" for r
  proof (cases "r = row")
    case True
    have "a\<lparr>ac_sync_seq := ac_sync_seq a + 1\<rparr> \<in> set (accounts s')"
      using am by (auto simp: acs set_update_where)
    moreover have "vi_account_id row = acc" using assms(2) by (simp add: written_def is_item_def)
    ultimately show ?thesis using True a(2) am(2)
      by (intro bexI[of _ "a\<lparr>ac_sync_seq := ac_sync_seq a + 1\<rparr>"]) simp_all
  next
    case False
    then have "r \<in> set (vault_items s)" using that assms(2) by (auto simp: written_def)
    then obtain b where b: "b \<in> set (accounts s)" "ac_id b = vi_account_id r" "vi_seq r \<le> ac_sync_seq b"
      using assms(1) by (auto simp: items_ok_def)
    show ?thesis
    proof (cases "ac_id b = acc")
      case True
      then have "b\<lparr>ac_sync_seq := ac_sync_seq b + 1\<rparr> \<in> set (accounts s')"
        using b(1) by (auto simp: acs set_update_where)
      with b show ?thesis by (intro bexI[of _ "b\<lparr>ac_sync_seq := ac_sync_seq b + 1\<rparr>"]) simp_all
    next
      case False
      then have "b \<in> set (accounts s')" using b(1) by (auto simp: acs set_update_where)
      with b show ?thesis by blast
    qed
  qed
  have "\<forall>r \<in> set (vault_items s'). row_ok E r"
    using assms by (auto simp: written_def items_ok_def)
  moreover have "distinct (map ac_id (accounts s'))"
    using assms(1) by (simp add: acs items_ok_def)
  moreover have "\<forall>a \<in> set (accounts s'). 0 \<le> ac_purged_before_seq a \<and> ac_purged_before_seq a \<le> ac_sync_seq a"
    using assms(1) by (fastforce simp: acs items_ok_def set_update_where)
  ultimately show ?thesis using owner assms(2) unfolding items_ok_def written_def by blast
qed

text \<open>The lazy purge removes old tombstones only, and moves the horizon over them.\<close>

lemma purge_tombstones_laws:
  assumes "items_ok E s" and "s' = purge_tombstones acc now s"
  shows "items_ok E s'"
    and "item_row_of s' acc' i = (case item_row_of s acc' i of None \<Rightarrow> None
           | Some r \<Rightarrow> if purgeable acc now r then None else Some r)"
    and "account_by_id s acc' = Some a \<Longrightarrow> \<exists>h \<ge> ac_purged_before_seq a.
           account_by_id s' acc' = Some (a\<lparr>ac_purged_before_seq := h\<rparr>)
           \<and> (acc' \<noteq> acc \<longrightarrow> h = ac_purged_before_seq a)
           \<and> (acc' = acc \<longrightarrow> (\<forall>r \<in> set (vault_items s). purgeable acc now r \<longrightarrow> vi_seq r \<le> h))"
    and "account_by_id s acc' = None \<Longrightarrow> account_by_id s' acc' = None"
    and "set (vault_items s') = {r \<in> set (vault_items s). \<not> purgeable acc now r}"
proof -
  let ?old = "filter (purgeable acc now) (vault_items s)"
  let ?h = "\<lambda>a. if ?old = [] then ac_purged_before_seq a
                else max (ac_purged_before_seq a) (Max (set (map vi_seq ?old)))"
  have acs: "accounts s' = update_where (\<lambda>a. ac_id a = acc) (\<lambda>a. a\<lparr>ac_purged_before_seq := ?h a\<rparr>) (accounts s)"
  proof (cases "?old = []")
    case True
    have "update_where (\<lambda>a. ac_id a = acc) (\<lambda>a. a\<lparr>ac_purged_before_seq := ac_purged_before_seq a\<rparr>) t = t"
      for t :: "account_row list"
      by (induction t) simp_all
    from this[of "accounts s"] True show ?thesis by (simp add: assms(2) purge_tombstones_def)
  next
    case False
    then show ?thesis by (simp add: assms(2) purge_tombstones_def Let_def)
  qed
  have its: "vault_items s' = delete_where (purgeable acc now) (vault_items s)"
    by (auto simp: assms(2) purge_tombstones_def Let_def delete_where_def filter_empty_conv filter_id_conv)
  show set_its: "set (vault_items s') = {r \<in> set (vault_items s). \<not> purgeable acc now r}"
    by (simp add: its)
  have d: "distinct (map (\<lambda>r. (vi_account_id r, vi_item_id r)) (vault_items s))"
    using assms(1) by (simp add: items_ok_def)
  then have d': "distinct (map (\<lambda>r. (vi_account_id r, vi_item_id r)) (vault_items s'))"
    by (simp add: its delete_where_def distinct_map_filter)
  have id: "ac_id (a\<lparr>ac_purged_before_seq := ?h a\<rparr>) = ac_id a" for a by simp
  have by_id: "account_by_id s' j = (if acc = j then map_option (\<lambda>a. a\<lparr>ac_purged_before_seq := ?h a\<rparr>)
      (account_by_id s acc) else account_by_id s j)" for j
    using account_by_id_update[of "\<lambda>a. a\<lparr>ac_purged_before_seq := ?h a\<rparr>" acc s j] acs
    by (simp add: account_by_id_def update_account_def)
  show "account_by_id s acc' = None \<Longrightarrow> account_by_id s' acc' = None" by (auto simp: by_id)
  have cover: "vi_seq r \<le> ?h a" if "r \<in> set (vault_items s)" "purgeable acc now r" for r a
  proof -
    have "vi_seq r \<in> set (map vi_seq ?old)" using that by auto
    then have "vi_seq r \<le> Max (set (map vi_seq ?old))" by (intro Max_ge) auto
    moreover have "?old \<noteq> []" using that by (auto simp: filter_empty_conv)
    ultimately show ?thesis by simp
  qed
  show "\<exists>h \<ge> ac_purged_before_seq a. account_by_id s' acc' = Some (a\<lparr>ac_purged_before_seq := h\<rparr>)
           \<and> (acc' \<noteq> acc \<longrightarrow> h = ac_purged_before_seq a)
           \<and> (acc' = acc \<longrightarrow> (\<forall>r \<in> set (vault_items s). purgeable acc now r \<longrightarrow> vi_seq r \<le> h))"
    if "account_by_id s acc' = Some a"
  proof (cases "acc' = acc")
    case True
    then show ?thesis using that cover[of _ a] by (intro exI[of _ "?h a"]) (simp add: by_id)
  next
    case False
    then show ?thesis using that by (intro exI[of _ "ac_purged_before_seq a"]) (simp add: by_id)
  qed
  show "item_row_of s' acc' i = (case item_row_of s acc' i of None \<Rightarrow> None
           | Some r \<Rightarrow> if purgeable acc now r then None else Some r)"
  proof -
    have "item_row_of s' acc' i = Some r \<longleftrightarrow> item_row_of s acc' i = Some r \<and> \<not> purgeable acc now r" for r
      unfolding item_row_of_def find_item_unique[OF d] find_item_unique[OF d'] by (auto simp: set_its)
    then show ?thesis by (rule option_filter_eq)
  qed
  have hb: "?h a \<le> ac_sync_seq a" if "a \<in> set (accounts s)" "ac_id a = acc" for a
  proof -
    have le: "vi_seq r \<le> ac_sync_seq a" if "r \<in> set ?old" for r
    proof -
      from that have "r \<in> set (vault_items s)" "vi_account_id r = acc" by (auto simp: purgeable_def)
      then obtain b where "b \<in> set (accounts s)" "ac_id b = acc" "vi_seq r \<le> ac_sync_seq b"
        using assms(1) by (auto simp: items_ok_def)
      moreover from this have "b = a"
        using \<open>a \<in> set (accounts s)\<close> \<open>ac_id a = acc\<close> assms(1) by (auto simp: items_ok_def distinct_map inj_on_def)
      ultimately show ?thesis by simp
    qed
    have p: "ac_purged_before_seq a \<le> ac_sync_seq a" using that assms(1) by (simp add: items_ok_def)
    show ?thesis
    proof (cases "?old = []")
      case True
      with p show ?thesis by simp
    next
      case False
      from Max_map_le[OF False le] p False show ?thesis by (simp only: if_False max.bounded_iff simp_thms)
    qed
  qed
  have "\<forall>r \<in> set (vault_items s'). row_ok E r
          \<and> (\<exists>a \<in> set (accounts s'). ac_id a = vi_account_id r \<and> vi_seq r \<le> ac_sync_seq a)"
  proof
    fix r assume "r \<in> set (vault_items s')"
    then have r: "r \<in> set (vault_items s)" by (simp add: set_its)
    then obtain b where b: "b \<in> set (accounts s)" "ac_id b = vi_account_id r" "vi_seq r \<le> ac_sync_seq b"
      using assms(1) by (auto simp: items_ok_def)
    define b' where "b' = (if ac_id b = acc then b\<lparr>ac_purged_before_seq := ?h b\<rparr> else b)"
    have "b' \<in> set (accounts s')" "ac_id b' = ac_id b" "ac_sync_seq b' = ac_sync_seq b"
      using b(1) by (auto simp: b'_def acs set_update_where)
    with b r assms(1) show "row_ok E r
          \<and> (\<exists>a \<in> set (accounts s'). ac_id a = vi_account_id r \<and> vi_seq r \<le> ac_sync_seq a)"
      unfolding items_ok_def by metis
  qed
  moreover have "distinct (map ac_id (accounts s'))" using assms(1) by (simp add: acs items_ok_def)
  moreover have "\<forall>a \<in> set (accounts s'). 0 \<le> ac_purged_before_seq a \<and> ac_purged_before_seq a \<le> ac_sync_seq a"
  proof
    fix a assume "a \<in> set (accounts s')"
    then consider "a \<in> set (accounts s)" | b where "b \<in> set (accounts s)" "ac_id b = acc"
      "a = b\<lparr>ac_purged_before_seq := ?h b\<rparr>"
      by (auto simp: acs set_update_where)
    then show "0 \<le> ac_purged_before_seq a \<and> ac_purged_before_seq a \<le> ac_sync_seq a"
    proof cases
      case 1
      with assms(1) show ?thesis by (simp add: items_ok_def)
    next
      case (2 b)
      have "0 \<le> ac_purged_before_seq b" using 2(1) assms(1) by (simp add: items_ok_def)
      with hb[OF 2(1,2)] 2(3) show ?thesis by auto
    qed
  qed
  ultimately show "items_ok E s'" using d' unfolding items_ok_def by blast
qed

end
