(* ===== verification/Server_Items_Spec.thy ===== *)
theory Server_Items_Spec
  imports Server_Items
begin

text \<open>
  What \<open>routes/items.rs\<close> guarantees: exact delta pulls, optimistic concurrency, a store invariant
  kept by every request of every account, how the rows of one account evolve over any sequence of
  requests, and the monotone checkpoint.
\<close>

section \<open>Pulls\<close>

lemma list_items_spec:
  assumes "items_ok E s" and "account_by_id s (au_account_id au) = Some a"
  obtains h s1 rep where "list_items E now au since s = (Inr rep, s1)"
    and "s1 = purge_tombstones (au_account_id au) now s"
    and "account_by_id s1 (au_account_id au) = Some (a\<lparr>ac_purged_before_seq := h\<rparr>)"
    and "lr_latest_seq rep = ac_sync_seq a"
    and "lr_full_resync rep \<longleftrightarrow> 0 < since \<and> since < h"
    and "\<And>w. w \<in> set (lr_items rep) \<longleftrightarrow>
           (\<exists>r. item_row_of s1 (au_account_id au) (wi_item_id w) = Some r \<and> w = row_to_remote E r
              \<and> (if lr_full_resync rep then \<not> vi_deleted r else since < vi_seq r))"
    and "sorted (map wi_seq (lr_items rep))" and "distinct (map wi_item_id (lr_items rep))"
proof -
  let ?acc = "au_account_id au"
  define s1 where "s1 = purge_tombstones ?acc now s"
  obtain h where acc1: "account_by_id s1 ?acc = Some (a\<lparr>ac_purged_before_seq := h\<rparr>)"
    using purge_tombstones_laws(3)[OF assms(1) s1_def assms(2)] by blast
  have ok1: "items_ok E s1" by (rule purge_tombstones_laws(1)[OF assms(1) s1_def])
  define full where "full = (0 < since \<and> since < h)"
  define since' where "since' = (if full then 0 else since)"
  define rows where "rows = sort_key vi_seq
    (filter (\<lambda>r. vi_account_id r = ?acc \<and> vi_seq r > since') (vault_items s1))"
  define items where "items = filter (\<lambda>i. \<not> (full \<and> wi_deleted i)) (map (row_to_remote E) rows)"
  define rep where "rep = \<lparr>lr_items = items, lr_latest_seq = ac_sync_seq a, lr_full_resync = full,
    lr_checkpoint = checkpoint_json E (a\<lparr>ac_purged_before_seq := h\<rparr>)\<rparr>"
  have run: "list_items E now au since s = (Inr rep, s1)"
    by (simp add: list_items_def Let_def acc1 rep_def items_def rows_def since'_def full_def flip: s1_def)
      (auto intro!: filter_cong)
  have sel: "wi_item_id (row_to_remote E r) = vi_item_id r" "wi_seq (row_to_remote E r) = vi_seq r"
    "wi_deleted (row_to_remote E r) = vi_deleted r" for r
    by (simp_all add: row_to_remote_def)
  have d1: "distinct (map (\<lambda>r. (vi_account_id r, vi_item_id r)) (vault_items s1))"
    using ok1 by (simp add: items_ok_def)
  have pos: "0 < vi_seq r" if "r \<in> set (vault_items s1)" for r
    using that ok1 by (simp add: items_ok_def row_ok_def)
  have mem: "w \<in> set items \<longleftrightarrow>
           (\<exists>r. item_row_of s1 ?acc (wi_item_id w) = Some r \<and> w = row_to_remote E r
              \<and> (if full then \<not> vi_deleted r else since < vi_seq r))" for w
    using pos unfolding item_row_of_iff[OF ok1] items_def rows_def since'_def
    by (auto simp: sel is_item_def)
  have items_alt: "items = map (row_to_remote E) (filter (\<lambda>r. \<not> (full \<and> vi_deleted r)) rows)"
    by (simp add: items_def filter_map sel comp_def)
  have srt: "sorted (map wi_seq items)"
    by (simp add: items_alt sel comp_def rows_def sorted_filter)
  have "distinct (map (\<lambda>r. (vi_account_id r, vi_item_id r))
      (filter (\<lambda>r. vi_account_id r = ?acc \<and> vi_seq r > since') (vault_items s1)))"
    using d1 by (rule distinct_map_filter)
  then have "inj_on (\<lambda>r. (vi_account_id r, vi_item_id r)) (set rows)" "distinct rows"
    by (simp_all add: rows_def distinct_map)
  then have "inj_on vi_item_id (set rows)" by (auto simp: inj_on_def rows_def)
  with \<open>distinct rows\<close> have "distinct (map wi_item_id items)"
    by (simp add: items_alt sel comp_def distinct_map inj_on_def)
  then show thesis
    using that[OF run s1_def acc1] mem srt full_def by (simp add: rep_def)
qed

section \<open>Requests that leave the items alone\<close>

text \<open>A request of any other part of the server changes accounts only outside the item
  bookkeeping.\<close>

lemma account_by_id_map:
  assumes "accounts s' = map f (accounts s)" and "\<And>a. ac_id (f a) = ac_id a"
  shows "account_by_id s' i = map_option f (account_by_id s i)"
proof -
  have "List.find (\<lambda>a. ac_id a = i) (map f t) = map_option f (List.find (\<lambda>a. ac_id a = i) t)" for t
    by (induction t) (auto simp: assms(2))
  then show ?thesis by (simp add: account_by_id_def assms(1))
qed

lemma items_ok_frame:
  assumes "items_ok E s" and "vault_items s' = vault_items s" and "accounts s' = map f (accounts s)"
    and "\<And>a. ac_id (f a) = ac_id a" and "\<And>a. ac_sync_seq (f a) = ac_sync_seq a"
    and "\<And>a. ac_purged_before_seq (f a) = ac_purged_before_seq a"
  shows "items_ok E s'"
proof -
  have "\<exists>a \<in> set (accounts s'). ac_id a = vi_account_id r \<and> vi_seq r \<le> ac_sync_seq a"
    if r: "r \<in> set (vault_items s)" for r
  proof -
    obtain a where "a \<in> set (accounts s)" "ac_id a = vi_account_id r" "vi_seq r \<le> ac_sync_seq a"
      using assms(1) r by (auto simp: items_ok_def)
    then show ?thesis by (intro bexI[of _ "f a"]) (simp_all add: assms)
  qed
  moreover have "map ac_id (accounts s') = map ac_id (accounts s)" by (simp add: assms)
  moreover have "\<forall>a \<in> set (accounts s'). 0 \<le> ac_purged_before_seq a \<and> ac_purged_before_seq a \<le> ac_sync_seq a"
    using assms(1) by (simp add: assms(3,5,6) items_ok_def)
  ultimately show ?thesis using assms(1) unfolding items_ok_def assms(2) by simp
qed

section \<open>Well-formed writes\<close>

definition stored_revision :: "srv \<Rightarrow> int \<Rightarrow> text \<Rightarrow> int" where
  "stored_revision s acc i = (case item_row_of s acc i of None \<Rightarrow> 0 | Some r \<Rightarrow> vi_revision r)"

lemma put_item_valid:
  assumes "items_ok E s" and "put_valid E i body e"
  shows "if int (unat (ei_revision e)) \<noteq> stored_revision s (au_account_id au) i + 1
            then put_item E now au i body s
                   = (Inr (Conflict_409 (map_option (row_to_remote E) (item_row_of s (au_account_id au) i))), s)
            else if account_by_id s (au_account_id au) = None
            then put_item E now au i body s = (Inl Internal, s)
            else \<exists>row s'. put_item E now au i body s
                     = (Inr (Written i (stored_revision s (au_account_id au) i + 1) (Some (vi_seq row)) False), s')
                   \<and> written (au_account_id au) i row s s'
                   \<and> vi_revision row = stored_revision s (au_account_id au) i + 1 \<and> vi_content row = Some body
                   \<and> \<not> vi_deleted row \<and> vi_updated_at row = now"
proof -
  have same: "e' = e" if "put_valid E i body e'" for e'
    using that assms(2) by (simp add: put_valid_def)
  from put_item_cases[OF assms(1), of now au i body] show ?thesis
  proof (elim disjE exE conjE)
    fix m assume "\<forall>e. \<not> put_valid E i body e"
    with assms(2) show ?thesis by blast
  next
    fix e' assume "put_valid E i body e'"
    then have e': "e' = e" by (rule same)
    assume "let current = item_row_of s (au_account_id au) i;
             rev = (case current of None \<Rightarrow> 0 | Some r \<Rightarrow> vi_revision r)
         in if int (unat (ei_revision e')) \<noteq> rev + 1
            then put_item E now au i body s
                   = (Inr (Conflict_409 (map_option (row_to_remote E) current)), s)
            else if account_by_id s (au_account_id au) = None
            then put_item E now au i body s = (Inl Internal, s)
            else \<exists>row s'. put_item E now au i body s
                     = (Inr (Written i (rev + 1) (Some (vi_seq row)) False), s')
                   \<and> written (au_account_id au) i row s s'
                   \<and> vi_revision row = rev + 1 \<and> vi_content row = Some body
                   \<and> \<not> vi_deleted row \<and> vi_updated_at row = now"
    then show ?thesis unfolding Let_def e' stored_revision_def .
  qed
qed

lemma put_item_accept:
  assumes "items_ok E s" and "put_valid E i body e" and "account_by_id s (au_account_id au) = Some a"
    and "int (unat (ei_revision e)) = stored_revision s (au_account_id au) i + 1"
  obtains row s' where "put_item E now au i body s
        = (Inr (Written i (int (unat (ei_revision e))) (Some (vi_seq row)) False), s')"
    and "written (au_account_id au) i row s s'"
    and "vi_revision row = int (unat (ei_revision e))" and "vi_content row = Some body"
    and "\<not> vi_deleted row" and "vi_updated_at row = now"
  using put_item_valid[OF assms(1,2), of au now] assms(3,4) by auto

lemma put_item_refuse:
  assumes "items_ok E s" and "put_valid E i body e"
    and "int (unat (ei_revision e)) \<noteq> stored_revision s (au_account_id au) i + 1"
  shows "put_item E now au i body s
    = (Inr (Conflict_409 (map_option (row_to_remote E) (item_row_of s (au_account_id au) i))), s)"
  using put_item_valid[OF assms(1,2), of au now] assms(3) by simp

lemma written_account:
  assumes "written acc i row s s'" and "account_by_id s acc = Some a"
  shows "account_by_id s' acc = Some (a\<lparr>ac_sync_seq := ac_sync_seq a + 1\<rparr>)"
    and "vi_seq row = ac_sync_seq a + 1"
  using assms account_by_id_update[of "\<lambda>a. a\<lparr>ac_sync_seq := ac_sync_seq a + 1\<rparr>" acc s acc]
  by (simp_all add: written_def account_by_id_def update_account_def)

lemma written_rows:
  "written acc i row s s' \<Longrightarrow>
   item_row_of s' acc' i' = (if acc' = acc \<and> i' = i then Some row else item_row_of s acc' i')"
  by (simp add: written_def)

section \<open>Sequences of requests\<close>

inductive items_step :: "env \<Rightarrow> srv \<Rightarrow> srv \<Rightarrow> bool" for E where
  step_list: "list_items E now au since s = (r, s') \<Longrightarrow> items_step E s s'"
| step_put: "put_item E now au item_id body s = (r, s') \<Longrightarrow> items_step E s s'"
| step_delete: "delete_item E now au item_id base s = (r, s') \<Longrightarrow> items_step E s s'"
| step_checkpoint: "put_checkpoint E au seq tag s = (r, s') \<Longrightarrow> items_step E s s'"

inductive_simps items_step_iff: "items_step E s s'"

text \<open>How one account's part of the store changes over time.\<close>

definition items_evolve :: "int \<Rightarrow> srv \<Rightarrow> srv \<Rightarrow> bool" where
  "items_evolve acc s s' \<longleftrightarrow> (\<exists>a a'. account_by_id s acc = Some a \<and> account_by_id s' acc = Some a'
     \<and> ac_sync_seq a \<le> ac_sync_seq a' \<and> ac_purged_before_seq a \<le> ac_purged_before_seq a'
     \<and> (\<forall>i. case item_row_of s' acc i of
          Some r' \<Rightarrow> item_row_of s acc i = Some r' \<or> ac_sync_seq a < vi_seq r'
        | None \<Rightarrow> (case item_row_of s acc i of None \<Rightarrow> True
                   | Some r \<Rightarrow> (vi_deleted r \<and> vi_seq r \<le> ac_purged_before_seq a')
                             \<or> ac_sync_seq a < ac_purged_before_seq a')))"

lemma items_evolve_refl: "account_by_id s acc = Some a \<Longrightarrow> items_evolve acc s s"
  by (auto simp: items_evolve_def split: option.splits)

lemma items_evolve_frame:
  assumes "account_by_id s acc = Some a" and "vault_items s' = vault_items s"
    and "accounts s' = map f (accounts s)"
    and "\<And>a. ac_id (f a) = ac_id a" and "\<And>a. ac_sync_seq (f a) = ac_sync_seq a"
    and "\<And>a. ac_purged_before_seq (f a) = ac_purged_before_seq a"
  shows "items_evolve acc s s'"
  using account_by_id_map[of s' f s acc] assms
  by (auto simp: items_evolve_def item_row_of_def split: option.splits)

lemma items_evolve_rowD:
  assumes "items_evolve acc s s'" and "account_by_id s acc = Some a"
    and "account_by_id s' acc = Some a'"
  shows "item_row_of s' acc i = Some r' \<Longrightarrow> item_row_of s acc i = Some r' \<or> ac_sync_seq a < vi_seq r'"
    and "item_row_of s' acc i = None \<Longrightarrow> item_row_of s acc i = Some r \<Longrightarrow>
         (vi_deleted r \<and> vi_seq r \<le> ac_purged_before_seq a') \<or> ac_sync_seq a < ac_purged_before_seq a'"
    and "ac_sync_seq a \<le> ac_sync_seq a'" and "ac_purged_before_seq a \<le> ac_purged_before_seq a'"
  using assms unfolding items_evolve_def by (auto split: option.splits dest!: spec[of _ i])

lemma items_evolve_trans:
  assumes "items_evolve acc s s'" and "items_evolve acc s' s''"
  shows "items_evolve acc s s''"
proof -
  obtain a a' a'' where a: "account_by_id s acc = Some a" "account_by_id s' acc = Some a'"
    "account_by_id s'' acc = Some a''"
    using assms by (auto simp: items_evolve_def)
  note e1 = items_evolve_rowD[OF assms(1) a(1,2)] and e2 = items_evolve_rowD[OF assms(2) a(2,3)]
  have "case item_row_of s'' acc i of
          Some r' \<Rightarrow> item_row_of s acc i = Some r' \<or> ac_sync_seq a < vi_seq r'
        | None \<Rightarrow> (case item_row_of s acc i of None \<Rightarrow> True
                   | Some r \<Rightarrow> (vi_deleted r \<and> vi_seq r \<le> ac_purged_before_seq a'')
                             \<or> ac_sync_seq a < ac_purged_before_seq a'')" for i
  proof (cases "item_row_of s'' acc i")
    case (Some r'')
    with e2(1)[of i r''] e1(1)[of i r''] e1(3) show ?thesis by auto
  next
    case None
    show ?thesis
    proof (cases "item_row_of s acc i")
      case None
      with \<open>item_row_of s'' acc i = None\<close> show ?thesis by simp
    next
      case (Some r)
      show ?thesis
      proof (cases "item_row_of s' acc i")
        case None
        with e1(2)[OF None Some] e2(4) Some \<open>item_row_of s'' acc i = None\<close> show ?thesis by auto
      next
        fix r' assume r': "item_row_of s' acc i = Some r'"
        from e2(2)[OF \<open>item_row_of s'' acc i = None\<close> r'] e1(1)[OF r'] e1(3) Some
          \<open>item_row_of s'' acc i = None\<close>
        show ?thesis by auto
      qed
    qed
  qed
  then show ?thesis using a e1(3,4) e2(3,4) unfolding items_evolve_def by fastforce
qed

lemma written_evolve:
  assumes "items_ok E s" and "written acc i row s s'" and "account_by_id s acc' = Some a"
  shows "items_evolve acc' s s'"
proof -
  have by_id: "account_by_id s' acc' = (if acc = acc' then map_option
      (\<lambda>a. a\<lparr>ac_sync_seq := ac_sync_seq a + 1\<rparr>) (account_by_id s acc) else account_by_id s acc')"
    using account_by_id_update[of "\<lambda>a. a\<lparr>ac_sync_seq := ac_sync_seq a + 1\<rparr>" acc s acc'] assms(2)
    by (simp add: written_def account_by_id_def update_account_def)
  have rows: "item_row_of s' acc' j = (if acc' = acc \<and> j = i then Some row else item_row_of s acc' j)" for j
    using assms(2) by (simp add: written_def)
  show ?thesis
  proof (cases "acc' = acc")
    case True
    then have lt: "ac_sync_seq a < vi_seq row" using assms(2,3) by (simp add: written_def)
    have "account_by_id s' acc' = Some (a\<lparr>ac_sync_seq := ac_sync_seq a + 1\<rparr>)"
      and "item_row_of s' acc' j = (if j = i then Some row else item_row_of s acc' j)" for j
      using True assms(3) by_id rows[of j] by simp_all
    with lt assms(3) show ?thesis
      by (auto simp: items_evolve_def split: option.splits)
  next
    case False
    with assms(3) show ?thesis by (auto simp: items_evolve_def by_id rows split: option.splits)
  qed
qed

lemma written_laws:
  assumes "items_ok E s" and "written acc i row s s'" and "row_ok E row"
  shows "items_ok E s' \<and> (\<forall>acc a. account_by_id s acc = Some a \<longrightarrow> items_evolve acc s s')"
  using written_items_ok[OF assms] written_evolve[OF assms(1,2)] by blast

lemma purge_evolve:
  assumes "items_ok E s" and "s' = purge_tombstones acc now s" and "account_by_id s acc' = Some a"
  shows "items_evolve acc' s s'"
proof -
  note laws = purge_tombstones_laws[OF assms(1,2)]
  obtain h where h: "ac_purged_before_seq a \<le> h" "account_by_id s' acc' = Some (a\<lparr>ac_purged_before_seq := h\<rparr>)"
    "acc' \<noteq> acc \<longrightarrow> h = ac_purged_before_seq a"
    "acc' = acc \<longrightarrow> (\<forall>r \<in> set (vault_items s). purgeable acc now r \<longrightarrow> vi_seq r \<le> h)"
    using laws(3)[OF assms(3)] by blast
  have "vi_deleted r \<and> vi_seq r \<le> h" if "item_row_of s acc' i = Some r" "item_row_of s' acc' i = None" for i r
  proof -
    have "purgeable acc now r" using that laws(2)[of acc' i] by (auto split: if_splits)
    moreover have "r \<in> set (vault_items s)" "vi_account_id r = acc'"
      using that(1) item_row_of_iff[OF assms(1)] by (auto simp: is_item_def)
    ultimately show ?thesis using h(4) by (auto simp: purgeable_def)
  qed
  moreover have "item_row_of s acc' i = Some r" if "item_row_of s' acc' i = Some r" for i r
    using that laws(2)[of acc' i] by (auto split: option.splits if_splits)
  ultimately show ?thesis using assms(3) h(1,2)
    unfolding items_evolve_def by (auto split: option.splits)
qed

lemma put_item_row_ok:
  assumes "put_valid E item_id body e" and "vi_content row = Some body" and "\<not> vi_deleted row"
    and "vi_item_id row = item_id" and "vi_revision row = int (unat (ei_revision e))" and "0 < vi_seq row"
  shows "row_ok E row"
proof -
  have "1 \<le> vi_revision row" using assms(1,5) unfolding put_valid_def by linarith
  moreover have "as_i64 (ei_revision e) = vi_revision row"
    using assms(1,5) as_i64_small unfolding put_valid_def by metis
  ultimately show ?thesis using assms by (auto simp: row_ok_def put_valid_def)
qed

lemma sync_seq_nonneg: "items_ok E s \<Longrightarrow> account_by_id s acc = Some a \<Longrightarrow> 0 \<le> ac_sync_seq a"
  using account_by_idD unfolding items_ok_def by fastforce

lemma items_step_laws:
  assumes "items_step E s s'" and "items_ok E s"
  shows "items_ok E s' \<and> (\<forall>acc a. account_by_id s acc = Some a \<longrightarrow> items_evolve acc s s')"
  using assms(1)
proof cases
  case (step_list now au since r)
  show ?thesis
  proof (cases "account_by_id s (au_account_id au)")
    case None
    then have "account_by_id (purge_tombstones (au_account_id au) now s) (au_account_id au) = None"
      by (rule purge_tombstones_laws(4)[OF assms(2) refl])
    then have "s' = s" using step_list by (simp add: list_items_def Let_def)
    with assms(2) items_evolve_refl show ?thesis by blast
  next
    case (Some a)
    obtain rep where "list_items E now au since s = (Inr rep, purge_tombstones (au_account_id au) now s)"
      by (rule list_items_spec[OF assms(2) Some]) blast
    then have s': "s' = purge_tombstones (au_account_id au) now s" using step_list by simp
    have "items_ok E s'" by (rule purge_tombstones_laws(1)[OF assms(2) s'])
    moreover have "items_evolve acc s s'" if "account_by_id s acc = Some a" for acc a
      by (rule purge_evolve[OF assms(2) s' that])
    ultimately show ?thesis by blast
  qed
next
  case (step_put now au item_id body r)
  from put_item_cases[OF assms(2), of now au item_id body] step_put
  consider "s' = s" | e row where "put_valid E item_id body e" "written (au_account_id au) item_id row s s'"
    "vi_content row = Some body" "\<not> vi_deleted row" "vi_revision row = int (unat (ei_revision e))"
    by (auto simp: Let_def split: if_splits)
  then show ?thesis
  proof cases
    case 1
    with assms(2) items_evolve_refl show ?thesis by blast
  next
    case (2 e row)
    have "vi_item_id row = item_id" using 2(2) by (simp add: written_def is_item_def)
    moreover have "0 < vi_seq row"
      using 2(2) sync_seq_nonneg[OF assms(2)] by (fastforce simp: written_def)
    ultimately have "row_ok E row" using put_item_row_ok[OF 2(1,3,4)] 2(5) by blast
    from written_laws[OF assms(2) 2(2) this] show ?thesis .
  qed
next
  case (step_delete now au item_id base r)
  from delete_item_cases[OF assms(2), of now au item_id base] step_delete
  consider "s' = s" | q row where "item_row_of s (au_account_id au) item_id = Some q"
    "written (au_account_id au) item_id row s s'" "vi_revision row = vi_revision q + 1"
    "vi_content row = None" "vi_deleted row"
    by (auto split: option.splits if_splits)
  then show ?thesis
  proof cases
    case 1
    with assms(2) items_evolve_refl show ?thesis by blast
  next
    case (2 q row)
    have "0 < vi_seq row"
      using 2(2) sync_seq_nonneg[OF assms(2)] by (fastforce simp: written_def)
    moreover have "1 \<le> vi_revision q"
      using 2(1) item_row_of_iff[OF assms(2)] assms(2) by (auto simp: items_ok_def row_ok_def)
    ultimately have "row_ok E row" using 2 by (simp add: row_ok_def)
    from written_laws[OF assms(2) 2(2) this] show ?thesis .
  qed
next
  case (step_checkpoint au seq tag r)
  show ?thesis
  proof (cases "s' = s")
    case True
    with assms(2) items_evolve_refl show ?thesis by blast
  next
    case False
    obtain P t where s': "s' = s\<lparr>accounts := update_where P
        (\<lambda>a. a\<lparr>ac_checkpoint_seq := Some seq, ac_checkpoint_tag := Some t\<rparr>) (accounts s)\<rparr>"
      using step_checkpoint False by (auto simp: put_checkpoint_def split: option.splits if_splits)
    let ?f = "\<lambda>a. if P a then a\<lparr>ac_checkpoint_seq := Some seq, ac_checkpoint_tag := Some t\<rparr> else a"
    have acs: "accounts s' = map ?f (accounts s)" by (simp add: s' update_where_def)
    have keep: "ac_id (?f a) = ac_id a" "ac_sync_seq (?f a) = ac_sync_seq a"
      "ac_purged_before_seq (?f a) = ac_purged_before_seq a" for a by simp_all
    have its: "vault_items s' = vault_items s" by (simp add: s')
    note fr = its acs keep
    have ok: "items_ok E s'" by (rule items_ok_frame[OF assms(2) fr])
    have "items_evolve acc s s'" if "account_by_id s acc = Some a" for acc a
      by (rule items_evolve_frame[OF that fr])
    with ok show ?thesis by blast
  qed
qed

lemma items_steps_laws:
  assumes "(items_step E)\<^sup>*\<^sup>* s s'" and "items_ok E s"
  shows "items_ok E s' \<and> (\<forall>acc a. account_by_id s acc = Some a \<longrightarrow> items_evolve acc s s')"
  using assms(1)
proof (induction rule: rtranclp_induct)
  case base
  with assms(2) items_evolve_refl show ?case by blast
next
  case (step s1 s2)
  have ok1: "items_ok E s1" using step.IH by simp
  have "items_evolve acc s s2" if "account_by_id s acc = Some a" for acc a
  proof -
    have e: "items_evolve acc s s1" using that step.IH by blast
    then obtain a1 where "account_by_id s1 acc = Some a1" by (auto simp: items_evolve_def)
    then have "items_evolve acc s1 s2" using items_step_laws[OF step.hyps(2) ok1] by blast
    with e show ?thesis by (rule items_evolve_trans)
  qed
  with items_step_laws[OF step.hyps(2) ok1] show ?case by blast
qed

section \<open>Properties\<close>

lemma toy_items_ok [simp]: "items_ok toy_env toy_srv"
  by (simp add: items_ok_def toy_srv_def toy_account_def)

lemma toy_account_1 [simp]: "account_by_id toy_srv 1 = Some (toy_account 1 (lit ''a@b.c''))"
  by (simp add: account_by_id_def toy_srv_def toy_account_def)

definition toy_item :: "u64 \<Rightarrow> byte \<Rightarrow> encrypted_item" where
  "toy_item rv b = \<lparr>ei_version = 2, ei_item_id = lit ''i'', ei_revision = rv, ei_nonce = [1],
     ei_ciphertext = [b]\<rparr>"

lemma toy_put_valid: "rv = 1 \<or> rv = 2 \<Longrightarrow> put_valid toy_env (lit ''i'') (toy_item_to (toy_item rv b)) (toy_item rv b)"
proof -
  have "length (utf8_char c) \<le> 4" for c by (simp add: utf8_char_def)
  then have "str_len t \<le> 4 * length t" for t
    by (induction t) (auto simp: str_len_def as_bytes_def add_mono)
  from this[of "toy_item_to (toy_item rv b)"]
  have "str_len (toy_item_to (toy_item rv b)) \<le> 524288"
    by (simp add: toy_item_to_def toy_item_def)
  then show "rv = 1 \<or> rv = 2 \<Longrightarrow> put_valid toy_env (lit ''i'') (toy_item_to (toy_item rv b)) (toy_item rv b)"
    by (auto simp: put_valid_def toy_env_def toy_item_def)
qed

text \<open>Claim C18.  Optimistic concurrency of \<open>put_item\<close>: a well-formed write is accepted exactly when its
  revision is one more than the stored one (zero for no row).  An accepted write stores its body under
  the next sequence number of the account and touches no other item of any account; a refused one
  changes nothing and returns the current row.\<close>

theorem put_item_optimistic:
  assumes "items_ok E s" and "account_by_id s (au_account_id au) = Some a" and "put_valid E i body e"
  shows "if int (unat (ei_revision e)) = stored_revision s (au_account_id au) i + 1
       then \<exists>row s'. put_item E now au i body s
             = (Inr (Written i (int (unat (ei_revision e))) (Some (vi_seq row)) False), s')
         \<and> vi_content row = Some body \<and> vi_revision row = int (unat (ei_revision e)) \<and> \<not> vi_deleted row
         \<and> vi_seq row = ac_sync_seq a + 1
         \<and> account_by_id s' (au_account_id au) = Some (a\<lparr>ac_sync_seq := ac_sync_seq a + 1\<rparr>)
         \<and> (\<forall>acc' i'. item_row_of s' acc' i' =
              (if acc' = au_account_id au \<and> i' = i then Some row else item_row_of s acc' i'))
       else put_item E now au i body s
             = (Inr (Conflict_409 (map_option (row_to_remote E) (item_row_of s (au_account_id au) i))), s)"
proof (cases "int (unat (ei_revision e)) = stored_revision s (au_account_id au) i + 1")
  case True
  obtain row s' where r: "put_item E now au i body s
        = (Inr (Written i (int (unat (ei_revision e))) (Some (vi_seq row)) False), s')"
    "written (au_account_id au) i row s s'" "vi_revision row = int (unat (ei_revision e))"
    "vi_content row = Some body" "\<not> vi_deleted row"
    by (rule put_item_accept[OF assms(1,3,2) True])
  from written_account[OF r(2) assms(2)] written_rows[OF r(2)] r True show ?thesis
    by (intro if_P[THEN iffD2, OF True] exI[of _ row] exI[of _ s']) auto
next
  case False
  with put_item_refuse[OF assms(1,3) False] show ?thesis by simp
qed

lemma toy_item_row [simp]: "item_row_of toy_srv acc i = None" "stored_revision toy_srv acc i = 0"
  by (simp_all add: stored_revision_def item_row_of_def toy_srv_def)

lemma toy_item_sel [simp]: "ei_revision (toy_item r b) = r"
  by (simp add: toy_item_def)

lemma toy_auth_account [simp]: "au_account_id toy_auth = 1"
  by (simp add: toy_auth_def)

theorem put_item_optimistic_witness:
  "(\<exists>s'. put_item toy_env 5 toy_auth (lit ''i'') (toy_item_to (toy_item 1 7)) toy_srv
     = (Inr (Written (lit ''i'') 1 (Some 1) False), s'))
   \<and> put_item toy_env 5 toy_auth (lit ''i'') (toy_item_to (toy_item 2 7)) toy_srv
     = (Inr (Conflict_409 None), toy_srv)"
proof -
  have acc: "account_by_id toy_srv (au_account_id toy_auth) = Some (toy_account 1 (lit ''a@b.c''))"
    by simp
  have seq: "ac_sync_seq (toy_account 1 (lit ''a@b.c'')) = 0" by (simp add: toy_account_def)
  from put_item_optimistic[OF toy_items_ok acc toy_put_valid[of 1 7], of 5]
    put_item_optimistic[OF toy_items_ok acc toy_put_valid[of 2 7], of 5] seq
  show ?thesis by auto
qed



text \<open>Deletes are optimistic too and idempotent: an unknown item is 404, a tombstone answers
  success and changes nothing, a stale base is refused with the current row and changes nothing, and only
  a delete of the current revision leaves a content-free tombstone, one revision and one sequence number
  later.\<close>

lemma delete_item_optimistic:
  assumes "items_ok E s" and "account_by_id s (au_account_id au) = Some a"
  shows "case item_row_of s (au_account_id au) i of
      None \<Rightarrow> delete_item E now au i base s = (Inl NotFound, s)
    | Some r \<Rightarrow>
        if vi_deleted r then delete_item E now au i base s = (Inr (Written i (vi_revision r) None True), s)
        else if base \<noteq> vi_revision r
        then delete_item E now au i base s = (Inr (Conflict_409 (Some (row_to_remote E r))), s)
        else \<exists>row s'. delete_item E now au i base s = (Inr (Written i (vi_revision r + 1) None True), s')
               \<and> vi_deleted row \<and> vi_content row = None \<and> vi_revision row = vi_revision r + 1
               \<and> vi_seq row = ac_sync_seq a + 1
               \<and> (\<forall>acc' i'. item_row_of s' acc' i' =
                    (if acc' = au_account_id au \<and> i' = i then Some row else item_row_of s acc' i'))"
proof (cases "item_row_of s (au_account_id au) i")
  case None
  with delete_item_cases[OF assms(1), of now au i base] show ?thesis by simp
next
  case (Some r)
  show ?thesis
  proof (cases "vi_deleted r \<or> base \<noteq> vi_revision r")
    case True
    with Some delete_item_cases[OF assms(1), of now au i base] show ?thesis by auto
  next
    case False
    with Some delete_item_cases[OF assms(1), of now au i base] obtain row s' where
      "delete_item E now au i base s = (Inr (Written i (vi_revision r + 1) None True), s')"
      "written (au_account_id au) i row s s'" "vi_revision row = vi_revision r + 1"
      "vi_content row = None" "vi_deleted row"
      by auto
    with written_account(2)[OF this(2) assms(2)] written_rows[OF this(2)] Some False
    show ?thesis by auto
  qed
qed

text \<open>Claim C19.  A pull is an exact delta.  It returns, in sequence order and once each, precisely the
  account's rows changed after the client's cursor, tombstones included, with the account's current
  counter; a client behind the purge horizon gets precisely the live rows instead, and only such a
  client does.\<close>

theorem list_items_exact:
  assumes "items_ok E s" and "account_by_id s (au_account_id au) = Some a"
  shows "\<exists>rep s' h. list_items E now au since s = (Inr rep, s')
    \<and> account_by_id s' (au_account_id au) = Some (a\<lparr>ac_purged_before_seq := h\<rparr>)
    \<and> lr_latest_seq rep = ac_sync_seq a
    \<and> (lr_full_resync rep \<longleftrightarrow> 0 < since \<and> since < h)
    \<and> (\<forall>w. w \<in> set (lr_items rep) \<longleftrightarrow>
         (\<exists>r. item_row_of s' (au_account_id au) (wi_item_id w) = Some r \<and> w = row_to_remote E r
            \<and> (if lr_full_resync rep then \<not> vi_deleted r else since < vi_seq r)))
    \<and> sorted (map wi_seq (lr_items rep)) \<and> distinct (map wi_item_id (lr_items rep))"
  by (rule list_items_spec[OF assms, of now since]) blast

theorem list_items_exact_witness:
  "\<exists>rep s'. list_items toy_env 9 toy_auth 0 toy_srv = (Inr rep, s') \<and> lr_latest_seq rep = 0
    \<and> \<not> lr_full_resync rep"
proof -
  have acc: "account_by_id toy_srv (au_account_id toy_auth) = Some (toy_account 1 (lit ''a@b.c''))"
    by simp
  have "ac_sync_seq (toy_account 1 (lit ''a@b.c'')) = 0" by (simp add: toy_account_def)
  with list_items_exact[OF toy_items_ok acc, of 9 0] show ?thesis by auto
qed


definition toy_dead :: item_row where
  "toy_dead = \<lparr>vi_account_id = 1, vi_item_id = lit ''d'', vi_revision = 2, vi_seq = 2, vi_deleted = True,
     vi_content = None, vi_updated_at = 0\<rparr>"

definition toy_srv_dead :: srv where
  "toy_srv_dead = toy_srv\<lparr>accounts := [(toy_account 1 (lit ''a@b.c''))\<lparr>ac_sync_seq := 2\<rparr>],
     vault_items := [toy_dead]\<rparr>"


text \<open>Whatever sequence of pulls, writes, deletes and checkpoints any accounts issue, the store
  stays well formed (unique keys, positive sequence numbers within the account's counter, tombstones
  without content, live rows with an envelope of their own item and revision, the horizon within the
  counter), and each account's rows only ever change by taking a sequence number above the counter or by
  a purge below the horizon.\<close>

lemma items_history:
  assumes "(items_step E)\<^sup>*\<^sup>* s s'" and "items_ok E s"
  shows "items_ok E s' \<and> (\<forall>acc a. account_by_id s acc = Some a \<longrightarrow> items_evolve acc s s')"
  by (rule items_steps_laws[OF assms])

text \<open>The stored checkpoint is monotone: a well-formed checkpoint replaces the stored one just
  when its sequence number is higher (or none is stored), tag and number together, for the caller's
  account only; a malformed tag changes nothing.\<close>

lemma checkpoint_monotone:
  assumes "account_by_id s acc = Some a"
  shows "\<exists>s'. put_checkpoint E au seq tag64 s =
      (case e_b64_decode E tag64 of
         None \<Rightarrow> Inl (BadRequest (lit ''tag must be base64url''))
       | Some tag \<Rightarrow> if length tag = 32 then Inr () else Inl (BadRequest (lit ''tag must be 32 bytes'')), s')
    \<and> account_by_id s' acc = Some
        (case e_b64_decode E tag64 of
           Some tag \<Rightarrow> if length tag = 32 \<and> acc = au_account_id au
               \<and> (ac_checkpoint_seq a = None \<or> the (ac_checkpoint_seq a) < seq)
             then a\<lparr>ac_checkpoint_seq := Some seq, ac_checkpoint_tag := Some tag\<rparr> else a
         | None \<Rightarrow> a)
    \<and> vault_items s' = vault_items s"
proof (cases "\<exists>tag. e_b64_decode E tag64 = Some tag \<and> length tag = 32")
  case False
  with assms show ?thesis by (auto simp: put_checkpoint_def split: option.splits)
next
  case True
  then obtain tag where tag: "e_b64_decode E tag64 = Some tag" "length tag = 32" by blast
  let ?P = "\<lambda>a. ac_id a = au_account_id au \<and> (case ac_checkpoint_seq a of None \<Rightarrow> True | Some c \<Rightarrow> c < seq)"
  let ?f = "\<lambda>a. if ?P a then a\<lparr>ac_checkpoint_seq := Some seq, ac_checkpoint_tag := Some tag\<rparr> else a"
  let ?s' = "s\<lparr>accounts := update_where ?P
      (\<lambda>a. a\<lparr>ac_checkpoint_seq := Some seq, ac_checkpoint_tag := Some tag\<rparr>) (accounts s)\<rparr>"
  have run: "put_checkpoint E au seq tag64 s = (Inr (), ?s')" using tag by (simp add: put_checkpoint_def)
  have "accounts ?s' = map ?f (accounts s)" by (simp add: update_where_def)
  then have "account_by_id ?s' acc = Some (?f a)"
    using account_by_id_map[of ?s' ?f s acc] assms by simp
  moreover have "ac_id a = acc" using account_by_idD[OF assms] by simp
  ultimately show ?thesis using run tag
    by (intro exI[of _ ?s']) (auto split: option.splits)
qed

end
