(* ===== verification/Sync_Types.thy ===== *)
theory Sync_Types
  imports Item_Crypt "HOL-Library.List_Lexorder"
begin

text \<open>
  vault-sync \<open>types.rs\<close>: the wire and queue types, the transport interface and the
  \<open>LocalVault\<close> interface.  A Rust trait is a record of its methods; what an implementation
  promises is the locale \<open>local_vault\<close>.  Revisions and sequence numbers are \<open>i64\<close>: they are
  integers here, and the one cast from \<open>u64\<close> (\<open>revision as i64\<close>) is \<open>as_i64\<close>.
\<close>

section \<open>Data\<close>

record remote_item =
  ri_item_id :: "text"
  ri_revision :: int
  ri_seq :: int
  ri_deleted :: bool
  ri_content :: "encrypted_item option"

record pull_response =
  pr_items :: "remote_item list"
  pr_latest_seq :: int
  pr_full_resync :: bool

datatype pending_op = Upsert encrypted_item | Delete "text" int

fun op_item_id :: "pending_op \<Rightarrow> text" where
  "op_item_id (Upsert item) = ei_item_id item"
| "op_item_id (Delete item_id base) = item_id"

datatype push_outcome = Accepted int int | Conflicted "remote_item option"

record conflict =
  cf_item_id :: "text"
  cf_losing_op :: pending_op
  cf_server_state :: "remote_item option"

record sync_report =
  sr_pulled :: nat
  sr_pushed :: nat
  sr_conflicts :: "conflict list"
  sr_full_resync :: bool

definition empty_report :: sync_report where
  "empty_report = \<lparr>sr_pulled = 0, sr_pushed = 0, sr_conflicts = [], sr_full_resync = False\<rparr>"

datatype transport_error = Network "text" | Rejected "text"

text \<open>\<open>SyncTransport\<close>: each call may change the state \<open>'t\<close> behind it (connection, server).\<close>

record 't transport =
  t_pull :: "'t \<Rightarrow> int \<Rightarrow> (transport_error + pull_response) \<times> 't"
  t_upsert :: "'t \<Rightarrow> encrypted_item \<Rightarrow> (transport_error + push_outcome) \<times> 't"
  t_delete :: "'t \<Rightarrow> text \<Rightarrow> int \<Rightarrow> (transport_error + push_outcome) \<times> 't"

record stored_item =
  si_item_id :: "text"
  si_revision :: int
  si_deleted :: bool
  si_content :: "encrypted_item option"

record 'v vault_ops =
  vo_last_seq :: "'v \<Rightarrow> int"
  vo_set_last_seq :: "'v \<Rightarrow> int \<Rightarrow> 'v"
  vo_get :: "'v \<Rightarrow> text \<Rightarrow> stored_item option"
  vo_list :: "'v \<Rightarrow> stored_item list"
  vo_apply_remote :: "'v \<Rightarrow> remote_item \<Rightarrow> 'v"
  vo_clear_items :: "'v \<Rightarrow> 'v"
  vo_stage :: "'v \<Rightarrow> pending_op \<Rightarrow> 'v"
  vo_pending_ops :: "'v \<Rightarrow> pending_op list"
  vo_pop_front_op :: "'v \<Rightarrow> 'v"

section \<open>What a local vault promises\<close>

text \<open>The stored form of a remote item, and of a local edit.\<close>

definition stored_of :: "remote_item \<Rightarrow> stored_item" where
  "stored_of r = \<lparr>si_item_id = ri_item_id r, si_revision = ri_revision r,
                   si_deleted = ri_deleted r, si_content = ri_content r\<rparr>"

fun staged :: "pending_op \<Rightarrow> stored_item" where
  "staged (Upsert e) = \<lparr>si_item_id = ei_item_id e, si_revision = as_i64 (ei_revision e),
                         si_deleted = False, si_content = Some e\<rparr>"
| "staged (Delete i b) = \<lparr>si_item_id = i, si_revision = b + 1, si_deleted = True,
                           si_content = None\<rparr>"

lemma si_item_id_staged [simp]: "si_item_id (staged op) = op_item_id op"
  by (cases op) simp_all

lemma stored_of_sel [simp]:
  "si_item_id (stored_of r) = ri_item_id r" "si_revision (stored_of r) = ri_revision r"
  "si_deleted (stored_of r) = ri_deleted r" "si_content (stored_of r) = ri_content r"
  by (simp_all add: stored_of_def)

text \<open>\<open>wf\<close> is the implementation's own invariant.  Each law says what one method does to the
  three things a replica holds: its items, its queue and its cursor.\<close>

locale local_vault =
  fixes V :: "'v vault_ops" and wf :: "'v \<Rightarrow> bool"
  assumes wf_set_last_seq: "wf v \<Longrightarrow> wf (vo_set_last_seq V v s)"
    and wf_apply_remote: "wf v \<Longrightarrow> wf (vo_apply_remote V v r)"
    and wf_clear_items: "wf v \<Longrightarrow> wf (vo_clear_items V v)"
    and wf_stage: "wf v \<Longrightarrow> wf (vo_stage V v p)"
    and wf_pop: "wf v \<Longrightarrow> wf (vo_pop_front_op V v)"
    and last_seq_set: "wf v \<Longrightarrow> vo_last_seq V (vo_set_last_seq V v s) = s"
    and last_seq_apply: "wf v \<Longrightarrow> vo_last_seq V (vo_apply_remote V v r) = vo_last_seq V v"
    and last_seq_clear: "wf v \<Longrightarrow> vo_last_seq V (vo_clear_items V v) = vo_last_seq V v"
    and last_seq_stage: "wf v \<Longrightarrow> vo_last_seq V (vo_stage V v p) = vo_last_seq V v"
    and last_seq_pop: "wf v \<Longrightarrow> vo_last_seq V (vo_pop_front_op V v) = vo_last_seq V v"
    and get_set: "wf v \<Longrightarrow> vo_get V (vo_set_last_seq V v s) = vo_get V v"
    and get_apply: "wf v \<Longrightarrow> vo_get V (vo_apply_remote V v r)
                      = (vo_get V v)(ri_item_id r \<mapsto> stored_of r)"
    and get_clear: "wf v \<Longrightarrow> vo_get V (vo_clear_items V v) = Map.empty"
    and get_stage: "wf v \<Longrightarrow> vo_get V (vo_stage V v p) = (vo_get V v)(op_item_id p \<mapsto> staged p)"
    and get_pop: "wf v \<Longrightarrow> vo_get V (vo_pop_front_op V v) = vo_get V v"
    and get_id: "wf v \<Longrightarrow> vo_get V v i = Some st \<Longrightarrow> si_item_id st = i"
    and pending_set: "wf v \<Longrightarrow> vo_pending_ops V (vo_set_last_seq V v s) = vo_pending_ops V v"
    and pending_apply: "wf v \<Longrightarrow> vo_pending_ops V (vo_apply_remote V v r) = vo_pending_ops V v"
    and pending_clear: "wf v \<Longrightarrow> vo_pending_ops V (vo_clear_items V v) = vo_pending_ops V v"
    and pending_stage: "wf v \<Longrightarrow> vo_pending_ops V (vo_stage V v p) = vo_pending_ops V v @ [p]"
    and pending_pop: "wf v \<Longrightarrow> vo_pending_ops V (vo_pop_front_op V v) = tl (vo_pending_ops V v)"
    and set_list: "wf v \<Longrightarrow> st \<in> set (vo_list V v) \<longleftrightarrow> vo_get V v (si_item_id st) = Some st"
    and sorted_list: "wf v \<Longrightarrow> sorted (map si_item_id (vo_list V v))
                        \<and> distinct (map si_item_id (vo_list V v))"
begin

lemmas wf_laws [simp] = wf_set_last_seq wf_apply_remote wf_clear_items wf_stage wf_pop
lemmas seq_laws [simp] = last_seq_set last_seq_apply last_seq_clear last_seq_stage last_seq_pop
lemmas get_laws [simp] = get_set get_apply get_clear get_stage get_pop
lemmas pending_laws [simp] =
  pending_set pending_apply pending_clear pending_stage pending_pop

lemma list_stage_other:
  assumes "wf v" and "si_item_id st \<noteq> op_item_id p"
  shows "st \<in> set (vo_list V (vo_stage V v p)) \<longleftrightarrow> st \<in> set (vo_list V v)"
  using assms by (simp add: set_list)

end

end
