(* ===== verification/Sync_Engine.thy ===== *)
theory Sync_Engine
  imports Sync_Types "HOL-Library.Sublist"
begin

text \<open>
  vault-sync \<open>engine.rs\<close>: one sync cycle, pull, merge, push, over any vault and any transport.
  The push loop runs until the queue is empty, so it is a partial function; that it always
  returns is \<open>push_loop_total\<close> below (each round pops one op).
\<close>

section \<open>The cycle\<close>

datatype sync_engine_error = Transport transport_error | RollbackDetected int int

type_synonym ('v, 't) sync_result = "(sync_engine_error + sync_report) \<times> 'v \<times> 't"

fun apply_pulled ::
    "'v vault_ops \<Rightarrow> text list \<Rightarrow> remote_item list \<Rightarrow> 'v \<Rightarrow> sync_report \<Rightarrow> 'v \<times> sync_report" where
  "apply_pulled V dirty [] v rep = (v, rep)"
| "apply_pulled V dirty (item # items) v rep =
     (if ri_item_id item \<in> set dirty then apply_pulled V dirty items v rep
      else apply_pulled V dirty items (vo_apply_remote V v item)
             (rep\<lparr>sr_pulled := sr_pulled rep + 1\<rparr>))"

definition push_op :: "'t transport \<Rightarrow> 't \<Rightarrow> pending_op \<Rightarrow> (transport_error + push_outcome) \<times> 't" where
  "push_op T t op =
     (case op of
        Upsert envelope \<Rightarrow> t_upsert T t envelope
      | Delete item_id base_revision \<Rightarrow> t_delete T t item_id base_revision)"

definition settle ::
    "'v vault_ops \<Rightarrow> 'v \<Rightarrow> pending_op \<Rightarrow> push_outcome \<Rightarrow> sync_report \<Rightarrow> 'v \<times> sync_report" where
  "settle V v op outcome rep =
     (case outcome of
        Accepted revision seq \<Rightarrow>
          (case vo_get V v (op_item_id op) of
             None \<Rightarrow> v
           | Some stored \<Rightarrow>
               vo_apply_remote V v \<lparr>ri_item_id = si_item_id stored, ri_revision = revision,
                 ri_seq = seq, ri_deleted = si_deleted stored, ri_content = si_content stored\<rparr>,
           rep\<lparr>sr_pushed := sr_pushed rep + 1\<rparr>)
      | Conflicted current \<Rightarrow>
          (case current of
             Some remote \<Rightarrow> vo_apply_remote V v remote
           | None \<Rightarrow>
               (case vo_get V v (op_item_id op) of
                  None \<Rightarrow> v
                | Some stored \<Rightarrow>
                    vo_apply_remote V v \<lparr>ri_item_id = si_item_id stored,
                      ri_revision = si_revision stored, ri_seq = vo_last_seq V v,
                      ri_deleted = True, ri_content = None\<rparr>),
           rep\<lparr>sr_conflicts := sr_conflicts rep @
                 [\<lparr>cf_item_id = op_item_id op, cf_losing_op = op, cf_server_state = current\<rparr>]\<rparr>))"

partial_function (option) push_loop ::
    "'v vault_ops \<Rightarrow> 't transport \<Rightarrow> 'v \<Rightarrow> 't \<Rightarrow> sync_report \<Rightarrow> ('v, 't) sync_result option" where
  "push_loop V T v t rep =
     (case vo_pending_ops V v of
        [] \<Rightarrow> Some (Inr rep, v, t)
      | op # _ \<Rightarrow>
          (case push_op T t op of
             (Inl e, t') \<Rightarrow> Some (Inl (Transport e), v, t')
           | (Inr outcome, t') \<Rightarrow>
               push_loop V T (vo_pop_front_op V (fst (settle V v op outcome rep))) t'
                 (snd (settle V v op outcome rep))))"

definition sync :: "'v vault_ops \<Rightarrow> 't transport \<Rightarrow> 'v \<Rightarrow> 't \<Rightarrow> ('v, 't) sync_result option" where
  "sync V T v t =
     (let floor = vo_last_seq V v
      in case t_pull T t floor of
           (Inl e, t1) \<Rightarrow> Some (Inl (Transport e), v, t1)
         | (Inr pull, t1) \<Rightarrow>
             if pr_latest_seq pull < floor
             then Some (Inl (RollbackDetected floor (pr_latest_seq pull)), v, t1)
             else
               (let v1 = (if pr_full_resync pull then vo_clear_items V v else v);
                    rep1 = empty_report\<lparr>sr_full_resync := pr_full_resync pull\<rparr>;
                    dirty = map op_item_id (vo_pending_ops V v1);
                    (v2, rep2) = apply_pulled V dirty (pr_items pull) v1 rep1
                in case push_loop V T v2 t1 rep2 of
                     None \<Rightarrow> None
                   | Some (Inl e, v3, t2) \<Rightarrow> Some (Inl e, v3, t2)
                   | Some (Inr rep3, v3, t2) \<Rightarrow>
                       (case t_pull T t2 (pr_latest_seq pull) of
                          (Inl e, t3) \<Rightarrow> Some (Inl (Transport e), v3, t3)
                        | (Inr tail, t3) \<Rightarrow>
                            if pr_latest_seq tail < pr_latest_seq pull
                            then Some (Inl (RollbackDetected (pr_latest_seq pull)
                                              (pr_latest_seq tail)), v3, t3)
                            else if \<not> pr_full_resync tail
                            then Some (Inr rep3,
                                   vo_set_last_seq V (fold (\<lambda>item v. vo_apply_remote V v item)
                                     (pr_items tail) v3) (pr_latest_seq tail), t3)
                            else Some (Inr rep3,
                                   vo_set_last_seq V v3 (pr_latest_seq pull), t3))))"

section \<open>Facts for any vault and any transport\<close>

text \<open>The reports of one run: what happened to the operations \<open>ops\<close> that left the queue.
  Each was accepted or is in the report, in queue order, with its payload.\<close>

inductive settled :: "pending_op list \<Rightarrow> sync_report \<Rightarrow> sync_report \<Rightarrow> bool" where
  settled_Nil: "settled [] rep rep"
| settled_accept: "settled ops (rep\<lparr>sr_pushed := sr_pushed rep + 1\<rparr>) rep' \<Longrightarrow>
    settled (op # ops) rep rep'"
| settled_conflict: "settled ops (rep\<lparr>sr_conflicts := sr_conflicts rep @
      [\<lparr>cf_item_id = op_item_id op, cf_losing_op = op, cf_server_state = st\<rparr>]\<rparr>) rep' \<Longrightarrow>
    settled (op # ops) rep rep'"

lemma settled_count:
  "settled ops rep rep' \<Longrightarrow>
   sr_pushed rep' + length (sr_conflicts rep') = sr_pushed rep + length (sr_conflicts rep) + length ops
   \<and> sr_pulled rep' = sr_pulled rep \<and> sr_full_resync rep' = sr_full_resync rep"
  by (induction rule: settled.induct) auto

lemma settled_losing:
  "settled ops rep rep' \<Longrightarrow>
   \<exists>cs. sr_conflicts rep' = sr_conflicts rep @ cs \<and> subseq (map cf_losing_op cs) ops
     \<and> (\<forall>c \<in> set cs. cf_item_id c = op_item_id (cf_losing_op c))"
proof (induction rule: settled.induct)
  case (settled_conflict ops rep op st rep')
  then obtain cs where "sr_conflicts rep' = sr_conflicts rep @
      [\<lparr>cf_item_id = op_item_id op, cf_losing_op = op, cf_server_state = st\<rparr>] @ cs"
    "subseq (map cf_losing_op cs) ops" "\<forall>c \<in> set cs. cf_item_id c = op_item_id (cf_losing_op c)"
    by auto
  then show ?case
    by (intro exI[of _ "\<lparr>cf_item_id = op_item_id op, cf_losing_op = op, cf_server_state = st\<rparr> # cs"]) auto
qed auto

context local_vault
begin

lemma settle_laws:
  assumes "wf v" and "settle V v op outcome rep = (v', rep')"
  shows "wf v'" and "vo_last_seq V v' = vo_last_seq V v"
    and "vo_pending_ops V v' = vo_pending_ops V v"
    and "settled ops rep' rep'' \<Longrightarrow> settled (op # ops) rep rep''"
  using assms by (auto simp: settle_def intro: settled_accept settled_conflict
      split: push_outcome.splits option.splits)

lemma apply_pulled_laws:
  assumes "apply_pulled V dirty items v rep = (v', rep')" and "wf v"
  shows "wf v' \<and> vo_last_seq V v' = vo_last_seq V v \<and> vo_pending_ops V v' = vo_pending_ops V v
    \<and> sr_conflicts rep' = sr_conflicts rep \<and> sr_pushed rep' = sr_pushed rep
    \<and> sr_full_resync rep' = sr_full_resync rep
    \<and> sr_pulled rep' = sr_pulled rep + length (filter (\<lambda>r. ri_item_id r \<notin> set dirty) items)"
  using assms
proof (induction items arbitrary: v rep)
  case (Cons item items)
  show ?case
  proof (cases "ri_item_id item \<in> set dirty")
    case True
    with Cons.prems Cons.IH[of v rep] show ?thesis by simp
  next
    case False
    with Cons.prems Cons.IH[of "vo_apply_remote V v item" "rep\<lparr>sr_pulled := sr_pulled rep + 1\<rparr>"]
    show ?thesis by simp
  qed
qed simp

lemma apply_pulled_get:
  assumes "apply_pulled V dirty items v rep = (v', rep')" and "wf v"
  shows "vo_get V v' i = (if i \<in> set dirty then vo_get V v i
    else case List.find (\<lambda>r. ri_item_id r = i) (rev items) of
      None \<Rightarrow> vo_get V v i | Some r \<Rightarrow> Some (stored_of r))"
  using assms
proof (induction items arbitrary: v rep)
  case (Cons item items)
  have find_snoc: "List.find P (xs @ [x]) = (case List.find P xs of None \<Rightarrow> if P x then Some x else None
      | Some y \<Rightarrow> Some y)" for P and xs :: "remote_item list" and x
    by (induction xs) auto
  from Cons show ?case by (auto simp: find_snoc split: if_splits option.splits)
qed simp

lemma push_loop_total:
  "wf v \<Longrightarrow> \<exists>r. push_loop V T v t rep = Some r"
proof (induction "vo_pending_ops V v" arbitrary: v t rep)
  case Nil
  then show ?case by (subst push_loop.simps) (simp flip: Nil(1))
next
  case (Cons op ops)
  show ?case
  proof (cases "push_op T t op")
    case (Pair res t')
    show ?thesis
    proof (cases res)
      case (Inl e)
      with Pair show ?thesis by (subst push_loop.simps) (simp flip: Cons(2))
    next
      case (Inr outcome)
      obtain v' rep' where s: "settle V v op outcome rep = (v', rep')" by fastforce
      from settle_laws[OF Cons(3) s] Cons(2)[symmetric]
      have "ops = vo_pending_ops V (vo_pop_front_op V v')" "wf (vo_pop_front_op V v')" by simp_all
      from Cons(1)[OF this] obtain r where "push_loop V T (vo_pop_front_op V v') t' rep' = Some r" by blast
      with Pair Inr s show ?thesis by (subst push_loop.simps) (cases r, simp flip: Cons(2))
    qed
  qed
qed

text \<open>Whatever the server answers, the loop only shortens the queue from the front, keeps the
  cursor, and accounts for every operation it removed.\<close>

lemma push_loop_laws:
  assumes "wf v" and "push_loop V T v t rep = Some (res, v', t')"
  shows "wf v' \<and> vo_last_seq V v' = vo_last_seq V v
    \<and> (\<exists>done rep'. vo_pending_ops V v = done @ vo_pending_ops V v' \<and> settled done rep rep'
         \<and> (case res of Inr r \<Rightarrow> r = rep' \<and> vo_pending_ops V v' = []
            | Inl e \<Rightarrow> (\<exists>te. e = Transport te) \<and> vo_pending_ops V v' \<noteq> []))"
  using assms
proof (induction "vo_pending_ops V v" arbitrary: v t rep)
  case Nil
  from Nil(3) have "res = Inr rep" "v' = v"
    by (subst (asm) push_loop.simps, simp flip: Nil(1))+
  with Nil show ?case by (auto intro: settled_Nil)
next
  case (Cons op ops)
  obtain r t1 where p: "push_op T t op = (r, t1)" by fastforce
  show ?case
  proof (cases r)
    case (Inl e)
    from Cons(4) have "res = Inl (Transport e)" "v' = v"
      by (subst (asm) push_loop.simps, simp add: p Inl flip: Cons(2))+
    with Cons(2,3) show ?thesis by (auto intro!: exI[of _ "[]"] settled_Nil)
  next
    case (Inr outcome)
    obtain v1 rep1 where s: "settle V v op outcome rep = (v1, rep1)" by fastforce
    let ?v = "vo_pop_front_op V v1"
    have loop: "push_loop V T ?v t1 rep1 = Some (res, v', t')"
      using Cons(4) by (subst (asm) push_loop.simps) (simp add: p Inr s flip: Cons(2))
    from settle_laws(1-3)[OF Cons(3) s] Cons(2)[symmetric]
    have q: "ops = vo_pending_ops V ?v" and w: "wf ?v" and l: "vo_last_seq V ?v = vo_last_seq V v"
      by simp_all
    from Cons(1)[OF q w loop] obtain don rep' where IH: "wf v'" "vo_last_seq V v' = vo_last_seq V v"
      "ops = don @ vo_pending_ops V v'" "settled don rep1 rep'"
      "case res of Inr r \<Rightarrow> r = rep' \<and> vo_pending_ops V v' = []
            | Inl e \<Rightarrow> (\<exists>te. e = Transport te) \<and> vo_pending_ops V v' \<noteq> []"
      using q l by auto
    have "settled (op # don) rep rep'" by (rule settle_laws(4)[OF Cons(3) s IH(4)])
    moreover have "vo_pending_ops V v = (op # don) @ vo_pending_ops V v'"
      using Cons(2) IH(3) by simp
    ultimately show ?thesis using IH(1,2,5) by blast
  qed
qed

lemma fold_apply_laws:
  assumes "wf v"
  shows "wf (fold (\<lambda>item v. vo_apply_remote V v item) items v)
    \<and> vo_last_seq V (fold (\<lambda>item v. vo_apply_remote V v item) items v) = vo_last_seq V v
    \<and> vo_pending_ops V (fold (\<lambda>item v. vo_apply_remote V v item) items v) = vo_pending_ops V v"
  using assms by (induction items arbitrary: v) auto

text \<open>One whole cycle, whatever the transport answers: it returns, keeps the invariant, and never
  moves the cursor back; an error leaves the cursor where it was.  What left the queue is a
  prefix of it, and a successful cycle accounts for all of it.\<close>

lemma sync_total:
  assumes "wf v"
  shows "\<exists>r. sync V T v t = Some r"
proof -
  obtain r1 t1 where pull: "t_pull T t (vo_last_seq V v) = (r1, t1)" by fastforce
  show ?thesis
  proof (cases r1)
    case (Inr p)
    define v1 where "v1 = (if pr_full_resync p then vo_clear_items V v else v)"
    obtain v2 rep2 where a: "apply_pulled V (map op_item_id (vo_pending_ops V v1)) (pr_items p) v1
        (empty_report\<lparr>sr_full_resync := pr_full_resync p\<rparr>) = (v2, rep2)" by fastforce
    have "wf v2" using apply_pulled_laws[OF a] assms by (simp add: v1_def)
    from push_loop_total[OF this, of T t1 rep2]
    obtain x where "push_loop V T v2 t1 rep2 = Some x" by auto
    then show ?thesis
      by (cases x) (auto simp: sync_def pull Inr Let_def a[unfolded v1_def] split: sum.splits prod.splits)
  qed (simp add: sync_def pull)
qed

lemma sync_laws:
  assumes "wf v" and "sync V T v t = Some (res, v', t')"
  shows "wf v' \<and> vo_last_seq V v \<le> vo_last_seq V v'
    \<and> (\<exists>done. vo_pending_ops V v = done @ vo_pending_ops V v'
         \<and> (case res of
              Inl e \<Rightarrow> vo_last_seq V v' = vo_last_seq V v
            | Inr rep \<Rightarrow> vo_pending_ops V v' = []
                \<and> sr_pushed rep + length (sr_conflicts rep) = length done
                \<and> subseq (map cf_losing_op (sr_conflicts rep)) done
                \<and> (\<forall>c \<in> set (sr_conflicts rep). cf_item_id c = op_item_id (cf_losing_op c))))"
proof -
  let ?L = "vo_last_seq V v"
  obtain r1 t1 where pull: "t_pull T t ?L = (r1, t1)" by fastforce
  have stay: ?thesis if "v' = v" "\<exists>e. res = Inl e"
    using that assms(1) by (auto intro: exI[of _ "[]"])
  show ?thesis
  proof (cases r1)
    case (Inl e)
    then show ?thesis using assms(2) by (intro stay) (auto simp: sync_def pull)
  next
    case (Inr p)
    show ?thesis
    proof (cases "pr_latest_seq p < ?L")
      case True
      then show ?thesis using assms(2) Inr by (intro stay) (auto simp: sync_def pull)
    next
      case False
      define v1 where "v1 = (if pr_full_resync p then vo_clear_items V v else v)"
      obtain v2 rep2 where a: "apply_pulled V (map op_item_id (vo_pending_ops V v1)) (pr_items p) v1
        (empty_report\<lparr>sr_full_resync := pr_full_resync p\<rparr>) = (v2, rep2)" by fastforce
      have al: "wf v2" "vo_last_seq V v2 = ?L" "vo_pending_ops V v2 = vo_pending_ops V v"
        "sr_conflicts rep2 = []" "sr_pushed rep2 = 0"
        using apply_pulled_laws[OF a] assms(1) by (simp_all add: v1_def empty_report_def)
      obtain r3 v3 t2 where loop: "push_loop V T v2 t1 rep2 = Some (r3, v3, t2)"
        using push_loop_total[OF al(1)] by (metis prod_cases3)
      from push_loop_laws[OF al(1) loop] al obtain don rep' where l: "wf v3" "vo_last_seq V v3 = ?L"
        "vo_pending_ops V v = don @ vo_pending_ops V v3" "settled don rep2 rep'"
        "\<And>r. r3 = Inr r \<Longrightarrow> r = rep' \<and> vo_pending_ops V v3 = []" by (cases r3) auto
      have run: "sync V T v t = (case r3 of Inl e \<Rightarrow> Some (Inl e, v3, t2) | Inr rep3 \<Rightarrow>
        (case t_pull T t2 (pr_latest_seq p) of
           (Inl e, t3) \<Rightarrow> Some (Inl (Transport e), v3, t3)
         | (Inr tail, t3) \<Rightarrow>
             if pr_latest_seq tail < pr_latest_seq p
             then Some (Inl (RollbackDetected (pr_latest_seq p) (pr_latest_seq tail)), v3, t3)
             else if \<not> pr_full_resync tail
             then Some (Inr rep3, vo_set_last_seq V (fold (\<lambda>item v. vo_apply_remote V v item)
                          (pr_items tail) v3) (pr_latest_seq tail), t3)
             else Some (Inr rep3, vo_set_last_seq V v3 (pr_latest_seq p), t3)))"
        using False by (simp add: sync_def pull Inr Let_def a[unfolded v1_def] loop split: sum.splits)
      have fails: ?thesis if "v' = v3" "\<exists>e. res = Inl e"
        using that l by auto
      show ?thesis
      proof (cases r3)
        case (Inl e)
        then show ?thesis using run assms(2) by (intro fails) auto
      next
        case (Inr rep3)
        then have rep3: "rep3 = rep'" and q3: "vo_pending_ops V v3 = []" using l(5) by auto
        have acct: "sr_pushed rep' + length (sr_conflicts rep') = length don"
          "subseq (map cf_losing_op (sr_conflicts rep')) don"
          "\<forall>c \<in> set (sr_conflicts rep'). cf_item_id c = op_item_id (cf_losing_op c)"
          using settled_count[OF l(4)] settled_losing[OF l(4)] al by auto
        obtain r4 t3 where tail: "t_pull T t2 (pr_latest_seq p) = (r4, t3)" by fastforce
        have succ: ?thesis if "res = Inr rep'" "wf v'" "?L \<le> vo_last_seq V v'" "vo_pending_ops V v' = []"
          using that acct l(3) q3 by auto
        show ?thesis
        proof (cases r4)
          case (Inl e)
          then show ?thesis using run assms(2) Inr tail by (intro fails) auto
        next
          case (Inr tl)
          note eq = assms(2)[unfolded run \<open>r3 = Inr rep3\<close> tail Inr rep3, simplified]
          consider "pr_latest_seq tl < pr_latest_seq p"
            | "\<not> pr_latest_seq tl < pr_latest_seq p" "\<not> pr_full_resync tl"
            | "\<not> pr_latest_seq tl < pr_latest_seq p" "pr_full_resync tl" by blast
          then show ?thesis
          proof cases
            case 1
            with eq show ?thesis by (intro fails) auto
          next
            case 2
            with eq False fold_apply_laws[OF l(1), of "pr_items tl"] q3 show ?thesis
              by (intro succ) auto
          next
            case 3
            with eq False l(1) q3 show ?thesis by (intro succ) auto
          qed
        qed
      qed
    qed
  qed
qed

end

end
