(* ===== verification/Sync_Service.thy ===== *)
theory Sync_Service
  imports Sync_Engine
begin

text \<open>
  What the sync engine achieves against a server that keeps its contract, other devices writing
  at any time included.  The contract of the transport is the locale \<open>sync_service\<close>; with the
  contract of the vault it gives \<open>replica\<close>, where convergence is proved once.
\<close>

section \<open>Views\<close>

text \<open>What a user sees of an item: nothing, or a revision and its envelope.\<close>

definition live_view :: "'v vault_ops \<Rightarrow> 'v \<Rightarrow> text \<Rightarrow> (int \<times> encrypted_item option) option" where
  "live_view V v i =
     (case vo_get V v i of
        None \<Rightarrow> None
      | Some st \<Rightarrow> if si_deleted st then None else Some (si_revision st, si_content st))"

definition remote_live :: "remote_item option \<Rightarrow> (int \<times> encrypted_item option) option" where
  "remote_live r =
     (case r of
        None \<Rightarrow> None
      | Some r \<Rightarrow> if ri_deleted r then None else Some (ri_revision r, ri_content r))"

text \<open>How a server's rows change: by a write above the counter, or by a purge under the horizon.\<close>

definition rows_evolve ::
    "('t \<Rightarrow> text \<Rightarrow> remote_item option) \<Rightarrow> ('t \<Rightarrow> int) \<Rightarrow> ('t \<Rightarrow> int) \<Rightarrow> 't \<Rightarrow> 't \<Rightarrow> bool" where
  "rows_evolve rows ctr horizon t t' \<longleftrightarrow> ctr t \<le> ctr t' \<and> horizon t \<le> horizon t'
     \<and> (\<forall>i. case rows t' i of
          Some r \<Rightarrow> rows t i = Some r \<or> ctr t < ri_seq r
        | None \<Rightarrow> (case rows t i of None \<Rightarrow> True
                   | Some r \<Rightarrow> (ri_deleted r \<and> ri_seq r \<le> horizon t') \<or> ctr t < horizon t'))"

text \<open>The replica agrees with the server on an item as of sequence number \<open>S\<close>.\<close>

definition agree ::
    "'v vault_ops \<Rightarrow> ('t \<Rightarrow> text \<Rightarrow> remote_item option) \<Rightarrow> ('t \<Rightarrow> int) \<Rightarrow> int \<Rightarrow> 'v \<Rightarrow> 't \<Rightarrow> text \<Rightarrow> bool" where
  "agree V rows horizon S v t i \<longleftrightarrow>
     (case rows t i of
        None \<Rightarrow> live_view V v i = None \<or> S < horizon t
      | Some r \<Rightarrow> ri_seq r \<le> S \<longrightarrow> live_view V v i = remote_live (Some r))"

definition tomb ::
    "'v vault_ops \<Rightarrow> ('t \<Rightarrow> text \<Rightarrow> remote_item option) \<Rightarrow> int \<Rightarrow> 'v \<Rightarrow> 't \<Rightarrow> text \<Rightarrow> bool" where
  "tomb V rows S v t i \<longleftrightarrow>
     (\<forall>r. rows t i = Some r \<longrightarrow> ri_deleted r \<longrightarrow> ri_seq r \<le> S \<longrightarrow> live_view V v i = None)"

definition last_op :: "text \<Rightarrow> pending_op list \<Rightarrow> pending_op option" where
  "last_op i ops = List.find (\<lambda>op. op_item_id op = i) (rev ops)"

text \<open>The queue invariant: an item whose last queued edit deletes it is not shown.\<close>

definition queue_ok :: "'v vault_ops \<Rightarrow> 'v \<Rightarrow> bool" where
  "queue_ok V v \<longleftrightarrow> (\<forall>i b. last_op i (vo_pending_ops V v) = Some (Delete i b) \<longrightarrow> live_view V v i = None)"

definition dirty_ids :: "'v vault_ops \<Rightarrow> 'v \<Rightarrow> text set" where
  "dirty_ids V v = op_item_id ` set (vo_pending_ops V v)"

text \<open>The replica is a past state of the server, plus its queued edits.\<close>

definition synced ::
    "'v vault_ops \<Rightarrow> ('t \<Rightarrow> text \<Rightarrow> remote_item option) \<Rightarrow> ('t \<Rightarrow> int) \<Rightarrow> ('t \<Rightarrow> int) \<Rightarrow> 'v \<Rightarrow> 't \<Rightarrow> bool" where
  "synced V rows ctr horizon v t \<longleftrightarrow> vo_last_seq V v \<le> ctr t
     \<and> (\<forall>i. i \<notin> dirty_ids V v \<longrightarrow> agree V rows horizon (vo_last_seq V v) v t i)"

text \<open>A replica that never completed a sync shows only its own edits.\<close>

definition fresh_ok :: "'v vault_ops \<Rightarrow> 'v \<Rightarrow> bool" where
  "fresh_ok V v \<longleftrightarrow> (vo_last_seq V v \<le> 0 \<longrightarrow> (\<forall>i. i \<notin> dirty_ids V v \<longrightarrow> live_view V v i = None))"

lemma last_op_Cons:
  "last_op i (op # ops) = (case last_op i ops of Some q \<Rightarrow> Some q
     | None \<Rightarrow> if op_item_id op = i then Some op else None)"
proof -
  have app: "List.find P (xs @ [x]) = (case List.find P xs of None \<Rightarrow> if P x then Some x else None
      | Some y \<Rightarrow> Some y)" for P and xs :: "pending_op list" and x
    by (induction xs) auto
  show ?thesis by (auto simp: last_op_def app split: option.splits)
qed

lemma last_op_None: "last_op i ops = None \<longleftrightarrow> i \<notin> op_item_id ` set ops"
  by (auto simp: last_op_def find_None_iff_all)

lemma agree_mono: "agree V rows horizon S v t i \<Longrightarrow> S' \<le> S \<Longrightarrow> agree V rows horizon S' v t i"
  by (auto simp: agree_def split: option.splits)

lemma agree_evolve:
  assumes "rows_evolve rows ctr horizon t t'" and "S \<le> ctr t" and "agree V rows horizon S v t i"
  shows "agree V rows horizon S v t' i"
proof -
  have e: "horizon t \<le> horizon t'" "case rows t' i of
          Some r \<Rightarrow> rows t i = Some r \<or> ctr t < ri_seq r
        | None \<Rightarrow> (case rows t i of None \<Rightarrow> True
                   | Some r \<Rightarrow> (ri_deleted r \<and> ri_seq r \<le> horizon t') \<or> ctr t < horizon t')"
    using assms(1) by (auto simp: rows_evolve_def)
  show ?thesis
  proof (cases "rows t' i")
    case (Some r)
    with e(2) assms(2,3) show ?thesis by (auto simp: agree_def)
  next
    case None
    show ?thesis
    proof (cases "rows t i")
      case None
      with \<open>rows t' i = None\<close> e(1) assms(3) show ?thesis by (auto simp: agree_def)
    next
      case (Some r)
      with \<open>rows t' i = None\<close> e(2) have "(ri_deleted r \<and> ri_seq r \<le> horizon t') \<or> ctr t < horizon t'" by simp
      then show ?thesis using Some \<open>rows t' i = None\<close> assms(2,3)
        by (cases "ri_seq r \<le> S") (auto simp: agree_def remote_live_def)
    qed
  qed
qed

lemma tomb_evolve:
  assumes "rows_evolve rows ctr horizon t t'" and "S \<le> ctr t" and "tomb V rows S v t i"
  shows "tomb V rows S v t' i"
proof -
  have "case rows t' i of Some r \<Rightarrow> rows t i = Some r \<or> ctr t < ri_seq r | None \<Rightarrow> True"
    using assms(1) by (auto simp: rows_evolve_def split: option.splits)
  then show ?thesis using assms(2,3) by (auto simp: tomb_def split: option.splits)
qed

lemma agree_view: "live_view V v' i = live_view V v i \<Longrightarrow> agree V rows horizon S v' t i = agree V rows horizon S v t i"
  by (simp add: agree_def split: option.splits)

lemma tomb_view: "live_view V v' i = live_view V v i \<Longrightarrow> tomb V rows S v' t i = tomb V rows S v t i"
  by (simp add: tomb_def)

lemma agree_tomb: "agree V rows horizon S v t i \<Longrightarrow> tomb V rows S v t i"
  by (auto simp: agree_def tomb_def remote_live_def split: option.splits)

section \<open>The contract of the service\<close>

locale sync_service =
  fixes T :: "'t transport" and rows :: "'t \<Rightarrow> text \<Rightarrow> remote_item option"
    and ctr :: "'t \<Rightarrow> int" and horizon :: "'t \<Rightarrow> int" and ok :: "'t \<Rightarrow> bool"
  assumes ok_rows: "ok t \<Longrightarrow> rows t i = Some r \<Longrightarrow> ri_item_id r = i \<and> 0 < ri_seq r \<and> ri_seq r \<le> ctr t"
    and ok_top: "ok t \<Longrightarrow> 0 \<le> horizon t \<and> horizon t \<le> ctr t"
    and pull_ok: "ok t \<Longrightarrow> t_pull T t since = (pulled, t') \<Longrightarrow>
      ok t' \<and> rows_evolve rows ctr horizon t t'
      \<and> (\<forall>p. pulled = Inr p \<longrightarrow> pr_latest_seq p = ctr t'
            \<and> (pr_full_resync p \<longleftrightarrow> 0 < since \<and> since < horizon t')
            \<and> (\<forall>r. r \<in> set (pr_items p) \<longleftrightarrow> rows t' (ri_item_id r) = Some r
                 \<and> (if pr_full_resync p then \<not> ri_deleted r else since < ri_seq r)))"
    and upsert_ok: "ok t \<Longrightarrow> t_upsert T t e = (res, t') \<Longrightarrow>
      ok t' \<and> rows_evolve rows ctr horizon t t'
      \<and> (\<forall>n q. res = Inr (Accepted n q) \<longrightarrow>
            (\<exists>r. rows t' (ei_item_id e) = Some r \<and> ctr t < ri_seq r))
      \<and> (\<forall>c. res = Inr (Conflicted c) \<longrightarrow> rows t' (ei_item_id e) = c)"
    and delete_ok: "ok t \<Longrightarrow> t_delete T t i b = (res, t') \<Longrightarrow>
      ok t' \<and> rows_evolve rows ctr horizon t t'
      \<and> (\<forall>n q. res = Inr (Accepted n q) \<longrightarrow>
            (\<exists>r. rows t' i = Some r \<and> ri_deleted r))
      \<and> (\<forall>c. res = Inr (Conflicted c) \<longrightarrow> rows t' i = c)"
begin

lemma push_op_ok:
  assumes "ok t" and "push_op T t op = (res, t')"
  shows "ok t' \<and> rows_evolve rows ctr horizon t t'"
  using upsert_ok[OF assms(1)] delete_ok[OF assms(1)] assms(2)
  by (cases op) (auto simp: push_op_def)

lemma push_op_conflict:
  assumes "ok t" and "push_op T t op = (Inr (Conflicted c), t')"
  shows "rows t' (op_item_id op) = c"
  using upsert_ok[OF assms(1)] delete_ok[OF assms(1)] assms(2)
  by (cases op) (auto simp: push_op_def)

lemma push_op_accept:
  assumes "ok t" and "push_op T t op = (Inr (Accepted n q), t')"
  obtains r where "rows t' (op_item_id op) = Some r"
    and "ctr t < ri_seq r \<or> ((\<exists>i b. op = Delete i b) \<and> ri_deleted r)"
proof (cases op)
  case (Upsert e)
  with assms(2) have "t_upsert T t e = (Inr (Accepted n q), t')" by (simp add: push_op_def)
  from upsert_ok[OF assms(1) this] Upsert that show ?thesis by auto
next
  case (Delete i b)
  with assms(2) have "t_delete T t i b = (Inr (Accepted n q), t')" by (simp add: push_op_def)
  from delete_ok[OF assms(1) this] Delete that show ?thesis by auto
qed

end

section \<open>Convergence\<close>

locale replica = local_vault V wf + sync_service T rows ctr horizon ok
  for V :: "'v vault_ops" and wf and T :: "'t transport" and rows and ctr and horizon and ok
begin

abbreviation "ag \<equiv> agree V rows horizon"
abbreviation "tb \<equiv> tomb V rows"

text \<open>The invariant of the push loop, \<open>S\<close> being the counter the pull reported.\<close>

definition linv :: "int \<Rightarrow> 'v \<Rightarrow> 't \<Rightarrow> bool" where
  "linv S v t \<longleftrightarrow> ok t \<and> wf v \<and> S \<le> ctr t
     \<and> (\<forall>i. (i \<notin> dirty_ids V v \<longrightarrow> ag S v t i)
          \<and> (\<forall>b. last_op i (vo_pending_ops V v) = Some (Delete i b) \<longrightarrow> tb S v t i))"

lemma linv_evolve:
  assumes "linv S v t" and "ok t'" and "rows_evolve rows ctr horizon t t'"
  shows "linv S v t'"
proof -
  have inv: "wf v" "S \<le> ctr t" "\<And>i. i \<notin> dirty_ids V v \<Longrightarrow> ag S v t i"
    "\<And>i b. last_op i (vo_pending_ops V v) = Some (Delete i b) \<Longrightarrow> tb S v t i"
    using assms(1) by (auto simp: linv_def)
  have "S \<le> ctr t'" using inv(2) assms(3) by (auto simp: rows_evolve_def)
  then show ?thesis unfolding linv_def
    using assms(2) inv(1) agree_evolve[OF assms(3) inv(2) inv(3)] tomb_evolve[OF assms(3) inv(2) inv(4)]
    by simp
qed

lemma live_view_apply:
  assumes "wf v"
  shows "live_view V (vo_apply_remote V v r) i
    = (if i = ri_item_id r then remote_live (Some r) else live_view V v i)"
  using assms by (simp add: live_view_def remote_live_def)

text \<open>What settling does to the view of the pushed item, and of the others.\<close>

lemma settle_view:
  assumes "wf v" and "settle V v op outcome rep = (v', rep')"
    and "\<And>r. outcome = Conflicted (Some r) \<Longrightarrow> ri_item_id r = op_item_id op"
  shows "i \<noteq> op_item_id op \<Longrightarrow> live_view V v' i = live_view V v i"
    and "outcome = Conflicted c \<Longrightarrow> live_view V v' (op_item_id op) = remote_live c"
    and "outcome = Accepted n q \<Longrightarrow> live_view V v (op_item_id op) = None \<Longrightarrow>
           live_view V v' (op_item_id op) = None"
proof -
  have id: "si_item_id st = op_item_id op" if "vo_get V v (op_item_id op) = Some st" for st
    using get_id[OF assms(1) that] .
  show "live_view V v' i = live_view V v i" if "i \<noteq> op_item_id op"
    using assms that id by (auto simp: settle_def live_view_apply[OF assms(1)]
        split: push_outcome.splits option.splits)
  show "live_view V v' (op_item_id op) = remote_live c" if "outcome = Conflicted c"
    using assms that id by (auto simp: settle_def live_view_apply[OF assms(1)] remote_live_def
        live_view_def split: option.splits)
  show "live_view V v' (op_item_id op) = None"
    if "outcome = Accepted n q" "live_view V v (op_item_id op) = None"
  proof (cases "vo_get V v (op_item_id op)")
    case None
    with assms(2) that(1) show ?thesis by (auto simp: settle_def live_view_def)
  next
    case (Some st)
    with that(2) have "si_deleted st" by (auto simp: live_view_def split: if_splits)
    with Some assms(2) that(1) id[OF Some] show ?thesis
      by (auto simp: settle_def live_view_apply[OF assms(1)] remote_live_def)
  qed
qed

lemma linv_step:
  assumes inv: "linv S v t" and q: "vo_pending_ops V v = op # ops"
    and p: "push_op T t op = (Inr outcome, t')" and s: "settle V v op outcome rep = (v', rep')"
  shows "linv S (vo_pop_front_op V v') t'"
proof -
  let ?w = "vo_pop_front_op V v'" and ?j = "op_item_id op"
  have wf: "wf v" "wf v'" "wf ?w" and ok: "ok t" "ok t'" and ev: "rows_evolve rows ctr horizon t t'"
    using inv push_op_ok[OF _ p] settle_laws(1)[OF _ s] by (auto simp: linv_def)
  have pend: "vo_pending_ops V ?w = ops"
    using settle_laws(3)[OF wf(1) s] wf(2) q by simp
  have view_w: "live_view V ?w i = live_view V v' i" for i
    using wf(2) by (simp add: live_view_def)
  have conf: "ri_item_id r = ?j" if "outcome = Conflicted (Some r)" for r
    using push_op_conflict[OF ok(1) p[unfolded that]] ok_rows[OF ok(2)] by blast
  note sv = settle_view[OF wf(1) s conf]
  have ctr: "S \<le> ctr t" "S \<le> ctr t'" using inv ev by (auto simp: linv_def rows_evolve_def)
  have inv': "linv S v t'" by (rule linv_evolve[OF inv ok(2) ev])
  have other: "(i \<notin> dirty_ids V ?w \<longrightarrow> ag S ?w t' i)
      \<and> (\<forall>b. last_op i (vo_pending_ops V ?w) = Some (Delete i b) \<longrightarrow> tb S ?w t' i)" if "i \<noteq> ?j" for i
  proof -
    have vw: "live_view V ?w i = live_view V v i" using sv(1)[OF _ that] view_w by simp
    have "i \<in> dirty_ids V ?w \<longleftrightarrow> i \<in> dirty_ids V v" using that by (auto simp: dirty_ids_def pend q)
    moreover have "last_op i (vo_pending_ops V ?w) = last_op i (vo_pending_ops V v)"
      using that by (auto simp: pend q last_op_Cons split: option.splits)
    ultimately show ?thesis using inv' by (simp add: linv_def agree_view[OF vw] tomb_view[OF vw])
  qed
  have self: "ag S ?w t' ?j \<or> (last_op ?j (op # ops) = None)
      \<or> (\<exists>r. rows t' ?j = Some r \<and> ri_deleted r \<and> (\<exists>i b. op = Delete i b))"
  proof (cases outcome)
    case (Conflicted c)
    from push_op_conflict[OF ok(1) p[unfolded Conflicted]] sv(2)[OF _ Conflicted] view_w
    have "live_view V ?w ?j = remote_live (rows t' ?j)" by simp
    then show ?thesis by (auto simp: agree_def remote_live_def split: option.splits)
  next
    case (Accepted n u)
    from push_op_accept[OF ok(1) p[unfolded Accepted]] obtain r where "rows t' ?j = Some r"
      "ctr t < ri_seq r \<or> ((\<exists>i b. op = Delete i b) \<and> ri_deleted r)" by blast
    with ctr(1) show ?thesis by (auto simp: agree_def)
  qed
  have "(?j \<notin> dirty_ids V ?w \<longrightarrow> ag S ?w t' ?j)
      \<and> (\<forall>b. last_op ?j (vo_pending_ops V ?w) = Some (Delete ?j b) \<longrightarrow> tb S ?w t' ?j)"
  proof (cases "ag S ?w t' ?j")
    case True
    then show ?thesis using agree_tomb[OF True] by simp
  next
    case False
    then obtain r i b where r: "rows t' ?j = Some r" "ri_deleted r" "op = Delete i b"
      using self by (auto simp: last_op_None)
    with False have seq: "ri_seq r \<le> S" by (auto simp: agree_def)
    obtain n u where acc: "outcome = Accepted n u"
    proof (cases outcome)
      case (Conflicted c)
      from push_op_conflict[OF ok(1) p[unfolded Conflicted]] sv(2)[OF _ Conflicted] view_w
      have "live_view V ?w ?j = remote_live (rows t' ?j)" by simp
      with False show ?thesis by (auto simp: agree_def remote_live_def split: option.splits)
    qed auto
    have view: "live_view V ?w ?j = None" if "tb S v t' ?j"
    proof -
      from that r seq have "live_view V v ?j = None" by (auto simp: tomb_def)
      from sv(3)[OF _ acc this] view_w show ?thesis by simp
    qed
    show ?thesis
    proof (intro conjI impI allI)
      assume "?j \<notin> dirty_ids V ?w"
      then have "last_op ?j (vo_pending_ops V v) = Some (Delete ?j b)"
        using r(3) by (auto simp: dirty_ids_def pend q last_op_Cons last_op_None split: option.splits
            dest: last_op_None[THEN iffD2])
      then have "tb S v t' ?j" using inv' by (auto simp: linv_def)
      then have "live_view V ?w ?j = None" by (rule view)
      with r False show "ag S ?w t' ?j" by (auto simp: agree_def remote_live_def)
    next
      fix b' assume "last_op ?j (vo_pending_ops V ?w) = Some (Delete ?j b')"
      then have "last_op ?j (vo_pending_ops V v) = Some (Delete ?j b')" by (simp add: pend q last_op_Cons)
      then have "tb S v t' ?j" using inv' by (auto simp: linv_def)
      then have "live_view V ?w ?j = None" by (rule view)
      then show "tb S ?w t' ?j" by (simp add: tomb_def)
    qed
  qed
  with other have all: "(i \<notin> dirty_ids V ?w \<longrightarrow> ag S ?w t' i)
      \<and> (\<forall>b. last_op i (vo_pending_ops V ?w) = Some (Delete i b) \<longrightarrow> tb S ?w t' i)" for i
    by (cases "i = ?j") blast+
  show ?thesis unfolding linv_def using all ok(2) wf(3) ctr(2) by blast
qed

lemma linv_loop:
  assumes "linv S v t" and "push_loop V T v t rep = Some (res, v', t')"
  shows "linv S v' t'"
  using assms
proof (induction "vo_pending_ops V v" arbitrary: v t rep)
  case Nil
  from Nil(3) have "v' = v" "t' = t" by (subst (asm) push_loop.simps, simp flip: Nil(1))+
  with Nil show ?case by simp
next
  case (Cons op ops)
  obtain r t1 where p: "push_op T t op = (r, t1)" by fastforce
  show ?case
  proof (cases r)
    case (Inl e)
    from Cons(4) have "v' = v" "t' = t1"
      by (subst (asm) push_loop.simps, simp add: p Inl flip: Cons(2))+
    moreover have "ok t" using Cons(3) by (simp add: linv_def)
    ultimately show ?thesis using push_op_ok[OF _ p] linv_evolve[OF Cons(3)] by blast
  next
    case (Inr outcome)
    obtain v1 rep1 where s: "settle V v op outcome rep = (v1, rep1)" by fastforce
    have inv1: "linv S (vo_pop_front_op V v1) t1"
      by (rule linv_step[OF Cons(3) Cons(2)[symmetric] p[unfolded Inr] s])
    have "wf v" using Cons(3) by (simp add: linv_def)
    from settle_laws(1,3)[OF this s] have "ops = vo_pending_ops V (vo_pop_front_op V v1)"
      using Cons(2)[symmetric] by simp
    moreover have "push_loop V T (vo_pop_front_op V v1) t1 rep1 = Some (res, v', t')"
      using Cons(4) by (subst (asm) push_loop.simps) (simp add: p Inr s flip: Cons(2))
    ultimately show ?thesis using Cons(1) inv1 by blast
  qed
qed

text \<open>The pull phase: everything that is not dirty now agrees with the server.\<close>

lemma linv_pull:
  assumes "wf v" and "ok t" and "synced V rows ctr horizon v t" and "queue_ok V v" and "fresh_ok V v"
    and pull: "t_pull T t (vo_last_seq V v) = (Inr p, t1)"
    and v1: "v1 = (if pr_full_resync p then vo_clear_items V v else v)"
    and v2: "apply_pulled V (map op_item_id (vo_pending_ops V v1)) (pr_items p) v1 rep = (v2, rep2)"
  shows "linv (ctr t1) v2 t1"
proof -
  let ?L = "vo_last_seq V v"
  from pull_ok[OF assms(2) pull] have ok1: "ok t1" and ev: "rows_evolve rows ctr horizon t t1"
    and full: "pr_full_resync p \<longleftrightarrow> 0 < ?L \<and> ?L < horizon t1"
    and items: "\<And>r. r \<in> set (pr_items p) \<longleftrightarrow> rows t1 (ri_item_id r) = Some r
       \<and> (if pr_full_resync p then \<not> ri_deleted r else ?L < ri_seq r)"
    by auto
  have wf1: "wf v1" using assms(1) v1 by simp
  have pend1: "vo_pending_ops V v1 = vo_pending_ops V v" using assms(1) v1 by simp
  from apply_pulled_laws[OF v2 wf1] pend1
  have wf2: "wf v2" and pend2: "vo_pending_ops V v2 = vo_pending_ops V v" by auto
  have get2: "vo_get V v2 i = (if i \<in> dirty_ids V v then vo_get V v1 i
    else case List.find (\<lambda>r. ri_item_id r = i) (rev (pr_items p)) of
      None \<Rightarrow> vo_get V v1 i | Some r \<Rightarrow> Some (stored_of r))" for i
    using apply_pulled_get[OF v2 wf1, of i] by (simp add: dirty_ids_def pend1)
  have view1: "live_view V v1 i = (if pr_full_resync p then None else live_view V v i)" for i
    using assms(1) by (simp add: v1 live_view_def)
  have agL: "ag ?L v t1 i" if "i \<notin> dirty_ids V v" for i
    using that assms(3) by (auto simp: synced_def intro: agree_evolve[OF ev])
  have clean: "live_view V v2 i = remote_live (rows t1 i)" if i: "i \<notin> dirty_ids V v" for i
  proof (cases "List.find (\<lambda>r. ri_item_id r = i) (rev (pr_items p))")
    case (Some r)
    then have "r \<in> set (pr_items p)" "ri_item_id r = i" by (auto dest: find_SomeD)
    with items have "rows t1 i = Some r" by auto
    with get2[of i] i Some show ?thesis by (simp add: live_view_def remote_live_def)
  next
    case None
    then have no: "r \<notin> set (pr_items p)" if "ri_item_id r = i" for r
      using that by (auto simp: find_None_iff_all)
    have view: "live_view V v2 i = live_view V v1 i" using get2[of i] i None by (simp add: live_view_def)
    show ?thesis
    proof (cases "rows t1 i")
      case None
      then have "\<not> pr_full_resync p \<Longrightarrow> live_view V v i = None"
        using agL[OF i] assms(5) i full by (auto simp: agree_def fresh_ok_def not_less)
      with None view view1 show ?thesis by (simp add: remote_live_def)
    next
      case (Some r)
      have "ri_item_id r = i" using ok_rows[OF ok1 Some] by simp
      with no items[of r] Some have "if pr_full_resync p then ri_deleted r else ri_seq r \<le> ?L" by auto
      with Some view view1 agL[OF i] show ?thesis
        by (cases "pr_full_resync p") (auto simp: agree_def remote_live_def)
    qed
  qed
  have "ag (ctr t1) v2 t1 i" if "i \<notin> dirty_ids V v" for i
    using clean[OF that] by (auto simp: agree_def remote_live_def split: option.splits)
  moreover have "tb (ctr t1) v2 t1 i" if "last_op i (vo_pending_ops V v) = Some (Delete i b)" for i b
  proof -
    have "last_op i (vo_pending_ops V v) \<noteq> None" using that by simp
    then have "i \<in> dirty_ids V v" by (simp only: last_op_None dirty_ids_def not_not)
    then have "live_view V v2 i = live_view V v1 i" using get2[of i] by (simp add: live_view_def)
    moreover have "live_view V v i = None" using that assms(4) by (simp add: queue_ok_def)
    ultimately show ?thesis using view1 by (simp add: tomb_def)
  qed
  ultimately show ?thesis using ok1 wf2 by (simp add: linv_def pend2 dirty_ids_def)
qed

lemma fold_apply_get:
  assumes "wf v"
  shows "vo_get V (fold (\<lambda>item v. vo_apply_remote V v item) items v) i =
    (case List.find (\<lambda>r. ri_item_id r = i) (rev items) of
      None \<Rightarrow> vo_get V v i | Some r \<Rightarrow> Some (stored_of r))"
  using assms
proof (induction items arbitrary: v)
  case (Cons item items)
  have find_snoc: "List.find P (xs @ [x]) = (case List.find P xs of None \<Rightarrow> if P x then Some x else None
      | Some y \<Rightarrow> Some y)" for P and xs :: "remote_item list" and x
    by (induction xs) auto
  from Cons show ?case by (auto simp: find_snoc split: if_splits option.splits)
qed simp

lemma linv_synced:
  assumes "linv S v t" and "vo_last_seq V v \<le> S"
  shows "synced V rows ctr horizon v t"
  using assms agree_mono unfolding linv_def synced_def by (metis order_trans)

text \<open>A full cycle against an honest server.  It never raises a false rollback alarm, it leaves a
  replica that is a past server state in every case, and when it reports success with no purge
  of this cycle's tombstones, the replica shows exactly the server's live items.  \<open>early\<close> excludes one
  corner: on an account never written before, an item created, deleted and purged within the
  cycle, which would need the cycle to last thirty days.\<close>

lemma sync_cycle:
  assumes "wf v" and "ok t" and "synced V rows ctr horizon v t" and "queue_ok V v" and "fresh_ok V v"
    and "sync V T v t = Some (res, v', t')" and early: "0 < ctr t \<or> horizon t' \<le> ctr t"
  shows "wf v' \<and> ok t' \<and> synced V rows ctr horizon v' t' \<and> vo_last_seq V v \<le> vo_last_seq V v'
    \<and> (\<forall>e. res = Inl e \<longrightarrow> (\<exists>te. e = Transport te) \<and> vo_last_seq V v' = vo_last_seq V v)
    \<and> (\<forall>rep. res = Inr rep \<longrightarrow> vo_pending_ops V v' = []
         \<and> (horizon t' \<le> ctr t \<longrightarrow> vo_last_seq V v' = ctr t'
              \<and> (\<forall>i. live_view V v' i = remote_live (rows t' i))))"
proof -
  let ?L = "vo_last_seq V v"
  obtain r1 t1 where pull: "t_pull T t ?L = (r1, t1)" by fastforce
  note pk = pull_ok[OF assms(2) pull]
  have L: "?L \<le> ctr t" using assms(3) by (simp add: synced_def)
  show ?thesis
  proof (cases r1)
    case (Inl e)
    then have "res = Inl (Transport e)" "v' = v" "t' = t1"
      using assms(6) by (simp_all add: sync_def Let_def pull)
    moreover have ev: "rows_evolve rows ctr horizon t t1" using pk by simp
    moreover from ev have "ctr t \<le> ctr t1" by (simp add: rows_evolve_def)
    moreover from this have "synced V rows ctr horizon v t1"
      using assms(3) by (auto simp: synced_def intro: agree_evolve[OF ev])
    ultimately show ?thesis using pk assms(1) by auto
  next
    case (Inr p)
    have latest: "pr_latest_seq p = ctr t1" and ok1: "ok t1" and ev1: "rows_evolve rows ctr horizon t t1"
      using pk Inr by auto
    have t1: "ctr t \<le> ctr t1" using ev1 by (simp add: rows_evolve_def)
    define v1 where "v1 = (if pr_full_resync p then vo_clear_items V v else v)"
    let ?rep1 = "empty_report\<lparr>sr_full_resync := pr_full_resync p\<rparr>"
    obtain v2 rep2 where v2: "apply_pulled V (map op_item_id (vo_pending_ops V v1)) (pr_items p) v1 ?rep1 = (v2, rep2)"
      by fastforce
    have inv2: "linv (ctr t1) v2 t1"
      by (rule linv_pull[OF assms(1-5) pull[unfolded Inr] v1_def v2])
    have wf1: "wf v1" and l1: "vo_last_seq V v1 = ?L" using assms(1) by (simp_all add: v1_def)
    have wf2: "wf v2" and l2: "vo_last_seq V v2 = ?L" using apply_pulled_laws[OF v2 wf1] l1 by auto
    obtain r3 v3 t2 where loop: "push_loop V T v2 t1 rep2 = Some (r3, v3, t2)"
      using push_loop_total[OF wf2] by (metis prod_cases3)
    have inv3: "linv (ctr t1) v3 t2" by (rule linv_loop[OF inv2 loop])
    note pl = push_loop_laws[OF wf2 loop]
    have wf3: "wf v3" and l3: "vo_last_seq V v3 = ?L" using pl l2 by auto
    have ok2: "ok t2" using inv3 by (simp add: linv_def)
    have run: "sync V T v t = (case r3 of Inl e \<Rightarrow> Some (Inl e, v3, t2) | Inr rep3 \<Rightarrow>
        (case t_pull T t2 (ctr t1) of
           (Inl e, t3) \<Rightarrow> Some (Inl (Transport e), v3, t3)
         | (Inr tail, t3) \<Rightarrow>
             if pr_latest_seq tail < ctr t1 then Some (Inl (RollbackDetected (ctr t1) (pr_latest_seq tail)), v3, t3)
             else if \<not> pr_full_resync tail
             then Some (Inr rep3, vo_set_last_seq V (fold (\<lambda>item v. vo_apply_remote V v item)
                 (pr_items tail) v3) (pr_latest_seq tail), t3)
             else Some (Inr rep3, vo_set_last_seq V v3 (ctr t1), t3)))"
      using L t1 latest pull Inr v2 loop v1_def
      by (simp add: sync_def Let_def split: sum.splits prod.splits)
    show ?thesis
    proof (cases r3)
      case (Inl e)
      then have "res = Inl e" "v' = v3" "t' = t2" using assms(6) run by simp_all
      moreover have "synced V rows ctr horizon v3 t2" using linv_synced[OF inv3] l3 L t1 by simp
      moreover have "\<exists>te. e = Transport te" using pl Inl by auto
      ultimately show ?thesis using wf3 ok2 l3 by auto
    next
      case (Inr rep3)
      have q3: "vo_pending_ops V v3 = []" using pl Inr by auto
      obtain r4 t3 where tl: "t_pull T t2 (ctr t1) = (r4, t3)" by fastforce
      note tk = pull_ok[OF ok2 tl]
      have ok3: "ok t3" and ev3: "rows_evolve rows ctr horizon t2 t3" using tk by auto
      have inv4: "linv (ctr t1) v3 t3" by (rule linv_evolve[OF inv3 ok3 ev3])
      have ag3: "ag (ctr t1) v3 t3 i" for i using inv4 q3 by (simp add: linv_def dirty_ids_def)
      have t3: "ctr t1 \<le> ctr t3" using inv4 by (simp add: linv_def)
      show ?thesis
      proof (cases r4)
        case (Inl e)
        then have "res = Inl (Transport e)" "v' = v3" "t' = t3" using assms(6) run Inr tl by simp_all
        moreover have "synced V rows ctr horizon v3 t3" using linv_synced[OF inv4] l3 L t1 by simp
        ultimately show ?thesis using wf3 ok3 l3 by auto
      next
        fix tail assume tail: "r4 = Inr tail"
        have tl_latest: "pr_latest_seq tail = ctr t3" and tl_full: "pr_full_resync tail \<longleftrightarrow> 0 < ctr t1 \<and> ctr t1 < horizon t3"
          and tl_items: "\<And>r. r \<in> set (pr_items tail) \<longleftrightarrow> rows t3 (ri_item_id r) = Some r
             \<and> (if pr_full_resync tail then \<not> ri_deleted r else ctr t1 < ri_seq r)"
          using tk tail by auto
        show ?thesis
        proof (cases "pr_full_resync tail")
          case True
          then have eq: "res = Inr rep3" "v' = vo_set_last_seq V v3 (ctr t1)" "t' = t3"
            using assms(6) run Inr tl tail tl_latest t3 by simp_all
          have vw: "live_view V v' i = live_view V v3 i" for i using wf3 by (simp add: eq live_view_def)
          have "vo_last_seq V v' = ctr t1" using wf3 by (simp add: eq(2))
          then have "synced V rows ctr horizon v' t3"
            using ag3 t3 by (simp add: synced_def agree_view[OF vw])
          moreover have "\<not> horizon t3 \<le> ctr t" using True tl_full t1 by auto
          ultimately show ?thesis using eq wf3 ok3 q3 L t1 by auto
        next
          case False
          let ?f = "fold (\<lambda>item v. vo_apply_remote V v item) (pr_items tail) v3"
          have eq: "res = Inr rep3" "v' = vo_set_last_seq V ?f (ctr t3)" "t' = t3"
            using assms(6) t3 unfolding run Inr tl tail by (auto simp: tl_latest False)
          have wff: "wf ?f" and qf: "vo_pending_ops V ?f = []" using fold_apply_laws[OF wf3] q3 by auto
          have get': "vo_get V v' i = (case List.find (\<lambda>r. ri_item_id r = i) (rev (pr_items tail)) of
              None \<Rightarrow> vo_get V v3 i | Some r \<Rightarrow> Some (stored_of r))" for i
            using wff fold_apply_get[OF wf3] by (simp add: eq(2))
          have agtop: "ag (ctr t3) v' t3 i" for i
          proof (cases "List.find (\<lambda>r. ri_item_id r = i) (rev (pr_items tail))")
            case (Some r)
            from find_SomeD[OF Some] have "r \<in> set (pr_items tail)" "ri_item_id r = i" by simp_all
            then have "rows t3 i = Some r" using tl_items[of r] by simp
            with get'[of i] Some show ?thesis by (simp add: agree_def live_view_def remote_live_def)
          next
            case None
            then have view: "live_view V v' i = live_view V v3 i" using get'[of i] by (simp add: live_view_def)
            show ?thesis
            proof (cases "rows t3 i")
              case None
              have "horizon t3 \<le> ctr t1 \<or> ctr t1 \<le> 0" using False tl_full by auto
              then show ?thesis
              proof
                assume "horizon t3 \<le> ctr t1"
                with ag3[of i] None view show ?thesis by (auto simp: agree_def)
              next
                assume z: "ctr t1 \<le> 0"
                have "live_view V v' i = None \<or> ctr t1 < horizon t3"
                  using ag3[of i] None view by (auto simp: agree_def)
                then show ?thesis using None z t1 early eq(3) by (auto simp: agree_def)
              qed
            next
              case (Some r)
              have "ri_item_id r = i" using ok_rows[OF ok3 Some] by simp
              with None tl_items[of r] Some False have "ri_seq r \<le> ctr t1"
                by (auto simp: find_None_iff_all)
              with ag3[of i] Some view show ?thesis by (simp add: agree_def)
            qed
          qed
          have seq': "vo_last_seq V v' = ctr t3" using wff by (simp add: eq(2))
          have "synced V rows ctr horizon v' t3"
            using agtop by (simp add: synced_def seq')
          moreover have "live_view V v' i = remote_live (rows t3 i)" if "horizon t3 \<le> ctr t" for i
          proof (cases "rows t3 i")
            case None
            with agtop[of i] that t1 t3 show ?thesis by (auto simp: agree_def remote_live_def)
          next
            case (Some r)
            with agtop[of i] ok_rows[OF ok3 Some] show ?thesis by (simp add: agree_def)
          qed
          moreover have "wf v'" "vo_pending_ops V v' = []" using wff qf by (simp_all add: eq(2))
          ultimately show ?thesis using eq ok3 seq' L t1 t3 by auto
        qed
      qed
    qed
  qed
qed

end

end
