(* ===== verification/Sqlite_Store.thy ===== *)
theory Sqlite_Store
  imports Sync_Engine Toy_Codec
begin

text \<open>
  desktop-core \<open>store.rs\<close>: the SQLite-backed replica.  The three tables are row lists, rows hold
  JSON text written and read by the codec \<open>J\<close> (third-party); statements on the local database
  succeed (the code ignores their errors).
\<close>

section \<open>Tables\<close>

record codec =
  cd_item_to :: "encrypted_item \<Rightarrow> text"
  cd_item_of :: "text \<Rightarrow> encrypted_item option"
  cd_op_to :: "pending_op \<Rightarrow> text"
  cd_op_of :: "text \<Rightarrow> pending_op option"

definition codec_ok :: "codec \<Rightarrow> bool" where
  "codec_ok J \<longleftrightarrow> (\<forall>e. cd_item_of J (cd_item_to J e) = Some e) \<and> (\<forall>op. cd_op_of J (cd_op_to J op) = Some op)"

record sql_item =
  sq_item_id :: "text"
  sq_revision :: int
  sq_deleted :: int
  sq_content :: "text option"

text \<open>\<open>sq_ops_seq\<close> is SQLite's \<open>AUTOINCREMENT\<close> counter of the \<open>ops\<close> table.\<close>

record sqlite_vault =
  sq_meta :: "(text \<times> text) list"
  sq_items :: "sql_item list"
  sq_ops :: "(int \<times> text) list"
  sq_ops_seq :: int

definition sqlite_empty :: sqlite_vault where
  "sqlite_empty = \<lparr>sq_meta = [], sq_items = [], sq_ops = [], sq_ops_seq = 0\<rparr>"

definition meta_get :: "sqlite_vault \<Rightarrow> text \<Rightarrow> text option" where
  "meta_get db key = map_of (sq_meta db) key"

definition meta_set :: "sqlite_vault \<Rightarrow> text \<Rightarrow> text \<Rightarrow> sqlite_vault" where
  "meta_set db key v = db\<lparr>sq_meta := AList.update key v (sq_meta db)\<rparr>"

definition encrypted_refresh_token :: "codec \<Rightarrow> sqlite_vault \<Rightarrow> encrypted_item option" where
  "encrypted_refresh_token J db = Option.bind (meta_get db (lit ''refresh_token'')) (cd_item_of J)"

definition set_encrypted_refresh_token ::
    "codec \<Rightarrow> sqlite_vault \<Rightarrow> encrypted_item option \<Rightarrow> sqlite_vault" where
  "set_encrypted_refresh_token J db token =
     (case token of
        Some t \<Rightarrow> meta_set db (lit ''refresh_token'') (cd_item_to J t)
      | None \<Rightarrow> db\<lparr>sq_meta := AList.delete (lit ''refresh_token'') (sq_meta db)\<rparr>)"

definition row_to_stored :: "codec \<Rightarrow> sql_item \<Rightarrow> stored_item" where
  "row_to_stored J r = \<lparr>si_item_id = sq_item_id r, si_revision = sq_revision r,
     si_deleted = (sq_deleted r \<noteq> 0), si_content = Option.bind (sq_content r) (cd_item_of J)\<rparr>"

section \<open>The vault interface\<close>

definition sqlite_last_seq :: "sqlite_vault \<Rightarrow> int" where
  "sqlite_last_seq db =
     (case Option.bind (meta_get db (lit ''last_seq'')) parse_int of Some n \<Rightarrow> n | None \<Rightarrow> 0)"

definition sqlite_set_last_seq :: "sqlite_vault \<Rightarrow> int \<Rightarrow> sqlite_vault" where
  "sqlite_set_last_seq db seq = meta_set db (lit ''last_seq'') (dec_int seq)"

definition sqlite_get :: "codec \<Rightarrow> sqlite_vault \<Rightarrow> text \<Rightarrow> stored_item option" where
  "sqlite_get J db item_id =
     map_option (row_to_stored J) (List.find (\<lambda>r. sq_item_id r = item_id) (sq_items db))"

definition sqlite_list :: "codec \<Rightarrow> sqlite_vault \<Rightarrow> stored_item list" where
  "sqlite_list J db = map (row_to_stored J) (sort_key sq_item_id (sq_items db))"

text \<open>\<open>INSERT INTO items .. ON CONFLICT(item_id) DO UPDATE\<close> of the three other columns.\<close>

definition upsert_item :: "text \<Rightarrow> int \<Rightarrow> int \<Rightarrow> text option \<Rightarrow> sqlite_vault \<Rightarrow> sqlite_vault" where
  "upsert_item item_id revision deleted content db =
     db\<lparr>sq_items := upsert_where (\<lambda>r. sq_item_id r = item_id)
          (\<lambda>r. r\<lparr>sq_revision := revision, sq_deleted := deleted, sq_content := content\<rparr>)
          \<lparr>sq_item_id = item_id, sq_revision = revision, sq_deleted = deleted, sq_content = content\<rparr>
          (sq_items db)\<rparr>"

definition sqlite_apply_remote :: "codec \<Rightarrow> sqlite_vault \<Rightarrow> remote_item \<Rightarrow> sqlite_vault" where
  "sqlite_apply_remote J db item =
     upsert_item (ri_item_id item) (ri_revision item) (if ri_deleted item then 1 else 0)
       (map_option (cd_item_to J) (ri_content item)) db"

definition sqlite_stage :: "codec \<Rightarrow> sqlite_vault \<Rightarrow> pending_op \<Rightarrow> sqlite_vault" where
  "sqlite_stage J db op =
     (let db1 = (case op of
          Upsert envelope \<Rightarrow> upsert_item (ei_item_id envelope) (as_i64 (ei_revision envelope)) 0
            (Some (cd_item_to J envelope)) db
        | Delete item_id base_revision \<Rightarrow> upsert_item item_id (base_revision + 1) 1 None db)
      in db1\<lparr>sq_ops := sq_ops db1 @ [(sq_ops_seq db1 + 1, cd_op_to J op)],
             sq_ops_seq := sq_ops_seq db1 + 1\<rparr>)"

definition sqlite_pending_ops :: "codec \<Rightarrow> sqlite_vault \<Rightarrow> pending_op list" where
  "sqlite_pending_ops J db = List.map_filter (\<lambda>(_, op). cd_op_of J op) (sort_key fst (sq_ops db))"

definition sqlite_pop_front_op :: "sqlite_vault \<Rightarrow> sqlite_vault" where
  "sqlite_pop_front_op db =
     (case sq_ops db of
        [] \<Rightarrow> db
      | _ \<Rightarrow> db\<lparr>sq_ops := delete_where (\<lambda>r. fst r = Min (set (map fst (sq_ops db)))) (sq_ops db)\<rparr>)"

definition sqlite_ops :: "codec \<Rightarrow> sqlite_vault vault_ops" where
  "sqlite_ops J = \<lparr>
     vo_last_seq = sqlite_last_seq,
     vo_set_last_seq = sqlite_set_last_seq,
     vo_get = sqlite_get J,
     vo_list = sqlite_list J,
     vo_apply_remote = sqlite_apply_remote J,
     vo_clear_items = (\<lambda>db. db\<lparr>sq_items := []\<rparr>),
     vo_stage = sqlite_stage J,
     vo_pending_ops = sqlite_pending_ops J,
     vo_pop_front_op = sqlite_pop_front_op\<rparr>"

section \<open>The invariant, and the laws of the interface\<close>

definition sqlite_wf :: "codec \<Rightarrow> sqlite_vault \<Rightarrow> bool" where
  "sqlite_wf J db \<longleftrightarrow> codec_ok J \<and> distinct (map sq_item_id (sq_items db))
     \<and> sorted (map fst (sq_ops db)) \<and> distinct (map fst (sq_ops db))
     \<and> (\<forall>(i, t) \<in> set (sq_ops db). i \<le> sq_ops_seq db \<and> cd_op_of J t \<noteq> None)"

lemma upsert_item_sel [simp]:
  "sq_meta (upsert_item i r d c db) = sq_meta db" "sq_ops (upsert_item i r d c db) = sq_ops db"
  "sq_ops_seq (upsert_item i r d c db) = sq_ops_seq db"
  by (simp_all add: upsert_item_def)

lemma upsert_item_get:
  "sqlite_get J (upsert_item i r d c db) =
     (sqlite_get J db)(i \<mapsto> \<lparr>si_item_id = i, si_revision = r, si_deleted = (d \<noteq> 0),
                             si_content = Option.bind c (cd_item_of J)\<rparr>)"
proof
  fix j
  have id: "List.find (\<lambda>r. sq_item_id r = i) (sq_items db) = Some q \<Longrightarrow> sq_item_id q = i" for q
    by (drule find_SomeD) simp
  have F: "List.find (\<lambda>r. sq_item_id r = j) (sq_items (upsert_item i r d c db)) =
      (if j = i then Some (case List.find (\<lambda>r. sq_item_id r = i) (sq_items db) of
           None \<Rightarrow> \<lparr>sq_item_id = i, sq_revision = r, sq_deleted = d, sq_content = c\<rparr>
         | Some q \<Rightarrow> q\<lparr>sq_revision := r, sq_deleted := d, sq_content := c\<rparr>)
       else List.find (\<lambda>r. sq_item_id r = j) (sq_items db))"
    unfolding upsert_item_def using find_upsert_key[where k = sq_item_id and i = i and j = j
      and f = "\<lambda>q. q\<lparr>sq_revision := r, sq_deleted := d, sq_content := c\<rparr>"
      and row = "\<lparr>sq_item_id = i, sq_revision = r, sq_deleted = d, sq_content = c\<rparr>"
      and t = "sq_items db"]
    by simp
  show "sqlite_get J (upsert_item i r d c db) j =
     ((sqlite_get J db)(i \<mapsto> \<lparr>si_item_id = i, si_revision = r, si_deleted = (d \<noteq> 0),
                             si_content = Option.bind c (cd_item_of J)\<rparr>)) j"
  proof (cases "j = i")
    case True
    then show ?thesis using id
      by (cases "List.find (\<lambda>r. sq_item_id r = i) (sq_items db)")
        (simp_all add: sqlite_get_def F[unfolded True] row_to_stored_def)
  next
    case False
    then show ?thesis by (simp add: sqlite_get_def F)
  qed
qed

lemma upsert_item_wf:
  assumes "sqlite_wf J db"
  shows "sqlite_wf J (upsert_item i r d c db)"
  unfolding sqlite_wf_def upsert_item_def
  using assms by (intro conjI) (simp_all add: sqlite_wf_def distinct_upsert_key)

lemma sqlite_pending_wf:
  assumes "sqlite_wf J db"
  shows "sqlite_pending_ops J db = map (\<lambda>(_, t). the (cd_op_of J t)) (sq_ops db)"
proof -
  have "sort_key fst (sq_ops db) = sq_ops db"
    by (rule sort_key_id_if_sorted) (use assms in \<open>simp add: sqlite_wf_def\<close>)
  moreover have "List.map_filter (\<lambda>(_, op). cd_op_of J op) t = map (\<lambda>(_, t). the (cd_op_of J t)) t"
    if "\<forall>(i, x) \<in> set t. cd_op_of J x \<noteq> None" for t :: "(int \<times> text) list"
    using that by (induction t) (auto simp: List.map_filter_simps)
  ultimately show ?thesis using assms by (fastforce simp: sqlite_pending_ops_def sqlite_wf_def)
qed

lemma sqlite_pop_wf:
  assumes "sqlite_wf J db"
  shows "sqlite_pop_front_op db = db\<lparr>sq_ops := tl (sq_ops db)\<rparr>"
proof (cases "sq_ops db")
  case Nil
  then show ?thesis by (simp add: sqlite_pop_front_op_def)
next
  case (Cons p ps)
  have p: "\<forall>q \<in> set ps. fst p < fst q"
    using assms Cons by (force simp: sqlite_wf_def)
  then have "Min (set (map fst (sq_ops db))) = fst p"
    using Cons by (intro Min_eqI) (auto intro: less_imp_le)
  moreover have "delete_where (\<lambda>r. fst r = fst p) ps = ps"
    using p by (auto simp: delete_where_def filter_id_conv)
  ultimately show ?thesis using Cons by (simp add: sqlite_pop_front_op_def)
qed

lemma sqlite_stage_alt:
  assumes "codec_ok J"
  shows "\<exists>r d c. sqlite_stage J db op = (upsert_item (op_item_id op) r d c db)
      \<lparr>sq_ops := sq_ops db @ [(sq_ops_seq db + 1, cd_op_to J op)], sq_ops_seq := sq_ops_seq db + 1\<rparr>
    \<and> staged op = \<lparr>si_item_id = op_item_id op, si_revision = r, si_deleted = (d \<noteq> 0),
                    si_content = Option.bind c (cd_item_of J)\<rparr>"
proof (cases op)
  case (Upsert e)
  with assms show ?thesis
    by (intro exI[of _ "as_i64 (ei_revision e)"] exI[of _ 0] exI[of _ "Some (cd_item_to J e)"])
      (simp add: sqlite_stage_def codec_ok_def)
next
  case (Delete i b)
  then show ?thesis
    by (intro exI[of _ "b + 1"] exI[of _ 1] exI[of _ None]) (simp add: sqlite_stage_def)
qed

lemma sqlite_stage_wf:
  assumes "sqlite_wf J db"
  shows "sqlite_wf J (sqlite_stage J db op)"
proof -
  have ok: "codec_ok J" using assms by (simp add: sqlite_wf_def)
  obtain r d c where st: "sqlite_stage J db op = (upsert_item (op_item_id op) r d c db)
      \<lparr>sq_ops := sq_ops db @ [(sq_ops_seq db + 1, cd_op_to J op)], sq_ops_seq := sq_ops_seq db + 1\<rparr>"
    using sqlite_stage_alt[OF ok] by blast
  have "sqlite_wf J (upsert_item (op_item_id op) r d c db)" by (rule upsert_item_wf[OF assms])
  then show ?thesis using ok unfolding st sqlite_wf_def
    by (fastforce simp: sorted_append codec_ok_def)
qed

lemma sqlite_get_cong: "sq_items db' = sq_items db \<Longrightarrow> sqlite_get J db' = sqlite_get J db"
  by (simp add: sqlite_get_def fun_eq_iff)

lemma sqlite_last_seq_cong: "sq_meta db' = sq_meta db \<Longrightarrow> sqlite_last_seq db' = sqlite_last_seq db"
  by (simp add: sqlite_last_seq_def meta_get_def)

lemma sqlite_pending_cong: "sq_ops db' = sq_ops db \<Longrightarrow> sqlite_pending_ops J db' = sqlite_pending_ops J db"
  by (simp add: sqlite_pending_ops_def)

lemma sqlite_apply_eq:
  assumes "codec_ok J"
  shows "sqlite_get J (sqlite_apply_remote J db r) = (sqlite_get J db)(ri_item_id r \<mapsto> stored_of r)"
proof -
  have "Option.bind (map_option (cd_item_to J) (ri_content r)) (cd_item_of J) = ri_content r"
    using assms by (cases "ri_content r") (auto simp: codec_ok_def)
  then show ?thesis by (simp add: sqlite_apply_remote_def upsert_item_get stored_of_def)
qed

lemma sqlite_stage_get:
  assumes "sqlite_wf J db"
  shows "sqlite_get J (sqlite_stage J db op) = (sqlite_get J db)(op_item_id op \<mapsto> staged op)"
    and "sq_meta (sqlite_stage J db op) = sq_meta db"
    and "sqlite_pending_ops J (sqlite_stage J db op) = sqlite_pending_ops J db @ [op]"
proof -
  have ok: "codec_ok J" using assms by (simp add: sqlite_wf_def)
  obtain r d c where st: "sqlite_stage J db op = (upsert_item (op_item_id op) r d c db)
      \<lparr>sq_ops := sq_ops db @ [(sq_ops_seq db + 1, cd_op_to J op)], sq_ops_seq := sq_ops_seq db + 1\<rparr>"
    "staged op = \<lparr>si_item_id = op_item_id op, si_revision = r, si_deleted = (d \<noteq> 0),
                    si_content = Option.bind c (cd_item_of J)\<rparr>"
    using sqlite_stage_alt[OF ok] by blast
  have "sqlite_get J (sqlite_stage J db op) = sqlite_get J (upsert_item (op_item_id op) r d c db)"
    by (rule sqlite_get_cong) (simp add: st(1))
  then show "sqlite_get J (sqlite_stage J db op) = (sqlite_get J db)(op_item_id op \<mapsto> staged op)"
    by (simp add: upsert_item_get st(2))
  show "sq_meta (sqlite_stage J db op) = sq_meta db" by (simp add: st(1))
  have "sq_ops (sqlite_stage J db op) = sq_ops db @ [(sq_ops_seq db + 1, cd_op_to J op)]" by (simp add: st(1))
  then show "sqlite_pending_ops J (sqlite_stage J db op) = sqlite_pending_ops J db @ [op]"
    using sqlite_pending_wf[OF assms] sqlite_pending_wf[OF sqlite_stage_wf[OF assms]] ok
    by (simp add: codec_ok_def)
qed

lemma sqlite_list_laws:
  assumes "sqlite_wf J db"
  shows "st \<in> set (sqlite_list J db) \<longleftrightarrow> sqlite_get J db (si_item_id st) = Some st"
    and "sorted (map si_item_id (sqlite_list J db)) \<and> distinct (map si_item_id (sqlite_list J db))"
proof -
  have d: "distinct (map sq_item_id (sq_items db))" using assms by (simp add: sqlite_wf_def)
  have id: "si_item_id (row_to_stored J r) = sq_item_id r" for r by (simp add: row_to_stored_def)
  show "st \<in> set (sqlite_list J db) \<longleftrightarrow> sqlite_get J db (si_item_id st) = Some st"
    by (auto simp: sqlite_list_def sqlite_get_def find_key_unique[OF d] id)
  from d show "sorted (map si_item_id (sqlite_list J db)) \<and> distinct (map si_item_id (sqlite_list J db))"
    by (simp add: sqlite_list_def id comp_def)
qed

interpretation sq: local_vault "sqlite_ops J" "sqlite_wf J" for J
proof (unfold_locales, goal_cases)
  case (2 v r)
  then show ?case by (simp add: sqlite_ops_def sqlite_apply_remote_def upsert_item_wf)
next
  case (4 v p)
  then show ?case by (simp add: sqlite_ops_def sqlite_stage_wf)
next
  case (5 v)
  then show ?case
    by (cases "sq_ops v") (auto simp: sqlite_ops_def sqlite_pop_wf[OF 5] sqlite_wf_def)
next
  case (9 v p)
  show ?case using sqlite_last_seq_cong[OF sqlite_stage_get(2)[OF 9]] by (simp add: sqlite_ops_def)
next
  case (10 v)
  then show ?case by (simp add: sqlite_ops_def sqlite_pop_wf sqlite_last_seq_def meta_get_def)
next
  case (12 v r)
  then show ?case by (simp add: sqlite_ops_def sqlite_apply_eq sqlite_wf_def)
next
  case (14 v p)
  then show ?case by (simp add: sqlite_ops_def sqlite_stage_get)
next
  case (15 v)
  then show ?case by (simp add: sqlite_ops_def sqlite_pop_wf sqlite_get_def fun_eq_iff)
next
  case (16 v i st)
  then show ?case by (auto simp: sqlite_ops_def sqlite_get_def row_to_stored_def dest: find_SomeD)
next
  case (20 v p)
  then show ?case by (simp add: sqlite_ops_def sqlite_stage_get)
next
  case (21 v)
  have "sqlite_wf J (v\<lparr>sq_ops := tl (sq_ops v)\<rparr>)"
    using 21 by (cases "sq_ops v") (auto simp: sqlite_wf_def)
  then show ?case using 21 sqlite_pending_wf
    by (simp add: sqlite_ops_def sqlite_pop_wf sqlite_pending_wf map_tl)
next
  case (22 v st)
  then show ?case by (simp add: sqlite_ops_def sqlite_list_laws)
next
  case (23 v)
  then show ?case by (simp add: sqlite_ops_def sqlite_list_laws)
qed (auto simp: sqlite_ops_def sqlite_wf_def sqlite_set_last_seq_def meta_set_def sqlite_last_seq_def
      meta_get_def update_conv' sqlite_apply_remote_def sqlite_get_def sqlite_pending_ops_def fun_eq_iff)

lemma sqlite_ops_sel:
  "vo_last_seq (sqlite_ops J) = sqlite_last_seq" "vo_pending_ops (sqlite_ops J) = sqlite_pending_ops J"
  "vo_get (sqlite_ops J) = sqlite_get J" "vo_stage (sqlite_ops J) = sqlite_stage J"
  by (simp_all add: sqlite_ops_def)

section \<open>A concrete codec\<close>

text \<open>For witnesses only: a codec that satisfies \<open>codec_ok\<close>.\<close>

fun toy_op_to :: "pending_op \<Rightarrow> text" where
  "toy_op_to (Upsert e) = 0 # toy_item_to e"
| "toy_op_to (Delete i b) = (if b < 0 then 1 else 2) # nat \<bar>b\<bar> # i"

definition toy_op_of :: "text \<Rightarrow> pending_op option" where
  "toy_op_of t =
     (case t of
        [] \<Rightarrow> None
      | k # u \<Rightarrow>
          if k = 0 then map_option Upsert (toy_item_of u)
          else (case u of [] \<Rightarrow> None | n # i \<Rightarrow> Some (Delete i (if k = 1 then - int n else int n))))"

definition toy_codec :: codec where
  "toy_codec = \<lparr>cd_item_to = toy_item_to, cd_item_of = toy_item_of,
     cd_op_to = toy_op_to, cd_op_of = toy_op_of\<rparr>"

lemma toy_codec_ok [simp]: "codec_ok toy_codec"
proof -
  have "toy_op_of (toy_op_to op) = Some op" for op
    by (cases op) (simp_all add: toy_op_of_def)
  then show ?thesis by (simp add: codec_ok_def toy_codec_def)
qed

lemma sqlite_empty_wf [simp]: "codec_ok J \<Longrightarrow> sqlite_wf J sqlite_empty"
  by (simp add: sqlite_wf_def sqlite_empty_def)

lemma sqlite_empty_sel [simp]:
  "sqlite_last_seq sqlite_empty = 0" "sqlite_pending_ops J sqlite_empty = []"
  "sqlite_get J sqlite_empty i = None"
  by (simp_all add: sqlite_empty_def sqlite_last_seq_def meta_get_def sqlite_pending_ops_def
      sqlite_get_def List.map_filter_simps)

end
