(* ===== verification/Device_Link.thy ===== *)
theory Device_Link
  imports Server_Items_Spec Sync_Service Sqlite_Store
begin

text \<open>
  A device's line to its server: the \<open>SyncTransport\<close> of desktop-core \<open>api.rs\<close> over the handlers of
  \<open>routes/items.rs\<close>.  Between any two calls of this device the other devices (of any account) may
  issue requests, a request may be lost, and so may a response: the plan of the link says what
  happens, call by call, and every theorem holds for every plan.  The link satisfies the contract
  \<open>sync_service\<close>, which with the SQLite replica gives convergence of the real pair.
\<close>

section \<open>The link\<close>

datatype other_req =
    Other_Put secs auth_session "text" "text"
  | Other_Delete secs auth_session "text" int
  | Other_List secs auth_session int
  | Other_Checkpoint auth_session int "text"

fun run_other :: "env \<Rightarrow> other_req \<Rightarrow> srv \<Rightarrow> srv" where
  "run_other E (Other_Put now au i body) s = snd (put_item E now au i body s)"
| "run_other E (Other_Delete now au i base) s = snd (delete_item E now au i base s)"
| "run_other E (Other_List now au since) s = snd (list_items E now au since s)"
| "run_other E (Other_Checkpoint au seq tag) s = snd (put_checkpoint E au seq tag s)"

datatype fate = Delivered | Lost_Request "text" | Lost_Response "text"

record link =
  lk_srv :: srv
  lk_plan :: "(other_req list \<times> fate) list"

definition lk_next :: "link \<Rightarrow> (other_req list \<times> fate) \<times> (other_req list \<times> fate) list" where
  "lk_next t = (case lk_plan t of [] \<Rightarrow> (([], Delivered), []) | v # vs \<Rightarrow> (v, vs))"

text \<open>One round trip: a reply, or the error text of the HTTP client.\<close>

definition deliver :: "env \<Rightarrow> (srv \<Rightarrow> 'a reply) \<Rightarrow> link \<Rightarrow> (text + (api_error + 'a)) \<times> link" where
  "deliver E h t =
     (let ((others, fate), plan) = lk_next t; s1 = fold (run_other E) others (lk_srv t)
      in case fate of
           Delivered \<Rightarrow> (Inr (fst (h s1)), \<lparr>lk_srv = snd (h s1), lk_plan = plan\<rparr>)
         | Lost_Request e \<Rightarrow> (Inl e, \<lparr>lk_srv = s1, lk_plan = plan\<rparr>)
         | Lost_Response e \<Rightarrow> (Inl e, \<lparr>lk_srv = snd (h s1), lk_plan = plan\<rparr>))"

section \<open>The transport of \<open>api.rs\<close>\<close>

text \<open>Deserialisation of one item; the bodies of the replies are those of the handlers.\<close>

definition wire_to_remote :: "env \<Rightarrow> wire_item \<Rightarrow> remote_item option" where
  "wire_to_remote E w =
     (let item = (\<lambda>c. \<lparr>ri_item_id = wi_item_id w, ri_revision = wi_revision w, ri_seq = wi_seq w,
                        ri_deleted = wi_deleted w, ri_content = c\<rparr>)
      in case wi_content w of
           None \<Rightarrow> Some (item None)
         | Some c \<Rightarrow> map_option (\<lambda>e. item (Some e)) (e_item_of_json E c))"

fun parse_items :: "env \<Rightarrow> wire_item list \<Rightarrow> remote_item list option" where
  "parse_items E [] = Some []"
| "parse_items E (w # ws) =
     (case wire_to_remote E w of
        None \<Rightarrow> None
      | Some r \<Rightarrow> map_option ((#) r) (parse_items E ws))"

definition api_pull ::
    "env \<Rightarrow> auth_session \<Rightarrow> secs \<Rightarrow> link \<Rightarrow> int \<Rightarrow> (transport_error + pull_response) \<times> link" where
  "api_pull E au now t since =
     (case deliver E (list_items E now au since) t of
        (Inl e, t') \<Rightarrow> (Inl (Network (lit ''network error: '' @ e)), t')
      | (Inr (Inl err), t') \<Rightarrow> (Inl (Rejected (lit ''pull: '' @ status_text (api_error_status err))), t')
      | (Inr (Inr rep), t') \<Rightarrow>
          (case parse_items E (lr_items rep) of
             None \<Rightarrow> (Inl (Rejected (lit ''invalid item'')), t')
           | Some items \<Rightarrow> (Inr \<lparr>pr_items = items, pr_latest_seq = lr_latest_seq rep,
                                pr_full_resync = lr_full_resync rep\<rparr>, t')))"

definition outcome_of :: "env \<Rightarrow> write_reply \<Rightarrow> push_outcome" where
  "outcome_of E w =
     (case w of
        Written i revision seq deleted \<Rightarrow> Accepted revision (case seq of None \<Rightarrow> 0 | Some q \<Rightarrow> q)
      | Conflict_409 current \<Rightarrow> Conflicted (Option.bind current (wire_to_remote E)))"

definition api_push_upsert ::
    "env \<Rightarrow> codec \<Rightarrow> auth_session \<Rightarrow> secs \<Rightarrow> link \<Rightarrow> encrypted_item \<Rightarrow> (transport_error + push_outcome) \<times> link" where
  "api_push_upsert E J au now t item =
     (case deliver E (put_item E now au (ei_item_id item) (cd_item_to J item)) t of
        (Inl e, t') \<Rightarrow> (Inl (Network (lit ''network error: '' @ e)), t')
      | (Inr (Inl err), t') \<Rightarrow> (Inl (Rejected (lit ''upsert: '' @ status_text (api_error_status err))), t')
      | (Inr (Inr w), t') \<Rightarrow> (Inr (outcome_of E w), t'))"

definition api_push_delete ::
    "env \<Rightarrow> auth_session \<Rightarrow> secs \<Rightarrow> link \<Rightarrow> text \<Rightarrow> int \<Rightarrow> (transport_error + push_outcome) \<times> link" where
  "api_push_delete E au now t item_id base_revision =
     (case deliver E (delete_item E now au item_id base_revision) t of
        (Inl e, t') \<Rightarrow> (Inl (Network (lit ''network error: '' @ e)), t')
      | (Inr (Inl err), t') \<Rightarrow>
          if api_error_status err = 404 then (Inr (Conflicted None), t')
          else (Inl (Rejected (lit ''delete: '' @ status_text (api_error_status err))), t')
      | (Inr (Inr w), t') \<Rightarrow> (Inr (outcome_of E w), t'))"

definition link_transport :: "env \<Rightarrow> codec \<Rightarrow> auth_session \<Rightarrow> secs \<Rightarrow> link transport" where
  "link_transport E J au now = \<lparr>t_pull = api_pull E au now, t_upsert = api_push_upsert E J au now,
     t_delete = api_push_delete E au now\<rparr>"

section \<open>The contract, for the link\<close>

definition remote_of :: "env \<Rightarrow> item_row \<Rightarrow> remote_item" where
  "remote_of E r = \<lparr>ri_item_id = vi_item_id r, ri_revision = vi_revision r, ri_seq = vi_seq r,
     ri_deleted = vi_deleted r, ri_content = Option.bind (vi_content r) (e_item_of_json E)\<rparr>"

definition link_rows :: "env \<Rightarrow> auth_session \<Rightarrow> link \<Rightarrow> text \<Rightarrow> remote_item option" where
  "link_rows E au t i = map_option (remote_of E) (item_row_of (lk_srv t) (au_account_id au) i)"

definition link_ctr :: "auth_session \<Rightarrow> link \<Rightarrow> int" where
  "link_ctr au t = (case account_by_id (lk_srv t) (au_account_id au) of None \<Rightarrow> 0 | Some a \<Rightarrow> ac_sync_seq a)"

definition link_horizon :: "auth_session \<Rightarrow> link \<Rightarrow> int" where
  "link_horizon au t =
     (case account_by_id (lk_srv t) (au_account_id au) of None \<Rightarrow> 0 | Some a \<Rightarrow> ac_purged_before_seq a)"

text \<open>What is asked of the JSON codec, of the server and of the account.\<close>

definition link_ok :: "env \<Rightarrow> codec \<Rightarrow> auth_session \<Rightarrow> link \<Rightarrow> bool" where
  "link_ok E J au t \<longleftrightarrow> json_ok E \<and> (\<forall>e. e_item_of_json E (cd_item_to J e) = Some e)
     \<and> items_ok E (lk_srv t) \<and> account_by_id (lk_srv t) (au_account_id au) \<noteq> None"

lemma remote_of_sel [simp]:
  "ri_item_id (remote_of E r) = vi_item_id r" "ri_seq (remote_of E r) = vi_seq r"
  "ri_deleted (remote_of E r) = vi_deleted r" "ri_revision (remote_of E r) = vi_revision r"
  by (simp_all add: remote_of_def)

lemma wire_row:
  assumes "json_ok E" and "row_ok E r"
  shows "wire_to_remote E (row_to_remote E r) = Some (remote_of E r)"
  using assms
  by (auto simp: wire_to_remote_def row_to_remote_def remote_of_def row_ok_def json_ok_def Let_def
      split: if_splits)

lemma parse_items_rows:
  assumes "\<And>w. w \<in> set ws \<Longrightarrow> \<exists>r. wire_to_remote E w = Some r"
  shows "parse_items E ws = Some (map (\<lambda>w. the (wire_to_remote E w)) ws)"
  using assms
proof (induction ws)
  case (Cons w ws)
  obtain r where "wire_to_remote E w = Some r" using Cons.prems[of w] by auto
  moreover have "parse_items E ws = Some (map (\<lambda>w. the (wire_to_remote E w)) ws)"
    using Cons by simp
  ultimately show ?case by simp
qed simp

lemma run_others_steps: "(items_step E)\<^sup>*\<^sup>* s (fold (run_other E) os s)"
proof (induction os arbitrary: s)
  case (Cons x os)
  have "items_step E s (run_other E x s)"
    by (cases x) (auto intro: step_put step_delete step_list step_checkpoint prod.collapse[symmetric])
  with Cons[of "run_other E x s"] show ?case by (simp add: converse_rtranclp_into_rtranclp)
qed simp

lemma evolve_rows:
  assumes "items_evolve (au_account_id au) (lk_srv t) (lk_srv t')"
  shows "rows_evolve (link_rows E au) (link_ctr au) (link_horizon au) t t'"
proof -
  let ?acc = "au_account_id au"
  obtain a a' where a: "account_by_id (lk_srv t) ?acc = Some a" "account_by_id (lk_srv t') ?acc = Some a'"
    using assms by (auto simp: items_evolve_def)
  note d = items_evolve_rowD[OF assms a]
  have "case link_rows E au t' i of
          Some r \<Rightarrow> link_rows E au t i = Some r \<or> ac_sync_seq a < ri_seq r
        | None \<Rightarrow> (case link_rows E au t i of None \<Rightarrow> True
                   | Some r \<Rightarrow> (ri_deleted r \<and> ri_seq r \<le> ac_purged_before_seq a')
                             \<or> ac_sync_seq a < ac_purged_before_seq a')" for i
  proof (cases "item_row_of (lk_srv t') ?acc i")
    case (Some r)
    with d(1)[of i r] show ?thesis by (auto simp: link_rows_def)
  next
    case None
    then show ?thesis using d(2)[OF None]
      by (cases "item_row_of (lk_srv t) ?acc i") (auto simp: link_rows_def)
  qed
  moreover have "link_ctr au t = ac_sync_seq a" "link_ctr au t' = ac_sync_seq a'"
    "link_horizon au t = ac_purged_before_seq a" "link_horizon au t' = ac_purged_before_seq a'"
    using a by (simp_all add: link_ctr_def link_horizon_def)
  ultimately show ?thesis using d(3,4) by (simp only: rows_evolve_def) blast
qed

lemma link_ok_evolve:
  assumes "link_ok E J au t" and "(items_step E)\<^sup>*\<^sup>* (lk_srv t) (lk_srv t')"
  shows "link_ok E J au t' \<and> items_evolve (au_account_id au) (lk_srv t) (lk_srv t')"
proof -
  have "items_ok E (lk_srv t)" using assms(1) by (simp add: link_ok_def)
  from items_steps_laws[OF assms(2) this] obtain a where "items_ok E (lk_srv t')"
    "items_evolve (au_account_id au) (lk_srv t) (lk_srv t')"
    using assms(1) by (auto simp: link_ok_def)
  with assms(1) show ?thesis by (auto simp: link_ok_def items_evolve_def)
qed

text \<open>What one round trip of a handler of \<open>items.rs\<close> does to the link.\<close>

lemma deliver_laws:
  assumes "link_ok E J au t" and step: "\<And>s. items_step E s (snd (h s))" and "deliver E h t = (r, t')"
  shows "link_ok E J au t' \<and> items_evolve (au_account_id au) (lk_srv t) (lk_srv t')
    \<and> (\<forall>x. r = Inr x \<longrightarrow> (\<exists>s1. link_ok E J au \<lparr>lk_srv = s1, lk_plan = []\<rparr> \<and> h s1 = (x, lk_srv t')
          \<and> items_evolve (au_account_id au) (lk_srv t) s1))"
proof -
  obtain others fate plan where n: "lk_next t = ((others, fate), plan)" by (metis surj_pair)
  let ?s1 = "fold (run_other E) others (lk_srv t)"
  have st1: "(items_step E)\<^sup>*\<^sup>* (lk_srv t) ?s1" by (rule run_others_steps)
  have st2: "(items_step E)\<^sup>*\<^sup>* (lk_srv t) (snd (h ?s1))" using st1 step by (simp add: rtranclp.rtrancl_into_rtrancl)
  have "lk_srv t' = ?s1 \<or> lk_srv t' = snd (h ?s1)"
    using assms(3) n by (auto simp: deliver_def Let_def split: fate.splits)
  with st1 st2 have "(items_step E)\<^sup>*\<^sup>* (lk_srv t) (lk_srv t')" by auto
  from link_ok_evolve[OF assms(1) this] have l: "link_ok E J au t'"
    "items_evolve (au_account_id au) (lk_srv t) (lk_srv t')" by simp_all
  have "link_ok E J au \<lparr>lk_srv = ?s1, lk_plan = []\<rparr> \<and> items_evolve (au_account_id au) (lk_srv t) ?s1"
    using link_ok_evolve[OF assms(1), of "\<lparr>lk_srv = ?s1, lk_plan = []\<rparr>"] st1 by simp
  moreover have "h ?s1 = (x, lk_srv t')" if "r = Inr x" for x
    using assms(3) n that by (auto simp: deliver_def Let_def split: fate.splits)
  ultimately show ?thesis using l by blast
qed

lemma put_item_result:
  assumes "items_ok E s" and "put_item E now au i body s = (Inr w, s')"
  shows "(\<exists>row n. w = Written i n (Some (vi_seq row)) False \<and> written (au_account_id au) i row s s')
    \<or> (w = Conflict_409 (map_option (row_to_remote E) (item_row_of s (au_account_id au) i)) \<and> s' = s)"
  using put_item_cases[OF assms(1), of now au i body] assms(2) by (auto simp: Let_def split: if_splits)

lemma delete_item_result:
  assumes "items_ok E s" and "delete_item E now au i base s = (res, s')"
  shows "(res = Inl NotFound \<and> s' = s \<and> item_row_of s (au_account_id au) i = None)
    \<or> res = Inl Internal
    \<or> (\<exists>n q row. res = Inr (Written i n q True) \<and> item_row_of s' (au_account_id au) i = Some row \<and> vi_deleted row)
    \<or> (res = Inr (Conflict_409 (map_option (row_to_remote E) (item_row_of s (au_account_id au) i))) \<and> s' = s)"
  using delete_item_cases[OF assms(1), of now au i base] assms(2)
  by (cases "item_row_of s (au_account_id au) i") (auto simp: written_def split: if_splits)

lemma conflict_row:
  assumes "link_ok E J au \<lparr>lk_srv = s, lk_plan = []\<rparr>"
  shows "Option.bind (map_option (row_to_remote E) (item_row_of s (au_account_id au) i)) (wire_to_remote E)
    = map_option (remote_of E) (item_row_of s (au_account_id au) i)"
proof (cases "item_row_of s (au_account_id au) i")
  case (Some r)
  then have "row_ok E r" using assms item_row_of_iff[of E s] by (auto simp: link_ok_def items_ok_def)
  with Some assms wire_row show ?thesis by (simp add: link_ok_def)
qed simp

lemma link_pull:
  assumes "link_ok E J au t" and "api_pull E au now t since = (res, t')"
  shows "link_ok E J au t' \<and> rows_evolve (link_rows E au) (link_ctr au) (link_horizon au) t t'
      \<and> (\<forall>p. res = Inr p \<longrightarrow> pr_latest_seq p = link_ctr au t'
            \<and> (pr_full_resync p \<longleftrightarrow> 0 < since \<and> since < link_horizon au t')
            \<and> (\<forall>r. r \<in> set (pr_items p) \<longleftrightarrow> link_rows E au t' (ri_item_id r) = Some r
                 \<and> (if pr_full_resync p then \<not> ri_deleted r else since < ri_seq r)))"
proof -
  obtain r t1 where d: "deliver E (list_items E now au since) t = (r, t1)" by fastforce
  have step: "items_step E s (snd (list_items E now au since s))" for s
    by (rule step_list[OF prod.collapse[symmetric]])
  note laws = deliver_laws[OF assms(1) step d]
  have t': "t' = t1" using assms(2) d by (auto simp: api_pull_def split: sum.splits option.splits)
  have "pr_latest_seq p = link_ctr au t'
            \<and> (pr_full_resync p \<longleftrightarrow> 0 < since \<and> since < link_horizon au t')
            \<and> (\<forall>r. r \<in> set (pr_items p) \<longleftrightarrow> link_rows E au t' (ri_item_id r) = Some r
                 \<and> (if pr_full_resync p then \<not> ri_deleted r else since < ri_seq r))" if p: "res = Inr p" for p
  proof -
    obtain rep where rep: "r = Inr (Inr rep)" and parse: "parse_items E (lr_items rep) = Some (pr_items p)"
      and sel: "pr_latest_seq p = lr_latest_seq rep" "pr_full_resync p = lr_full_resync rep"
      using assms(2) d p by (auto simp: api_pull_def split: sum.splits option.splits)
    obtain s1 where s1: "link_ok E J au \<lparr>lk_srv = s1, lk_plan = []\<rparr>"
      "list_items E now au since s1 = (Inr rep, lk_srv t')"
      using laws rep t' by blast
    then have ok1: "items_ok E s1" and js: "json_ok E" by (auto simp: link_ok_def)
    obtain a where a: "account_by_id s1 (au_account_id au) = Some a"
      using s1(1) by (auto simp: link_ok_def)
    obtain h s2 rep' where ls: "list_items E now au since s1 = (Inr rep', s2)"
      "account_by_id s2 (au_account_id au) = Some (a\<lparr>ac_purged_before_seq := h\<rparr>)"
      "lr_latest_seq rep' = ac_sync_seq a" "lr_full_resync rep' \<longleftrightarrow> 0 < since \<and> since < h"
      and items: "\<And>w. w \<in> set (lr_items rep') \<longleftrightarrow>
           (\<exists>r. item_row_of s2 (au_account_id au) (wi_item_id w) = Some r \<and> w = row_to_remote E r
              \<and> (if lr_full_resync rep' then \<not> vi_deleted r else since < vi_seq r))"
      by (rule list_items_spec[OF ok1 a, of now since]) blast
    have eq: "rep' = rep" "s2 = lk_srv t'" using ls(1) s1(2) by simp_all
    have ok2: "items_ok E s2" using laws eq t' by (simp add: link_ok_def)
    have row: "row_ok E q" if "item_row_of s2 (au_account_id au) i = Some q" for q i
      using that item_row_of_iff[OF ok2] ok2 by (auto simp: items_ok_def)
    have id: "wi_item_id (row_to_remote E q) = vi_item_id q" for q by (simp add: row_to_remote_def)
    have vid: "vi_item_id q = i" if "item_row_of s2 (au_account_id au) i = Some q" for q i
      using that item_row_of_iff[OF ok2] by (simp add: is_item_def)
    have wires: "wire_to_remote E w = Some (remote_of E q)"
      if "w = row_to_remote E q" "item_row_of s2 (au_account_id au) i = Some q" for w q i
      using wire_row[OF js row[OF that(2)]] that(1) by simp
    have "parse_items E (lr_items rep') = Some (map (\<lambda>w. the (wire_to_remote E w)) (lr_items rep'))"
      by (rule parse_items_rows) (use items wires in blast)
    then have its: "pr_items p = map (\<lambda>w. the (wire_to_remote E w)) (lr_items rep')"
      using parse eq by simp
    have "x \<in> set (pr_items p) \<longleftrightarrow> link_rows E au t' (ri_item_id x) = Some x
                 \<and> (if pr_full_resync p then \<not> ri_deleted x else since < ri_seq x)" for x
    proof
      assume "x \<in> set (pr_items p)"
      then obtain w where w: "w \<in> set (lr_items rep')" "x = the (wire_to_remote E w)" by (auto simp: its)
      then obtain q where q: "item_row_of s2 (au_account_id au) (wi_item_id w) = Some q" "w = row_to_remote E q"
        "if lr_full_resync rep' then \<not> vi_deleted q else since < vi_seq q"
        using items by blast
      from wires[OF q(2,1)] w(2) have x: "x = remote_of E q" by simp
      from q(1) have "item_row_of s2 (au_account_id au) (vi_item_id q) = Some q" using vid[OF q(1)] by simp
      with x q(3) eq sel show "link_rows E au t' (ri_item_id x) = Some x
                 \<and> (if pr_full_resync p then \<not> ri_deleted x else since < ri_seq x)"
        by (simp add: link_rows_def)
    next
      assume x: "link_rows E au t' (ri_item_id x) = Some x
                 \<and> (if pr_full_resync p then \<not> ri_deleted x else since < ri_seq x)"
      then obtain q where q: "item_row_of s2 (au_account_id au) (ri_item_id x) = Some q" "x = remote_of E q"
        using eq by (auto simp: link_rows_def)
      have "row_to_remote E q \<in> set (lr_items rep')"
        unfolding items using q x sel eq by (intro exI[of _ q], cases "lr_full_resync rep") (simp_all add: id)
      moreover have "the (wire_to_remote E (row_to_remote E q)) = x" using wires[OF refl q(1)] q(2) by simp
      ultimately show "x \<in> set (pr_items p)" unfolding its by force
    qed
    with ls(2-4) eq sel show ?thesis by (simp add: link_ctr_def link_horizon_def)
  qed
  with laws t' evolve_rows show ?thesis by blast
qed

lemma link_upsert:
  assumes "link_ok E J au t" and "api_push_upsert E J au now t e = (res, t')"
  shows "link_ok E J au t' \<and> rows_evolve (link_rows E au) (link_ctr au) (link_horizon au) t t'
      \<and> (\<forall>n q. res = Inr (Accepted n q) \<longrightarrow>
            (\<exists>r. link_rows E au t' (ei_item_id e) = Some r \<and> link_ctr au t < ri_seq r))
      \<and> (\<forall>c. res = Inr (Conflicted c) \<longrightarrow> link_rows E au t' (ei_item_id e) = c)"
proof -
  let ?h = "put_item E now au (ei_item_id e) (cd_item_to J e)" and ?acc = "au_account_id au"
  obtain r t1 where d: "deliver E ?h t = (r, t1)" by fastforce
  have step: "items_step E s (snd (?h s))" for s by (rule step_put[OF prod.collapse[symmetric]])
  note laws = deliver_laws[OF assms(1) step d]
  have t': "t' = t1" using assms(2) d by (auto simp: api_push_upsert_def split: sum.splits)
  have key: "(\<exists>row n. w = Written (ei_item_id e) n (Some (vi_seq row)) False
        \<and> item_row_of (lk_srv t') ?acc (ei_item_id e) = Some row \<and> link_ctr au t < vi_seq row)
    \<or> (\<exists>s1. w = Conflict_409 (map_option (row_to_remote E) (item_row_of s1 ?acc (ei_item_id e)))
        \<and> lk_srv t' = s1 \<and> link_ok E J au \<lparr>lk_srv = s1, lk_plan = []\<rparr>)" if rw: "r = Inr (Inr w)" for w
  proof -
    obtain s1 where s1: "link_ok E J au \<lparr>lk_srv = s1, lk_plan = []\<rparr>" "?h s1 = (Inr w, lk_srv t')"
      "items_evolve ?acc (lk_srv t) s1"
      using laws rw t' by blast
    have ok1: "items_ok E s1" using s1(1) by (simp add: link_ok_def)
    from put_item_result[OF ok1 s1(2)] show ?thesis
    proof (elim disjE exE conjE)
      fix row n assume w: "w = Written (ei_item_id e) n (Some (vi_seq row)) False"
        "written ?acc (ei_item_id e) row s1 (lk_srv t')"
      have "link_ctr au t < vi_seq row"
        using s1(3) w(2) by (auto simp: items_evolve_def link_ctr_def written_def)
      with w written_rows[OF w(2)] show ?thesis by auto
    qed (use s1(1) in auto)
  qed
  have "\<exists>x. link_rows E au t' (ei_item_id e) = Some x \<and> link_ctr au t < ri_seq x"
    if res: "res = Inr (Accepted n q)" for n q
  proof -
    obtain w where w: "r = Inr (Inr w)" "outcome_of E w = Accepted n q"
      using assms(2) d res by (auto simp: api_push_upsert_def split: sum.splits)
    from key[OF w(1)] w(2) show ?thesis by (auto simp: outcome_of_def link_rows_def)
  qed
  moreover have "link_rows E au t' (ei_item_id e) = c" if res: "res = Inr (Conflicted c)" for c
  proof -
    obtain w where w: "r = Inr (Inr w)" "outcome_of E w = Conflicted c"
      using assms(2) d res by (auto simp: api_push_upsert_def split: sum.splits)
    from key[OF w(1)] w(2) show ?thesis
      by (auto simp: outcome_of_def link_rows_def conflict_row)
  qed
  ultimately show ?thesis using laws t' evolve_rows by blast
qed

lemma link_delete:
  assumes "link_ok E J au t" and "api_push_delete E au now t i base = (res, t')"
  shows "link_ok E J au t' \<and> rows_evolve (link_rows E au) (link_ctr au) (link_horizon au) t t'
      \<and> (\<forall>n q. res = Inr (Accepted n q) \<longrightarrow> (\<exists>r. link_rows E au t' i = Some r \<and> ri_deleted r))
      \<and> (\<forall>c. res = Inr (Conflicted c) \<longrightarrow> link_rows E au t' i = c)"
proof -
  let ?h = "delete_item E now au i base" and ?acc = "au_account_id au"
  obtain r t1 where d: "deliver E ?h t = (r, t1)" by fastforce
  have step: "items_step E s (snd (?h s))" for s by (rule step_delete[OF prod.collapse[symmetric]])
  note laws = deliver_laws[OF assms(1) step d]
  have t': "t' = t1" using assms(2) d by (auto simp: api_push_delete_def split: sum.splits if_splits)
  have key: "(x = Inl NotFound \<and> item_row_of (lk_srv t') ?acc i = None)
    \<or> x = Inl Internal
    \<or> (\<exists>n q row. x = Inr (Written i n q True) \<and> item_row_of (lk_srv t') ?acc i = Some row \<and> vi_deleted row)
    \<or> (\<exists>s1. x = Inr (Conflict_409 (map_option (row_to_remote E) (item_row_of s1 ?acc i)))
        \<and> lk_srv t' = s1 \<and> link_ok E J au \<lparr>lk_srv = s1, lk_plan = []\<rparr>)" if x: "r = Inr x" for x
  proof -
    obtain s1 where s1: "link_ok E J au \<lparr>lk_srv = s1, lk_plan = []\<rparr>" "?h s1 = (x, lk_srv t')"
      using laws x t' by blast
    have ok1: "items_ok E s1" using s1(1) by (simp add: link_ok_def)
    from delete_item_result[OF ok1 s1(2)] s1(1) show ?thesis by auto
  qed
  have "\<exists>x. link_rows E au t' i = Some x \<and> ri_deleted x" if res: "res = Inr (Accepted n q)" for n q
  proof -
    obtain w where w: "r = Inr (Inr w)" "outcome_of E w = Accepted n q"
      using assms(2) d res by (auto simp: api_push_delete_def split: sum.splits if_splits)
    from key[OF w(1)] w(2) show ?thesis by (auto simp: outcome_of_def link_rows_def)
  qed
  moreover have "link_rows E au t' i = c" if res: "res = Inr (Conflicted c)" for c
  proof -
    consider (w) w where "r = Inr (Inr w)" "outcome_of E w = Conflicted c"
      | (nf) err where "r = Inr (Inl err)" "api_error_status err = 404" "c = None"
      using assms(2) d res by (auto simp: api_push_delete_def split: sum.splits if_splits)
    then show ?thesis
    proof cases
      case (w w)
      from key[OF w(1)] w(2) show ?thesis by (auto simp: outcome_of_def link_rows_def conflict_row)
    next
      case (nf err)
      from key[OF nf(1)] nf(2,3) show ?thesis by (auto simp: link_rows_def)
    qed
  qed
  ultimately show ?thesis using laws t' evolve_rows by blast
qed

lemma link_ok_rows:
  assumes "link_ok E J au t"
  shows "link_rows E au t i = Some r \<Longrightarrow> ri_item_id r = i \<and> 0 < ri_seq r \<and> ri_seq r \<le> link_ctr au t"
    and "0 \<le> link_horizon au t \<and> link_horizon au t \<le> link_ctr au t"
proof -
  have ok: "items_ok E (lk_srv t)" using assms by (simp add: link_ok_def)
  obtain a where a: "account_by_id (lk_srv t) (au_account_id au) = Some a"
    using assms by (auto simp: link_ok_def)
  then have am: "a \<in> set (accounts (lk_srv t))" "ac_id a = au_account_id au" by (auto dest: account_by_idD)
  with ok a show "0 \<le> link_horizon au t \<and> link_horizon au t \<le> link_ctr au t"
    by (simp add: link_horizon_def link_ctr_def items_ok_def)
  show "ri_item_id r = i \<and> 0 < ri_seq r \<and> ri_seq r \<le> link_ctr au t" if lr: "link_rows E au t i = Some r"
  proof -
    obtain q where q: "item_row_of (lk_srv t) (au_account_id au) i = Some q" "r = remote_of E q"
      using lr by (auto simp: link_rows_def)
    then have m: "q \<in> set (vault_items (lk_srv t))" "vi_account_id q = au_account_id au" "vi_item_id q = i"
      using item_row_of_iff[OF ok] by (auto simp: is_item_def)
    then obtain b where b: "b \<in> set (accounts (lk_srv t))" "ac_id b = au_account_id au" "vi_seq q \<le> ac_sync_seq b"
      using ok by (auto simp: items_ok_def)
    then have "account_by_id (lk_srv t) (au_account_id au) = Some b" using account_by_id_iff[OF ok] by simp
    with a b m q(2) ok show ?thesis by (auto simp: link_ctr_def items_ok_def row_ok_def)
  qed
qed

interpretation dev: sync_service "link_transport E J au now" "link_rows E au" "link_ctr au"
  "link_horizon au" "link_ok E J au" for E J au now
proof (unfold_locales, goal_cases)
  case (1 t i r)
  then show ?case by (rule link_ok_rows(1))
next
  case (2 t)
  then show ?case by (rule link_ok_rows(2))
next
  case (3 t since pulled t')
  from 3(2) have "api_pull E au now t since = (pulled, t')" by (simp add: link_transport_def)
  then show ?case by (rule link_pull[OF 3(1)])
next
  case (4 t e res t')
  from 4(2) have "api_push_upsert E J au now t e = (res, t')" by (simp add: link_transport_def)
  then show ?case by (rule link_upsert[OF 4(1)])
next
  case (5 t i b res t')
  from 5(2) have "api_push_delete E au now t i b = (res, t')" by (simp add: link_transport_def)
  then show ?case by (rule link_delete[OF 5(1)])
qed

text \<open>The pair of the SQLite replica and the link.\<close>

interpretation pair: replica "sqlite_ops J" "sqlite_wf J" "link_transport E J au now" "link_rows E au"
  "link_ctr au" "link_horizon au" "link_ok E J au" for J E au now
  by unfold_locales

end
