(* ===== verification/Api_Client.thy ===== *)
theory Api_Client
  imports Device_Link
begin

text \<open>
  The rest of the desktop's HTTP client, desktop-core \<open>api.rs\<close>: the server address the user types,
  the typed error surface, the retry of an authenticated call after one token rotation, and the
  two calls of the rollback checkpoint.
\<close>

section \<open>Addresses\<close>

definition is_private_172 :: "text \<Rightarrow> bool" where
  "is_private_172 host =
     (case strip_prefix host (lit ''172.'') of
        None \<Rightarrow> False
      | Some rest \<Rightarrow>
          (case parse_unsigned 8 (split_first (\<lambda>c. c = 46) rest) of
             None \<Rightarrow> False
           | Some octet \<Rightarrow> 16 \<le> octet \<and> octet \<le> 31))"

definition is_local_host :: "text \<Rightarrow> bool" where
  "is_local_host host \<longleftrightarrow>
     host \<in> set [lit ''localhost'', lit ''127.0.0.1'', lit ''::1'', lit ''[::1]'']
     \<or> starts_with host (lit ''127.'') \<or> starts_with host (lit ''10.'')
     \<or> starts_with host (lit ''192.168.'') \<or> is_private_172 host"

definition normalize_base_url :: "text \<Rightarrow> text" where
  "normalize_base_url input =
     (let trimmed = trim_end_matches 47 (trim input)
      in if str_contains trimmed (lit ''://'') then trimmed
         else
           (let host = split_first (\<lambda>c. c = 58 \<or> c = 47) trimmed;
                scheme = (if is_local_host host then lit ''http'' else lit ''https'')
            in scheme @ lit ''://'' @ trimmed))"

section \<open>Errors\<close>

datatype client_error =
    Ce_Network "text"
  | Ce_InvalidCredentials
  | Ce_EmailNotVerified
  | Ce_MfaRequired
  | Ce_RateLimited secs
  | Ce_CoolingOff secs
  | Ce_SessionExpired
  | Ce_Server "text"

text \<open>The error body is the one \<open>into_response\<close> builds.\<close>

definition classify :: "nat \<times> text \<times> secs option \<Rightarrow> client_error" where
  "classify resp =
     (case resp of (status, code, retry_after_secs) \<Rightarrow>
        if code = lit ''email_not_verified'' then Ce_EmailNotVerified
        else if code = lit ''mfa_required'' then Ce_MfaRequired
        else if code = lit ''locked_out'' \<or> code = lit ''rate_limited''
          then Ce_RateLimited (case retry_after_secs of None \<Rightarrow> 60 | Some n \<Rightarrow> n)
        else if code = lit ''cooling_off''
          then Ce_CoolingOff (case retry_after_secs of None \<Rightarrow> 0 | Some n \<Rightarrow> n)
        else if code = lit ''invalid_credentials'' then Ce_InvalidCredentials
        else if code = lit ''invalid_token'' then Ce_SessionExpired
        else Ce_Server (status_text status @ lit '': '' @ code))"

text \<open>\<open>Display\<close> of the errors a checkpoint call can end with (the others keep their type).\<close>

fun client_error_text :: "client_error \<Rightarrow> text" where
  "client_error_text (Ce_Network m) = lit ''network error: '' @ m"
| "client_error_text Ce_InvalidCredentials = lit ''invalid e-mail or master password''"
| "client_error_text Ce_EmailNotVerified =
     lit ''e-mail address not verified yet '' @ [8212] @ lit '' check your inbox''"
| "client_error_text Ce_MfaRequired = lit ''two-factor code required''"
| "client_error_text (Ce_RateLimited n) =
     lit ''too many attempts '' @ [8212] @ lit '' try again in '' @ dec_int n @ lit ''s''"
| "client_error_text (Ce_CoolingOff n) =
     lit ''recovery cooling-off: usable in '' @ dec_int n @ lit ''s''"
| "client_error_text Ce_SessionExpired =
     lit ''session expired '' @ [8212] @ lit '' log in again''"
| "client_error_text (Ce_Server m) = lit ''server error: '' @ m"

section \<open>One automatic rotation\<close>

text \<open>The client's tokens; \<open>w\<close> is everything outside (network and server).  A call sends the access
  token and gets a status and a body, or a network error; \<open>rot\<close> is the refresh endpoint.\<close>

record client =
  cl_access :: "text option"
  cl_refresh :: "text option"

definition refresh_session ::
    "('w \<Rightarrow> text \<Rightarrow> (text + nat \<times> (text option \<times> text option)) \<times> 'w) \<Rightarrow> client \<Rightarrow> 'w \<Rightarrow>
     (client_error + text) \<times> client \<times> 'w" where
  "refresh_session rot c w =
     (case cl_refresh c of
        None \<Rightarrow> (Inl Ce_SessionExpired, c, w)
      | Some refresh \<Rightarrow>
          (case rot w refresh of
             (Inl e, w') \<Rightarrow> (Inl (Ce_Network e), c, w')
           | (Inr (status, access, new_refresh), w') \<Rightarrow>
               if \<not> (200 \<le> status \<and> status < 300)
               then (Inl Ce_SessionExpired, \<lparr>cl_access = None, cl_refresh = None\<rparr>, w')
               else
                 (case access of
                    None \<Rightarrow> (Inl (Ce_Server (lit ''missing access_token'')), c, w')
                  | Some a \<Rightarrow>
                      (case new_refresh of
                         None \<Rightarrow> (Inl (Ce_Server (lit ''missing refresh_token'')),
                                  c\<lparr>cl_access := Some a\<rparr>, w')
                       | Some r \<Rightarrow> (Inr r, \<lparr>cl_access = Some a, cl_refresh = Some r\<rparr>, w')))))"

text \<open>The two rounds of the loop of \<open>authed\<close>: only the first may rotate.\<close>

definition authed_once ::
    "('w \<Rightarrow> text \<Rightarrow> (text + nat \<times> 'b) \<times> 'w) \<Rightarrow> client \<Rightarrow> 'w \<Rightarrow> (client_error + nat \<times> 'b) \<times> 'w" where
  "authed_once call c w =
     (case cl_access c of
        None \<Rightarrow> (Inl Ce_SessionExpired, w)
      | Some token \<Rightarrow>
          (case call w token of
             (Inl e, w') \<Rightarrow> (Inl (Ce_Network e), w')
           | (Inr r, w') \<Rightarrow> (Inr r, w')))"

definition authed ::
    "('w \<Rightarrow> text \<Rightarrow> (text + nat \<times> (text option \<times> text option)) \<times> 'w) \<Rightarrow>
     ('w \<Rightarrow> text \<Rightarrow> (text + nat \<times> 'b) \<times> 'w) \<Rightarrow> client \<Rightarrow> 'w \<Rightarrow>
     (client_error + nat \<times> 'b) \<times> client \<times> 'w" where
  "authed rot call c w =
     (case authed_once call c w of
        (Inl e, w1) \<Rightarrow> (Inl e, c, w1)
      | (Inr (status, body), w1) \<Rightarrow>
          if status \<noteq> 401 then (Inr (status, body), c, w1)
          else
            (case refresh_session rot c w1 of
               (Inl e, c', w2) \<Rightarrow> (Inl e, c', w2)
             | (Inr _, c', w2) \<Rightarrow>
                 (case authed_once call c' w2 of (r, w3) \<Rightarrow> (r, c', w3))))"

section \<open>The checkpoint calls\<close>

definition api_get_checkpoint ::
    "env \<Rightarrow> auth_session \<Rightarrow> link \<Rightarrow> (client_error + (int \<times> bytes) option) \<times> link" where
  "api_get_checkpoint E au t =
     (case deliver E (get_checkpoint E au) t of
        (Inl e, t') \<Rightarrow> (Inl (Ce_Network e), t')
      | (Inr (Inl err), t') \<Rightarrow> (Inl (classify (api_error_response err)), t')
      | (Inr (Inr None), t') \<Rightarrow> (Inr None, t')
      | (Inr (Inr (Some (seq, tag))), t') \<Rightarrow>
          (case e_b64_decode E tag of
             None \<Rightarrow> (Inl (Ce_Server (lit ''checkpoint tag not base64url'')), t')
           | Some bytes \<Rightarrow> (Inr (Some (seq, bytes)), t')))"

definition api_put_checkpoint ::
    "env \<Rightarrow> auth_session \<Rightarrow> link \<Rightarrow> int \<Rightarrow> bytes \<Rightarrow> (client_error + unit) \<times> link" where
  "api_put_checkpoint E au t seq tag =
     (case deliver E (put_checkpoint E au seq (e_b64_encode E tag)) t of
        (Inl e, t') \<Rightarrow> (Inl (Ce_Network e), t')
      | (Inr (Inl err), t') \<Rightarrow> (Inl (classify (api_error_response err)), t')
      | (Inr (Inr u), t') \<Rightarrow> (Inr u, t'))"

section \<open>Facts\<close>

lemma classify_codes:
  "classify (api_error_response (LockedOut n)) = Ce_RateLimited n"
  "classify (api_error_response (RateLimited n)) = Ce_RateLimited n"
  "classify (api_error_response (CoolingOff n)) = Ce_CoolingOff n"
  "classify (api_error_response InvalidCredentials) = Ce_InvalidCredentials"
  "classify (api_error_response EmailNotVerified) = Ce_EmailNotVerified"
  "classify (api_error_response MfaRequired) = Ce_MfaRequired"
  "classify (api_error_response InvalidToken) = Ce_SessionExpired"
  by (simp_all add: classify_def api_error_response_def lit_def)

text \<open>Whatever the server does, one call rotates at most once and sends at most twice, and the second
  time with the rotated token.\<close>

lemma authed_retry:
  assumes "cl_access c = Some a" and "call w a = (Inr (401, b), w1)"
    and "cl_refresh c = Some f" and "rot w1 f = (Inr (200, Some a', Some f'), w2)"
  shows "authed rot call c w =
    (case call w2 a' of
       (Inl e, w3) \<Rightarrow> (Inl (Ce_Network e), \<lparr>cl_access = Some a', cl_refresh = Some f'\<rparr>, w3)
     | (Inr r, w3) \<Rightarrow> (Inr r, \<lparr>cl_access = Some a', cl_refresh = Some f'\<rparr>, w3))"
  using assms by (auto simp: authed_def authed_once_def refresh_session_def split: prod.splits sum.splits)

end
