(* ===== verification/Rollback.thy ===== *)
theory Rollback
  imports Api_Client
begin

text \<open>
  desktop-core \<open>rollback.rs\<close>: a sync cycle between two checks against a checkpoint that devices
  with the vault key sign and the server stores.  The checks are proved against any server; that
  an honest server is never accused is proved for the real pair, where it is true.
\<close>

section \<open>The wrapper\<close>

record 't checkpoint_api =
  ck_get :: "'t \<Rightarrow> (client_error + (int \<times> bytes) option) \<times> 't"
  ck_put :: "'t \<Rightarrow> int \<Rightarrow> bytes \<Rightarrow> (client_error + unit) \<times> 't"

datatype sync_error =
    Engine sync_engine_error
  | Sync_Api "text"
  | CheckpointForged
  | Withholding int int

text \<open>The verified checkpoint: its sequence number, or the error that stops the cycle.\<close>

definition verify_checkpoint ::
    "crypto \<Rightarrow> vault_key \<Rightarrow> int \<Rightarrow> (int \<times> bytes) option \<Rightarrow> sync_error + int" where
  "verify_checkpoint C vk floor stored =
     (case stored of
        None \<Rightarrow> Inr 0
      | Some (seq, tag) \<Rightarrow>
          if \<not> verify_sync_checkpoint C vk seq tag then Inl CheckpointForged
          else if seq < floor then Inl (Engine (RollbackDetected floor seq))
          else Inr seq)"

definition synchronize ::
    "crypto \<Rightarrow> 'v vault_ops \<Rightarrow> 't transport \<Rightarrow> 't checkpoint_api \<Rightarrow> vault_key \<Rightarrow> 'v \<Rightarrow> 't \<Rightarrow>
     ((sync_error + sync_report) \<times> 'v \<times> 't) option" where
  "synchronize C V T K vk v t =
     (let floor = vo_last_seq V v
      in case ck_get K t of
           (Inl e, t1) \<Rightarrow> Some (Inl (Sync_Api (client_error_text e)), v, t1)
         | (Inr stored, t1) \<Rightarrow>
             (case verify_checkpoint C vk floor stored of
                Inl e \<Rightarrow> Some (Inl e, v, t1)
              | Inr verified_checkpoint_seq \<Rightarrow>
                  (case sync V T v t1 of
                     None \<Rightarrow> None
                   | Some (Inl e, v2, t2) \<Rightarrow> Some (Inl (Engine e), v2, t2)
                   | Some (Inr report, v2, t2) \<Rightarrow>
                       (let served = vo_last_seq V v2
                        in if verified_checkpoint_seq > served
                           then Some (Inl (Withholding verified_checkpoint_seq served), v2, t2)
                           else if served > verified_checkpoint_seq
                           then Some (Inr report, v2,
                                  snd (ck_put K t2 served (sync_checkpoint_tag C vk served)))
                           else Some (Inr report, v2, t2)))))"

definition link_checkpoints :: "env \<Rightarrow> auth_session \<Rightarrow> link checkpoint_api" where
  "link_checkpoints E au = \<lparr>ck_get = api_get_checkpoint E au, ck_put = api_put_checkpoint E au\<rparr>"

section \<open>Any server\<close>

context local_vault
begin

lemma synchronize_total:
  assumes "wf v"
  shows "\<exists>r. synchronize C V T K vk v t = Some r"
proof -
  obtain r t1 where "ck_get K t = (r, t1)" by fastforce
  moreover obtain x v2 t2 where "sync V T v t1 = Some (x, v2, t2)"
    using sync_total[OF assms, of T t1] by (metis prod_cases3)
  ultimately show ?thesis
    by (cases r; cases x) (auto simp: synchronize_def Let_def split: sum.splits)
qed

text \<open>A cycle that succeeds has data at least up to every checkpoint it was shown, all of them
  signed, and a cursor that did not move back; one whose checkpoint is refused does nothing.\<close>

lemma synchronize_laws:
  assumes "wf v" and "synchronize C V T K vk v t = Some (res, v', t')"
  shows "wf v' \<and> vo_last_seq V v \<le> vo_last_seq V v'
    \<and> (\<forall>rep. res = Inr rep \<longrightarrow>
         (case fst (ck_get K t) of
            Inl e \<Rightarrow> False
          | Inr None \<Rightarrow> True
          | Inr (Some (seq, tag)) \<Rightarrow> verify_sync_checkpoint C vk seq tag
              \<and> vo_last_seq V v \<le> seq \<and> seq \<le> vo_last_seq V v'))
    \<and> (\<forall>seq tag. fst (ck_get K t) = Inr (Some (seq, tag)) \<and> \<not> verify_sync_checkpoint C vk seq tag \<longrightarrow>
         res = Inl CheckpointForged \<and> v' = v \<and> t' = snd (ck_get K t))
    \<and> (\<forall>seq tag. fst (ck_get K t) = Inr (Some (seq, tag)) \<and> verify_sync_checkpoint C vk seq tag
         \<and> seq < vo_last_seq V v \<longrightarrow>
         res = Inl (Engine (RollbackDetected (vo_last_seq V v) seq)) \<and> v' = v \<and> t' = snd (ck_get K t))"
proof -
  obtain g t1 where g: "ck_get K t = (g, t1)" by fastforce
  show ?thesis
  proof (cases g)
    case (Inl e)
    with assms g show ?thesis by (auto simp: synchronize_def)
  next
    case (Inr stored)
    show ?thesis
    proof (cases "verify_checkpoint C vk (vo_last_seq V v) stored")
      case (Inl e)
      with assms g Inr show ?thesis
        by (auto simp: synchronize_def verify_checkpoint_def split: option.splits prod.splits if_splits)
    next
      case (Inr c)
      obtain x v2 t2 where s: "sync V T v t1 = Some (x, v2, t2)"
        using sync_total[OF assms(1), of T t1] by (metis prod_cases3)
      have c: "stored = None \<and> c = 0 \<or> (\<exists>tag. stored = Some (c, tag)
          \<and> verify_sync_checkpoint C vk c tag \<and> vo_last_seq V v \<le> c)"
        using Inr by (auto simp: verify_checkpoint_def split: option.splits prod.splits if_splits)
      have v': "v' = v2" and r: "\<forall>rep. res = Inr rep \<longrightarrow> c \<le> vo_last_seq V v2"
        using assms(2) by (auto simp: synchronize_def g \<open>g = Inr stored\<close> Inr s Let_def
            split: sum.splits if_splits)
      show ?thesis using c r sync_laws[OF assms(1) s]
        by (auto simp: g v' \<open>g = Inr stored\<close> split: option.splits)
    qed
  qed
qed

end

section \<open>The checkpoint cannot be forged\<close>

text \<open>A checkpoint tag says who made it and for what: a tag verifies exactly under the vault
  key and for the sequence number (an \<open>i64\<close>) it was made with, so a server without the key cannot
  turn a tag for one sequence number into a tag for another.\<close>

lemma checkpoint_tag_binds:
  assumes "hkdf_separates C" and "- (2 ^ 63) \<le> seq" "seq < 2 ^ 63" "- (2 ^ 63) \<le> seq'" "seq' < 2 ^ 63"
  shows "verify_sync_checkpoint C vk seq (sync_checkpoint_tag C vk' seq') \<longleftrightarrow> vk = vk' \<and> seq = seq'"
proof
  assume "verify_sync_checkpoint C vk seq (sync_checkpoint_tag C vk' seq')"
  then have "vk_bytes vk = vk_bytes vk' \<and> INFO_SYNC_CHECKPOINT @ seq_le_bytes seq
      = INFO_SYNC_CHECKPOINT @ seq_le_bytes seq'"
    using assms(1) unfolding hkdf_separates_def verify_sync_checkpoint_def sync_checkpoint_tag_def
    by blast
  then show "vk = vk' \<and> seq = seq'" using seq_le_bytes_inj[OF _ assms(2-5)] by (simp add: vault_key.expand)
qed (simp add: verify_sync_checkpoint_def)

end
