(* ===== verification/Sync_Props.thy ===== *)
theory Sync_Props
  imports Rollback
begin

text \<open>
  The properties of a device: the SQLite replica, the engine, the rollback wrapper, against any
  server at all, and then against a vault server that other devices write to at any time over a
  line that loses requests and responses.
\<close>

section \<open>Edits between cycles\<close>

lemma last_op_snoc: "last_op i (ops @ [op]) = (if op_item_id op = i then Some op else last_op i ops)"
  by (simp add: last_op_def)

context local_vault
begin

lemma stage_view:
  assumes "wf v"
  shows "live_view V (vo_stage V v op) i =
    (if i = op_item_id op then if si_deleted (staged op) then None
       else Some (si_revision (staged op), si_content (staged op))
     else live_view V v i)"
  using assms by (simp add: live_view_def)

text \<open>A staged edit changes one item and keeps what the next cycle needs.\<close>

lemma stage_keeps:
  assumes "wf v" and "synced V rows ctr horizon v t" and "queue_ok V v" and "fresh_ok V v"
  shows "wf (vo_stage V v op)" and "synced V rows ctr horizon (vo_stage V v op) t"
    and "queue_ok V (vo_stage V v op)" and "fresh_ok V (vo_stage V v op)"
proof -
  have d: "dirty_ids V (vo_stage V v op) = insert (op_item_id op) (dirty_ids V v)"
    using assms(1) by (simp add: dirty_ids_def)
  have vw: "live_view V (vo_stage V v op) i = live_view V v i" if "i \<noteq> op_item_id op" for i
    using assms(1) that by (simp add: stage_view)
  show "wf (vo_stage V v op)" using assms(1) by simp
  show "fresh_ok V (vo_stage V v op)"
    using assms(1,4) by (auto simp: fresh_ok_def d stage_view)
  show "synced V rows ctr horizon (vo_stage V v op) t"
    using assms(1,2) by (simp add: synced_def d agree_view[OF vw])
  show "queue_ok V (vo_stage V v op)"
    using assms(1,3) by (cases op) (auto simp: queue_ok_def last_op_snoc stage_view split: if_splits)
qed

end

section \<open>Any server\<close>


text \<open>A server that lies about everything, for the witness.\<close>

definition liar :: "unit transport" where
  "liar = \<lparr>t_pull = \<lambda>t since. (Inr \<lparr>pr_items = [], pr_latest_seq = 5, pr_full_resync = True\<rparr>, t),
     t_upsert = \<lambda>t e. (Inr (Conflicted None), t), t_delete = \<lambda>t i b. (Inr (Accepted 9 9), t)\<rparr>"

definition toy_replica :: sqlite_vault where
  "toy_replica = sqlite_stage toy_codec sqlite_empty (Upsert (toy_item 1 7))"

lemma toy_replica_wf [simp]: "sqlite_wf toy_codec toy_replica"
  unfolding toy_replica_def by (rule sqlite_stage_wf) simp

lemma toy_replica_pending [simp]: "sqlite_pending_ops toy_codec toy_replica = [Upsert (toy_item 1 7)]"
  using sqlite_stage_get(3)[OF sqlite_empty_wf[OF toy_codec_ok]] by (simp add: toy_replica_def)


text \<open>Claim C24.  The guards of a rollback-protected cycle, against any server: it returns; if it succeeds, the
  checkpoint it was shown (if any) was signed with the vault key, was not behind the replica and not
  ahead of the data served; a forged checkpoint, or a signed one behind the replica, stops the cycle
  with its error before anything else happens: the replica is unchanged and nothing more was sent.\<close>

theorem synchronize_guards:
  assumes "sqlite_wf J v"
  shows "\<exists>res v' t'. synchronize C (sqlite_ops J) T K vk v t = Some (res, v', t') \<and> sqlite_wf J v'
    \<and> sqlite_last_seq v \<le> sqlite_last_seq v'
    \<and> (\<forall>rep. res = Inr rep \<longrightarrow>
         (case fst (ck_get K t) of
            Inl e \<Rightarrow> False
          | Inr None \<Rightarrow> True
          | Inr (Some (seq, tag)) \<Rightarrow> verify_sync_checkpoint C vk seq tag
              \<and> sqlite_last_seq v \<le> seq \<and> seq \<le> sqlite_last_seq v'))
    \<and> (\<forall>seq tag. fst (ck_get K t) = Inr (Some (seq, tag)) \<and> \<not> verify_sync_checkpoint C vk seq tag \<longrightarrow>
         res = Inl CheckpointForged \<and> v' = v \<and> t' = snd (ck_get K t))
    \<and> (\<forall>seq tag. fst (ck_get K t) = Inr (Some (seq, tag)) \<and> verify_sync_checkpoint C vk seq tag
         \<and> seq < sqlite_last_seq v \<longrightarrow>
         res = Inl (Engine (RollbackDetected (sqlite_last_seq v) seq)) \<and> v' = v \<and> t' = snd (ck_get K t))"
proof -
  obtain res v' t' where r: "synchronize C (sqlite_ops J) T K vk v t = Some (res, v', t')"
    using sq.synchronize_total[OF assms, of C T K vk t] by (metis prod_cases3)
  show ?thesis
    by (rule exI, rule exI, rule exI, rule conjI, rule r,
        rule sq.synchronize_laws[OF assms r, unfolded sqlite_ops_sel])
qed

definition forger :: "unit checkpoint_api" where
  "forger = \<lparr>ck_get = \<lambda>t. (Inr (Some (3, [])), t), ck_put = \<lambda>t seq tag. (Inr (), t)\<rparr>"

theorem synchronize_guards_witness:
  "synchronize toy_crypto (sqlite_ops toy_codec) liar forger (VaultKey [1]) toy_replica ()
     = Some (Inl CheckpointForged, toy_replica, ())"
proof -
  have "\<not> verify_sync_checkpoint toy_crypto (VaultKey [1]) 3 []"
    by (simp add: verify_sync_checkpoint_def sync_checkpoint_tag_def toy_crypto_sel
        INFO_SYNC_CHECKPOINT_def blit_def)
  with synchronize_guards[OF toy_replica_wf, of toy_crypto liar forger "VaultKey [1]" "()"]
  show ?thesis by (auto simp: forger_def)
qed

section \<open>A server that keeps its contract\<close>

text \<open>Consistency through every outcome: if the replica is a past state of the account plus
  its queued edits, then after a cycle it still is, whether the cycle succeeded or was cut short by a
  lost request or response at any point, whatever other devices wrote meanwhile; and the server is never
  accused of a rollback it did not make.\<close>

lemma sync_keeps_consistent:
  assumes "sqlite_wf J v" and "link_ok E J au t"
    and "synced (sqlite_ops J) (link_rows E au) (link_ctr au) (link_horizon au) v t"
    and "queue_ok (sqlite_ops J) v" and "fresh_ok (sqlite_ops J) v" and "0 < link_ctr au t"
    and "sync (sqlite_ops J) (link_transport E J au now) v t = Some (res, v', t')"
  shows "sqlite_wf J v' \<and> link_ok E J au t'
    \<and> synced (sqlite_ops J) (link_rows E au) (link_ctr au) (link_horizon au) v' t'
    \<and> (\<forall>e. res = Inl e \<longrightarrow> (\<exists>te. e = Transport te) \<and> sqlite_last_seq v' = sqlite_last_seq v)"
  using pair.sync_cycle[OF assms(1-5,7)] assms(6) by (simp add: sqlite_ops_sel)


text \<open>What a delivered pull returns.\<close>

lemma list_parse:
  assumes "items_ok E s" and "json_ok E" and "account_by_id s (au_account_id au) \<noteq> None"
  shows "\<exists>rep items s'. list_items E now au since s = (Inr rep, s') \<and> parse_items E (lr_items rep) = Some items"
proof -
  obtain a where a: "account_by_id s (au_account_id au) = Some a" using assms(3) by auto
  obtain s1 rep where l: "list_items E now au since s = (Inr rep, s1)"
    and s1: "s1 = purge_tombstones (au_account_id au) now s"
    and items: "\<And>w. w \<in> set (lr_items rep) \<Longrightarrow>
           \<exists>r. item_row_of s1 (au_account_id au) (wi_item_id w) = Some r \<and> w = row_to_remote E r"
    by (rule list_items_spec[OF assms(1) a, of now since]) blast
  have ok1: "items_ok E s1" by (rule purge_tombstones_laws(1)[OF assms(1) s1])
  have "\<exists>r. wire_to_remote E w = Some r" if w: "w \<in> set (lr_items rep)" for w
  proof -
    obtain q where q: "item_row_of s1 (au_account_id au) (wi_item_id w) = Some q" "w = row_to_remote E q"
      using items[OF w] by auto
    then have "row_ok E q" using item_row_of_iff[OF ok1] ok1 by (auto simp: items_ok_def)
    with wire_row[OF assms(2)] q(2) show ?thesis by auto
  qed
  from l parse_items_rows[OF this] show ?thesis by blast
qed

definition delivering :: "link \<Rightarrow> bool" where
  "delivering t \<longleftrightarrow> (\<forall>visit \<in> set (lk_plan t). snd visit = Delivered)"

lemma pull_delivered:
  assumes "link_ok E J au t" and "delivering t"
  obtains p t' where "api_pull E au now t since = (Inr p, t')" and "delivering t'"
proof -
  obtain others fate plan where n: "lk_next t = ((others, fate), plan)" by (metis surj_pair)
  have d: "fate = Delivered" "\<forall>visit \<in> set plan. snd visit = Delivered"
    using n assms(2) by (auto simp: lk_next_def delivering_def split: list.splits)
  let ?s1 = "fold (run_other E) others (lk_srv t)"
  have ok1: "link_ok E J au \<lparr>lk_srv = ?s1, lk_plan = []\<rparr>"
    using link_ok_evolve[OF assms(1), of "\<lparr>lk_srv = ?s1, lk_plan = []\<rparr>"] run_others_steps by simp
  obtain rep items s' where "list_items E now au since ?s1 = (Inr rep, s')"
    "parse_items E (lr_items rep) = Some items"
    using list_parse[of E ?s1 au now since] ok1 by (auto simp: link_ok_def)
  then have "\<exists>p. api_pull E au now t since = (Inr p, \<lparr>lk_srv = s', lk_plan = plan\<rparr>)"
    by (simp add: api_pull_def deliver_def n d(1))
  with d(2) that show thesis by (auto simp: delivering_def)
qed

lemma refresh_delivered:
  assumes "sqlite_wf J v" and "link_ok E J au t"
    and "synced (sqlite_ops J) (link_rows E au) (link_ctr au) (link_horizon au) v t"
    and "sqlite_pending_ops J v = []" and "delivering t"
  shows "\<exists>rep v' t'. sync (sqlite_ops J) (link_transport E J au now) v t = Some (Inr rep, v', t')"
proof -
  let ?V = "sqlite_ops J" and ?T = "link_transport E J au now"
  have tp: "t_pull ?T = api_pull E au now" by (simp add: link_transport_def)
  obtain p t1 where p: "api_pull E au now t (vo_last_seq ?V v) = (Inr p, t1)" and d1: "delivering t1"
    by (rule pull_delivered[OF assms(2,5)])
  from link_pull[OF assms(2) p] have ok1: "link_ok E J au t1" and l1: "pr_latest_seq p = link_ctr au t1"
    and "link_ctr au t \<le> link_ctr au t1" by (auto simp: rows_evolve_def)
  then have f: "\<not> pr_latest_seq p < vo_last_seq ?V v" using assms(3) by (auto simp: synced_def)
  define v1 where "v1 = (if pr_full_resync p then vo_clear_items ?V v else v)"
  have wf1: "sqlite_wf J v1" and q1: "vo_pending_ops ?V v1 = []"
    using assms(1,4) by (simp_all add: v1_def flip: sqlite_ops_sel)
  obtain v2 rep2 where a: "apply_pulled ?V (map op_item_id (vo_pending_ops ?V v1)) (pr_items p) v1
        (empty_report\<lparr>sr_full_resync := pr_full_resync p\<rparr>) = (v2, rep2)" by fastforce
  have q2: "vo_pending_ops ?V v2 = []" using sq.apply_pulled_laws[OF a wf1] q1 by simp
  have loop: "push_loop ?V ?T v2 t1 rep2 = Some (Inr rep2, v2, t1)"
    by (subst push_loop.simps) (simp add: q2)
  obtain tl t3 where tl: "api_pull E au now t1 (pr_latest_seq p) = (Inr tl, t3)"
    by (rule pull_delivered[OF ok1 d1])
  from link_pull[OF ok1 tl] l1 have "\<not> pr_latest_seq tl < pr_latest_seq p" by (auto simp: rows_evolve_def)
  then show ?thesis
    using f by (simp add: sync_def tp p Let_def a[unfolded v1_def] loop tl)
qed


section \<open>A concrete line\<close>

text \<open>For the witnesses: an account with one item, written by another device.\<close>

definition toy_live :: item_row where
  "toy_live = \<lparr>vi_account_id = 1, vi_item_id = lit ''i'', vi_revision = 1, vi_seq = 1, vi_deleted = False,
     vi_content = Some (toy_item_to (toy_item 1 7)), vi_updated_at = 0\<rparr>"

definition toy_link :: link where
  "toy_link = \<lparr>lk_srv = toy_srv\<lparr>accounts := [(toy_account 1 (lit ''a@b.c''))\<lparr>ac_sync_seq := 1\<rparr>],
     vault_items := [toy_live]\<rparr>, lk_plan = []\<rparr>"

lemma toy_link_ok [simp]: "link_ok toy_env toy_codec toy_auth toy_link"
proof -
  have "items_ok toy_env (lk_srv toy_link)"
    by (simp add: items_ok_def toy_link_def toy_account_def toy_live_def row_ok_def toy_env_def)
      (simp add: toy_item_def as_i64_def)
  moreover have "account_by_id (lk_srv toy_link) 1 \<noteq> None"
    by (simp add: account_by_id_def toy_link_def toy_account_def)
  moreover have "e_item_of_json toy_env (cd_item_to toy_codec e) = Some e" for e
    by (simp add: toy_env_def toy_codec_def)
  ultimately show ?thesis by (simp add: link_ok_def)
qed

lemma toy_link_ctr [simp]: "link_ctr toy_auth toy_link = 1" "link_horizon toy_auth toy_link = 0"
  by (simp_all add: link_ctr_def link_horizon_def account_by_id_def toy_link_def toy_account_def)

lemma toy_link_rows: "link_rows toy_env toy_auth toy_link i = (if i = lit ''i''
    then Some \<lparr>ri_item_id = lit ''i'', ri_revision = 1, ri_seq = 1, ri_deleted = False,
               ri_content = Some (toy_item 1 7)\<rparr> else None)"
  by (simp add: link_rows_def item_row_of_def toy_link_def toy_live_def is_item_def remote_of_def toy_env_def)

lemma toy_fresh:
  "synced (sqlite_ops toy_codec) (link_rows toy_env toy_auth) (link_ctr toy_auth) (link_horizon toy_auth)
     sqlite_empty toy_link"
  "queue_ok (sqlite_ops toy_codec) sqlite_empty" "fresh_ok (sqlite_ops toy_codec) sqlite_empty"
  by (simp_all add: synced_def queue_ok_def fresh_ok_def sqlite_ops_sel agree_def live_view_def
      toy_link_rows last_op_def)

lemma toy_pull:
  "api_pull toy_env toy_auth 5 toy_link 0 = (Inr \<lparr>pr_items = [\<lparr>ri_item_id = lit ''i'', ri_revision = 1,
     ri_seq = 1, ri_deleted = False, ri_content = Some (toy_item 1 7)\<rparr>], pr_latest_seq = 1,
     pr_full_resync = False\<rparr>, toy_link)"
  "api_pull toy_env toy_auth 5 toy_link 1 = (Inr \<lparr>pr_items = [], pr_latest_seq = 1,
     pr_full_resync = False\<rparr>, toy_link)"
  by (simp_all add: api_pull_def deliver_def lk_next_def toy_link_def list_items_def purge_tombstones_def
      purgeable_def toy_live_def account_by_id_def toy_account_def row_to_remote_def wire_to_remote_def
      Let_def checkpoint_json_def) (simp_all add: toy_env_def)

lemma toy_sync:
  obtains rep v' where "sync (sqlite_ops toy_codec) (link_transport toy_env toy_codec toy_auth 5)
    sqlite_empty toy_link = Some (Inr rep, v', toy_link)"
proof -
  let ?V = "sqlite_ops toy_codec" and ?T = "link_transport toy_env toy_codec toy_auth 5"
  have tp: "t_pull ?T = api_pull toy_env toy_auth 5" by (simp add: link_transport_def)
  have q: "vo_pending_ops ?V (vo_apply_remote ?V sqlite_empty r) = []" for r
    using sq.pending_apply[OF sqlite_empty_wf[OF toy_codec_ok]] by (simp add: sqlite_ops_sel)
  have loop: "push_loop ?V ?T (vo_apply_remote ?V sqlite_empty r) toy_link rep
      = Some (Inr rep, vo_apply_remote ?V sqlite_empty r, toy_link)" for r rep
    by (subst push_loop.simps) (simp add: q)
  show thesis
    by (rule that) (simp add: sync_def tp sqlite_ops_sel toy_pull Let_def loop)
qed



end
