(* ===== verification/Memory_Vault.thy ===== *)
theory Memory_Vault
  imports Sync_Engine
begin

text \<open>
  vault-sync \<open>memory.rs\<close>, the reference implementation of the vault interface.  The hash map is
  an association list with distinct keys.
\<close>

record memory_vault =
  mv_items :: "(text \<times> stored_item) list"
  mv_queue :: "pending_op list"
  mv_last_seq :: int

definition memory_new :: memory_vault where
  "memory_new = \<lparr>mv_items = [], mv_queue = [], mv_last_seq = 0\<rparr>"

definition memory_apply_remote :: "memory_vault \<Rightarrow> remote_item \<Rightarrow> memory_vault" where
  "memory_apply_remote v item = v\<lparr>mv_items := AList.update (ri_item_id item)
     \<lparr>si_item_id = ri_item_id item, si_revision = ri_revision item, si_deleted = ri_deleted item,
      si_content = ri_content item\<rparr> (mv_items v)\<rparr>"

definition memory_stage :: "memory_vault \<Rightarrow> pending_op \<Rightarrow> memory_vault" where
  "memory_stage v op =
     (let v1 = (case op of
          Upsert envelope \<Rightarrow> v\<lparr>mv_items := AList.update (ei_item_id envelope)
            \<lparr>si_item_id = ei_item_id envelope, si_revision = as_i64 (ei_revision envelope),
             si_deleted = False, si_content = Some envelope\<rparr> (mv_items v)\<rparr>
        | Delete item_id base_revision \<Rightarrow> v\<lparr>mv_items := AList.update item_id
            \<lparr>si_item_id = item_id, si_revision = base_revision + 1, si_deleted = True,
             si_content = None\<rparr> (mv_items v)\<rparr>)
      in v1\<lparr>mv_queue := mv_queue v1 @ [op]\<rparr>)"

definition memory_ops :: "memory_vault vault_ops" where
  "memory_ops = \<lparr>
     vo_last_seq = mv_last_seq,
     vo_set_last_seq = (\<lambda>v seq. v\<lparr>mv_last_seq := seq\<rparr>),
     vo_get = (\<lambda>v i. map_of (mv_items v) i),
     vo_list = (\<lambda>v. sort_key si_item_id (map snd (mv_items v))),
     vo_apply_remote = memory_apply_remote,
     vo_clear_items = (\<lambda>v. v\<lparr>mv_items := []\<rparr>),
     vo_stage = memory_stage,
     vo_pending_ops = mv_queue,
     vo_pop_front_op = (\<lambda>v. v\<lparr>mv_queue := tl (mv_queue v)\<rparr>)\<rparr>"

definition memory_wf :: "memory_vault \<Rightarrow> bool" where
  "memory_wf v \<longleftrightarrow> distinct (map fst (mv_items v)) \<and> (\<forall>(k, st) \<in> set (mv_items v). si_item_id st = k)"

lemma memory_wf_update:
  assumes "memory_wf v" and "si_item_id st = k"
  shows "memory_wf (v\<lparr>mv_items := AList.update k st (mv_items v)\<rparr>)"
proof -
  have "\<forall>(k', st') \<in> set (AList.update k st t). si_item_id st' = k'"
    if "\<forall>(k', st') \<in> set t. si_item_id st' = k'" for t
    using that assms(2) by (induction t) auto
  from this[of "mv_items v"] assms show ?thesis unfolding memory_wf_def
    by (simp add: distinct_update)
qed

lemma memory_stage_alt:
  "memory_stage v op = v\<lparr>mv_items := AList.update (op_item_id op) (staged op) (mv_items v),
     mv_queue := mv_queue v @ [op]\<rparr>"
  by (cases op) (simp_all add: memory_stage_def Let_def)

lemma memory_set_list:
  assumes "memory_wf v"
  shows "st \<in> set (sort_key si_item_id (map snd (mv_items v))) \<longleftrightarrow> map_of (mv_items v) (si_item_id st) = Some st"
proof
  assume "st \<in> set (sort_key si_item_id (map snd (mv_items v)))"
  then obtain k where k: "(k, st) \<in> set (mv_items v)" by auto
  with assms have "k = si_item_id st" by (auto simp: memory_wf_def)
  with k assms show "map_of (mv_items v) (si_item_id st) = Some st" by (simp add: memory_wf_def)
next
  assume "map_of (mv_items v) (si_item_id st) = Some st"
  then show "st \<in> set (sort_key si_item_id (map snd (mv_items v)))" by (force dest: map_of_SomeD)
qed

lemma memory_ids: "memory_wf v \<Longrightarrow> map si_item_id (map snd (mv_items v)) = map fst (mv_items v)"
  by (auto simp: memory_wf_def)

interpretation mem: local_vault memory_ops memory_wf
proof (unfold_locales, goal_cases)
  case (2 v r)
  then show ?case
    using memory_wf_update[of v "stored_of r" "ri_item_id r"]
    by (simp add: memory_ops_def memory_apply_remote_def stored_of_def)
next
  case (4 v p)
  then show ?case using memory_wf_update[of v "staged p" "op_item_id p"]
    by (simp add: memory_ops_def memory_stage_alt memory_wf_def)
next
  case (16 v i st)
  then show ?case by (auto simp: memory_ops_def memory_wf_def dest!: map_of_SomeD)
next
  case (22 v st)
  then show ?case using memory_set_list[of v st] by (simp add: memory_ops_def)
next
  case (23 v)
  have "distinct (map si_item_id (map snd (mv_items v)))"
    unfolding memory_ids[OF 23] using 23 by (simp add: memory_wf_def)
  then show ?case by (simp add: memory_ops_def)
qed (auto simp: memory_ops_def memory_wf_def memory_apply_remote_def memory_stage_alt stored_of_def
      update_conv')

end
