(* ===== verification/Server_Totp.thy ===== *)
theory Server_Totp
  imports Server_State "HOL-Library.Signed_Division"
begin

text \<open>
  vault-server \<open>totp.rs\<close>, and the three functions every handler with a second factor shares:
  \<open>is_totp_active\<close> and \<open>consume_totp\<close> of \<open>routes/mfa.rs\<close>, \<open>consume_recovery_code\<close> of
  \<open>routes/auth.rs\<close>.  A code counts once: the accepted time steps of an account only increase.
\<close>

unbundle bit_operations_syntax

section \<open>Codes (\<open>totp.rs\<close>)\<close>

definition STEP_SECS :: int where "STEP_SECS = 30"
definition DIGITS :: nat where "DIGITS = 6"
definition DRIFT_STEPS :: int where "DRIFT_STEPS = 1"

text \<open>The secret drawn at enrolment: 20 random bytes.\<close>

definition generate_secret :: "env \<Rightarrow> bytes \<Rightarrow> text" where
  "generate_secret E draw = e_b32_encode E draw"

text \<open>\<open>str::replace\<close> of one character, and the chain of six of them.\<close>

definition replace_char :: "uchar \<Rightarrow> text \<Rightarrow> text \<Rightarrow> text" where
  "replace_char c by s = concat (map (\<lambda>d. if d = c then by else [d]) s)"

definition uri_esc :: "text \<Rightarrow> text" where
  "uri_esc s =
     replace_char 35 (lit ''%23'') (replace_char 47 (lit ''%2F'') (replace_char 63 (lit ''%3F'')
       (replace_char 38 (lit ''%26'') (replace_char 32 (lit ''%20'') (replace_char 37 (lit ''%25'') s)))))"

definition otpauth_uri :: "text \<Rightarrow> text \<Rightarrow> text \<Rightarrow> text" where
  "otpauth_uri issuer account_email secret_base32 =
     lit ''otpauth://totp/'' @ uri_esc issuer @ lit '':'' @ uri_esc account_email
     @ lit ''?secret='' @ secret_base32 @ lit ''&issuer='' @ uri_esc issuer
     @ lit ''&algorithm=SHA1&digits='' @ dec DIGITS @ lit ''&period='' @ dec_int STEP_SECS"

definition be_bytes8 :: "nat \<Rightarrow> bytes" where
  "be_bytes8 n = rev (le_bytes 8 n)"

definition hotp :: "env \<Rightarrow> bytes \<Rightarrow> nat \<Rightarrow> u32" where
  "hotp E secret counter =
     (let digest = e_hmac_sha1 E secret (be_bytes8 counter);
          offset = unat (digest ! 19 AND 0x0f);
          code = push_bit 24 (ucast (digest ! offset) AND (0x7f :: u32))
             OR push_bit 16 (ucast (digest ! (offset + 1)))
             OR push_bit 8 (ucast (digest ! (offset + 2)))
             OR ucast (digest ! (offset + 3))
      in code mod 10 ^ DIGITS)"

text \<open>\<open>format!("{:06}", ..)\<close>.\<close>

definition zero_pad :: "nat \<Rightarrow> text \<Rightarrow> text" where
  "zero_pad k s = replicate (k - length s) 48 @ s"

definition code_at :: "env \<Rightarrow> text \<Rightarrow> secs \<Rightarrow> text option" where
  "code_at E secret_base32 unix_secs =
     (case e_b32_decode E (map to_ascii_uppercase (trim secret_base32)) of
        None \<Rightarrow> None
      | Some secret \<Rightarrow>
          (let counter = nat (max (unix_secs sdiv STEP_SECS) 0)
           in Some (zero_pad 6 (dec (unat (hotp E secret counter))))))"

text \<open>Every window is tried, the last match wins.\<close>

definition verify_step :: "env \<Rightarrow> text \<Rightarrow> text \<Rightarrow> secs \<Rightarrow> int option" where
  "verify_step E secret_base32 submitted0 unix_secs =
     (let submitted = trim submitted0
      in if str_len submitted \<noteq> DIGITS \<or> \<not> list_all is_ascii_digit submitted then None
         else
           foldl (\<lambda>matched drift.
               (let t = unix_secs + drift * STEP_SECS
                in case code_at E secret_base32 t of
                     None \<Rightarrow> matched
                   | Some expected \<Rightarrow>
                       if expected = submitted then Some (t sdiv STEP_SECS) else matched))
             None [- DRIFT_STEPS, 0, DRIFT_STEPS])"

definition verify :: "env \<Rightarrow> text \<Rightarrow> text \<Rightarrow> secs \<Rightarrow> bool" where
  "verify E secret_base32 submitted unix_secs \<longleftrightarrow> verify_step E secret_base32 submitted unix_secs \<noteq> None"

section \<open>Second factors of an account\<close>

definition active_totp :: "srv \<Rightarrow> int \<Rightarrow> totp_row option" where
  "active_totp s account_id =
     List.find (\<lambda>r. to_account_id r = account_id \<and> to_activated_at r \<noteq> None) (totps s)"

definition is_totp_active :: "srv \<Rightarrow> int \<Rightarrow> bool" where
  "is_totp_active s account_id \<longleftrightarrow> active_totp s account_id \<noteq> None"

text \<open>The guard of the \<open>UPDATE\<close>.\<close>

definition step_unused :: "int \<Rightarrow> int \<Rightarrow> totp_row \<Rightarrow> bool" where
  "step_unused account_id step r \<longleftrightarrow> to_account_id r = account_id
     \<and> (case to_last_used_step r of None \<Rightarrow> True | Some prev \<Rightarrow> prev < step)"

definition consume_totp :: "env \<Rightarrow> int \<Rightarrow> text \<Rightarrow> secs \<Rightarrow> srv \<Rightarrow> bool \<times> srv" where
  "consume_totp E account_id code now s =
     (case active_totp s account_id of
        None \<Rightarrow> (False, s)
      | Some row \<Rightarrow>
          (case verify_step E (to_secret_base32 row) code now of
             None \<Rightarrow> (False, s)
           | Some step \<Rightarrow>
               if (case to_last_used_step row of None \<Rightarrow> False | Some prev \<Rightarrow> step \<le> prev) then (False, s)
               else
                 (count_where (step_unused account_id step) (totps s) = 1,
                  s\<lparr>totps := update_where (step_unused account_id step)
                       (\<lambda>r. r\<lparr>to_last_used_step := Some step\<rparr>) (totps s)\<rparr>)))"

definition normalize_recovery_code :: "text \<Rightarrow> text" where
  "normalize_recovery_code code = map to_ascii_uppercase (filter is_ascii_alphanumeric code)"

definition consume_recovery_code :: "env \<Rightarrow> int \<Rightarrow> text \<Rightarrow> secs \<Rightarrow> srv \<Rightarrow> bool \<times> srv" where
  "consume_recovery_code E account_id code now s =
     (let hash = e_sha256 E (as_bytes (normalize_recovery_code code));
          p = (\<lambda>r. rc_account_id r = account_id \<and> rc_code_hash r = hash \<and> rc_used_at r = None)
      in (count_where p (recovery_codes s) = 1,
          s\<lparr>recovery_codes := update_where p (\<lambda>r. r\<lparr>rc_used_at := Some now\<rparr>) (recovery_codes s)\<rparr>))"

section \<open>Facts\<close>

text \<open>What is asked of the MAC: 20 bytes out.\<close>

definition hmac1_ok :: "env \<Rightarrow> bool" where
  "hmac1_ok E \<longleftrightarrow> (\<forall>k m. length (e_hmac_sha1 E k m) = 20)"

lemma toy_hmac1 [simp]: "hmac1_ok toy_env"
  by (simp add: hmac1_ok_def toy_env_def min_def)

text \<open>The four digest bytes a code is cut from lie inside the digest.\<close>

lemma hotp_in_digest:
  assumes "hmac1_ok E" and "digest = e_hmac_sha1 E secret (be_bytes8 counter)"
  shows "19 < length digest \<and> unat (digest ! 19 AND 0x0f) + 3 < length digest"
proof -
  have "unat (digest ! 19 AND 0x0f) \<le> 15"
    using word_and_le1[of "digest ! 19" 15] by (simp add: word_le_nat_alt)
  moreover have "length digest = 20" using assms by (simp add: hmac1_ok_def)
  ultimately show ?thesis by simp
qed

lemma hotp_less: "unat (hotp E secret counter) < 1000000"
proof -
  have "unat (w mod 1000000) < 1000000" for w :: u32
    by (simp add: unat_mod_distrib)
  then show ?thesis by (simp add: hotp_def Let_def DIGITS_def)
qed

lemma length_dec: "n < 10 ^ Suc k \<Longrightarrow> length (dec n) \<le> Suc k"
proof (induction k arbitrary: n)
  case (Suc k)
  then have "n div 10 < 10 ^ Suc k" by simp
  with Suc.IH[of "n div 10"] show ?case by (subst dec.simps) simp
qed (simp add: dec.simps)

lemma digits_text:
  assumes "list_all is_ascii_digit s"
  shows "str_len s = length s" and "trim s = s"
proof -
  show "str_len s = length s" using assms
    by (induction s) (simp_all add: str_len_def as_bytes_def utf8_char_def is_ascii_digit_def)
  have nw: "\<not> is_whitespace c" if "is_ascii_digit c" for c
    using that by (auto simp: is_ascii_digit_def is_whitespace_def)
  have drop: "dropWhile is_whitespace t = t" if "list_all is_ascii_digit t" for t
    using that nw by (cases t) auto
  from drop[OF assms] drop[of "rev s"] assms show "trim s = s"
    by (simp add: trim_def trim_start_def trim_end_def)
qed

text \<open>A code is always six digits, so the format check never refuses one.\<close>

lemma code_at_digits:
  assumes "code_at E sec t = Some c"
  shows "length c = 6 \<and> list_all is_ascii_digit c"
proof -
  obtain w :: u32 where w: "c = zero_pad 6 (dec (unat w))" "unat w < 10 ^ Suc 5"
    using assms hotp_less by (auto simp: code_at_def Let_def split: option.splits)
  with length_dec[OF w(2)] dec_digits[of "unat w"] show ?thesis
    by (auto simp: zero_pad_def is_ascii_digit_def list_all_iff)
qed

lemma verify_step_cases:
  "verify_step E sec sub now =
    (let hit = (\<lambda>t. code_at E sec t = Some (trim sub))
     in if hit (now + 30) then Some ((now + 30) sdiv 30)
        else if hit now then Some (now sdiv 30)
        else if hit (now - 30) then Some ((now - 30) sdiv 30) else None)"
proof (cases "str_len (trim sub) = 6 \<and> list_all is_ascii_digit (trim sub)")
  case True
  have "now + (- 1) * 30 = now - 30" by simp
  with True show ?thesis
    by (auto simp: verify_step_def Let_def DIGITS_def DRIFT_STEPS_def STEP_SECS_def split: option.splits)
next
  case False
  then have "code_at E sec t \<noteq> Some (trim sub)" for t
    using code_at_digits[of E sec t "trim sub"] digits_text(1)[of "trim sub"] by auto
  with False show ?thesis by (auto simp: verify_step_def Let_def DIGITS_def)
qed

section \<open>Properties\<close>

text \<open>The verification window: a submission is accepted exactly when, spaces aside, it is
  the six-digit code of the previous, the current or the next half minute, and the step reported for
  it is the one whose code it is, at most one away from the clock's.\<close>

lemma totp_window:
  "(verify E sec sub now \<longleftrightarrow>
      code_at E sec (now - 30) = Some (trim sub) \<or> code_at E sec now = Some (trim sub)
      \<or> code_at E sec (now + 30) = Some (trim sub))
   \<and> (\<forall>st. verify_step E sec sub now = Some st \<longrightarrow> 30 \<le> now \<longrightarrow>
        code_at E sec (30 * st) = Some (trim sub) \<and> now div 30 - 1 \<le> st \<and> st \<le> now div 30 + 1)"
proof (intro conjI allI impI)
  show "verify E sec sub now \<longleftrightarrow>
      code_at E sec (now - 30) = Some (trim sub) \<or> code_at E sec now = Some (trim sub)
      \<or> code_at E sec (now + 30) = Some (trim sub)"
    by (auto simp: verify_def verify_step_cases Let_def)
  fix st assume st: "verify_step E sec sub now = Some st" and now: "30 \<le> now"
  have sd: "t sdiv 30 = t div 30" if "0 \<le> t" for t :: int
    using that by (simp add: signed_divide_int_def sgn_if)
  have same: "code_at E sec (30 * (t div 30)) = code_at E sec t" if "0 \<le> t" for t
    using that by (simp add: code_at_def Let_def STEP_SECS_def sd cong: option.case_cong)
  obtain t where t: "t \<in> {now - 30, now, now + 30}" "st = t sdiv 30" "code_at E sec t = Some (trim sub)"
    using st by (auto simp: verify_step_cases Let_def split: if_splits)
  then have "0 \<le> t" using now by auto
  with t same[of t] show "code_at E sec (30 * st) = Some (trim sub)" by (simp add: sd)
  show "now div 30 - 1 \<le> st" "st \<le> now div 30 + 1" using t(1,2) \<open>0 \<le> t\<close> by (auto simp: sd)
qed

text \<open>The floor of an account: every row of it has consumed at least this step.\<close>

definition used_up_to :: "srv \<Rightarrow> int \<Rightarrow> int \<Rightarrow> bool" where
  "used_up_to s acc st \<longleftrightarrow>
     (\<forall>r \<in> set (totps s). to_account_id r = acc \<longrightarrow> (\<exists>prev. to_last_used_step r = Some prev \<and> st \<le> prev))"

lemma used_up_to_update:
  assumes "t = update_where (step_unused a st') (\<lambda>r. r\<lparr>to_last_used_step := Some st'\<rparr>) (totps s)"
  shows "used_up_to s acc st \<Longrightarrow> used_up_to (s\<lparr>totps := t\<rparr>) acc st"
    and "used_up_to (s\<lparr>totps := t\<rparr>) a st'"
proof -
  have m: "r' \<in> set t \<Longrightarrow> \<exists>r \<in> set (totps s). r' = (if step_unused a st' r then r\<lparr>to_last_used_step := Some st'\<rparr> else r)" for r'
    by (auto simp: assms update_where_def)
  show "used_up_to s acc st \<Longrightarrow> used_up_to (s\<lparr>totps := t\<rparr>) acc st"
    by (fastforce simp: used_up_to_def step_unused_def dest!: m split: if_splits)
  have "r \<in> set (totps s) \<Longrightarrow> to_account_id r = a \<Longrightarrow> \<not> step_unused a st' r \<Longrightarrow>
      \<exists>prev. to_last_used_step r = Some prev \<and> st' \<le> prev" for r
    by (cases "to_last_used_step r") (auto simp: step_unused_def)
  then show "used_up_to (s\<lparr>totps := t\<rparr>) a st'"
    by (auto simp: used_up_to_def dest!: m)
qed

lemma consume_totp_used:
  assumes "consume_totp E acc code now s = (True, s')"
    and "verify_step E (to_secret_base32 (the (active_totp s acc))) code now = Some st"
  shows "used_up_to s' acc st"
  using assms used_up_to_update(2)[OF refl, where s = s and a = acc and st' = st]
  by (auto simp: consume_totp_def split: option.splits if_splits)

lemma consume_totp_keeps:
  assumes "used_up_to s acc st"
  shows "used_up_to (snd (consume_totp E a code now s)) acc st"
  using assms used_up_to_update(1)[OF refl assms, where a = a]
  by (simp add: consume_totp_def split: option.split)

lemma consume_totp_refuses:
  assumes "used_up_to s acc st"
    and "\<And>row st'. active_totp s acc = Some row \<Longrightarrow> verify_step E (to_secret_base32 row) code now = Some st' \<Longrightarrow> st' \<le> st"
  shows "consume_totp E acc code now s = (False, s)"
proof (cases "active_totp s acc")
  case (Some row)
  then have "row \<in> set (totps s)" "to_account_id row = acc"
    unfolding active_totp_def using find_SomeD by fastforce+
  then obtain prev where prev: "to_last_used_step row = Some prev" "st \<le> prev"
    using assms(1) by (auto simp: used_up_to_def)
  show ?thesis
  proof (cases "verify_step E (to_secret_base32 row) code now")
    case (Some st')
    with assms(2)[OF \<open>active_totp s acc = Some row\<close>] prev \<open>active_totp s acc = Some row\<close>
    show ?thesis by (simp add: consume_totp_def)
  qed (simp add: consume_totp_def Some)
qed (simp add: consume_totp_def)


definition toy_totp_srv :: srv where
  "toy_totp_srv = toy_srv\<lparr>totps := [\<lparr>to_account_id = 1, to_secret_base32 = [], to_activated_at = Some 0,
     to_created_at = 0, to_last_used_step = None\<rparr>]\<rparr>"


definition code_spent :: "srv \<Rightarrow> int \<Rightarrow> bytes \<Rightarrow> bool" where
  "code_spent s acc h \<longleftrightarrow> (\<forall>r \<in> set (recovery_codes s).
     rc_account_id r = acc \<and> rc_code_hash r = h \<longrightarrow> rc_used_at r \<noteq> None)"

lemma consume_recovery_spends:
  "code_spent (snd (consume_recovery_code E acc code now s)) acc (e_sha256 E (as_bytes (normalize_recovery_code code)))"
  "code_spent s acc h \<Longrightarrow> code_spent (snd (consume_recovery_code E a code now s)) acc h"
  by (simp_all add: consume_recovery_code_def Let_def code_spent_def ball_update_where)

lemma consume_recovery_refuses:
  assumes "code_spent s acc (e_sha256 E (as_bytes (normalize_recovery_code code)))"
  shows "\<not> fst (consume_recovery_code E acc code now s)"
proof -
  have "filter (\<lambda>r. rc_account_id r = acc \<and> rc_code_hash r = e_sha256 E (as_bytes (normalize_recovery_code code))
      \<and> rc_used_at r = None) (recovery_codes s) = []"
    using assms by (auto simp: filter_empty_conv code_spent_def)
  then show ?thesis by (simp add: consume_recovery_code_def Let_def count_where_def)
qed

text \<open>A recovery code works once: after it has been accepted, it is refused in every spelling
  (case, dashes, spaces), whatever other codes are tried in between.\<close>

lemma mfa_recovery_code_single_use:
  assumes "consume_recovery_code E acc code now s = (True, s1)"
    and "s2 = fold (\<lambda>(a, c, t) s. snd (consume_recovery_code E a c t s)) attempts s1"
    and "normalize_recovery_code code' = normalize_recovery_code code"
  shows "fst (consume_recovery_code E acc code' now' s2) = False"
proof -
  have "code_spent (fold (\<lambda>(a, c, t) s. snd (consume_recovery_code E a c t s)) attempts s1) acc
      (e_sha256 E (as_bytes (normalize_recovery_code code)))"
    (is "code_spent (fold ?f attempts s1) acc ?h")
  proof -
    have "code_spent s acc ?h \<Longrightarrow> code_spent (fold ?f attempts s) acc ?h" for s
      by (induction attempts arbitrary: s) (auto simp: consume_recovery_spends(2))
    moreover have "code_spent s1 acc ?h"
      using consume_recovery_spends(1)[of E acc code now s] assms(1) by simp
    ultimately show ?thesis by blast
  qed
  with assms(2,3) show ?thesis by (simp add: consume_recovery_refuses)
qed

end
