(* ===== verification/Server_Sessions.thy ===== *)
theory Server_Sessions
  imports Server_Totp
begin

text \<open>
  vault-server \<open>routes/auth.rs\<close> and \<open>routes/sessions.rs\<close>: login with its lockout and second
  factor, token rotation with reuse detection, logout, and the device list.  The random bytes a
  handler draws are arguments; the delay of a failure (its length is \<open>failure_delay_ms\<close>) is
  not part of the result.
\<close>

section \<open>Login\<close>

definition ACCESS_TOKEN_TTL_SECS :: secs where "ACCESS_TOKEN_TTL_SECS = 15 * 60"
definition MAX_DEVICE_NAME_LEN :: nat where "MAX_DEVICE_NAME_LEN = 64"
definition REFRESH_TOKEN_TTL_SECS :: secs where "REFRESH_TOKEN_TTL_SECS = 30 * 24 * 3600"
definition ABSOLUTE_SESSION_TTL_SECS :: secs where "ABSOLUTE_SESSION_TTL_SECS = 90 * 24 * 3600"

record login_request =
  lq_email :: "text"
  lq_auth_credential :: "text"
  lq_totp_code :: "text option"
  lq_recovery_code :: "text option"
  lq_device_name :: "text option"

record login_reply =
  lp_access_token :: "text"
  lp_refresh_token :: "text"
  lp_kdf_params :: "text option"
  lp_kdf_salt :: "text"
  lp_master_wrapped :: "text option"

text \<open>Bytes of the tokens of one session row, and of the family of a login.\<close>

record session_draws =
  sd_access :: bytes
  sd_refresh :: bytes

definition fail ::
    "ip_addr \<Rightarrow> account_row option \<Rightarrow> secs \<Rightarrow> srv \<Rightarrow> api_error \<times> srv" where
  "fail ip account now s =
     (let s1 = record_failure ip now s
      in case account of
           None \<Rightarrow> (InvalidCredentials, s1)
         | Some a \<Rightarrow>
             (let attempts = ac_failed_attempts a + 1;
                  lockout_until = map_option (\<lambda>d. now + d) (lockout_duration attempts);
                  s2 = update_account (ac_id a)
                    (\<lambda>r. r\<lparr>ac_failed_attempts := attempts, ac_lockout_until := lockout_until\<rparr>) s1;
                  s3 = (if attempts = LOCKOUT_THRESHOLD
                        then send_mail (ac_email a) Mail_Failed_Logins s2 else s2)
              in (InvalidCredentials, s3)))"

text \<open>\<open>parse_json\<close>: the stored text if it is JSON, else null.\<close>

definition parse_json :: "env \<Rightarrow> text \<Rightarrow> text option" where
  "parse_json E s = e_json_value E s"

definition encode_salt :: "env \<Rightarrow> bytes \<Rightarrow> text" where
  "encode_salt E salt = e_b64_encode E salt"

definition insert_session_row ::
    "env \<Rightarrow> session_draws \<Rightarrow> int \<Rightarrow> text \<Rightarrow> text \<Rightarrow> secs \<Rightarrow> secs \<Rightarrow> secs \<Rightarrow> srv \<Rightarrow> (text \<times> text) \<times> srv" where
  "insert_session_row E d account_id family_id device_name now created_at absolute_expires_at s =
     (let (access, access_hash) = new_token E (sd_access d) (lit ''bvat_'');
          (refresh, refresh_hash) = new_token E (sd_refresh d) (lit ''bvrt_'');
          row = \<lparr>se_id = next_id se_id (sessions s), se_account_id = account_id,
                 se_family_id = family_id, se_access_hash = access_hash,
                 se_refresh_hash = refresh_hash,
                 se_access_expires_at = now + ACCESS_TOKEN_TTL_SECS,
                 se_refresh_expires_at = now + REFRESH_TOKEN_TTL_SECS,
                 se_device_name = device_name, se_created_at = created_at, se_revoked_at = None,
                 se_last_used_at = Some now, se_absolute_expires_at = Some absolute_expires_at\<rparr>
      in ((access, refresh), s\<lparr>sessions := sessions s @ [row]\<rparr>))"

definition login_family :: "env \<Rightarrow> bytes \<Rightarrow> text" where
  "login_family E fam = fst (new_token E fam (lit ''fam_''))"

definition create_session ::
    "env \<Rightarrow> bytes \<Rightarrow> session_draws \<Rightarrow> int \<Rightarrow> text \<Rightarrow> secs \<Rightarrow> srv \<Rightarrow> (text \<times> text) \<times> srv" where
  "create_session E fam d account_id device_name now s =
     (let s1 = s\<lparr>sessions := delete_where
            (\<lambda>r. se_account_id r = account_id \<and> se_refresh_expires_at r < now) (sessions s)\<rparr>
      in insert_session_row E d account_id (login_family E fam) device_name now now
           (now + ABSOLUTE_SESSION_TTL_SECS) s1)"

definition sanitize_device_name :: "text option \<Rightarrow> text" where
  "sanitize_device_name name =
     take MAX_DEVICE_NAME_LEN (trim (filter (\<lambda>c. \<not> is_control c) (case name of None \<Rightarrow> [] | Some n \<Rightarrow> n)))"

definition active_session_with_name :: "srv \<Rightarrow> int \<Rightarrow> text \<Rightarrow> secs \<Rightarrow> bool" where
  "active_session_with_name s account_id device_name now \<longleftrightarrow>
     (\<exists>r \<in> set (sessions s). se_account_id r = account_id \<and> se_revoked_at r = None
        \<and> se_refresh_expires_at r > now \<and> se_device_name r = device_name)"

definition notify_new_sign_in :: "account_row \<Rightarrow> text \<Rightarrow> srv \<Rightarrow> srv" where
  "notify_new_sign_in account device_name s =
     (let label = (if device_name = [] then lit ''an unnamed device'' else 34 # device_name @ [34])
      in send_mail (ac_email account) (Mail_New_Sign_In label) s)"

text \<open>The second factor: nothing to show (\<open>Some True\<close>), shown and judged, or missing.\<close>

definition second_factor ::
    "env \<Rightarrow> int \<Rightarrow> login_request \<Rightarrow> secs \<Rightarrow> srv \<Rightarrow> bool option \<times> srv" where
  "second_factor E account_id rq now s =
     (if \<not> is_totp_active s account_id then (Some True, s)
      else
        (case lq_totp_code rq of
           Some code \<Rightarrow> (let (ok, s') = consume_totp E account_id code now s in (Some ok, s'))
         | None \<Rightarrow>
             (case lq_recovery_code rq of
                Some recovery \<Rightarrow>
                  (let (ok, s') = consume_recovery_code E account_id recovery now s in (Some ok, s'))
              | None \<Rightarrow> (None, s))))"

definition open_login ::
    "env \<Rightarrow> bytes \<Rightarrow> session_draws \<Rightarrow> account_row \<Rightarrow> login_request \<Rightarrow> secs \<Rightarrow> srv \<Rightarrow> login_reply \<times> srv" where
  "open_login E fam d account rq now s =
     (let s1 = update_account (ac_id account)
            (\<lambda>a. a\<lparr>ac_failed_attempts := 0, ac_lockout_until := None\<rparr>) s;
          device_name = sanitize_device_name (lq_device_name rq);
          is_new_device = (\<not> active_session_with_name s1 (ac_id account) device_name now);
          (tokens, s2) = create_session E fam d (ac_id account) device_name now s1;
          s3 = (if is_new_device then notify_new_sign_in account device_name s2 else s2)
      in (\<lparr>lp_access_token = fst tokens, lp_refresh_token = snd tokens,
           lp_kdf_params = parse_json E (ac_kdf_params account),
           lp_kdf_salt = encode_salt E (ac_kdf_salt account),
           lp_master_wrapped = parse_json E (ac_master_wrapped account)\<rparr>, s3))"

definition locked_for :: "account_row option \<Rightarrow> secs \<Rightarrow> secs option" where
  "locked_for account now =
     (case account of
        None \<Rightarrow> None
      | Some a \<Rightarrow> (case ac_lockout_until a of
                     None \<Rightarrow> None | Some until \<Rightarrow> if until > now then Some (until - now) else None))"

definition decode_or_default :: "env \<Rightarrow> text \<Rightarrow> bytes" where
  "decode_or_default E t = (case e_b64_decode E t of None \<Rightarrow> [] | Some b \<Rightarrow> b)"

definition login ::
    "env \<Rightarrow> ip_addr \<Rightarrow> secs \<Rightarrow> bytes \<Rightarrow> session_draws \<Rightarrow> login_request \<Rightarrow> srv \<Rightarrow> login_reply reply" where
  "login E ip now fam d rq s0 =
     (case check_ip ip now s0 of
        (Some retry, s) \<Rightarrow> (Inl (RateLimited retry), s)
      | (None, s) \<Rightarrow>
          (let account = account_by_email s (normalize_email (e_lower E) (lq_email rq))
           in case locked_for account now of
                Some wait \<Rightarrow> (Inl (LockedOut wait), s)
              | None \<Rightarrow>
                  (let credential = decode_or_default E (lq_auth_credential rq);
                       phc = (case account of Some a \<Rightarrow> ac_server_auth_hash a | None \<Rightarrow> dummy_hash s);
                       credential_ok = e_verify_password E credential phc
                   in case account of
                        None \<Rightarrow> (let (e, s') = fail ip None now s in (Inl e, s'))
                      | Some a \<Rightarrow>
                          if \<not> credential_ok
                          then (let (e, s') = fail ip (Some a) now s in (Inl e, s'))
                          else if ac_email_verified_at a = None then (Inl EmailNotVerified, s)
                          else
                            (case second_factor E (ac_id a) rq now s of
                               (None, s') \<Rightarrow> (Inl MfaRequired, s')
                             | (Some False, s') \<Rightarrow>
                                 (let (e, s'') = fail ip (Some a) now s' in (Inl e, s''))
                             | (Some True, s') \<Rightarrow>
                                 (let (rep, s'') = open_login E fam d a rq now s' in (Inr rep, s''))))))"

section \<open>Rotation and logout\<close>

definition refresh :: "env \<Rightarrow> secs \<Rightarrow> session_draws \<Rightarrow> text \<Rightarrow> srv \<Rightarrow> (text \<times> text) reply" where
  "refresh E now d refresh_token s =
     (let hash = e_sha256 E (as_bytes refresh_token)
      in case List.find (\<lambda>r. se_refresh_hash r = hash) (sessions s) of
           None \<Rightarrow> (Inl InvalidToken, s)
         | Some row \<Rightarrow>
             if se_revoked_at row \<noteq> None
             then (Inl InvalidToken, s\<lparr>sessions := update_where
                    (\<lambda>r. se_family_id r = se_family_id row \<and> se_revoked_at r = None)
                    (\<lambda>r. r\<lparr>se_revoked_at := Some now\<rparr>) (sessions s)\<rparr>)
             else if se_refresh_expires_at row \<le> now
                     \<or> (case se_absolute_expires_at row of None \<Rightarrow> False | Some cap \<Rightarrow> cap \<le> now)
             then (Inl InvalidToken, s)
             else
               (let absolute = (case se_absolute_expires_at row of
                                  None \<Rightarrow> now + ABSOLUTE_SESSION_TTL_SECS | Some cap \<Rightarrow> cap);
                    s1 = s\<lparr>sessions := update_where (\<lambda>r. se_id r = se_id row)
                           (\<lambda>r. r\<lparr>se_revoked_at := Some now\<rparr>) (sessions s)\<rparr>;
                    (tokens, s2) = insert_session_row E d (se_account_id row) (se_family_id row)
                      (se_device_name row) now (se_created_at row) absolute s1
                in (Inr tokens, s2)))"

definition logout :: "secs \<Rightarrow> auth_session \<Rightarrow> srv \<Rightarrow> unit reply" where
  "logout now au s =
     (Inr (), s\<lparr>sessions := update_where (\<lambda>r. se_id r = au_session_id au)
        (\<lambda>r. r\<lparr>se_revoked_at := Some now\<rparr>) (sessions s)\<rparr>)"

section \<open>Devices (\<open>sessions.rs\<close>)\<close>

record session_info =
  sn_id :: "text"
  sn_device_name :: "text"
  sn_created_at :: secs
  sn_last_used_at :: secs
  sn_current :: bool

definition last_used :: "session_row \<Rightarrow> secs" where
  "last_used r = (case se_last_used_at r of None \<Rightarrow> se_created_at r | Some t \<Rightarrow> t)"

definition session_listed :: "int \<Rightarrow> secs \<Rightarrow> session_row \<Rightarrow> bool" where
  "session_listed acc now r \<longleftrightarrow> se_account_id r = acc \<and> se_revoked_at r = None
     \<and> se_refresh_expires_at r > now
     \<and> (case se_absolute_expires_at r of None \<Rightarrow> True | Some cap \<Rightarrow> cap > now)"

definition list_sessions :: "secs \<Rightarrow> auth_session \<Rightarrow> srv \<Rightarrow> session_info list reply" where
  "list_sessions now au s =
     (Inr (map (\<lambda>r. \<lparr>sn_id = se_family_id r, sn_device_name = se_device_name r,
             sn_created_at = se_created_at r, sn_last_used_at = last_used r,
             sn_current = (se_family_id r = au_family_id au)\<rparr>)
           (sort_key (\<lambda>r. - last_used r) (filter (session_listed (au_account_id au) now) (sessions s)))), s)"

definition revoke :: "secs \<Rightarrow> auth_session \<Rightarrow> text \<Rightarrow> srv \<Rightarrow> unit reply" where
  "revoke now au family_id s =
     (let p = (\<lambda>r. se_account_id r = au_account_id au \<and> se_family_id r = family_id \<and> se_revoked_at r = None);
          s' = s\<lparr>sessions := update_where p (\<lambda>r. r\<lparr>se_revoked_at := Some now\<rparr>) (sessions s)\<rparr>
      in if count_where p (sessions s) = 0 then (Inl NotFound, s') else (Inr (), s'))"

definition revoke_others :: "secs \<Rightarrow> auth_session \<Rightarrow> srv \<Rightarrow> nat reply" where
  "revoke_others now au s =
     (let p = (\<lambda>r. se_account_id r = au_account_id au \<and> se_family_id r \<noteq> au_family_id au \<and> se_revoked_at r = None)
      in (Inr (count_where p (sessions s)),
          s\<lparr>sessions := update_where p (\<lambda>r. r\<lparr>se_revoked_at := Some now\<rparr>) (sessions s)\<rparr>))"

end
