(* ===== verification/Server_Mfa.thy ===== *)
theory Server_Mfa
  imports Server_Sessions
begin

text \<open>
  vault-server \<open>routes/mfa.rs\<close>: enrolling, activating and removing the second factor, and its
  recovery codes.  Holding a session is never enough to weaken the second factor of an account,
  and the ten codes that are handed out are the ten codes that work.
\<close>

section \<open>Handlers\<close>

definition confirm_credential ::
    "env \<Rightarrow> ip_addr \<Rightarrow> secs \<Rightarrow> account_row \<Rightarrow> text \<Rightarrow> srv \<Rightarrow> unit reply" where
  "confirm_credential E ip now account auth_credential_b64 s =
     (let credential = decode_or_default E auth_credential_b64
      in if \<not> e_verify_password E credential (ac_server_auth_hash account)
         then (Inl InvalidCredentials, record_failure ip now s) else (Inr (), s))"

definition load_account :: "int \<Rightarrow> srv \<Rightarrow> account_row reply" where
  "load_account account_id s =
     (case account_by_id s account_id of None \<Rightarrow> (Inl Internal, s) | Some a \<Rightarrow> (Inr a, s))"

definition totp_enroll ::
    "env \<Rightarrow> ip_addr \<Rightarrow> secs \<Rightarrow> bytes \<Rightarrow> auth_session \<Rightarrow> text \<Rightarrow> srv \<Rightarrow> (text \<times> text) reply" where
  "totp_enroll E ip now draw au auth_credential s0 =
     and_then (load_account (au_account_id au) s0) (\<lambda>account s1.
     and_then (confirm_credential E ip now account auth_credential s1) (\<lambda>_ s.
       if is_totp_active s (ac_id account)
       then (Inl (BadRequest (lit ''TOTP is already active; disable it before re-enrolling'')), s)
       else
         (let secret = generate_secret E draw
          in (Inr (secret, otpauth_uri (lit ''Basementen Vault'') (ac_email account) secret),
              s\<lparr>totps := upsert_where (\<lambda>r. to_account_id r = ac_id account)
                  (\<lambda>r. r\<lparr>to_secret_base32 := secret, to_activated_at := None, to_created_at := now\<rparr>)
                  \<lparr>to_account_id = ac_id account, to_secret_base32 = secret, to_activated_at = None,
                   to_created_at = now, to_last_used_step = None\<rparr> (totps s)\<rparr>))))"

text \<open>One of the ten codes, from its five random bytes.\<close>

definition format_code :: "env \<Rightarrow> bytes \<Rightarrow> text" where
  "format_code E draw = (let raw = e_b32_encode E draw in take 4 raw @ lit ''-'' @ drop 4 raw)"

definition issue_one :: "env \<Rightarrow> int \<Rightarrow> bytes \<Rightarrow> text list \<times> srv \<Rightarrow> text list \<times> srv" where
  "issue_one E account_id draw = (\<lambda>(codes, s).
     (let code = format_code E draw
      in (codes @ [code],
          s\<lparr>recovery_codes := recovery_codes s @
              [\<lparr>rc_id = next_id rc_id (recovery_codes s), rc_account_id = account_id,
                rc_code_hash = e_sha256 E (as_bytes (normalize_recovery_code code)), rc_used_at = None\<rparr>]\<rparr>)))"

text \<open>\<open>draws i\<close> are the bytes of the code number \<open>i\<close>.\<close>

definition issue_recovery_codes :: "env \<Rightarrow> (nat \<Rightarrow> bytes) \<Rightarrow> int \<Rightarrow> srv \<Rightarrow> text list \<times> srv" where
  "issue_recovery_codes E draws account_id s =
     fold (issue_one E account_id) (map draws [0..<10])
       ([], s\<lparr>recovery_codes := delete_where (\<lambda>r. rc_account_id r = account_id) (recovery_codes s)\<rparr>)"

definition totp_activate ::
    "env \<Rightarrow> ip_addr \<Rightarrow> secs \<Rightarrow> (nat \<Rightarrow> bytes) \<Rightarrow> auth_session \<Rightarrow> text \<Rightarrow> srv \<Rightarrow> text list reply" where
  "totp_activate E ip now draws au code s =
     (case List.find (\<lambda>r. to_account_id r = au_account_id au) (totps s) of
        None \<Rightarrow> (Inl (BadRequest (lit ''no TOTP enrollment in progress'')), s)
      | Some row \<Rightarrow>
          if to_activated_at row \<noteq> None then (Inl (BadRequest (lit ''TOTP is already active'')), s)
          else if \<not> verify E (to_secret_base32 row) code now
          then (Inl InvalidCredentials, record_failure ip now s)
          else
            (let s1 = s\<lparr>totps := update_where (\<lambda>r. to_account_id r = au_account_id au)
                      (\<lambda>r. r\<lparr>to_activated_at := Some now\<rparr>) (totps s)\<rparr>;
                 (codes, s2) = issue_recovery_codes E draws (au_account_id au) s1
             in (Inr codes, s2)))"

text \<open>What \<open>totp_disable\<close> and \<open>regenerate_recovery_codes\<close> demand: the password and a current code.\<close>

definition confirm_both ::
    "env \<Rightarrow> ip_addr \<Rightarrow> secs \<Rightarrow> auth_session \<Rightarrow> text \<Rightarrow> text \<Rightarrow> srv \<Rightarrow> account_row reply" where
  "confirm_both E ip now au auth_credential totp_code s0 =
     and_then (load_account (au_account_id au) s0) (\<lambda>account s1.
     and_then (confirm_credential E ip now account auth_credential s1) (\<lambda>_ s.
       if \<not> is_totp_active s (ac_id account) then (Inl (BadRequest (lit ''TOTP is not active'')), s)
       else
         (case consume_totp E (ac_id account) totp_code now s of
            (False, s') \<Rightarrow> (Inl InvalidCredentials, record_failure ip now s')
          | (True, s') \<Rightarrow> (Inr account, s'))))"

definition totp_disable ::
    "env \<Rightarrow> ip_addr \<Rightarrow> secs \<Rightarrow> auth_session \<Rightarrow> text \<Rightarrow> text \<Rightarrow> srv \<Rightarrow> unit reply" where
  "totp_disable E ip now au auth_credential totp_code s0 =
     and_then (confirm_both E ip now au auth_credential totp_code s0) (\<lambda>account s.
       (Inr (), s\<lparr>totps := delete_where (\<lambda>r. to_account_id r = ac_id account) (totps s),
                 recovery_codes := delete_where (\<lambda>r. rc_account_id r = ac_id account) (recovery_codes s)\<rparr>))"

definition regenerate_recovery_codes ::
    "env \<Rightarrow> ip_addr \<Rightarrow> secs \<Rightarrow> (nat \<Rightarrow> bytes) \<Rightarrow> auth_session \<Rightarrow> text \<Rightarrow> text \<Rightarrow> srv \<Rightarrow> text list reply" where
  "regenerate_recovery_codes E ip now draws au auth_credential totp_code s0 =
     and_then (confirm_both E ip now au auth_credential totp_code s0) (\<lambda>account s.
       (let (codes, s') = issue_recovery_codes E draws (ac_id account) s in (Inr codes, s')))"

definition mfa_status :: "auth_session \<Rightarrow> srv \<Rightarrow> (bool \<times> nat) reply" where
  "mfa_status au s =
     (Inr (is_totp_active s (au_account_id au),
           count_where (\<lambda>r. rc_account_id r = au_account_id au \<and> rc_used_at r = None) (recovery_codes s)), s)"

section \<open>The codes handed out\<close>

definition codes_of :: "srv \<Rightarrow> int \<Rightarrow> recovery_code_row list" where
  "codes_of s acc = filter (\<lambda>r. rc_account_id r = acc) (recovery_codes s)"

definition code_hash :: "env \<Rightarrow> text \<Rightarrow> bytes" where
  "code_hash E code = e_sha256 E (as_bytes (normalize_recovery_code code))"

lemma issue_one_simp:
  "issue_one E acc d (cs, s) = (cs @ [format_code E d], s\<lparr>recovery_codes := recovery_codes s @
     [\<lparr>rc_id = next_id rc_id (recovery_codes s), rc_account_id = acc,
       rc_code_hash = code_hash E (format_code E d), rc_used_at = None\<rparr>]\<rparr>)"
  by (simp add: issue_one_def code_hash_def Let_def)

lemma issue_fold:
  "\<exists>rows. fold (issue_one E acc) ds (cs, s) = (cs @ map (format_code E) ds, s\<lparr>recovery_codes := recovery_codes s @ rows\<rparr>)
     \<and> map rc_code_hash rows = map (code_hash E \<circ> format_code E) ds
     \<and> (\<forall>r \<in> set rows. rc_account_id r = acc \<and> rc_used_at r = None)"
proof (induction ds arbitrary: cs s)
  case Nil
  show ?case by (rule exI[of _ "[]"]) simp
next
  case (Cons d ds)
  let ?r = "\<lparr>rc_id = next_id rc_id (recovery_codes s), rc_account_id = acc,
             rc_code_hash = code_hash E (format_code E d), rc_used_at = None\<rparr>"
  obtain rows where "fold (issue_one E acc) ds (cs @ [format_code E d], s\<lparr>recovery_codes := recovery_codes s @ [?r]\<rparr>)
      = ((cs @ [format_code E d]) @ map (format_code E) ds, s\<lparr>recovery_codes := recovery_codes s @ [?r] @ rows\<rparr>)"
    "map rc_code_hash rows = map (code_hash E \<circ> format_code E) ds" "\<forall>r \<in> set rows. rc_account_id r = acc \<and> rc_used_at r = None"
    using Cons[of "cs @ [format_code E d]" "s\<lparr>recovery_codes := recovery_codes s @ [?r]\<rparr>"] by auto
  then show ?case by (intro exI[of _ "?r # rows"]) (simp add: issue_one_simp)
qed

lemma issue_recovery_codes_rows:
  obtains rows where "issue_recovery_codes E draws acc s = (map (format_code E \<circ> draws) [0..<10],
      s\<lparr>recovery_codes := delete_where (\<lambda>r. rc_account_id r = acc) (recovery_codes s) @ rows\<rparr>)"
    and "map rc_code_hash rows = map (code_hash E \<circ> format_code E \<circ> draws) [0..<10]"
    and "\<forall>r \<in> set rows. rc_account_id r = acc \<and> rc_used_at r = None"
  using issue_fold[of E acc "map draws [0..<10]" "[]"
      "s\<lparr>recovery_codes := delete_where (\<lambda>r. rc_account_id r = acc) (recovery_codes s)\<rparr>"]
  unfolding issue_recovery_codes_def by (auto simp: comp_assoc)

lemma issue_frame:
  "totps (snd (issue_recovery_codes E draws acc s)) = totps s"
  "accounts (snd (issue_recovery_codes E draws acc s)) = accounts s"
  "other \<noteq> acc \<Longrightarrow> codes_of (snd (issue_recovery_codes E draws acc s)) other = codes_of s other"
proof -
  obtain rows where r: "issue_recovery_codes E draws acc s = (map (format_code E \<circ> draws) [0..<10],
      s\<lparr>recovery_codes := delete_where (\<lambda>r. rc_account_id r = acc) (recovery_codes s) @ rows\<rparr>)"
    "\<forall>r \<in> set rows. rc_account_id r = acc \<and> rc_used_at r = None"
    by (rule issue_recovery_codes_rows)
  show "totps (snd (issue_recovery_codes E draws acc s)) = totps s"
    "accounts (snd (issue_recovery_codes E draws acc s)) = accounts s" by (simp_all add: r(1))
  assume o: "other \<noteq> acc"
  then have "filter (\<lambda>r. rc_account_id r = other) rows = []" using r(2) by (auto simp: filter_empty_conv)
  with o show "codes_of (snd (issue_recovery_codes E draws acc s)) other = codes_of s other"
    by (simp add: r(1) codes_of_def delete_where_def) (metis (no_types, lifting))
qed

text \<open>What is asked of base32: five bytes give upper-case letters and digits, different bytes
  different ones.\<close>

definition b32_ok :: "env \<Rightarrow> bool" where
  "b32_ok E \<longleftrightarrow> (\<forall>b. list_all (\<lambda>c. is_ascii_upper c \<or> is_ascii_digit c) (e_b32_encode E b))
     \<and> (\<forall>b b'. e_b32_encode E b = e_b32_encode E b' \<longrightarrow> b = b')"

lemma normalize_format_code:
  assumes "b32_ok E"
  shows "normalize_recovery_code (format_code E d) = e_b32_encode E d"
proof -
  have id: "normalize_recovery_code t = t" if "list_all (\<lambda>c. is_ascii_upper c \<or> is_ascii_digit c) t" for t
    using that by (induction t) (auto simp: normalize_recovery_code_def is_ascii_alphanumeric_def
        is_ascii_upper_def is_ascii_digit_def is_ascii_lower_def to_ascii_uppercase_def)
  have app: "normalize_recovery_code (a @ lit ''-'' @ b) = normalize_recovery_code a @ normalize_recovery_code b" for a b
    by (simp add: normalize_recovery_code_def lit_def is_ascii_alphanumeric_def is_ascii_upper_def
        is_ascii_digit_def is_ascii_lower_def)
  have "list_all (\<lambda>c. is_ascii_upper c \<or> is_ascii_digit c) (e_b32_encode E d)" using assms by (simp add: b32_ok_def)
  then have "list_all (\<lambda>c. is_ascii_upper c \<or> is_ascii_digit c) (take 4 (e_b32_encode E d))"
    "list_all (\<lambda>c. is_ascii_upper c \<or> is_ascii_digit c) (drop 4 (e_b32_encode E d))"
    by (auto simp: list_all_iff dest: in_set_takeD in_set_dropD)
  then show ?thesis by (simp add: format_code_def Let_def app id)
qed

lemma as_bytes_ascii_inj:
  assumes "as_bytes a = as_bytes b" and "list_all (\<lambda>c. c < 128) a" "list_all (\<lambda>c. c < 128) b"
  shows "a = b"
proof -
  have "as_bytes t = map word_of_nat t \<and> map unat (map word_of_nat t :: bytes) = t" if "list_all (\<lambda>c. c < 128) t" for t
    using that by (induction t) (auto simp: as_bytes_def utf8_char_def unat_of_nat)
  with assms show ?thesis by metis
qed

lemma code_hash_eq:
  assumes "sha_ok E"
  shows "code_hash E a = code_hash E b \<longleftrightarrow> normalize_recovery_code a = normalize_recovery_code b"
proof -
  have "list_all (\<lambda>c. c < 128) (normalize_recovery_code t)" for t
    by (auto simp: list_all_iff normalize_recovery_code_def is_ascii_alphanumeric_def is_ascii_upper_def
        is_ascii_digit_def is_ascii_lower_def to_ascii_uppercase_def)
  with assms as_bytes_ascii_inj show ?thesis by (auto simp: code_hash_def sha_ok_def)
qed

lemma count_distinct_key:
  assumes "distinct (map k t)" and "\<forall>r \<in> set t. p r"
  shows "length (filter (\<lambda>r. p r \<and> k r = a) t) = (if a \<in> k ` set t then 1 else 0)"
  using assms by (induction t) (auto simp: filter_empty_conv)

lemma issued_codes_accepted:
  assumes "sha_ok E" "b32_ok E" and inj: "inj_on draws {..<10}"
    and issue: "issue_recovery_codes E draws acc s = (codes, s1)"
  shows "fst (consume_recovery_code E acc typed now s1) \<longleftrightarrow>
    (\<exists>i < 10. normalize_recovery_code typed = normalize_recovery_code (codes ! i))"
proof -
  obtain rows where r: "issue_recovery_codes E draws acc s = (map (format_code E \<circ> draws) [0..<10],
      s\<lparr>recovery_codes := delete_where (\<lambda>r. rc_account_id r = acc) (recovery_codes s) @ rows\<rparr>)"
    and h: "map rc_code_hash rows = map (code_hash E \<circ> format_code E \<circ> draws) [0..<10]"
    and live: "\<forall>r \<in> set rows. rc_account_id r = acc \<and> rc_used_at r = None"
    by (rule issue_recovery_codes_rows)
  have hash: "code_hash E (format_code E d) = code_hash E (format_code E d') \<longleftrightarrow> d = d'" for d d'
    using assms(2) by (auto simp: code_hash_eq[OF assms(1)] normalize_format_code[OF assms(2)] b32_ok_def)
  have "distinct (map rc_code_hash rows)" unfolding h
    using inj by (auto simp: distinct_map inj_on_def hash)
  then have "length (filter (\<lambda>r. (rc_account_id r = acc \<and> rc_used_at r = None) \<and> rc_code_hash r = code_hash E typed) rows)
      = (if code_hash E typed \<in> rc_code_hash ` set rows then 1 else 0)"
    using live by (intro count_distinct_key) auto
  moreover have "rc_code_hash ` set rows = (\<lambda>i. code_hash E (format_code E (draws i))) ` {..<10}"
  proof -
    have "rc_code_hash ` set rows = set (map (code_hash E \<circ> format_code E \<circ> draws) [0..<10])"
      by (simp only: h[symmetric] set_map)
    then show ?thesis by (auto simp: image_iff)
  qed
  moreover have "consume_recovery_code E acc typed now s1 = (x, s2) \<Longrightarrow> x \<longleftrightarrow>
      length (filter (\<lambda>r. (rc_account_id r = acc \<and> rc_used_at r = None) \<and> rc_code_hash r = code_hash E typed) rows) = 1" for x s2
  proof -
    let ?p = "\<lambda>r. rc_account_id r = acc \<and> rc_code_hash r = code_hash E typed \<and> rc_used_at r = None"
    have none: "filter ?p (delete_where (\<lambda>r. rc_account_id r = acc) (recovery_codes s)) = []"
      by (auto simp: delete_where_def filter_empty_conv)
    have same: "filter ?p rows = filter (\<lambda>r. (rc_account_id r = acc \<and> rc_used_at r = None) \<and> rc_code_hash r = code_hash E typed) rows"
      by (rule filter_cong) auto
    assume "consume_recovery_code E acc typed now s1 = (x, s2)"
    then have "x \<longleftrightarrow> count_where ?p (recovery_codes s1) = 1"
      by (auto simp: consume_recovery_code_def Let_def code_hash_def)
    moreover have "recovery_codes s1 = delete_where (\<lambda>r. rc_account_id r = acc) (recovery_codes s) @ rows"
      using r issue by auto
    ultimately show ?thesis by (simp only: count_where_def filter_append none same append_Nil)
  qed
  ultimately have "fst (consume_recovery_code E acc typed now s1) \<longleftrightarrow>
      (\<exists>i < 10. code_hash E typed = code_hash E (format_code E (draws i)))"
    by (metis (no_types, lifting) imageE image_eqI lessThan_iff prod.collapse zero_neq_one)
  moreover have "codes ! i = format_code E (draws i)" if "i < 10" for i
    using r issue that by auto
  ultimately show ?thesis by (auto simp: code_hash_eq[OF assms(1)])
qed

text \<open>The recovery codes shown are the ones that work: after activating the second factor, or
  after asking for new codes, a code is accepted for the account exactly if it is one of the ten on
  the list, in any spelling; every earlier code is refused.\<close>

lemma issued_codes_work:
  assumes "sha_ok E" "b32_ok E" and "inj_on draws {..<10}"
    and "totp_activate E ip now draws au code s = (Inr codes, s1)
       \<or> regenerate_recovery_codes E ip now draws au cred code s = (Inr codes, s1)"
  shows "fst (consume_recovery_code E (au_account_id au) typed now' s1) \<longleftrightarrow>
    (\<exists>i < 10. normalize_recovery_code typed = normalize_recovery_code (codes ! i))"
proof -
  have acc: "ac_id a = au_account_id au" if "confirm_both E ip now au cred code s = (Inr a, x)" for a x
    using that by (auto simp: confirm_both_def and_then_Inr load_account_def dest!: account_by_idD
        split: option.splits if_splits prod.splits bool.splits)
  obtain s0 where "issue_recovery_codes E draws (au_account_id au) s0 = (codes, s1)"
    using assms(4)
  proof
    assume "totp_activate E ip now draws au code s = (Inr codes, s1)"
    then show ?thesis using that by (auto simp: totp_activate_def Let_def split: option.splits if_splits prod.splits)
  next
    assume "regenerate_recovery_codes E ip now draws au cred code s = (Inr codes, s1)"
    then obtain a x where a: "confirm_both E ip now au cred code s = (Inr a, x)"
      and "(let (codes, s') = issue_recovery_codes E draws (ac_id a) x in (Inr codes, s')) = (Inr codes :: api_error + _, s1)"
      unfolding regenerate_recovery_codes_def and_then_Inr by blast
    then have "issue_recovery_codes E draws (au_account_id au) x = (codes, s1)"
      by (cases "issue_recovery_codes E draws (ac_id a) x") (simp add: acc[OF a])
    then show ?thesis by (rule that)
  qed
  from issued_codes_accepted[OF assms(1-3) this] show ?thesis .
qed

definition toy_b32 :: env where
  "toy_b32 = toy_env\<lparr>e_b32_encode := (\<lambda>b. concat (map (\<lambda>x. [65 + unat x div 16, 65 + unat x mod 16]) b))\<rparr>"

lemma toy_b32_ok: "b32_ok toy_b32" "sha_ok toy_b32"
proof -
  let ?e = "\<lambda>b :: bytes. concat (map (\<lambda>x. [65 + unat x div 16, 65 + unat x mod 16]) b)"
  have lt: "unat (x :: byte) < 256" for x using unsigned_less[of x, where 'a = nat] by simp
  have "list_all (\<lambda>c. is_ascii_upper c \<or> is_ascii_digit c) (?e b)" for b
  proof (induction b)
    case (Cons x b)
    have "unat x div 16 < 16" using lt[of x] by linarith
    moreover have "unat x mod 16 \<le> 25" using mod_less_divisor[of 16 "unat x"] by linarith
    ultimately show ?case using Cons by (simp add: is_ascii_upper_def)
  qed simp
  moreover have "b = b'" if "?e b = ?e b'" for b b' using that
  proof (induction b arbitrary: b')
    case Nil
    then show ?case by (cases b') auto
  next
    case (Cons x b)
    then obtain y b'' where b': "b' = y # b''" by (cases b') auto
    with Cons.prems have "unat x div 16 = unat y div 16" "unat x mod 16 = unat y mod 16" by simp_all
    then have "unat x = unat y" by (metis div_mult_mod_eq)
    with Cons b' show ?case by (auto simp: word_unat_eq_iff)
  qed
  ultimately show "b32_ok toy_b32" by (simp add: b32_ok_def toy_b32_def)
  show "sha_ok toy_b32" using toy_sha by (simp add: sha_ok_def toy_b32_def)
qed

definition toy_enrolled :: srv where
  "toy_enrolled = toy_srv\<lparr>totps := [\<lparr>to_account_id = 1, to_secret_base32 = [], to_activated_at = None,
     to_created_at = 0, to_last_used_step = None\<rparr>]\<rparr>"

section \<open>A session alone does not weaken the second factor\<close>

datatype mfa_req =
    Mq_Enroll ip_addr secs bytes auth_session "text"
  | Mq_Activate ip_addr secs "nat \<Rightarrow> bytes" auth_session "text"
  | Mq_Disable ip_addr secs auth_session "text" "text"
  | Mq_Regenerate ip_addr secs "nat \<Rightarrow> bytes" auth_session "text" "text"

fun run_mfa :: "env \<Rightarrow> mfa_req \<Rightarrow> srv \<Rightarrow> srv" where
  "run_mfa E (Mq_Enroll ip now draw au cred) s = snd (totp_enroll E ip now draw au cred s)"
| "run_mfa E (Mq_Activate ip now draws au code) s = snd (totp_activate E ip now draws au code s)"
| "run_mfa E (Mq_Disable ip now au cred code) s = snd (totp_disable E ip now au cred code s)"
| "run_mfa E (Mq_Regenerate ip now draws au cred code) s = snd (regenerate_recovery_codes E ip now draws au cred code s)"

text \<open>The caller, and the password it shows.\<close>

fun mfa_caller :: "mfa_req \<Rightarrow> int" where
  "mfa_caller (Mq_Enroll ip now draw au cred) = au_account_id au"
| "mfa_caller (Mq_Activate ip now draws au code) = au_account_id au"
| "mfa_caller (Mq_Disable ip now au cred code) = au_account_id au"
| "mfa_caller (Mq_Regenerate ip now draws au cred code) = au_account_id au"

fun mfa_password :: "mfa_req \<Rightarrow> text option" where
  "mfa_password (Mq_Enroll ip now draw au cred) = Some cred"
| "mfa_password (Mq_Activate ip now draws au code) = None"
| "mfa_password (Mq_Disable ip now au cred code) = Some cred"
| "mfa_password (Mq_Regenerate ip now draws au cred code) = Some cred"

definition knows_password :: "env \<Rightarrow> srv \<Rightarrow> mfa_req \<Rightarrow> bool" where
  "knows_password E s rq \<longleftrightarrow>
     (\<exists>cred a. mfa_password rq = Some cred \<and> account_by_id s (mfa_caller rq) = Some a
        \<and> e_verify_password E (decode_or_default E cred) (ac_server_auth_hash a))"

text \<open>What a handler may do to the rows of \<open>acc\<close>: nothing, unless the caller is \<open>acc\<close> and either
  knows its password or finds its factor not active.\<close>

definition mfa_rows :: "srv \<Rightarrow> int \<Rightarrow> totp_row list \<times> recovery_code_row list" where
  "mfa_rows s acc = (filter (\<lambda>r. to_account_id r = acc) (totps s), codes_of s acc)"

lemma mfa_rows_frame [simp]:
  "mfa_rows (record_failure ip now s) acc = mfa_rows s acc"
  by (simp add: mfa_rows_def codes_of_def)

lemma filter_update_other:
  assumes "\<And>r. k (f r) = k r" and "\<And>r. p r \<Longrightarrow> k r = i" and "i \<noteq> j"
  shows "filter (\<lambda>r. k r = j) (update_where p f t) = filter (\<lambda>r. k r = j) t"
  using assms by (induction t) (auto simp: update_where_def)

lemma filter_delete_other:
  assumes "i \<noteq> j"
  shows "filter (\<lambda>r. k r = j) (delete_where (\<lambda>r. k r = i) t) = filter (\<lambda>r. k r = j) t"
  using assms by (induction t) (auto simp: delete_where_def)

lemma filter_upsert_other:
  assumes "\<And>r. k (f r) = k r" and "k row = i" and "i \<noteq> j"
  shows "filter (\<lambda>r. k r = j) (upsert_where (\<lambda>r. k r = i) f row t) = filter (\<lambda>r. k r = j) t"
  using assms filter_update_other[of k f "\<lambda>r. k r = i" i j t] by (simp add: upsert_where_def)

lemma active_totp_rows:
  "active_totp s acc = List.find (\<lambda>r. to_activated_at r \<noteq> None) (fst (mfa_rows s acc))"
proof -
  have "List.find (\<lambda>r. to_account_id r = acc \<and> to_activated_at r \<noteq> None) t
    = List.find (\<lambda>r. to_activated_at r \<noteq> None) (filter (\<lambda>r. to_account_id r = acc) t)" for t
    by (induction t) auto
  then show ?thesis by (simp add: active_totp_def mfa_rows_def)
qed

definition totp_keys :: "srv \<Rightarrow> bool" where
  "totp_keys s \<longleftrightarrow> distinct (map to_account_id (totps s))"

definition mfa_same :: "int \<Rightarrow> srv \<Rightarrow> srv \<Rightarrow> bool" where
  "mfa_same acc s s' \<longleftrightarrow> mfa_rows s' acc = mfa_rows s acc \<and> accounts s' = accounts s
     \<and> (totp_keys s \<longrightarrow> totp_keys s')"

lemma mfa_same_basic [simp]:
  "mfa_same acc s s" "mfa_same acc s (record_failure ip now s')  \<longleftrightarrow> mfa_same acc s s'"
  by (simp_all add: mfa_same_def totp_keys_def)

lemma mfa_same_trans: "mfa_same acc s s1 \<Longrightarrow> mfa_same acc s1 s2 \<Longrightarrow> mfa_same acc s s2"
  by (auto simp: mfa_same_def)

lemma distinct_delete: "distinct (map k t) \<Longrightarrow> distinct (map k (delete_where p t))"
  by (simp add: delete_where_def distinct_map_filter)

lemma update_keys: "(\<And>r. k (f r) = k r) \<Longrightarrow> map k (update_where p f t) = map k t"
  by (simp add: update_where_def)

lemma consume_totp_same:
  assumes "a \<noteq> acc"
  shows "mfa_same acc s (snd (consume_totp E a code now s))"
proof -
  have "filter (\<lambda>r. to_account_id r = acc) (update_where (step_unused a st) (\<lambda>r. r\<lparr>to_last_used_step := Some st\<rparr>) t)
      = filter (\<lambda>r. to_account_id r = acc) t" for st t
    using assms by (intro filter_update_other[where i = a]) (auto simp: step_unused_def)
  then show ?thesis
    by (auto simp: consume_totp_def mfa_same_def mfa_rows_def codes_of_def totp_keys_def update_keys
        split: option.split)
qed

lemma confirm_both_same:
  assumes "\<not> (au_account_id au = acc \<and> (\<exists>a. account_by_id s acc = Some a
      \<and> e_verify_password E (decode_or_default E cred) (ac_server_auth_hash a)))"
  shows "mfa_same acc s (snd (confirm_both E ip now au cred code s))"
    and "confirm_both E ip now au cred code s = (Inr a, s') \<Longrightarrow> ac_id a \<noteq> acc"
proof -
  let ?c = "\<lambda>a. e_verify_password E (decode_or_default E cred) (ac_server_auth_hash a)"
  have id: "account_by_id s (au_account_id au) = Some a \<Longrightarrow> ac_id a = au_account_id au" for a
    by (simp add: account_by_idD)
  have "mfa_same acc s (snd (confirm_both E ip now au cred code s))
      \<and> (\<forall>a s'. confirm_both E ip now au cred code s = (Inr a, s') \<longrightarrow> ac_id a \<noteq> acc)"
  proof (cases "account_by_id s (au_account_id au)")
    case None
    then show ?thesis by (simp add: confirm_both_def load_account_def)
  next
    case (Some a)
    show ?thesis
    proof (cases "?c a")
      case False
      with Some show ?thesis by (simp add: confirm_both_def load_account_def confirm_credential_def)
    next
      case True
      with assms Some id have "ac_id a \<noteq> acc" by auto
      then have "mfa_same acc s (snd (consume_totp E (ac_id a) code now s))" by (rule consume_totp_same)
      with Some True \<open>ac_id a \<noteq> acc\<close> show ?thesis
        by (auto simp: confirm_both_def load_account_def confirm_credential_def split: prod.split bool.split)
    qed
  qed
  then show "mfa_same acc s (snd (confirm_both E ip now au cred code s))"
    and "confirm_both E ip now au cred code s = (Inr a, s') \<Longrightarrow> ac_id a \<noteq> acc" by blast+
qed

lemma issue_same:
  assumes "a \<noteq> acc"
  shows "mfa_same acc s (snd (issue_recovery_codes E draws a s))"
  using assms issue_frame(1,2)[of E draws a s] issue_frame(3)[of acc a E draws s]
  by (simp add: mfa_same_def mfa_rows_def totp_keys_def)

lemma totp_enroll_same:
  assumes "\<not> (au_account_id au = acc \<and> (\<exists>a. account_by_id s acc = Some a
      \<and> e_verify_password E (decode_or_default E cred) (ac_server_auth_hash a)))"
  shows "mfa_same acc s (snd (totp_enroll E ip now draw au cred s))"
proof (cases "account_by_id s (au_account_id au)")
  case None
  then show ?thesis by (simp add: totp_enroll_def load_account_def)
next
  case (Some a)
  then have id: "ac_id a = au_account_id au" by (simp add: account_by_idD)
  show ?thesis
  proof (cases "e_verify_password E (decode_or_default E cred) (ac_server_auth_hash a)")
    case False
    with Some show ?thesis by (simp add: totp_enroll_def load_account_def confirm_credential_def)
  next
    case True
    with assms Some id have "ac_id a \<noteq> acc" by auto
    with Some True show ?thesis
      by (simp add: totp_enroll_def load_account_def confirm_credential_def mfa_same_def mfa_rows_def
          codes_of_def totp_keys_def Let_def filter_upsert_other distinct_upsert_key)
  qed
qed

lemma totp_activate_same:
  assumes "totp_keys s" and "is_totp_active s acc"
  shows "mfa_same acc s (snd (totp_activate E ip now draws au code s))"
proof (cases "au_account_id au = acc")
  case True
  from assms(2) obtain row where "row \<in> set (totps s)" "to_account_id row = acc" "to_activated_at row \<noteq> None"
    unfolding is_totp_active_def active_totp_def using find_SomeD by fastforce
  with assms(1) have "List.find (\<lambda>r. to_account_id r = acc) (totps s) = Some row"
    by (simp add: find_key_unique totp_keys_def)
  with True \<open>to_activated_at row \<noteq> None\<close> show ?thesis by (auto simp: totp_activate_def)
next
  case False
  let ?s1 = "s\<lparr>totps := update_where (\<lambda>r. to_account_id r = au_account_id au)
                      (\<lambda>r. r\<lparr>to_activated_at := Some now\<rparr>) (totps s)\<rparr>"
  have "mfa_same acc s ?s1" using False
    by (simp add: mfa_same_def mfa_rows_def codes_of_def totp_keys_def update_keys filter_update_other)
  moreover have "mfa_same acc ?s1 (snd (issue_recovery_codes E draws (au_account_id au) ?s1))"
    using False by (rule issue_same)
  ultimately have "mfa_same acc s (snd (issue_recovery_codes E draws (au_account_id au) ?s1))"
    by (rule mfa_same_trans)
  then show ?thesis by (auto simp: totp_activate_def Let_def split: option.split prod.split)
qed

lemma run_mfa_same:
  assumes "totp_keys s" "is_totp_active s acc" and "\<not> (mfa_caller rq = acc \<and> knows_password E s rq)"
  shows "mfa_same acc s (run_mfa E rq s)"
proof (cases rq)
  case (Mq_Enroll ip now draw au cred)
  with assms show ?thesis by (auto simp: knows_password_def intro!: totp_enroll_same)
next
  case (Mq_Activate ip now draws au code)
  with assms show ?thesis by (simp add: totp_activate_same)
next
  case (Mq_Disable ip now au cred code)
  with assms(3) have c: "\<not> (au_account_id au = acc \<and> (\<exists>a. account_by_id s acc = Some a
      \<and> e_verify_password E (decode_or_default E cred) (ac_server_auth_hash a)))"
    by (auto simp: knows_password_def)
  from confirm_both_same[OF c, of ip now code] show ?thesis unfolding Mq_Disable
    by (cases "confirm_both E ip now au cred code s")
      (auto simp: totp_disable_def and_then_def mfa_same_def mfa_rows_def codes_of_def totp_keys_def
        filter_delete_other distinct_delete split: sum.split)
next
  case (Mq_Regenerate ip now draws au cred code)
  with assms(3) have c: "\<not> (au_account_id au = acc \<and> (\<exists>a. account_by_id s acc = Some a
      \<and> e_verify_password E (decode_or_default E cred) (ac_server_auth_hash a)))"
    by (auto simp: knows_password_def)
  obtain res s1 where r: "confirm_both E ip now au cred code s = (res, s1)" by fastforce
  have 1: "mfa_same acc s s1" using confirm_both_same(1)[OF c, of ip now code] r by simp
  show ?thesis
  proof (cases res)
    case (Inl e)
    with r 1 Mq_Regenerate show ?thesis by (simp add: regenerate_recovery_codes_def)
  next
    case (Inr a)
    then have "ac_id a \<noteq> acc" using confirm_both_same(2)[OF c] r by blast
    moreover obtain codes s2 where i: "issue_recovery_codes E draws (ac_id a) s1 = (codes, s2)" by fastforce
    ultimately have "mfa_same acc s s2" using mfa_same_trans[OF 1 issue_same, of "ac_id a" E draws] by simp
    with r i Inr Mq_Regenerate show ?thesis by (simp add: regenerate_recovery_codes_def)
  qed
qed

fun without_password :: "env \<Rightarrow> int \<Rightarrow> mfa_req list \<Rightarrow> srv \<Rightarrow> bool" where
  "without_password E acc [] s = True"
| "without_password E acc (rq # rqs) s =
     (\<not> (mfa_caller rq = acc \<and> knows_password E s rq) \<and> without_password E acc rqs (run_mfa E rq s))"



end
