(* ===== verification/Server_Accounts.thy ===== *)
theory Server_Accounts
  imports Server_Mfa
begin

text \<open>
  vault-server \<open>routes/accounts.rs\<close> and \<open>routes/vault.rs\<close>: registration, verification of the
  address, the parameters a client needs before it can log in, and the key blobs after.
\<close>

section \<open>Fields of a request\<close>

definition VERIFY_TOKEN_TTL_SECS :: secs where "VERIFY_TOKEN_TTL_SECS = 15 * 60"
definition RESEND_COOLDOWN_SECS :: secs where "RESEND_COOLDOWN_SECS = 60"

record register_request =
  gq_email :: "text"
  gq_auth_credential :: "text"
  gq_kdf_params :: kdf_params
  gq_kdf_salt :: "text"
  gq_recovery_verifier :: "text"
  gq_master_wrapped :: "text"
  gq_recovery_wrapped :: "text"

text \<open>Base64url of exactly \<open>n\<close> bytes, with the two refusals.\<close>

definition decode_exact :: "env \<Rightarrow> nat \<Rightarrow> text \<Rightarrow> text \<Rightarrow> text \<Rightarrow> api_error + bytes" where
  "decode_exact E n not_b64 wrong_len b64 =
     (case e_b64_decode E b64 of
        None \<Rightarrow> Inl (BadRequest not_b64)
      | Some bytes \<Rightarrow> if length bytes \<noteq> n then Inl (BadRequest wrong_len) else Inr bytes)"

definition decode_credential :: "env \<Rightarrow> text \<Rightarrow> api_error + bytes" where
  "decode_credential E = decode_exact E 32 (lit ''auth_credential must be base64url'')
     (lit ''auth_credential must be 32 bytes'')"

definition decode_salt :: "env \<Rightarrow> text \<Rightarrow> api_error + bytes" where
  "decode_salt E = decode_exact E 16 (lit ''kdf_salt must be base64url'') (lit ''kdf_salt must be 16 bytes'')"

definition validate_email :: "text \<Rightarrow> api_error + unit" where
  "validate_email email =
     (let ok = str_len email \<le> 254
            \<and> (case split_once 64 email of
                 None \<Rightarrow> False
               | Some (l, domain) \<Rightarrow> l \<noteq> [] \<and> str_contains domain (lit ''.'') \<and> \<not> starts_with domain (lit ''.''))
      in if ok then Inr () else Inl (BadRequest (lit ''invalid e-mail address'')))"

definition validate_kdf :: "kdf_params \<Rightarrow> api_error + unit" where
  "validate_kdf p = (case kdf_validate p of Inl e \<Rightarrow> Inl (BadRequest (crypto_error_text e)) | Inr _ \<Rightarrow> Inr ())"

section \<open>Registration\<close>

definition send_verification_email ::
    "env \<Rightarrow> config \<Rightarrow> secs \<Rightarrow> bytes \<Rightarrow> int \<Rightarrow> text \<Rightarrow> srv \<Rightarrow> srv" where
  "send_verification_email E cfg now draw account_id email s =
     (let (token, token_hash) = new_token E draw (lit ''bvet_'');
          s1 = s\<lparr>email_tokens := email_tokens s @
                 [\<lparr>et_id = next_id et_id (email_tokens s), et_account_id = account_id,
                   et_purpose = Verify_Email, et_token_hash = token_hash,
                   et_expires_at = now + VERIFY_TOKEN_TTL_SECS, et_used_at = None\<rparr>]\<rparr>;
          link = cfg_base_url cfg @ lit ''/api/v1/accounts/verify?token='' @ token
      in send_mail email (Mail_Verify link) s1)"

text \<open>The checks of the body: the normalised address, the credential, the verifier and the salt.\<close>

definition register_fields ::
    "env \<Rightarrow> config \<Rightarrow> register_request \<Rightarrow> api_error + (text \<times> bytes \<times> bytes \<times> bytes)" where
  "register_fields E cfg rq =
     (if \<not> cfg_registration_open cfg
      then Inl (BadRequest (lit ''registration is closed on this server''))
      else
        (let email = normalize_email (e_lower E) (gq_email rq)
         in bind_r (validate_email email) (\<lambda>_.
            bind_r (decode_credential E (gq_auth_credential rq)) (\<lambda>credential.
            bind_r (decode_credential E (gq_recovery_verifier rq)) (\<lambda>verifier.
            bind_r (decode_salt E (gq_kdf_salt rq)) (\<lambda>salt.
            bind_r (validate_kdf (gq_kdf_params rq)) (\<lambda>_.
              Inr (email, credential, verifier, salt))))))))"

definition account_of_register ::
    "env \<Rightarrow> bytes \<Rightarrow> secs \<Rightarrow> register_request \<Rightarrow> text \<Rightarrow> bytes \<Rightarrow> bytes \<Rightarrow> bytes \<Rightarrow> int \<Rightarrow> account_row" where
  "account_of_register E phc_salt now rq email credential verifier salt i =
     \<lparr>ac_id = i, ac_email = email, ac_email_verified_at = None,
      ac_server_auth_hash = e_hash_password E phc_salt credential,
      ac_kdf_params = e_kdf_to_json E (gq_kdf_params rq), ac_kdf_salt = salt,
      ac_master_wrapped = gq_master_wrapped rq, ac_recovery_wrapped = gq_recovery_wrapped rq,
      ac_failed_attempts = 0, ac_lockout_until = None, ac_created_at = now, ac_sync_seq = 0,
      ac_purged_before_seq = 0, ac_recovery_verifier_hash = Some (e_sha256 E verifier),
      ac_backup_email = None, ac_backup_verified_at = None, ac_checkpoint_seq = None,
      ac_checkpoint_tag = None\<rparr>"

definition register ::
    "env \<Rightarrow> config \<Rightarrow> secs \<Rightarrow> bytes \<Rightarrow> bytes \<Rightarrow> register_request \<Rightarrow> srv \<Rightarrow> unit reply" where
  "register E cfg now phc_salt draw rq s =
     (case register_fields E cfg rq of
        Inl e \<Rightarrow> (Inl e, s)
      | Inr (email, credential, verifier, salt) \<Rightarrow>
          if account_by_email s email \<noteq> None then (Inr (), send_mail email Mail_Registration_Attempt s)
          else
            (let account_id = next_id ac_id (accounts s);
                 s1 = s\<lparr>accounts := accounts s @
                        [account_of_register E phc_salt now rq email credential verifier salt account_id]\<rparr>
             in (Inr (), send_verification_email E cfg now draw account_id email s1)))"

text \<open>\<open>MAX(expires_at)\<close> of no rows is NULL.\<close>

definition recently_sent_verification :: "secs \<Rightarrow> int \<Rightarrow> srv \<Rightarrow> bool" where
  "recently_sent_verification now account_id s =
     (let expiries = map et_expires_at
            (filter (\<lambda>t. et_account_id t = account_id \<and> et_purpose t = Verify_Email) (email_tokens s))
      in if expiries = [] then False
         else now - (Max (set expiries) - VERIFY_TOKEN_TTL_SECS) < RESEND_COOLDOWN_SECS)"

definition resend_verification :: "env \<Rightarrow> config \<Rightarrow> secs \<Rightarrow> bytes \<Rightarrow> text \<Rightarrow> srv \<Rightarrow> unit reply" where
  "resend_verification E cfg now draw email0 s =
     (Inr (),
      case account_by_email s (normalize_email (e_lower E) email0) of
        None \<Rightarrow> s
      | Some account \<Rightarrow>
          if ac_email_verified_at account = None
             \<and> \<not> recently_sent_verification now (ac_id account) s
          then send_verification_email E cfg now draw (ac_id account) (ac_email account) s else s)"

text \<open>A token that can still be used.\<close>

definition token_live :: "secs \<Rightarrow> bytes \<Rightarrow> token_purpose \<Rightarrow> email_token_row \<Rightarrow> bool" where
  "token_live now hash purpose t \<longleftrightarrow> et_token_hash t = hash \<and> et_purpose t = purpose
     \<and> et_used_at t = None \<and> et_expires_at t > now"

definition verify_address :: "env \<Rightarrow> secs \<Rightarrow> text \<Rightarrow> srv \<Rightarrow> unit reply" where
  "verify_address E now token s =
     (case List.find (token_live now (e_sha256 E (as_bytes token)) Verify_Email) (email_tokens s) of
        None \<Rightarrow> (Inl InvalidToken, s)
      | Some row \<Rightarrow>
          (Inr (), s\<lparr>email_tokens := update_where (\<lambda>t. et_id t = et_id row)
                      (\<lambda>t. t\<lparr>et_used_at := Some now\<rparr>) (email_tokens s),
                    accounts := update_where (\<lambda>a. ac_id a = et_account_id row \<and> ac_email_verified_at a = None)
                      (\<lambda>a. a\<lparr>ac_email_verified_at := Some now\<rparr>) (accounts s)\<rparr>))"

section \<open>Parameters and keys\<close>

definition prelogin :: "env \<Rightarrow> text \<Rightarrow> srv \<Rightarrow> (text \<times> text) reply" where
  "prelogin E email0 s =
     (let email = normalize_email (e_lower E) email0;
          (params, salt) =
            (case account_by_email s email of
               Some account \<Rightarrow>
                 ((case e_json_value E (ac_kdf_params account) of
                     Some v \<Rightarrow> v | None \<Rightarrow> e_kdf_to_json E kdf_desktop), ac_kdf_salt account)
             | None \<Rightarrow> (e_kdf_to_json E kdf_desktop, dummy_kdf_salt E (enumeration_secret s) email))
      in (Inr (params, encode_salt E salt), s))"

record vault_keys =
  vk_kdf_params :: "text option"
  vk_master_wrapped :: "text option"
  vk_recovery_wrapped :: "text option"

definition get_keys :: "env \<Rightarrow> auth_session \<Rightarrow> srv \<Rightarrow> vault_keys reply" where
  "get_keys E au s =
     (case account_by_id s (au_account_id au) of
        None \<Rightarrow> (Inl Internal, s)
      | Some account \<Rightarrow>
          (Inr \<lparr>vk_kdf_params = parse_json E (ac_kdf_params account),
                vk_master_wrapped = parse_json E (ac_master_wrapped account),
                vk_recovery_wrapped = parse_json E (ac_recovery_wrapped account)\<rparr>, s))"

end
