(* ===== verification/Server_Recovery.thy ===== *)
theory Server_Recovery
  imports Server_Accounts
begin

text \<open>
  vault-server \<open>routes/recovery.rs\<close>: account recovery with its cooling-off, the trusted backup
  address, and changing the master password.
\<close>

section \<open>Starting a recovery\<close>

definition COMPLETION_WINDOW_SECS :: secs where "COMPLETION_WINDOW_SECS = 7 * 24 * 3600"

record recovery_draws =
  rd_completion :: bytes
  rd_cancel :: bytes

definition backup_email_of :: "srv \<Rightarrow> int \<Rightarrow> text option" where
  "backup_email_of s account_id =
     (case account_by_id s account_id of
        None \<Rightarrow> None
      | Some a \<Rightarrow> (case (ac_backup_email a, ac_backup_verified_at a) of
                     (Some e, Some _) \<Rightarrow> Some e | _ \<Rightarrow> None))"

text \<open>To the account's address, and to the verified backup address if there is one.\<close>

definition notify_owner :: "text \<Rightarrow> mail_body \<Rightarrow> text option \<Rightarrow> srv \<Rightarrow> srv" where
  "notify_owner email body backup s =
     (let s1 = send_mail email body s
      in case backup of None \<Rightarrow> s1 | Some b \<Rightarrow> send_mail b body s1)"

definition start_recovery ::
    "env \<Rightarrow> config \<Rightarrow> ip_addr \<Rightarrow> secs \<Rightarrow> recovery_draws \<Rightarrow> text \<Rightarrow> srv \<Rightarrow> unit reply" where
  "start_recovery E cfg ip now d email0 s0 =
     (case check_ip ip now s0 of
        (Some retry, s) \<Rightarrow> (Inl (RateLimited retry), s)
      | (None, s1) \<Rightarrow>
          (let s2 = record_failure ip now s1
           in case account_by_email s2 (normalize_email (e_lower E) email0) of
                None \<Rightarrow> (Inr (), s2)
              | Some account \<Rightarrow>
                  (let superseded = update_where
                         (\<lambda>r. rr_account_id r = ac_id account \<and> rr_cancelled_at r = None \<and> rr_completed_at r = None)
                         (\<lambda>r. r\<lparr>rr_cancelled_at := Some now\<rparr>) (recovery_requests s2);
                       (completion_token, completion_hash) = new_token E (rd_completion d) (lit ''bvrec_'');
                       (cancel_token, cancel_hash) = new_token E (rd_cancel d) (lit ''bvcan_'');
                       usable_at = now + cfg_recovery_cooloff_secs cfg;
                       s3 = s2\<lparr>recovery_requests := superseded @
                              [\<lparr>rr_id = next_id rr_id superseded, rr_account_id = ac_id account,
                                rr_completion_hash = completion_hash, rr_cancel_hash = cancel_hash,
                                rr_created_at = now, rr_usable_at = usable_at,
                                rr_expires_at = usable_at + COMPLETION_WINDOW_SECS,
                                rr_cancelled_at = None, rr_completed_at = None\<rparr>]\<rparr>;
                       hours = (cfg_recovery_cooloff_secs cfg + 3599) sdiv 3600;
                       cancel_link = cfg_base_url cfg @ lit ''/api/v1/accounts/recovery/cancel?token='' @ cancel_token;
                       body = Mail_Recovery hours completion_token cancel_link
                   in (Inr (), notify_owner (ac_email account) body (backup_email_of s3 (ac_id account)) s3))))"

definition request_active :: "secs \<Rightarrow> bytes \<Rightarrow> recovery_request_row \<Rightarrow> bool" where
  "request_active now hash r \<longleftrightarrow> rr_completion_hash r = hash \<and> rr_cancelled_at r = None
     \<and> rr_completed_at r = None \<and> rr_expires_at r > now"

definition find_active_request :: "env \<Rightarrow> text \<Rightarrow> secs \<Rightarrow> srv \<Rightarrow> recovery_request_row option" where
  "find_active_request E completion_token now s =
     List.find (request_active now (e_sha256 E (as_bytes completion_token))) (recovery_requests s)"

record recovery_data =
  ry_email :: "text"
  ry_kdf_params :: "text option"
  ry_kdf_salt :: "text"
  ry_recovery_wrapped :: "text option"
  ry_supports_data_recovery :: bool

definition recovery_data_of :: "env \<Rightarrow> secs \<Rightarrow> text \<Rightarrow> srv \<Rightarrow> recovery_data reply" where
  "recovery_data_of E now token s =
     (case find_active_request E token now s of
        None \<Rightarrow> (Inl InvalidToken, s)
      | Some request \<Rightarrow>
          if rr_usable_at request > now then (Inl (CoolingOff (rr_usable_at request - now)), s)
          else
            (case account_by_id s (rr_account_id request) of
               None \<Rightarrow> (Inl Internal, s)
             | Some account \<Rightarrow>
                 (Inr \<lparr>ry_email = ac_email account, ry_kdf_params = parse_json E (ac_kdf_params account),
                       ry_kdf_salt = encode_salt E (ac_kdf_salt account),
                       ry_recovery_wrapped = parse_json E (ac_recovery_wrapped account),
                       ry_supports_data_recovery = (ac_recovery_verifier_hash account \<noteq> None)\<rparr>, s)))"

section \<open>Completing or cancelling it\<close>

record complete_request =
  cq_token :: "text"
  cq_recovery_verifier :: "text option"
  cq_wipe :: bool
  cq_auth_credential :: "text"
  cq_kdf_params :: kdf_params
  cq_kdf_salt :: "text"
  cq_master_wrapped :: "text"
  cq_recovery_wrapped :: "text"
  cq_new_recovery_verifier :: "text"

definition decode32 :: "env \<Rightarrow> text \<Rightarrow> text \<Rightarrow> api_error + bytes" where
  "decode32 E b64 field =
     decode_exact E 32 (field @ lit '' must be base64url'') (field @ lit '' must be 32 bytes'') b64"

text \<open>The replacement bundle: credential, verifier and salt.\<close>

definition complete_fields :: "env \<Rightarrow> complete_request \<Rightarrow> api_error + (bytes \<times> bytes \<times> bytes)" where
  "complete_fields E rq =
     bind_r (validate_kdf (cq_kdf_params rq)) (\<lambda>_.
     bind_r (decode32 E (cq_auth_credential rq) (lit ''auth_credential'')) (\<lambda>credential.
     bind_r (decode32 E (cq_new_recovery_verifier rq) (lit ''new_recovery_verifier'')) (\<lambda>new_verifier.
     bind_r (decode_salt E (cq_kdf_salt rq)) (\<lambda>new_salt.
       Inr (credential, new_verifier, new_salt)))))"

text \<open>Kit proven (\<open>True\<close>), explicit wipe (\<open>False\<close>), or refused.\<close>

definition recovery_mode ::
    "env \<Rightarrow> ip_addr \<Rightarrow> secs \<Rightarrow> int \<Rightarrow> complete_request \<Rightarrow> srv \<Rightarrow> bool reply" where
  "recovery_mode E ip now account_id rq s =
     (case cq_recovery_verifier rq of
        Some verifier_b64 \<Rightarrow>
          (case decode32 E verifier_b64 (lit ''recovery_verifier'') of
             Inl e \<Rightarrow> (Inl e, s)
           | Inr presented \<Rightarrow>
               (let stored = (case account_by_id s account_id of
                                None \<Rightarrow> None | Some a \<Rightarrow> ac_recovery_verifier_hash a);
                    ok = (case stored of None \<Rightarrow> False | Some hash \<Rightarrow> e_sha256 E presented = hash)
                in if \<not> ok then (Inl InvalidCredentials, record_failure ip now s) else (Inr True, s)))
      | None \<Rightarrow>
          if cq_wipe rq then (Inr False, s)
          else (Inl (BadRequest (lit ''provide the recovery verifier (from your Recovery Kit), or set wipe=true to reset the account and DESTROY all stored items'')), s))"

definition recover_account ::
    "env \<Rightarrow> bytes \<Rightarrow> complete_request \<Rightarrow> bytes \<Rightarrow> bytes \<Rightarrow> bytes \<Rightarrow> account_row \<Rightarrow> account_row" where
  "recover_account E phc_salt rq credential new_verifier new_salt a =
     a\<lparr>ac_server_auth_hash := e_hash_password E phc_salt credential,
       ac_kdf_params := e_kdf_to_json E (cq_kdf_params rq), ac_kdf_salt := new_salt,
       ac_master_wrapped := cq_master_wrapped rq, ac_recovery_wrapped := cq_recovery_wrapped rq,
       ac_recovery_verifier_hash := Some (e_sha256 E new_verifier),
       ac_failed_attempts := 0, ac_lockout_until := None\<rparr>"

text \<open>The transaction.\<close>

definition complete_tx ::
    "bool \<Rightarrow> secs \<Rightarrow> recovery_request_row \<Rightarrow> (account_row \<Rightarrow> account_row) \<Rightarrow> srv \<Rightarrow> srv" where
  "complete_tx preserve_data now request f s =
     (let s1 = (if \<not> preserve_data
                then s\<lparr>vault_items := delete_where (\<lambda>r. vi_account_id r = rr_account_id request) (vault_items s)\<rparr>
                else s);
          s2 = update_account (rr_account_id request) f s1
      in s2\<lparr>sessions := update_where (\<lambda>r. se_account_id r = rr_account_id request \<and> se_revoked_at r = None)
              (\<lambda>r. r\<lparr>se_revoked_at := Some now\<rparr>) (sessions s2),
            recovery_requests := update_where (\<lambda>r. rr_id r = rr_id request)
              (\<lambda>r. r\<lparr>rr_completed_at := Some now\<rparr>) (recovery_requests s2)\<rparr>)"

definition complete_recovery ::
    "env \<Rightarrow> ip_addr \<Rightarrow> secs \<Rightarrow> bytes \<Rightarrow> complete_request \<Rightarrow> srv \<Rightarrow> bool reply" where
  "complete_recovery E ip now phc_salt rq s0 =
     (case check_ip ip now s0 of
        (Some retry, s) \<Rightarrow> (Inl (RateLimited retry), s)
      | (None, s) \<Rightarrow>
          (case find_active_request E (cq_token rq) now s of
             None \<Rightarrow> (Inl InvalidToken, record_failure ip now s)
           | Some request \<Rightarrow>
               if rr_usable_at request > now then (Inl (CoolingOff (rr_usable_at request - now)), s)
               else
                 (case complete_fields E rq of
                    Inl e \<Rightarrow> (Inl e, s)
                  | Inr (credential, new_verifier, new_salt) \<Rightarrow>
                      and_then (recovery_mode E ip now (rr_account_id request) rq s) (\<lambda>preserve_data s1.
                        (let s2 = complete_tx preserve_data now request
                               (recover_account E phc_salt rq credential new_verifier new_salt) s1
                         in case account_by_id s2 (rr_account_id request) of
                              None \<Rightarrow> (Inl Internal, s2)
                            | Some account \<Rightarrow>
                                (Inr preserve_data,
                                 notify_owner (ac_email account) (Mail_Recovered preserve_data)
                                   (backup_email_of s2 (rr_account_id request)) s2))))))"

definition cancel_recovery :: "env \<Rightarrow> secs \<Rightarrow> text \<Rightarrow> srv \<Rightarrow> unit reply" where
  "cancel_recovery E now token s =
     (let p = (\<lambda>r. rr_cancel_hash r = e_sha256 E (as_bytes token) \<and> rr_cancelled_at r = None
                 \<and> rr_completed_at r = None);
          s' = s\<lparr>recovery_requests := update_where p (\<lambda>r. r\<lparr>rr_cancelled_at := Some now\<rparr>) (recovery_requests s)\<rparr>
      in if count_where p (recovery_requests s) = 0 then (Inl InvalidToken, s') else (Inr (), s'))"

section \<open>Sensitive changes\<close>

definition BACKUP_VERIFY_TTL_SECS :: secs where "BACKUP_VERIFY_TTL_SECS = 24 * 3600"

definition confirm_sensitive ::
    "env \<Rightarrow> ip_addr \<Rightarrow> secs \<Rightarrow> account_row \<Rightarrow> text \<Rightarrow> text option \<Rightarrow> srv \<Rightarrow> unit reply" where
  "confirm_sensitive E ip now account auth_credential_b64 totp_code s =
     (case decode32 E auth_credential_b64 (lit ''auth_credential'') of
        Inl e \<Rightarrow> (Inl e, s)
      | Inr credential \<Rightarrow>
          if \<not> e_verify_password E credential (ac_server_auth_hash account)
          then (Inl InvalidCredentials, record_failure ip now s)
          else
            (case active_totp s (ac_id account) of
               None \<Rightarrow> (Inr (), s)
             | Some row \<Rightarrow>
                 (case totp_code of
                    None \<Rightarrow> (Inl MfaRequired, s)
                  | Some code \<Rightarrow>
                      if \<not> verify E (to_secret_base32 row) code now
                      then (Inl InvalidCredentials, record_failure ip now s) else (Inr (), s))))"

text \<open>How each of the handlers below begins: the account of the session, confirmed.\<close>

definition confirmed_account ::
    "env \<Rightarrow> ip_addr \<Rightarrow> secs \<Rightarrow> auth_session \<Rightarrow> text \<Rightarrow> text option \<Rightarrow> srv \<Rightarrow> account_row reply" where
  "confirmed_account E ip now au auth_credential totp_code s0 =
     and_then (load_account (au_account_id au) s0) (\<lambda>account s1.
     and_then (confirm_sensitive E ip now account auth_credential totp_code s1) (\<lambda>_ s. (Inr account, s)))"

definition backup_address_ok :: "text \<Rightarrow> bool" where
  "backup_address_ok backup \<longleftrightarrow> str_len backup \<le> 254
     \<and> (case split_once 64 backup of None \<Rightarrow> False | Some (l, d) \<Rightarrow> l \<noteq> [] \<and> str_contains d (lit ''.''))"

definition set_backup_email ::
    "env \<Rightarrow> config \<Rightarrow> ip_addr \<Rightarrow> secs \<Rightarrow> bytes \<Rightarrow> auth_session \<Rightarrow> text \<Rightarrow> text option \<Rightarrow> text \<Rightarrow> srv \<Rightarrow> unit reply" where
  "set_backup_email E cfg ip now draw au auth_credential totp_code backup_email s0 =
     and_then (confirmed_account E ip now au auth_credential totp_code s0) (\<lambda>account s.
       (let backup = normalize_email (e_lower E) backup_email
        in if backup = ac_email account
           then (Inl (BadRequest (lit ''the backup address must differ from the account address'')), s)
           else if \<not> backup_address_ok backup then (Inl (BadRequest (lit ''invalid e-mail address'')), s)
           else
             (let s1 = update_account (ac_id account)
                    (\<lambda>a. a\<lparr>ac_backup_email := Some backup, ac_backup_verified_at := None\<rparr>) s;
                  (token, token_hash) = new_token E draw (lit ''bvbet_'');
                  s2 = s1\<lparr>email_tokens := email_tokens s1 @
                         [\<lparr>et_id = next_id et_id (email_tokens s1), et_account_id = ac_id account,
                           et_purpose = Verify_Backup_Email, et_token_hash = token_hash,
                           et_expires_at = now + BACKUP_VERIFY_TTL_SECS, et_used_at = None\<rparr>]\<rparr>;
                  link = cfg_base_url cfg @ lit ''/api/v1/accounts/verify-backup?token='' @ token
              in (Inr (), send_mail (ac_email account) (Mail_Backup_Changed backup)
                            (send_mail backup (Mail_Confirm_Backup link) s2)))))"

definition verify_backup_email :: "env \<Rightarrow> secs \<Rightarrow> text \<Rightarrow> srv \<Rightarrow> unit reply" where
  "verify_backup_email E now token s =
     (case List.find (token_live now (e_sha256 E (as_bytes token)) Verify_Backup_Email) (email_tokens s) of
        None \<Rightarrow> (Inl InvalidToken, s)
      | Some row \<Rightarrow>
          (Inr (), update_account (et_account_id row) (\<lambda>a. a\<lparr>ac_backup_verified_at := Some now\<rparr>)
             (s\<lparr>email_tokens := update_where (\<lambda>t. et_id t = et_id row)
                  (\<lambda>t. t\<lparr>et_used_at := Some now\<rparr>) (email_tokens s)\<rparr>)))"

definition remove_backup_email ::
    "env \<Rightarrow> ip_addr \<Rightarrow> secs \<Rightarrow> auth_session \<Rightarrow> text \<Rightarrow> text option \<Rightarrow> srv \<Rightarrow> unit reply" where
  "remove_backup_email E ip now au auth_credential totp_code s0 =
     and_then (confirmed_account E ip now au auth_credential totp_code s0) (\<lambda>account s.
       (let old_backup = backup_email_of s (ac_id account);
            s1 = update_account (ac_id account)
                   (\<lambda>a. a\<lparr>ac_backup_email := None, ac_backup_verified_at := None\<rparr>) s
        in (Inr (), notify_owner (ac_email account) Mail_Backup_Removed old_backup s1)))"

record change_password_request =
  pq_auth_credential :: "text"
  pq_totp_code :: "text option"
  pq_new_auth_credential :: "text"
  pq_kdf_params :: kdf_params
  pq_master_wrapped :: "text"
  pq_recovery_wrapped :: "text"
  pq_new_recovery_verifier :: "text"

definition rekey_account ::
    "env \<Rightarrow> bytes \<Rightarrow> change_password_request \<Rightarrow> bytes \<Rightarrow> bytes \<Rightarrow> account_row \<Rightarrow> account_row" where
  "rekey_account E phc_salt rq new_credential new_verifier a =
     a\<lparr>ac_server_auth_hash := e_hash_password E phc_salt new_credential,
       ac_kdf_params := e_kdf_to_json E (pq_kdf_params rq),
       ac_master_wrapped := pq_master_wrapped rq, ac_recovery_wrapped := pq_recovery_wrapped rq,
       ac_recovery_verifier_hash := Some (e_sha256 E new_verifier),
       ac_failed_attempts := 0, ac_lockout_until := None\<rparr>"

definition change_fields :: "env \<Rightarrow> change_password_request \<Rightarrow> api_error + (bytes \<times> bytes)" where
  "change_fields E rq =
     bind_r (validate_kdf (pq_kdf_params rq)) (\<lambda>_.
     bind_r (decode32 E (pq_new_auth_credential rq) (lit ''new_auth_credential'')) (\<lambda>new_credential.
     bind_r (decode32 E (pq_new_recovery_verifier rq) (lit ''new_recovery_verifier'')) (\<lambda>new_verifier.
       Inr (new_credential, new_verifier))))"

definition change_password ::
    "env \<Rightarrow> ip_addr \<Rightarrow> secs \<Rightarrow> bytes \<Rightarrow> auth_session \<Rightarrow> change_password_request \<Rightarrow> srv \<Rightarrow> unit reply" where
  "change_password E ip now phc_salt au rq s0 =
     and_then (confirmed_account E ip now au (pq_auth_credential rq) (pq_totp_code rq) s0) (\<lambda>account s.
       (case change_fields E rq of
          Inl e \<Rightarrow> (Inl e, s)
        | Inr (new_credential, new_verifier) \<Rightarrow>
            (let s1 = update_account (ac_id account) (rekey_account E phc_salt rq new_credential new_verifier) s;
                 s2 = s1\<lparr>sessions := update_where
                        (\<lambda>r. se_account_id r = ac_id account \<and> se_family_id r \<noteq> au_family_id au
                           \<and> se_revoked_at r = None)
                        (\<lambda>r. r\<lparr>se_revoked_at := Some now\<rparr>) (sessions s1)\<rparr>
             in (Inr (), notify_owner (ac_email account) Mail_Password_Changed
                           (backup_email_of s2 (ac_id account)) s2))))"

section \<open>Frames\<close>

lemma notify_owner_sel [simp]:
  "accounts (notify_owner e b bk s) = accounts s" "email_tokens (notify_owner e b bk s) = email_tokens s"
  "sessions (notify_owner e b bk s) = sessions s" "totps (notify_owner e b bk s) = totps s"
  "recovery_codes (notify_owner e b bk s) = recovery_codes s" "vault_items (notify_owner e b bk s) = vault_items s"
  "recovery_requests (notify_owner e b bk s) = recovery_requests s"
  "ip_failures (notify_owner e b bk s) = ip_failures s"
  "outbox (notify_owner e b bk s) = outbox s @ (e, b) # (case bk of None \<Rightarrow> [] | Some a \<Rightarrow> [(a, b)])"
  by (simp_all add: notify_owner_def Let_def split: option.split)

lemma confirm_sensitive_cases:
  "confirm_sensitive E ip now a cred code s = (Inr (), s)
   \<or> (\<exists>e. confirm_sensitive E ip now a cred code s = (Inl e, s))
   \<or> confirm_sensitive E ip now a cred code s = (Inl InvalidCredentials, record_failure ip now s)"
  by (auto simp: confirm_sensitive_def split: sum.split option.split)

lemma confirm_sensitive_Inr:
  "confirm_sensitive E ip now a cred code s = (Inr (), s') \<longleftrightarrow>
     s' = s \<and> (\<exists>c. decode32 E cred (lit ''auth_credential'') = Inr c \<and> e_verify_password E c (ac_server_auth_hash a))
     \<and> (case active_totp s (ac_id a) of None \<Rightarrow> True
        | Some row \<Rightarrow> (case code of None \<Rightarrow> False | Some t \<Rightarrow> verify E (to_secret_base32 row) t now))"
  by (auto simp: confirm_sensitive_def split: sum.split option.split)

lemma confirmed_account_Inr:
  "confirmed_account E ip now au cred code s = (Inr a, s') \<longleftrightarrow>
     account_by_id s (au_account_id au) = Some a \<and> confirm_sensitive E ip now a cred code s = (Inr (), s')"
  by (auto simp: confirmed_account_def and_then_Inr load_account_def split: option.splits)

lemma confirmed_account_Inl:
  assumes "confirmed_account E ip now au cred code s = (Inl e, s')"
  shows "s' = s \<or> s' = record_failure ip now s"
proof (cases "account_by_id s (au_account_id au)")
  case None
  with assms show ?thesis by (simp add: confirmed_account_def load_account_def)
next
  case (Some a)
  with assms confirm_sensitive_cases[of E ip now a cred code s] show ?thesis
    by (auto simp: confirmed_account_def load_account_def)
qed

lemma confirmed_account_snd:
  "snd (confirmed_account E ip now au cred code s) \<in> {s, record_failure ip now s}"
proof -
  obtain res s1 where c: "confirmed_account E ip now au cred code s = (res, s1)" by fastforce
  show ?thesis
  proof (cases res)
    case (Inl e)
    with c confirmed_account_Inl show ?thesis by fastforce
  next
    case (Inr a)
    then have "confirm_sensitive E ip now a cred code s = (Inr (), s1)" using c by (simp add: confirmed_account_Inr)
    then show ?thesis using c by (simp add: confirm_sensitive_Inr)
  qed
qed

end
