(* ===== verification/Server_Recovery_Spec.thy ===== *)
theory Server_Recovery_Spec
  imports Server_Recovery
begin

text \<open>
  What recovery promises: it needs a live request past its cooling-off and either the Recovery
  Kit or an explicit wipe, it is all or nothing, a request is good for one completion only, and a
  password change or a recovery ends the sessions it should and no others.
\<close>

section \<open>Completing, taken apart\<close>

lemma recovery_mode_Inr:
  "recovery_mode E ip now acc rq s = (Inr p, s1) \<longleftrightarrow> s1 = s \<and>
     (if p then (\<exists>v c a. cq_recovery_verifier rq = Some v \<and> decode32 E v (lit ''recovery_verifier'') = Inr c
                  \<and> account_by_id s acc = Some a \<and> ac_recovery_verifier_hash a = Some (e_sha256 E c))
      else cq_recovery_verifier rq = None \<and> cq_wipe rq)"
  by (auto simp: recovery_mode_def Let_def split: option.split sum.split)

lemma recovery_mode_Inl:
  "recovery_mode E ip now acc rq s = (Inl e, s1) \<Longrightarrow> s1 = s \<or> s1 = record_failure ip now s"
  by (auto simp: recovery_mode_def Let_def split: option.splits sum.splits if_splits)

lemma complete_tx_sel [simp]:
  "accounts (complete_tx p now r f s) = update_where (\<lambda>a. ac_id a = rr_account_id r) f (accounts s)"
  "vault_items (complete_tx p now r f s) =
     (if p then vault_items s else delete_where (\<lambda>i. vi_account_id i = rr_account_id r) (vault_items s))"
  "sessions (complete_tx p now r f s) =
     update_where (\<lambda>q. se_account_id q = rr_account_id r \<and> se_revoked_at q = None)
       (\<lambda>q. q\<lparr>se_revoked_at := Some now\<rparr>) (sessions s)"
  "recovery_requests (complete_tx p now r f s) =
     update_where (\<lambda>q. rr_id q = rr_id r) (\<lambda>q. q\<lparr>rr_completed_at := Some now\<rparr>) (recovery_requests s)"
  "outbox (complete_tx p now r f s) = outbox s" "email_tokens (complete_tx p now r f s) = email_tokens s"
  "totps (complete_tx p now r f s) = totps s" "recovery_codes (complete_tx p now r f s) = recovery_codes s"
  "ip_failures (complete_tx p now r f s) = ip_failures s"
  by (simp_all add: complete_tx_def Let_def)

lemma recover_account_sel [simp]:
  "ac_id (recover_account E h rq c v n a) = ac_id a" "ac_email (recover_account E h rq c v n a) = ac_email a"
  "ac_email_verified_at (recover_account E h rq c v n a) = ac_email_verified_at a"
  "ac_server_auth_hash (recover_account E h rq c v n a) = e_hash_password E h c"
  "ac_kdf_params (recover_account E h rq c v n a) = e_kdf_to_json E (cq_kdf_params rq)"
  "ac_kdf_salt (recover_account E h rq c v n a) = n"
  "ac_master_wrapped (recover_account E h rq c v n a) = cq_master_wrapped rq"
  "ac_recovery_wrapped (recover_account E h rq c v n a) = cq_recovery_wrapped rq"
  "ac_recovery_verifier_hash (recover_account E h rq c v n a) = Some (e_sha256 E v)"
  "ac_failed_attempts (recover_account E h rq c v n a) = 0" "ac_lockout_until (recover_account E h rq c v n a) = None"
  "ac_sync_seq (recover_account E h rq c v n a) = ac_sync_seq a"
  "ac_purged_before_seq (recover_account E h rq c v n a) = ac_purged_before_seq a"
  "ac_checkpoint_seq (recover_account E h rq c v n a) = ac_checkpoint_seq a"
  "ac_checkpoint_tag (recover_account E h rq c v n a) = ac_checkpoint_tag a"
  "ac_backup_email (recover_account E h rq c v n a) = ac_backup_email a"
  "ac_backup_verified_at (recover_account E h rq c v n a) = ac_backup_verified_at a"
  by (simp_all add: recover_account_def)

text \<open>What a successful completion went through, and the state it left.\<close>

lemma complete_Inr:
  assumes "complete_recovery E ip now salt rq s0 = (Inr p, s')"
  obtains s r cred nv ns a where "check_ip ip now s0 = (None, s)"
    and "find_active_request E (cq_token rq) now s = Some r" and "rr_usable_at r \<le> now"
    and "complete_fields E rq = Inr (cred, nv, ns)"
    and "recovery_mode E ip now (rr_account_id r) rq s = (Inr p, s)"
    and "account_by_id s (rr_account_id r) = Some a"
    and "s' = notify_owner (ac_email a) (Mail_Recovered p)
           (backup_email_of (complete_tx p now r (recover_account E salt rq cred nv ns) s) (rr_account_id r))
           (complete_tx p now r (recover_account E salt rq cred nv ns) s)"
proof -
  obtain s where c: "check_ip ip now s0 = (None, s)"
    using assms by (auto simp: complete_recovery_def split: prod.splits option.splits)
  obtain r where r: "find_active_request E (cq_token rq) now s = Some r" "rr_usable_at r \<le> now"
    using assms by (auto simp: complete_recovery_def c split: option.splits if_splits)
  obtain cred nv ns where f: "complete_fields E rq = Inr (cred, nv, ns)"
    using assms r by (auto simp: complete_recovery_def c split: sum.splits)
  let ?tx = "\<lambda>s1. complete_tx p now r (recover_account E salt rq cred nv ns) s1"
  obtain s1 b where m: "recovery_mode E ip now (rr_account_id r) rq s = (Inr p, s1)"
    and b: "account_by_id (?tx s1) (rr_account_id r) = Some b"
    and s': "s' = notify_owner (ac_email b) (Mail_Recovered p) (backup_email_of (?tx s1) (rr_account_id r)) (?tx s1)"
    using assms r f by (auto simp: complete_recovery_def c and_then_Inr Let_def split: option.splits)
  have s1: "s1 = s" using m by (simp add: recovery_mode_Inr)
  have "account_by_id (?tx s) (rr_account_id r) = map_option (recover_account E salt rq cred nv ns)
      (account_by_id s (rr_account_id r))"
    using account_by_id_update[of "recover_account E salt rq cred nv ns" "rr_account_id r" s "rr_account_id r"]
    by (simp add: account_by_id_def)
  with b s1 obtain a where "account_by_id s (rr_account_id r) = Some a" "ac_email b = ac_email a" by auto
  with that[OF c r f] m s1 s' show thesis by auto
qed

lemma find_activeD:
  assumes "find_active_request E token now s = Some r"
  shows "r \<in> set (recovery_requests s)" "rr_completion_hash r = e_sha256 E (as_bytes token)"
    "rr_cancelled_at r = None" "rr_completed_at r = None" "now < rr_expires_at r"
  using find_SomeD[OF assms[unfolded find_active_request_def]] by (auto simp: request_active_def)

lemma recovery_gate_facts:
  assumes "complete_recovery E ip now salt rq s = (Inr preserve, s')"
  shows "\<exists>r a. r \<in> set (recovery_requests s) \<and> rr_completion_hash r = e_sha256 E (as_bytes (cq_token rq))
    \<and> rr_cancelled_at r = None \<and> rr_completed_at r = None \<and> rr_usable_at r \<le> now \<and> now < rr_expires_at r
    \<and> account_by_id s (rr_account_id r) = Some a"
  using assms
proof (rule complete_Inr)
  fix s1 r cred nv ns a
  assume c: "check_ip ip now s = (None, s1)" and f: "find_active_request E (cq_token rq) now s1 = Some r"
    and "rr_usable_at r \<le> now" and a: "account_by_id s1 (rr_account_id r) = Some a"
  moreover have "account_by_id s (rr_account_id r) = Some a"
    using a check_ip_sel(1)[OF c] by (simp add: account_by_id_def)
  ultimately show ?thesis using find_activeD[OF f] check_ip_sel(7)[OF c] by auto
qed

section \<open>The life of a request\<close>

definition pending :: "recovery_request_row \<Rightarrow> bool" where
  "pending r \<longleftrightarrow> rr_cancelled_at r = None \<and> rr_completed_at r = None"

definition completion_hash_of :: "env \<Rightarrow> recovery_draws \<Rightarrow> bytes" where
  "completion_hash_of E d = snd (new_token E (rd_completion d) (lit ''bvrec_''))"

definition cancel_hash_of :: "env \<Rightarrow> recovery_draws \<Rightarrow> bytes" where
  "cancel_hash_of E d = snd (new_token E (rd_cancel d) (lit ''bvcan_''))"

definition request_row_for ::
    "env \<Rightarrow> secs \<Rightarrow> recovery_draws \<Rightarrow> int \<Rightarrow> secs \<Rightarrow> int \<Rightarrow> recovery_request_row" where
  "request_row_for E cooloff d acc now i =
     \<lparr>rr_id = i, rr_account_id = acc, rr_completion_hash = completion_hash_of E d,
      rr_cancel_hash = cancel_hash_of E d, rr_created_at = now, rr_usable_at = now + cooloff,
      rr_expires_at = now + cooloff + COMPLETION_WINDOW_SECS, rr_cancelled_at = None, rr_completed_at = None\<rparr>"

text \<open>Steps of the table: nothing, cancelling some rows, completing a live row past its cooling-off,
  or superseding the pending rows of an account by a new one.\<close>

inductive requests_step ::
    "env \<Rightarrow> secs \<Rightarrow> recovery_draws option \<Rightarrow> recovery_request_row list \<Rightarrow> recovery_request_row list \<Rightarrow> bool"
  for E cooloff d where
  requests_same: "requests_step E cooloff d t t"
| requests_cancel: "requests_step E cooloff d t
    (update_where (\<lambda>r. p r \<and> pending r) (\<lambda>r. r\<lparr>rr_cancelled_at := Some now\<rparr>) t)"
| requests_complete: "row \<in> set t \<Longrightarrow> pending row \<Longrightarrow> rr_usable_at row \<le> now \<Longrightarrow> now < rr_expires_at row \<Longrightarrow>
    requests_step E cooloff d t (update_where (\<lambda>r. rr_id r = rr_id row) (\<lambda>r. r\<lparr>rr_completed_at := Some now\<rparr>) t)"
| requests_start: "d = Some dr \<Longrightarrow>
    kept = update_where (\<lambda>r. rr_account_id r = acc \<and> pending r) (\<lambda>r. r\<lparr>rr_cancelled_at := Some now\<rparr>) t \<Longrightarrow>
    requests_step E cooloff d t (kept @ [request_row_for E cooloff dr acc now (next_id rr_id kept)])"

inductive_cases requests_stepE: "requests_step E cooloff d t t'"

lemma start_recovery_requests:
  "requests_step E (cfg_recovery_cooloff_secs cfg) (Some d) (recovery_requests s)
     (recovery_requests (snd (start_recovery E cfg ip now d email s)))"
proof -
  obtain res s1 where c: "check_ip ip now s = (res, s1)" by fastforce
  have rr: "recovery_requests s1 = recovery_requests s" by (rule check_ip_sel(7)[OF c])
  show ?thesis
  proof (cases "res = None \<and> account_by_email (record_failure ip now s1) (normalize_email (e_lower E) email) \<noteq> None")
    case True
    then obtain a where a: "account_by_email (record_failure ip now s1) (normalize_email (e_lower E) email) = Some a" by blast
    have p: "(\<lambda>r. rr_account_id r = ac_id a \<and> rr_cancelled_at r = None \<and> rr_completed_at r = None)
        = (\<lambda>r. rr_account_id r = ac_id a \<and> pending r)"
      by (auto simp: pending_def)
    let ?kept = "update_where (\<lambda>r. rr_account_id r = ac_id a \<and> pending r) (\<lambda>r. r\<lparr>rr_cancelled_at := Some now\<rparr>) (recovery_requests s)"
    have "recovery_requests (snd (start_recovery E cfg ip now d email s)) =
        ?kept @ [request_row_for E (cfg_recovery_cooloff_secs cfg) d (ac_id a) now (next_id rr_id ?kept)]"
      using True a by (simp add: start_recovery_def c Let_def rr p request_row_for_def completion_hash_of_def
          cancel_hash_of_def new_token_def)
    then show ?thesis using requests_start[OF refl refl] by simp
  next
    case False
    then show ?thesis by (cases res) (auto simp: start_recovery_def c Let_def rr requests_same)
  qed
qed

lemma complete_recovery_requests:
  "requests_step E cooloff d (recovery_requests s)
     (recovery_requests (snd (complete_recovery E ip now salt rq s)))"
proof -
  obtain res s1 where c: "check_ip ip now s = (res, s1)" by fastforce
  have rr: "recovery_requests s1 = recovery_requests s" by (rule check_ip_sel(7)[OF c])
  have keep: "recovery_requests (snd (recovery_mode E ip now acc rq s1)) = recovery_requests s" for acc
    by (simp add: recovery_mode_def Let_def rr split: option.split sum.split)
  show ?thesis
  proof (cases "find_active_request E (cq_token rq) now s1")
    case (Some r)
    note r = find_activeD[OF Some]
    have fin: "rr_usable_at r \<le> now \<Longrightarrow> requests_step E cooloff d (recovery_requests s)
        (update_where (\<lambda>q. rr_id q = rr_id r) (\<lambda>q. q\<lparr>rr_completed_at := Some now\<rparr>) (recovery_requests s))"
      using r rr by (intro requests_complete) (auto simp: pending_def)
    obtain m s2 where m: "recovery_mode E ip now (rr_account_id r) rq s1 = (m, s2)" by fastforce
    with keep[of "rr_account_id r"] have "recovery_requests s2 = recovery_requests s" by simp
    with fin m rr Some c show ?thesis
      by (cases res; cases m)
        (auto simp: complete_recovery_def and_then_def Let_def requests_same split: option.split sum.split)
  qed (cases res; simp add: complete_recovery_def c rr requests_same)
qed

lemma cancel_recovery_requests:
  "requests_step E cooloff d (recovery_requests s) (recovery_requests (snd (cancel_recovery E now token s)))"
  using requests_cancel[of E cooloff d "recovery_requests s" "\<lambda>r. rr_cancel_hash r = e_sha256 E (as_bytes token)" now]
  by (simp add: cancel_recovery_def Let_def pending_def conj_assoc)

section \<open>Invariants of the table\<close>

definition requests_ok :: "secs \<Rightarrow> recovery_request_row list \<Rightarrow> bool" where
  "requests_ok cooloff t \<longleftrightarrow> distinct (map rr_id t)
     \<and> (\<forall>r \<in> set t. rr_usable_at r = rr_created_at r + cooloff
          \<and> rr_expires_at r = rr_usable_at r + COMPLETION_WINDOW_SECS)
     \<and> (\<forall>r \<in> set t. \<forall>r' \<in> set t. rr_account_id r = rr_account_id r' \<and> pending r \<and> pending r' \<longrightarrow> r = r')"

definition request_dead :: "bytes \<Rightarrow> recovery_request_row list \<Rightarrow> bool" where
  "request_dead h t \<longleftrightarrow> (\<forall>r \<in> set t. rr_completion_hash r = h \<longrightarrow> \<not> pending r)"

lemma pending_end [simp]:
  "\<not> pending (r\<lparr>rr_cancelled_at := Some now\<rparr>)" "\<not> pending (r\<lparr>rr_completed_at := Some now\<rparr>)"
  by (simp_all add: pending_def)

lemma request_row_for_sel [simp]:
  "rr_id (request_row_for E c d acc now i) = i" "rr_account_id (request_row_for E c d acc now i) = acc"
  "rr_completion_hash (request_row_for E c d acc now i) = completion_hash_of E d"
  "rr_usable_at (request_row_for E c d acc now i) = now + c" "rr_created_at (request_row_for E c d acc now i) = now"
  "rr_expires_at (request_row_for E c d acc now i) = now + c + COMPLETION_WINDOW_SECS"
  "pending (request_row_for E c d acc now i)"
  by (simp_all add: request_row_for_def pending_def)

lemma request_dead_simps [simp]:
  "request_dead h (t @ u) \<longleftrightarrow> request_dead h t \<and> request_dead h u"
  "request_dead h [r] \<longleftrightarrow> (rr_completion_hash r = h \<longrightarrow> \<not> pending r)"
  "request_dead h t \<Longrightarrow> request_dead h (update_where p (\<lambda>r. r\<lparr>rr_cancelled_at := Some now\<rparr>) t)"
  "request_dead h t \<Longrightarrow> request_dead h (update_where p (\<lambda>r. r\<lparr>rr_completed_at := Some now\<rparr>) t)"
  by (auto simp: request_dead_def ball_update_where)

lemma request_dead_step:
  assumes "requests_step E cooloff d t t'" and "request_dead h t"
    and "\<And>dr. d = Some dr \<Longrightarrow> completion_hash_of E dr \<noteq> h"
  shows "request_dead h t'"
  using assms by cases simp_all

lemma requests_ok_end:
  assumes "requests_ok cooloff t" and "\<And>r. rr_id (f r) = rr_id r" "\<And>r. rr_account_id (f r) = rr_account_id r"
    "\<And>r. rr_usable_at (f r) = rr_usable_at r" "\<And>r. rr_created_at (f r) = rr_created_at r"
    "\<And>r. rr_expires_at (f r) = rr_expires_at r" "\<And>r. \<not> pending (f r)"
  shows "requests_ok cooloff (update_where p f t)"
proof -
  have "map rr_id (update_where p f t) = map rr_id t" by (simp add: update_where_def assms(2))
  moreover have "r \<in> set t" if "r \<in> set (update_where p f t)" "pending r" for r
    using that assms(7) by (auto simp: update_where_def split: if_splits)
  then have "\<forall>r \<in> set (update_where p f t). \<forall>r' \<in> set (update_where p f t).
      rr_account_id r = rr_account_id r' \<and> pending r \<and> pending r' \<longrightarrow> r = r'"
    using assms(1) unfolding requests_ok_def by blast
  moreover have "\<forall>r \<in> set (update_where p f t). rr_usable_at r = rr_created_at r + cooloff
          \<and> rr_expires_at r = rr_usable_at r + COMPLETION_WINDOW_SECS"
    using assms(1,4-6) by (auto simp: ball_update_where requests_ok_def)
  ultimately show ?thesis using assms(1) by (simp add: requests_ok_def)
qed

lemma requests_ok_step:
  assumes "requests_step E cooloff d t t'" and "requests_ok cooloff t"
  shows "requests_ok cooloff t'"
  using assms(1)
proof cases
  case (requests_start dr kept acc now)
  have k: "requests_ok cooloff kept" unfolding requests_start
    using assms(2) by (rule requests_ok_end) simp_all
  have "\<forall>r \<in> set kept. rr_account_id r = acc \<longrightarrow> \<not> pending r"
    unfolding requests_start(3) ball_update_where by simp
  then have none: "\<And>r. r \<in> set kept \<Longrightarrow> rr_account_id r = acc \<Longrightarrow> \<not> pending r" by blast
  have "next_id rr_id kept \<notin> rr_id ` set kept" using next_id_fresh[of _ kept rr_id] by force
  moreover let ?r = "request_row_for E cooloff dr acc now (next_id rr_id kept)"
  have "\<forall>r \<in> set (kept @ [?r]). \<forall>r' \<in> set (kept @ [?r]).
      rr_account_id r = rr_account_id r' \<and> pending r \<and> pending r' \<longrightarrow> r = r'"
  proof (intro ballI impI)
    fix r r' assume m: "r \<in> set (kept @ [?r])" "r' \<in> set (kept @ [?r])"
      and same: "rr_account_id r = rr_account_id r' \<and> pending r \<and> pending r'"
    show "r = r'"
    proof (cases "rr_account_id r = acc")
      case True
      with m same none show ?thesis by auto
    next
      case False
      with m same have "r \<in> set kept" "r' \<in> set kept" by auto
      with k same show ?thesis unfolding requests_ok_def by blast
    qed
  qed
  ultimately show ?thesis using k unfolding requests_start(1) by (simp add: requests_ok_def)
qed (use assms(2) in \<open>auto intro: requests_ok_end\<close>)

section \<open>Histories\<close>

datatype recovery_req =
    Vq_Start ip_addr secs recovery_draws "text"
  | Vq_Complete ip_addr secs bytes complete_request
  | Vq_Cancel secs "text"

fun run_recovery :: "env \<Rightarrow> config \<Rightarrow> recovery_req \<Rightarrow> srv \<Rightarrow> srv" where
  "run_recovery E cfg (Vq_Start ip now d email) s = snd (start_recovery E cfg ip now d email s)"
| "run_recovery E cfg (Vq_Complete ip now salt rq) s = snd (complete_recovery E ip now salt rq s)"
| "run_recovery E cfg (Vq_Cancel now token) s = snd (cancel_recovery E now token s)"

fun drawn_request :: "recovery_req \<Rightarrow> recovery_draws option" where
  "drawn_request (Vq_Start ip now d email) = Some d"
| "drawn_request _ = None"

lemma run_recovery_step:
  "requests_step E (cfg_recovery_cooloff_secs cfg) (drawn_request ev) (recovery_requests s)
     (recovery_requests (run_recovery E cfg ev s))"
  by (cases ev) (simp_all add: start_recovery_requests complete_recovery_requests cancel_recovery_requests)

text \<open>A dead request is no request.\<close>

lemma dead_not_found:
  assumes "request_dead (e_sha256 E (as_bytes token)) (recovery_requests s)"
  shows "find_active_request E token now s = None"
  using assms by (auto simp: find_active_request_def find_None_iff request_dead_def request_active_def pending_def)

lemma complete_without_request:
  assumes "\<And>t. find_active_request E (cq_token rq) now (s\<lparr>ip_failures := t\<rparr>) = None"
  shows "\<exists>e. fst (complete_recovery E ip now salt rq s) = Inl e \<and> (e = InvalidToken \<or> (\<exists>w. e = RateLimited w))"
  using assms by (auto simp: complete_recovery_def check_ip_def split: prod.split option.split)

section \<open>Properties\<close>


text \<open>A recovery that is refused, at whatever point, changes nothing but the failure counter: no
  account, item, session, request, token or second factor is touched and no mail is sent.\<close>

lemma recovery_refused_changes_nothing:
  assumes "complete_recovery E ip now salt rq s = (Inl e, s')"
    and "\<forall>r \<in> set (recovery_requests s). account_by_id s (rr_account_id r) \<noteq> None"
  shows "\<exists>t. s' = s\<lparr>ip_failures := t\<rparr>"
proof -
  obtain res s1 where c: "check_ip ip now s = (res, s1)" by fastforce
  then obtain t where s1: "s1 = s\<lparr>ip_failures := t\<rparr>" by (auto simp: check_ip_def split: prod.splits)
  have rec: "\<exists>t. record_failure ip now (s\<lparr>ip_failures := t'\<rparr>) = s\<lparr>ip_failures := t\<rparr>" for t'
    by (rule exI[of _ "ip_record_failure ip now t'"]) (simp add: record_failure_def)
  show ?thesis
  proof (cases "find_active_request E (cq_token rq) now s1")
    case None
    with assms(1) c s1 rec show ?thesis by (cases res) (auto simp: complete_recovery_def)
  next
    case (Some r)
    obtain m s2 where m: "recovery_mode E ip now (rr_account_id r) rq s1 = (m, s2)" by fastforce
    show ?thesis
    proof (cases m)
      case (Inl e')
      with m recovery_mode_Inl have "s2 = s1 \<or> s2 = record_failure ip now s1" by blast
      with assms(1) c s1 Some m Inl rec show ?thesis
        by (cases res) (auto simp: complete_recovery_def split: if_splits sum.splits)
    next
      case (Inr p)
      with m have s2: "s2 = s1" by (simp add: recovery_mode_Inr)
      have "r \<in> set (recovery_requests s)" using find_activeD(1)[OF Some] s1 by simp
      then obtain a where a: "account_by_id s1 (rr_account_id r) = Some a"
        using assms(2) s1 by (auto simp: account_by_id_def)
      have "account_by_id (complete_tx p now r (recover_account E salt rq cr nv ns) s1) (rr_account_id r)
          = Some (recover_account E salt rq cr nv ns a)" for cr nv ns
        using account_by_id_update[of "recover_account E salt rq cr nv ns" "rr_account_id r" s1 "rr_account_id r"] a
        by (simp add: account_by_id_def)
      with assms(1) c s1 Some m Inr s2 show ?thesis
        by (cases res) (auto simp: complete_recovery_def Let_def split: if_splits sum.splits option.splits)
    qed
  qed
qed

lemma ends_request:
  assumes "requests_ok cooloff t" and "distinct (map rr_completion_hash t)" and "r \<in> set t"
    and "t' = update_where p f t" and "p r" and "\<And>q. rr_completion_hash (f q) = rr_completion_hash q"
    and "\<And>q. \<not> pending (f q)"
  shows "request_dead (rr_completion_hash r) t'"
proof -
  have "q = r" if "q \<in> set t" "rr_completion_hash q = rr_completion_hash r" for q
    using that assms(2,3) by (auto simp: distinct_map inj_on_def)
  then show ?thesis using assms(5-7) unfolding request_dead_def assms(4) ball_update_where by auto
qed

lemma rekey_account_sel [simp]:
  "ac_id (rekey_account E h rq c v a) = ac_id a" "ac_email (rekey_account E h rq c v a) = ac_email a"
  "ac_server_auth_hash (rekey_account E h rq c v a) = e_hash_password E h c"
  "ac_kdf_salt (rekey_account E h rq c v a) = ac_kdf_salt a"
  "ac_master_wrapped (rekey_account E h rq c v a) = pq_master_wrapped rq"
  "ac_recovery_wrapped (rekey_account E h rq c v a) = pq_recovery_wrapped rq"
  "ac_recovery_verifier_hash (rekey_account E h rq c v a) = Some (e_sha256 E v)"
  "ac_sync_seq (rekey_account E h rq c v a) = ac_sync_seq a"
  "ac_purged_before_seq (rekey_account E h rq c v a) = ac_purged_before_seq a"
  "ac_checkpoint_seq (rekey_account E h rq c v a) = ac_checkpoint_seq a"
  "ac_checkpoint_tag (rekey_account E h rq c v a) = ac_checkpoint_tag a"
  "ac_backup_email (rekey_account E h rq c v a) = ac_backup_email a"
  "ac_backup_verified_at (rekey_account E h rq c v a) = ac_backup_verified_at a"
  by (simp_all add: rekey_account_def)

text \<open>Changing the master password needs the old one (and a code where the second factor is
  active); afterwards exactly the new credential verifies, the salt, the items and the checkpoint are
  what they were, every other device of the account is signed out, and the device that asked, like
  every other account, keeps its sessions.\<close>

lemma change_password_effect:
  assumes "change_password E ip now salt au rq s = (Inr (), s')" and "phc_ok E" and "acc = au_account_id au"
  shows "\<exists>a a' new. account_by_id s acc = Some a
    \<and> (\<exists>c. decode32 E (pq_auth_credential rq) (lit ''auth_credential'') = Inr c \<and> e_verify_password E c (ac_server_auth_hash a))
    \<and> (case active_totp s acc of None \<Rightarrow> True
       | Some row \<Rightarrow> (case pq_totp_code rq of None \<Rightarrow> False | Some t \<Rightarrow> verify E (to_secret_base32 row) t now))
    \<and> decode32 E (pq_new_auth_credential rq) (lit ''new_auth_credential'') = Inr new
    \<and> account_by_id s' acc = Some a' \<and> (\<forall>x. e_verify_password E x (ac_server_auth_hash a') \<longleftrightarrow> x = new)
    \<and> ac_kdf_salt a' = ac_kdf_salt a \<and> ac_checkpoint_seq a' = ac_checkpoint_seq a
    \<and> ac_master_wrapped a' = pq_master_wrapped rq \<and> vault_items s' = vault_items s
    \<and> (\<forall>q \<in> set (sessions s'). se_account_id q = acc \<and> se_family_id q \<noteq> au_family_id au \<longrightarrow> se_revoked_at q \<noteq> None)
    \<and> filter (\<lambda>q. se_account_id q \<noteq> acc \<or> se_family_id q = au_family_id au) (sessions s')
       = filter (\<lambda>q. se_account_id q \<noteq> acc \<or> se_family_id q = au_family_id au) (sessions s)"
proof -
  obtain a s1 new nv where conf: "confirmed_account E ip now au (pq_auth_credential rq) (pq_totp_code rq) s = (Inr a, s1)"
    and f: "change_fields E rq = Inr (new, nv)"
  proof -
    obtain a s1 where "confirmed_account E ip now au (pq_auth_credential rq) (pq_totp_code rq) s = (Inr a, s1)"
      and "(case change_fields E rq of Inl e \<Rightarrow> (Inl e, s1) | Inr _ \<Rightarrow> (Inr (), s')) = (Inr (), s')"
      using assms(1) unfolding change_password_def and_then_Inr
      by (cases "change_fields E rq") (auto simp: Let_def)
    with that show thesis by (cases "change_fields E rq") auto
  qed
  then have a: "account_by_id s acc = Some a" and cs: "confirm_sensitive E ip now a (pq_auth_credential rq) (pq_totp_code rq) s = (Inr (), s1)"
    by (simp_all add: confirmed_account_Inr assms(3))
  then have id: "ac_id a = acc" and s1: "s1 = s" by (simp_all add: account_by_idD confirm_sensitive_Inr)
  let ?p = "\<lambda>r. se_account_id r = acc \<and> se_family_id r \<noteq> au_family_id au \<and> se_revoked_at r = None"
  have s': "accounts s' = accounts (update_account acc (rekey_account E salt rq new nv) s)" "vault_items s' = vault_items s"
    and ses: "sessions s' = update_where ?p (\<lambda>r. r\<lparr>se_revoked_at := Some now\<rparr>) (sessions s)"
    using assms(1) by (auto simp: change_password_def conf f Let_def s1 id)
  have a': "account_by_id s' acc = Some (rekey_account E salt rq new nv a)"
    using account_by_id_update[of "rekey_account E salt rq new nv" acc s acc] a s'(1) by (simp add: account_by_id_def)
  show ?thesis
  proof (rule exI, rule exI, rule exI, intro conjI)
    show "decode32 E (pq_new_auth_credential rq) (lit ''new_auth_credential'') = Inr new"
      using f by (auto simp: change_fields_def bind_r_eq_Inr)
    show "\<forall>x. e_verify_password E x (ac_server_auth_hash (rekey_account E salt rq new nv a)) \<longleftrightarrow> x = new"
      using assms(2) by (simp add: phc_ok_def)
    show "\<forall>q \<in> set (sessions s'). se_account_id q = acc \<and> se_family_id q \<noteq> au_family_id au \<longrightarrow> se_revoked_at q \<noteq> None"
      unfolding ses ball_update_where by auto
    show "filter (\<lambda>q. se_account_id q \<noteq> acc \<or> se_family_id q = au_family_id au) (sessions s')
       = filter (\<lambda>q. se_account_id q \<noteq> acc \<or> se_family_id q = au_family_id au) (sessions s)"
      unfolding ses by (rule filter_update_outside) auto
    show "\<exists>c. decode32 E (pq_auth_credential rq) (lit ''auth_credential'') = Inr c \<and> e_verify_password E c (ac_server_auth_hash a)"
      using cs by (simp add: confirm_sensitive_Inr)
    show "case active_totp s acc of None \<Rightarrow> True
       | Some row \<Rightarrow> (case pq_totp_code rq of None \<Rightarrow> False | Some t \<Rightarrow> verify E (to_secret_base32 row) t now)"
      using cs by (simp add: confirm_sensitive_Inr id)
  qed (use a a' s'(2) in simp_all)
qed

section \<open>A concrete recovery\<close>

definition toy_rdraws :: recovery_draws where
  "toy_rdraws = \<lparr>rd_completion = [1], rd_cancel = [2]\<rparr>"

definition toy_recovery_srv :: srv where
  "toy_recovery_srv = toy_srv\<lparr>recovery_requests := [request_row_for toy_env 10 toy_rdraws 1 100 1]\<rparr>"

definition toy_complete :: "text option \<Rightarrow> complete_request" where
  "toy_complete v = \<lparr>cq_token = fst (new_token toy_env [1] (lit ''bvrec_'')), cq_recovery_verifier = v,
     cq_wipe = True, cq_auth_credential = replicate 32 5, cq_kdf_params = kdf_desktop, cq_kdf_salt = replicate 16 3,
     cq_master_wrapped = [1], cq_recovery_wrapped = [2], cq_new_recovery_verifier = replicate 32 4\<rparr>"

lemma toy_decode: "c < 256 \<Longrightarrow> decode_exact toy_env n a b (replicate n c) = Inr (replicate n (word_of_nat c))"
  by (simp add: decode_exact_def toy_env_def)

lemma toy_kdf: "kdf_validate kdf_desktop = Inr ()"
  by (simp add: kdf_validate_cases kdf_desktop_def MIN_MEMORY_KIB_def MAX_MEMORY_KIB_def MIN_ITERATIONS_def
      MAX_ITERATIONS_def MIN_PARALLELISM_def MAX_PARALLELISM_def)

lemma toy_complete_fields: "complete_fields toy_env (toy_complete v) = Inr (replicate 32 5, replicate 32 4, replicate 16 3)"
  by (simp add: complete_fields_def toy_complete_def validate_kdf_def toy_kdf decode32_def decode_salt_def toy_decode)

lemma toy_find: "find_active_request toy_env (cq_token (toy_complete v)) 120 toy_recovery_srv
    = Some (request_row_for toy_env 10 toy_rdraws 1 100 1)"
  by (simp add: find_active_request_def toy_recovery_srv_def request_active_def toy_complete_def
      completion_hash_of_def snd_new_token toy_rdraws_def request_row_for_def COMPLETION_WINDOW_SECS_def)

lemma toy_check: "check_ip 7 now toy_recovery_srv = (None, toy_recovery_srv)"
  by (simp add: check_ip_def ip_check_def toy_recovery_srv_def toy_srv_def)

lemma toy_account_rec: "account_by_id toy_recovery_srv 1 = Some (toy_account 1 (lit ''a@b.c''))"
  by (simp add: account_by_id_def toy_recovery_srv_def toy_srv_def toy_account_def)

lemma toy_complete_ok:
  assumes "v = None \<or> v = Some (replicate 32 9)"
  shows "\<exists>s'. complete_recovery toy_env 7 120 [1] (toy_complete v) toy_recovery_srv = (Inr (v \<noteq> None), s')"
proof -
  let ?r = "request_row_for toy_env 10 toy_rdraws 1 100 1"
  have m: "recovery_mode toy_env 7 120 1 (toy_complete v) toy_recovery_srv = (Inr (v \<noteq> None), toy_recovery_srv)"
    using assms toy_account_rec
    by (auto simp: recovery_mode_Inr toy_complete_def decode32_def toy_decode toy_account_def)
      (simp_all add: toy_env_def)
  have "account_by_id (complete_tx p 120 ?r (recover_account toy_env [1] rq a b c) toy_recovery_srv) 1
      = Some (recover_account toy_env [1] rq a b c (toy_account 1 (lit ''a@b.c'')))" for p rq a b c
    using account_by_id_update[of "recover_account toy_env [1] rq a b c" 1 toy_recovery_srv 1] toy_account_rec
    by (simp add: account_by_id_def)
  with m show ?thesis
    by (simp add: complete_recovery_def toy_check toy_find toy_complete_fields Let_def)
qed


definition toy_cfg :: config where
  "toy_cfg = \<lparr>cfg_base_url = [], cfg_registration_open = True, cfg_trust_proxy = False, cfg_recovery_cooloff_secs = 10\<rparr>"

end
