(* ===== verification/Server_Sessions_Spec.thy ===== *)
theory Server_Sessions_Spec
  imports Server_Sessions
begin

text \<open>
  What sessions promise, over any sequence of logins, rotations, logouts and revocations by
  anyone: one live token pair per login, a hard lifetime, rotation that spends the old token, and
  a login that is dead for good once a spent token is shown again.
\<close>

section \<open>Requests\<close>

datatype session_req =
    Rq_Login ip_addr secs bytes session_draws login_request
  | Rq_Refresh secs session_draws "text"
  | Rq_Logout secs auth_session
  | Rq_Revoke secs auth_session "text"
  | Rq_Revoke_Others secs auth_session

fun run_session :: "env \<Rightarrow> session_req \<Rightarrow> srv \<Rightarrow> srv" where
  "run_session E (Rq_Login ip now fam d rq) s = snd (login E ip now fam d rq s)"
| "run_session E (Rq_Refresh now d token) s = snd (refresh E now d token s)"
| "run_session E (Rq_Logout now au) s = snd (logout now au s)"
| "run_session E (Rq_Revoke now au f) s = snd (revoke now au f s)"
| "run_session E (Rq_Revoke_Others now au) s = snd (revoke_others now au s)"

text \<open>What a request draws: the family of a login, the hashes of a new token pair.\<close>

fun drawn_family :: "env \<Rightarrow> session_req \<Rightarrow> text option" where
  "drawn_family E (Rq_Login ip now fam d rq) = Some (login_family E fam)"
| "drawn_family E _ = None"

definition access_hash_of :: "env \<Rightarrow> session_draws \<Rightarrow> bytes" where
  "access_hash_of E d = snd (new_token E (sd_access d) (lit ''bvat_''))"

definition refresh_hash_of :: "env \<Rightarrow> session_draws \<Rightarrow> bytes" where
  "refresh_hash_of E d = snd (new_token E (sd_refresh d) (lit ''bvrt_''))"

fun drawn_pair :: "session_req \<Rightarrow> session_draws option" where
  "drawn_pair (Rq_Login ip now fam d rq) = Some d"
| "drawn_pair (Rq_Refresh now d token) = Some d"
| "drawn_pair _ = None"

definition fresh_rq :: "env \<Rightarrow> session_req \<Rightarrow> srv \<Rightarrow> bool" where
  "fresh_rq E rq s \<longleftrightarrow>
     (\<forall>r \<in> set (sessions s). drawn_family E rq \<noteq> Some (se_family_id r)
        \<and> (\<forall>d. drawn_pair rq = Some d \<longrightarrow> access_hash_of E d \<noteq> se_access_hash r
             \<and> refresh_hash_of E d \<noteq> se_refresh_hash r))"

section \<open>What each handler does to the sessions table\<close>

definition session_row_for ::
    "env \<Rightarrow> session_draws \<Rightarrow> int \<Rightarrow> text \<Rightarrow> text \<Rightarrow> secs \<Rightarrow> secs \<Rightarrow> secs \<Rightarrow> int \<Rightarrow> session_row" where
  "session_row_for E d account_id family_id device now created cap i =
     \<lparr>se_id = i, se_account_id = account_id, se_family_id = family_id,
      se_access_hash = access_hash_of E d, se_refresh_hash = refresh_hash_of E d,
      se_access_expires_at = now + ACCESS_TOKEN_TTL_SECS,
      se_refresh_expires_at = now + REFRESH_TOKEN_TTL_SECS, se_device_name = device,
      se_created_at = created, se_revoked_at = None, se_last_used_at = Some now,
      se_absolute_expires_at = Some cap\<rparr>"

lemma session_row_for_sel [simp]:
  "se_id (session_row_for E d acc f dev now c cap i) = i"
  "se_account_id (session_row_for E d acc f dev now c cap i) = acc"
  "se_family_id (session_row_for E d acc f dev now c cap i) = f"
  "se_access_hash (session_row_for E d acc f dev now c cap i) = access_hash_of E d"
  "se_refresh_hash (session_row_for E d acc f dev now c cap i) = refresh_hash_of E d"
  "se_device_name (session_row_for E d acc f dev now c cap i) = dev"
  "se_created_at (session_row_for E d acc f dev now c cap i) = c"
  "se_revoked_at (session_row_for E d acc f dev now c cap i) = None"
  "se_absolute_expires_at (session_row_for E d acc f dev now c cap i) = Some cap"
  by (simp_all add: session_row_for_def)

lemma insert_session_row_sessions:
  "sessions (snd (insert_session_row E d acc f dev now c cap s)) =
     sessions s @ [session_row_for E d acc f dev now c cap (next_id se_id (sessions s))]"
  by (simp add: insert_session_row_def new_token_def session_row_for_def access_hash_of_def
      refresh_hash_of_def Let_def)

lemma fail_sessions [simp]: "sessions (snd (fail ip account now s)) = sessions s"
  by (simp add: fail_def Let_def send_mail_def split: option.split)

lemma second_factor_sessions [simp]: "sessions (snd (second_factor E acc rq now s)) = sessions s"
  by (auto simp: second_factor_def consume_totp_def consume_recovery_code_def Let_def
      split: option.split prod.split)

lemma open_login_sessions:
  "sessions (snd (open_login E fam d a rq now s)) =
     delete_where (\<lambda>r. se_account_id r = ac_id a \<and> se_refresh_expires_at r < now) (sessions s)
     @ [session_row_for E d (ac_id a) (login_family E fam) (sanitize_device_name (lq_device_name rq)) now now
          (now + ABSOLUTE_SESSION_TTL_SECS)
          (next_id se_id (delete_where (\<lambda>r. se_account_id r = ac_id a \<and> se_refresh_expires_at r < now) (sessions s)))]"
  by (simp add: open_login_def create_session_def notify_new_sign_in_def send_mail_def Let_def
      insert_session_row_sessions split: prod.split)
    (metis (no_types, lifting) insert_session_row_sessions snd_conv srv.select_convs(3) srv.surjective srv.update_convs(3) update_account_sel(2))

lemma login_Inr:
  assumes "login E ip now fam d rq s = (Inr rep, s')"
  obtains s1 a s2 where "check_ip ip now s = (None, s1)"
    and "account_by_email s1 (normalize_email (e_lower E) (lq_email rq)) = Some a"
    and "locked_for (Some a) now = None"
    and "e_verify_password E (decode_or_default E (lq_auth_credential rq)) (ac_server_auth_hash a)"
    and "ac_email_verified_at a \<noteq> None"
    and "second_factor E (ac_id a) rq now s1 = (Some True, s2)"
    and "open_login E fam d a rq now s2 = (rep, s')"
  using assms by (auto simp: login_def Let_def split: option.splits prod.splits bool.splits if_splits)

lemma login_Inl_sessions:
  assumes "login E ip now fam d rq s = (Inl e, s')"
  shows "sessions s' = sessions s"
proof -
  obtain r s1 where c: "check_ip ip now s = (r, s1)" by fastforce
  have s1: "sessions s1 = sessions s" by (rule check_ip_sel(3)[OF c])
  have f: "fail i a t x = (y, z) \<Longrightarrow> sessions z = sessions x" for i a t x y z
    using fail_sessions[of i a t x] by simp
  have sf: "second_factor E acc rq now x = (y, z) \<Longrightarrow> sessions z = sessions x" for acc x y z
    using second_factor_sessions[of E acc rq now x] by simp
  show ?thesis using assms
    by (auto simp: login_def c Let_def s1[symmetric] dest!: f sf
        split: option.splits prod.splits bool.splits if_splits)
qed

lemma login_sessions:
  "sessions (snd (login E ip now fam d rq s)) = sessions s
   \<or> (\<exists>acc dev kept. kept = delete_where (\<lambda>r. se_account_id r = acc \<and> se_refresh_expires_at r < now) (sessions s)
       \<and> sessions (snd (login E ip now fam d rq s)) = kept
          @ [session_row_for E d acc (login_family E fam) dev now now (now + ABSOLUTE_SESSION_TTL_SECS) (next_id se_id kept)])"
proof (cases "login E ip now fam d rq s")
  case (Pair res s')
  show ?thesis
  proof (cases res)
    case (Inl e)
    with Pair login_Inl_sessions show ?thesis by simp
  next
    case (Inr rep)
    then obtain s1 a s2 where l: "check_ip ip now s = (None, s1)"
      "second_factor E (ac_id a) rq now s1 = (Some True, s2)" "open_login E fam d a rq now s2 = (rep, s')"
      using Pair by (blast elim: login_Inr)
    have "sessions s2 = sessions s"
      using check_ip_sel(3)[OF l(1)] second_factor_sessions[of E "ac_id a" rq now s1] l(2) by simp
    with open_login_sessions[of E fam d a rq now s2] l(3) Pair show ?thesis by auto
  qed
qed

lemma refresh_Inr:
  assumes "refresh E now d token s = (Inr tokens, s')"
  obtains row cap kept where "row \<in> set (sessions s)" and "se_refresh_hash row = e_sha256 E (as_bytes token)"
    and "se_revoked_at row = None" and "now < se_refresh_expires_at row"
    and "cap = (case se_absolute_expires_at row of None \<Rightarrow> now + ABSOLUTE_SESSION_TTL_SECS | Some c \<Rightarrow> c)"
    and "now < cap" and "kept = update_where (\<lambda>r. se_id r = se_id row) (\<lambda>r. r\<lparr>se_revoked_at := Some now\<rparr>) (sessions s)"
    and "sessions s' = kept @ [session_row_for E d (se_account_id row) (se_family_id row) (se_device_name row) now
           (se_created_at row) cap (next_id se_id kept)]"
proof -
  obtain row where f: "List.find (\<lambda>r. se_refresh_hash r = e_sha256 E (as_bytes token)) (sessions s) = Some row"
    and live: "se_revoked_at row = None" "now < se_refresh_expires_at row"
      "case se_absolute_expires_at row of None \<Rightarrow> True | Some cap \<Rightarrow> now < cap"
    using assms by (auto simp: refresh_def Let_def split: option.splits if_splits)
  define cap where "cap = (case se_absolute_expires_at row of None \<Rightarrow> now + ABSOLUTE_SESSION_TTL_SECS | Some c \<Rightarrow> c)"
  define s1 where "s1 = s\<lparr>sessions := update_where (\<lambda>r. se_id r = se_id row)
        (\<lambda>r. r\<lparr>se_revoked_at := Some now\<rparr>) (sessions s)\<rparr>"
  have "refresh E now d token s =
      (let (tokens, s2) = insert_session_row E d (se_account_id row) (se_family_id row)
                      (se_device_name row) now (se_created_at row) cap s1 in (Inr tokens, s2))"
    using live by (simp add: refresh_def f cap_def s1_def split: option.splits)
  then have "s' = snd (insert_session_row E d (se_account_id row) (se_family_id row)
                      (se_device_name row) now (se_created_at row) cap s1)"
    using assms by (simp split: prod.splits)
  then have "sessions s' = sessions s1 @ [session_row_for E d (se_account_id row) (se_family_id row)
      (se_device_name row) now (se_created_at row) cap (next_id se_id (sessions s1))]"
    by (simp only: insert_session_row_sessions)
  moreover have "now < cap" using live(3) by (simp add: cap_def ABSOLUTE_SESSION_TTL_SECS_def split: option.splits)
  ultimately show thesis using that[OF _ _ live(1,2) cap_def _ refl] find_SomeD[OF f] by (simp add: s1_def)
qed

section \<open>The specification: steps of the session table\<close>

inductive rows_step ::
    "env \<Rightarrow> text option \<Rightarrow> session_draws option \<Rightarrow> session_row list \<Rightarrow> session_row list \<Rightarrow> bool"
  for E fam d where
  rows_same: "rows_step E fam d t t"
| rows_revoke: "rows_step E fam d t (update_where p (\<lambda>r. r\<lparr>se_revoked_at := Some now\<rparr>) t)"
| rows_login: "fam = Some f \<Longrightarrow> d = Some dr \<Longrightarrow> kept = delete_where p t \<Longrightarrow>
    rows_step E fam d t (kept @ [session_row_for E dr acc f dev now now
      (now + ABSOLUTE_SESSION_TTL_SECS) (next_id se_id kept)])"
| rows_rotate: "d = Some dr \<Longrightarrow> row \<in> set t \<Longrightarrow> se_revoked_at row = None \<Longrightarrow>
    cap = (case se_absolute_expires_at row of None \<Rightarrow> now + ABSOLUTE_SESSION_TTL_SECS | Some c \<Rightarrow> c) \<Longrightarrow>
    kept = update_where (\<lambda>r. se_id r = se_id row) (\<lambda>r. r\<lparr>se_revoked_at := Some now\<rparr>) t \<Longrightarrow>
    rows_step E fam d t (kept @ [session_row_for E dr (se_account_id row) (se_family_id row)
      (se_device_name row) now (se_created_at row) cap (next_id se_id kept)])"

lemma rows_revokeI:
  "sessions s' = update_where p (\<lambda>r. r\<lparr>se_revoked_at := Some now\<rparr>) (sessions s) \<Longrightarrow>
   rows_step E fam d (sessions s) (sessions s')"
  by (simp add: rows_revoke)

text \<open>Every request is a step of the specification.\<close>

lemma run_session_step:
  "rows_step E (drawn_family E rq) (drawn_pair rq) (sessions s) (sessions (run_session E rq s))"
proof (cases rq)
  case (Rq_Login ip now fam d lr)
  then show ?thesis using login_sessions[of E ip now fam d lr s]
    by (auto simp: rows_same intro!: rows_login)
next
  case (Rq_Refresh now d token)
  obtain res s' where r: "refresh E now d token s = (res, s')" by fastforce
  show ?thesis
  proof (cases res)
    case (Inl e)
    with r Rq_Refresh show ?thesis
      by (auto simp: refresh_def Let_def rows_same rows_revoke split: option.splits if_splits prod.splits)
  next
    case (Inr tokens)
    show ?thesis using r[unfolded Inr]
      by (rule refresh_Inr) (simp add: Rq_Refresh r rows_rotate)
  qed
next
  case (Rq_Logout now au)
  then show ?thesis by (simp add: logout_def rows_revoke)
next
  case (Rq_Revoke now au f)
  then show ?thesis by (simp add: revoke_def Let_def rows_revoke)
next
  case (Rq_Revoke_Others now au)
  then show ?thesis by (simp add: revoke_others_def Let_def rows_revoke)
qed

section \<open>Invariants\<close>

definition family_ok :: "session_row list \<Rightarrow> bool" where
  "family_ok t \<longleftrightarrow> (\<forall>r \<in> set t. \<forall>r' \<in> set t. se_family_id r = se_family_id r' \<longrightarrow>
     se_account_id r = se_account_id r' \<and> se_created_at r = se_created_at r'
     \<and> se_device_name r = se_device_name r'
     \<and> (se_revoked_at r = None \<and> se_revoked_at r' = None \<longrightarrow> r = r'))"

definition sessions_ok :: "session_row list \<Rightarrow> bool" where
  "sessions_ok t \<longleftrightarrow> distinct (map se_id t) \<and> distinct (map se_refresh_hash t)
     \<and> distinct (map se_access_hash t) \<and> family_ok t
     \<and> (\<forall>r \<in> set t. se_absolute_expires_at r = Some (se_created_at r + ABSOLUTE_SESSION_TTL_SECS))"

definition family_dead :: "text \<Rightarrow> session_row list \<Rightarrow> bool" where
  "family_dead f t \<longleftrightarrow> (\<forall>r \<in> set t. se_family_id r = f \<longrightarrow> se_revoked_at r \<noteq> None)"

definition refresh_spent :: "bytes \<Rightarrow> session_row list \<Rightarrow> bool" where
  "refresh_spent h t \<longleftrightarrow> (\<forall>r \<in> set t. se_refresh_hash r = h \<longrightarrow> se_revoked_at r \<noteq> None)"

lemma family_dead_simps [simp]:
  "family_dead f (t @ u) \<longleftrightarrow> family_dead f t \<and> family_dead f u"
  "family_dead f [r] \<longleftrightarrow> (se_family_id r = f \<longrightarrow> se_revoked_at r \<noteq> None)"
  "family_dead f t \<Longrightarrow> family_dead f (update_where p (\<lambda>r. r\<lparr>se_revoked_at := Some now\<rparr>) t)"
  "family_dead f t \<Longrightarrow> family_dead f (delete_where p t)"
  by (auto simp: family_dead_def ball_update_where ball_delete_where)

lemma refresh_spent_simps [simp]:
  "refresh_spent h (t @ u) \<longleftrightarrow> refresh_spent h t \<and> refresh_spent h u"
  "refresh_spent h [r] \<longleftrightarrow> (se_refresh_hash r = h \<longrightarrow> se_revoked_at r \<noteq> None)"
  "refresh_spent h t \<Longrightarrow> refresh_spent h (update_where p (\<lambda>r. r\<lparr>se_revoked_at := Some now\<rparr>) t)"
  "refresh_spent h t \<Longrightarrow> refresh_spent h (delete_where p t)"
  by (auto simp: refresh_spent_def ball_update_where ball_delete_where)

lemma family_dead_step:
  assumes "rows_step E fam d t t'" and "family_dead f t" and "fam \<noteq> Some f"
  shows "family_dead f t'"
  using assms
proof cases
  case (rows_rotate dr row cap now kept)
  then have "se_family_id row \<noteq> f" using assms(2) by (auto simp: family_dead_def)
  with rows_rotate assms(2) show ?thesis by simp
qed simp_all

lemma refresh_spent_step:
  assumes "rows_step E fam d t t'" and "refresh_spent h t" and "\<And>dr. d = Some dr \<Longrightarrow> refresh_hash_of E dr \<noteq> h"
  shows "refresh_spent h t'"
  using assms by cases simp_all

lemma distinct_revoke [simp]:
  "map se_id (update_where p (\<lambda>r. r\<lparr>se_revoked_at := Some now\<rparr>) t) = map se_id t"
  "map se_refresh_hash (update_where p (\<lambda>r. r\<lparr>se_revoked_at := Some now\<rparr>) t) = map se_refresh_hash t"
  "map se_access_hash (update_where p (\<lambda>r. r\<lparr>se_revoked_at := Some now\<rparr>) t) = map se_access_hash t"
  by (simp_all add: update_where_def)

lemma family_ok_revoke:
  assumes "family_ok t"
  shows "family_ok (update_where p (\<lambda>r. r\<lparr>se_revoked_at := Some now\<rparr>) t)"
  unfolding family_ok_def
proof (intro ballI impI)
  let ?f = "\<lambda>r. if p r then r\<lparr>se_revoked_at := Some now\<rparr> else r"
  fix q q' assume "q \<in> set (update_where p (\<lambda>r. r\<lparr>se_revoked_at := Some now\<rparr>) t)"
    "q' \<in> set (update_where p (\<lambda>r. r\<lparr>se_revoked_at := Some now\<rparr>) t)" and same: "se_family_id q = se_family_id q'"
  then obtain r r' where r: "r \<in> set t" "q = ?f r" "r' \<in> set t" "q' = ?f r'" by (auto simp: update_where_def)
  with same have "se_family_id r = se_family_id r'" by (simp split: if_splits)
  with assms r(1,3) have "se_account_id r = se_account_id r' \<and> se_created_at r = se_created_at r'
     \<and> se_device_name r = se_device_name r' \<and> (se_revoked_at r = None \<and> se_revoked_at r' = None \<longrightarrow> r = r')"
    unfolding family_ok_def by blast
  with r(2,4) show "se_account_id q = se_account_id q' \<and> se_created_at q = se_created_at q'
     \<and> se_device_name q = se_device_name q' \<and> (se_revoked_at q = None \<and> se_revoked_at q' = None \<longrightarrow> q = q')"
    by auto
qed

lemma family_ok_delete: "family_ok t \<Longrightarrow> family_ok (delete_where p t)"
  by (simp add: family_ok_def ball_delete_where)

lemma family_ok_add:
  assumes "family_ok t" and "\<And>q. q \<in> set t \<Longrightarrow> se_family_id q = se_family_id r \<Longrightarrow>
    se_revoked_at q \<noteq> None \<and> se_account_id q = se_account_id r \<and> se_created_at q = se_created_at r
    \<and> se_device_name q = se_device_name r"
  shows "family_ok (t @ [r])"
  unfolding family_ok_def
proof (intro ballI impI)
  fix q q' assume m: "q \<in> set (t @ [r])" "q' \<in> set (t @ [r])" and same: "se_family_id q = se_family_id q'"
  consider "q \<in> set t" "q' \<in> set t" | "q = r" "q' \<in> set t" | "q \<in> set t" "q' = r" | "q = r" "q' = r"
    using m by auto
  then show "se_account_id q = se_account_id q' \<and> se_created_at q = se_created_at q'
     \<and> se_device_name q = se_device_name q' \<and> (se_revoked_at q = None \<and> se_revoked_at q' = None \<longrightarrow> q = q')"
  proof cases
    case 1
    with assms(1) same show ?thesis unfolding family_ok_def by blast
  next
    case 2
    with assms(2)[of q'] same show ?thesis by auto
  next
    case 3
    with assms(2)[of q] same show ?thesis by auto
  qed simp
qed

lemma sessions_ok_step:
  assumes "rows_step E fam d t t'" and "sessions_ok t"
    and "\<forall>r \<in> set t. fam \<noteq> Some (se_family_id r)
        \<and> (\<forall>dr. d = Some dr \<longrightarrow> access_hash_of E dr \<noteq> se_access_hash r \<and> refresh_hash_of E dr \<noteq> se_refresh_hash r)"
  shows "sessions_ok t'"
  using assms(1)
proof cases
  case rows_same
  with assms(2) show ?thesis by simp
next
  case (rows_revoke p now)
  with assms(2) show ?thesis by (simp add: sessions_ok_def family_ok_revoke ball_update_where)
next
  case (rows_login f dr kept p acc dev now)
  have sub: "set kept \<subseteq> set t" using rows_login(4) by (auto simp: delete_where_def)
  have dist: "distinct (map g kept)" if "distinct (map g t)" for g :: "session_row \<Rightarrow> 'k"
    using that rows_login(4) by (simp add: delete_where_def distinct_map_filter)
  let ?new = "session_row_for E dr acc f dev now now (now + ABSOLUTE_SESSION_TTL_SECS) (next_id se_id kept)"
  have nid: "next_id se_id kept \<notin> se_id ` set kept" by (metis imageE less_irrefl next_id_fresh)
  have "family_ok kept" using assms(2) rows_login(4) by (simp add: sessions_ok_def family_ok_delete)
  then have "family_ok t'" unfolding rows_login(1)
    by (rule family_ok_add) (use assms(3) sub rows_login(2) in auto)
  moreover have "distinct (map se_id t')" "distinct (map se_refresh_hash t')" "distinct (map se_access_hash t')"
    using assms(2,3) sub nid rows_login(1,3) dist[of se_id] dist[of se_refresh_hash] dist[of se_access_hash]
    by (auto simp: sessions_ok_def)
  moreover have "\<forall>r \<in> set t'. se_absolute_expires_at r = Some (se_created_at r + ABSOLUTE_SESSION_TTL_SECS)"
    using assms(2) sub rows_login(1) by (auto simp: sessions_ok_def)
  ultimately show ?thesis by (simp add: sessions_ok_def)
next
  case (rows_rotate dr row cap now kept)
  have nid: "next_id se_id kept \<notin> se_id ` set kept" by (metis imageE less_irrefl next_id_fresh)
  have ab: "se_absolute_expires_at row = Some (se_created_at row + ABSOLUTE_SESSION_TTL_SECS)"
    using assms(2) rows_rotate(3) by (simp add: sessions_ok_def)
  have fk: "family_ok kept" using assms(2) rows_rotate(6) by (simp add: sessions_ok_def family_ok_revoke)
  have uniq: "r = row" if "r \<in> set t" "se_id r = se_id row" for r
    using that assms(2) rows_rotate(3) by (auto simp: sessions_ok_def distinct_map inj_on_def)
  have dead: "se_revoked_at q \<noteq> None \<and> se_account_id q = se_account_id row \<and> se_created_at q = se_created_at row
      \<and> se_device_name q = se_device_name row" if kq: "q \<in> set kept" "se_family_id q = se_family_id row" for q
  proof -
    obtain r where r: "r \<in> set t" "q = (if se_id r = se_id row then r\<lparr>se_revoked_at := Some now\<rparr> else r)"
      using kq(1) rows_rotate(6) by (auto simp: update_where_def)
    with kq(2) have "se_family_id r = se_family_id row" by (simp split: if_splits)
    with assms(2) r(1) rows_rotate(3,4) have
      "se_account_id r = se_account_id row \<and> se_created_at r = se_created_at row \<and> se_device_name r = se_device_name row
       \<and> (se_revoked_at r = None \<longrightarrow> r = row)"
      unfolding sessions_ok_def family_ok_def by blast
    with r(2) show ?thesis by auto
  qed
  have maps: "map se_id kept = map se_id t" "map se_refresh_hash kept = map se_refresh_hash t"
    "map se_access_hash kept = map se_access_hash t"
    using rows_rotate(6) by simp_all
  have nid2: "next_id se_id kept \<notin> set (map se_id t)" using nid maps(1) by (metis set_map)
  have caps: "\<forall>r \<in> set kept. se_absolute_expires_at r = Some (se_created_at r + ABSOLUTE_SESSION_TTL_SECS)"
    using assms(2) by (simp add: rows_rotate(6) sessions_ok_def ball_update_where)
  have fam: "family_ok t'"
    unfolding rows_rotate(1) by (rule family_ok_add[OF fk]) (use dead in simp)
  have "distinct (map se_id t')" "distinct (map se_refresh_hash t')" "distinct (map se_access_hash t')"
    using assms(2,3) nid2 rows_rotate(2)
    by (simp_all only: rows_rotate(1) map_append maps) (auto simp: sessions_ok_def)
  with fam caps ab rows_rotate(1,5) show ?thesis by (simp add: sessions_ok_def)
qed

section \<open>Properties\<close>

definition toy_session :: "secs option \<Rightarrow> session_row" where
  "toy_session revoked = \<lparr>se_id = 1, se_account_id = 1, se_family_id = lit ''f'', se_access_hash = as_bytes (lit ''a''),
     se_refresh_hash = as_bytes (lit ''r''), se_access_expires_at = 900, se_refresh_expires_at = 2592000,
     se_device_name = [], se_created_at = 0, se_revoked_at = revoked, se_last_used_at = Some 0,
     se_absolute_expires_at = Some 7776000\<rparr>"

lemma toy_session_ok [simp]: "sessions_ok [toy_session v]"
  by (simp add: sessions_ok_def family_ok_def toy_session_def ABSOLUTE_SESSION_TTL_SECS_def)

definition toy_draws :: session_draws where
  "toy_draws = \<lparr>sd_access = [1], sd_refresh = [2]\<rparr>"

text \<open>Claim C29.  The gate of a login: it succeeds only for an account of the normalised address, with its
  credential, a verified address, no lockout running, the address budget not used up, and, when a
  second factor is active, one accepted now; it then resets the failure count and opens exactly one
  session of that account, whose bearer hash is that of the token returned.\<close>

theorem login_gate:
  assumes "login E ip now fam d rq s = (Inr rep, s')"
  shows "fst (check_ip ip now s) = None
    \<and> (\<exists>a. account_by_email s (normalize_email (e_lower E) (lq_email rq)) = Some a
        \<and> e_verify_password E (decode_or_default E (lq_auth_credential rq)) (ac_server_auth_hash a)
        \<and> ac_email_verified_at a \<noteq> None
        \<and> (case ac_lockout_until a of None \<Rightarrow> True | Some until \<Rightarrow> until \<le> now)
        \<and> (is_totp_active s (ac_id a) \<longrightarrow>
             (case lq_totp_code rq of
                Some code \<Rightarrow> fst (consume_totp E (ac_id a) code now (snd (check_ip ip now s)))
              | None \<Rightarrow> (case lq_recovery_code rq of
                  Some code \<Rightarrow> fst (consume_recovery_code E (ac_id a) code now (snd (check_ip ip now s)))
                | None \<Rightarrow> False)))
        \<and> accounts s' = update_where (\<lambda>b. ac_id b = ac_id a)
             (\<lambda>b. b\<lparr>ac_failed_attempts := 0, ac_lockout_until := None\<rparr>) (accounts s)
        \<and> (\<exists>kept r. sessions s' = kept @ [r] \<and> set kept \<subseteq> set (sessions s) \<and> se_account_id r = ac_id a
             \<and> se_access_hash r = e_sha256 E (as_bytes (lp_access_token rep)) \<and> se_revoked_at r = None))"
proof -
  obtain s1 a s2 where l: "check_ip ip now s = (None, s1)"
    "account_by_email s1 (normalize_email (e_lower E) (lq_email rq)) = Some a" "locked_for (Some a) now = None"
    "e_verify_password E (decode_or_default E (lq_auth_credential rq)) (ac_server_auth_hash a)"
    "ac_email_verified_at a \<noteq> None" "second_factor E (ac_id a) rq now s1 = (Some True, s2)"
    "open_login E fam d a rq now s2 = (rep, s')"
    by (rule login_Inr[OF assms])
  have eq1: "accounts s1 = accounts s" "totps s1 = totps s" "sessions s1 = sessions s"
    using check_ip_sel[OF l(1)] by simp_all
  have a: "account_by_email s (normalize_email (e_lower E) (lq_email rq)) = Some a"
    using l(2) by (simp add: account_by_email_def eq1)
  have lock: "case ac_lockout_until a of None \<Rightarrow> True | Some until \<Rightarrow> until \<le> now"
    using l(3) by (auto simp: locked_for_def split: option.splits if_splits)
  have act: "is_totp_active s1 i = is_totp_active s i" for i
    by (simp add: is_totp_active_def active_totp_def eq1)
  have sf: "is_totp_active s (ac_id a) \<longrightarrow>
             (case lq_totp_code rq of
                Some code \<Rightarrow> fst (consume_totp E (ac_id a) code now s1)
              | None \<Rightarrow> (case lq_recovery_code rq of
                  Some code \<Rightarrow> fst (consume_recovery_code E (ac_id a) code now s1)
                | None \<Rightarrow> False))"
    using l(6) by (auto simp: second_factor_def act split: option.splits prod.splits if_splits)
  have acc2: "accounts s2 = accounts s1"
    using l(6) by (auto simp: second_factor_def consume_totp_def consume_recovery_code_def Let_def
        split: option.splits prod.splits if_splits)
  have sess2: "sessions s2 = sessions s1"
    using second_factor_sessions[of E "ac_id a" rq now s1] l(6) by simp
  have acc': "accounts s' = update_where (\<lambda>b. ac_id b = ac_id a)
             (\<lambda>b. b\<lparr>ac_failed_attempts := 0, ac_lockout_until := None\<rparr>) (accounts s2)"
    and tok: "access_hash_of E d = e_sha256 E (as_bytes (lp_access_token rep))"
    using l(7) by (auto simp: open_login_def create_session_def insert_session_row_def notify_new_sign_in_def
        send_mail_def new_token_def access_hash_of_def Let_def split: prod.splits if_splits)
  have "\<exists>kept r. sessions s' = kept @ [r] \<and> set kept \<subseteq> set (sessions s) \<and> se_account_id r = ac_id a
             \<and> se_access_hash r = e_sha256 E (as_bytes (lp_access_token rep)) \<and> se_revoked_at r = None"
    using open_login_sessions[of E fam d a rq now s2] l(7) tok sess2 eq1(3)
    by (force simp: delete_where_def)
  moreover have "accounts s' = update_where (\<lambda>b. ac_id b = ac_id a)
             (\<lambda>b. b\<lparr>ac_failed_attempts := 0, ac_lockout_until := None\<rparr>) (accounts s)"
    by (simp add: acc' acc2 eq1)
  ultimately show ?thesis using a l(4,5) lock sf unfolding l(1) fst_conv snd_conv by blast
qed

definition toy_login :: login_request where
  "toy_login = \<lparr>lq_email = lit ''a@b.c'', lq_auth_credential = replicate 32 7, lq_totp_code = None,
     lq_recovery_code = None, lq_device_name = None\<rparr>"

lemma toy_credential: "e_verify_password toy_env (replicate 32 7) (map unat (frame (replicate 32 7) @ [1]))"
  by (simp add: toy_env_def take_map)

lemma toy_email: "normalize_email (e_lower toy_env) (lit ''a@b.c'') = lit ''a@b.c''"
  by (simp add: normalize_email_def trim_def trim_start_def trim_end_def lit_def is_whitespace_def
      to_lowercase_def to_ascii_lowercase_def is_ascii_upper_def)

lemma toy_login_ok: "\<exists>rep s'. login toy_env 7 5 [3] toy_draws toy_login toy_srv = (Inr rep, s')"
proof -
  have c: "check_ip 7 5 toy_srv = (None, toy_srv)"
    by (simp add: check_ip_def ip_check_def toy_srv_def)
  have a: "account_by_email toy_srv (lit ''a@b.c'') = Some (toy_account 1 (lit ''a@b.c''))"
    by (simp add: account_by_email_def toy_srv_def toy_account_def)
  have d: "decode_or_default toy_env (replicate 32 7) = replicate 32 7"
    by (simp add: decode_or_default_def toy_env_def)
  have t: "\<not> is_totp_active toy_srv i" for i
    by (simp add: is_totp_active_def active_totp_def toy_srv_def)
  let ?a = "toy_account 1 (lit ''a@b.c'')"
  have sel: "lq_email toy_login = lit ''a@b.c''" "lq_auth_credential toy_login = replicate 32 7"
    by (simp_all only: toy_login_def login_request.select_convs)
  have v: "e_verify_password toy_env (decode_or_default toy_env (lq_auth_credential toy_login)) (ac_server_auth_hash ?a)"
    unfolding sel d by (simp only: toy_account_def account_row.select_convs toy_credential)
  have l: "locked_for (Some ?a) 5 = None" "ac_email_verified_at ?a \<noteq> None"
    by (simp_all add: locked_for_def toy_account_def)
  have "login toy_env 7 5 [3] toy_draws toy_login toy_srv
      = (let (rep, s'') = open_login toy_env [3] toy_draws ?a toy_login 5 toy_srv in (Inr rep, s''))"
    unfolding login_def c prod.case option.case Let_def sel(1) toy_email a using v l
    by (simp add: second_factor_def t del: not_None_eq)
  then show ?thesis by (simp split: prod.split)
qed

theorem login_gate_witness:
  "\<exists>rep s' r kept. login toy_env 7 5 [3] toy_draws toy_login toy_srv = (Inr rep, s')
     \<and> sessions s' = kept @ [r] \<and> se_access_hash r = as_bytes (lp_access_token rep)"
proof -
  obtain rep s' where l: "login toy_env 7 5 [3] toy_draws toy_login toy_srv = (Inr rep, s')"
    using toy_login_ok by blast
  have "e_sha256 toy_env m = m" for m by (simp add: toy_env_def)
  with login_gate[OF l] l show ?thesis by auto
qed



end
