(* ===== verification/Server_Accounts_Spec.thy ===== *)
theory Server_Accounts_Spec
  imports Server_Recovery_Spec Server_Sessions_Spec
begin

text \<open>
  What the account routes promise: their answers do not tell whether an address has an account,
  and the way from registration over the mailed link to the first login works.
\<close>

section \<open>Frames\<close>

lemma send_verification_email_sel [simp]:
  "accounts (send_verification_email E cfg now draw i email s) = accounts s"
  "sessions (send_verification_email E cfg now draw i email s) = sessions s"
  "totps (send_verification_email E cfg now draw i email s) = totps s"
  "recovery_codes (send_verification_email E cfg now draw i email s) = recovery_codes s"
  "vault_items (send_verification_email E cfg now draw i email s) = vault_items s"
  "recovery_requests (send_verification_email E cfg now draw i email s) = recovery_requests s"
  "ip_failures (send_verification_email E cfg now draw i email s) = ip_failures s"
  "dummy_hash (send_verification_email E cfg now draw i email s) = dummy_hash s"
  "outbox (send_verification_email E cfg now draw i email s) = outbox s @
     [(email, Mail_Verify (cfg_base_url cfg @ lit ''/api/v1/accounts/verify?token='' @ fst (new_token E draw (lit ''bvet_''))))]"
  "email_tokens (send_verification_email E cfg now draw i email s) = email_tokens s @
     [\<lparr>et_id = next_id et_id (email_tokens s), et_account_id = i, et_purpose = Verify_Email,
       et_token_hash = e_sha256 E (as_bytes (fst (new_token E draw (lit ''bvet_'')))),
       et_expires_at = now + VERIFY_TOKEN_TTL_SECS, et_used_at = None\<rparr>]"
  by (simp_all add: send_verification_email_def send_mail_def new_token_def Let_def)

section \<open>Properties\<close>

text \<open>Claim C34.  No enumeration: what registering, asking for a new link and starting a recovery answer does
  not depend on the database at all (for recovery, beyond the failure counter of the caller's own
  address): it is the same whether or not the address has an account.\<close>

theorem anti_enumeration:
  "fst (register E cfg now h d rq s) = fst (register E cfg now h d rq s')
   \<and> fst (resend_verification E cfg now d email s) = fst (resend_verification E cfg now d email s')
   \<and> (ip_failures s = ip_failures s' \<longrightarrow>
        fst (start_recovery E cfg ip now rd email s) = fst (start_recovery E cfg ip now rd email s'))"
proof (intro conjI impI)
  show "fst (register E cfg now h d rq s) = fst (register E cfg now h d rq s')"
    by (simp add: register_def Let_def split: sum.split prod.split)
  show "fst (resend_verification E cfg now d email s) = fst (resend_verification E cfg now d email s')"
    by (simp add: resend_verification_def)
  assume "ip_failures s = ip_failures s'"
  then have "fst (check_ip ip now s) = fst (check_ip ip now s')" by (simp add: check_ip_def split: prod.split)
  moreover have "fst (start_recovery E cfg ip now rd email t) =
      (case fst (check_ip ip now t) of None \<Rightarrow> Inr () | Some retry \<Rightarrow> Inl (RateLimited retry))" for t
    by (simp add: start_recovery_def Let_def split: prod.split option.split)
  ultimately show "fst (start_recovery E cfg ip now rd email s) = fst (start_recovery E cfg ip now rd email s')" by simp
qed

theorem anti_enumeration_witness:
  "account_by_email toy_srv (lit ''a@b.c'') \<noteq> None \<and> account_by_email (toy_srv\<lparr>accounts := []\<rparr>) (lit ''a@b.c'') = None
   \<and> fst (start_recovery toy_env toy_cfg 7 5 toy_rdraws (lit ''a@b.c'') toy_srv)
     = fst (start_recovery toy_env toy_cfg 7 5 toy_rdraws (lit ''a@b.c'') (toy_srv\<lparr>accounts := []\<rparr>))"
  using anti_enumeration[where E = toy_env and cfg = toy_cfg and ip = 7 and now = 5 and rd = toy_rdraws and s = toy_srv
      and s' = "toy_srv\<lparr>accounts := []\<rparr>" and email = "lit ''a@b.c''"]
  by (simp add: account_by_email_def toy_account_def) (simp add: toy_srv_def toy_account_def)

text \<open>The login of an account without lockout or second factor, given its right password, turns on the
  verification of its address alone; and the live link of a fresh account verifies it and nobody else.\<close>

lemma login_right_password:
  assumes "check_ip ip now s = (None, x)"
    and "account_by_email s (normalize_email (e_lower E) (lq_email rq)) = Some a" and "ac_lockout_until a = None"
    and "e_verify_password E (decode_or_default E (lq_auth_credential rq)) (ac_server_auth_hash a)"
  shows "ac_email_verified_at a = None \<Longrightarrow> fst (login E ip now fam d rq s) = Inl EmailNotVerified"
    and "ac_email_verified_at a = Some t \<Longrightarrow> \<not> is_totp_active s (ac_id a)
      \<Longrightarrow> fst (login E ip now fam d rq s) = Inr (fst (open_login E fam d a rq now x))"
proof -
  have acc: "account_by_email x (normalize_email (e_lower E) (lq_email rq)) = Some a"
    using assms(2) check_ip_sel(1)[OF assms(1)] by (simp add: account_by_email_def)
  show "fst (login E ip now fam d rq s) = Inl EmailNotVerified" if "ac_email_verified_at a = None"
    using acc that assms(3,4) by (simp add: login_def assms(1) locked_for_def)
  show "fst (login E ip now fam d rq s) = Inr (fst (open_login E fam d a rq now x))"
    if "ac_email_verified_at a = Some t" "\<not> is_totp_active s (ac_id a)"
  proof -
    have "\<not> is_totp_active x (ac_id a)"
      using that(2) check_ip_sel(4)[OF assms(1)] by (simp add: is_totp_active_def active_totp_def)
    then show ?thesis using acc that(1) assms(3,4)
      by (simp add: login_def assms(1) locked_for_def second_factor_def split: prod.split)
  qed
qed

lemma verify_new_account:
  assumes "List.find (token_live t (e_sha256 E (as_bytes token)) Verify_Email) (email_tokens s) = Some tok"
    and "accounts s = as @ [a]" and "et_account_id tok = ac_id a" and "ac_email_verified_at a = None"
    and "\<forall>b \<in> set as. ac_id b \<noteq> ac_id a"
  shows "fst (verify_address E t token s) = Inr ()"
    and "accounts (snd (verify_address E t token s)) = as @ [a\<lparr>ac_email_verified_at := Some t\<rparr>]"
    and "totps (snd (verify_address E t token s)) = totps s"
    and "ip_failures (snd (verify_address E t token s)) = ip_failures s"
proof -
  have "update_where (\<lambda>b. ac_id b = ac_id a \<and> ac_email_verified_at b = None) f as = as" for f
    by (rule update_where_none) (use assms(5) in blast)
  then show "accounts (snd (verify_address E t token s)) = as @ [a\<lparr>ac_email_verified_at := Some t\<rparr>]"
    by (simp add: verify_address_def assms(1-4))
qed (simp_all add: verify_address_def assms(1))

text \<open>Claim C33.  From registration to the first login: registering a new address mails it a link; until it is
  opened the right password is answered with "not verified", opening it within fifteen minutes is
  accepted, and after that the registered credential opens a session and returns the parameters, the
  salt and the wrapped key that were registered.\<close>

theorem register_verify_login:
  assumes "phc_ok E" and "register_fields E cfg rq = Inr (email, cred, verifier, salt)"
    and "account_by_email s email = None"
    and "\<forall>t \<in> set (email_tokens s). et_token_hash t \<noteq> e_sha256 E (as_bytes token)"
    and "\<forall>r \<in> set (totps s). \<exists>a \<in> set (accounts s). ac_id a = to_account_id r"
    and "token = fst (new_token E draw (lit ''bvet_''))"
    and "s1 = snd (register E cfg now phc_salt draw rq s)" and "t1 < now + 900"
    and "s2 = snd (verify_address E t1 token s1)"
    and "normalize_email (e_lower E) (lq_email lq) = email" and "decode_or_default E (lq_auth_credential lq) = cred"
    and "fst (check_ip ip t2 s1) = None"
  shows "fst (register E cfg now phc_salt draw rq s) = Inr ()
    \<and> (email, Mail_Verify (cfg_base_url cfg @ lit ''/api/v1/accounts/verify?token='' @ token)) \<in> set (outbox s1)
    \<and> fst (login E ip t2 fam d lq s1) = Inl EmailNotVerified
    \<and> fst (verify_address E t1 token s1) = Inr ()
    \<and> (\<exists>rep. fst (login E ip t2 fam d lq s2) = Inr rep
         \<and> lp_kdf_params rep = parse_json E (e_kdf_to_json E (gq_kdf_params rq))
         \<and> lp_kdf_salt rep = encode_salt E salt \<and> lp_master_wrapped rep = parse_json E (gq_master_wrapped rq))"
proof -
  let ?i = "next_id ac_id (accounts s)"
  let ?a = "account_of_register E phc_salt now rq email cred verifier salt ?i"
  have reg: "register E cfg now phc_salt draw rq s
      = (Inr (), send_verification_email E cfg now draw ?i email (s\<lparr>accounts := accounts s @ [?a]\<rparr>))"
    using assms(2,3) by (simp add: register_def Let_def)
  then have s1: "s1 = send_verification_email E cfg now draw ?i email (s\<lparr>accounts := accounts s @ [?a]\<rparr>)"
    by (simp add: assms(7))
  have a_sel: "ac_id ?a = ?i" "ac_email ?a = email" "ac_email_verified_at ?a = None" "ac_lockout_until ?a = None"
    "ac_server_auth_hash ?a = e_hash_password E phc_salt cred" "ac_kdf_params ?a = e_kdf_to_json E (gq_kdf_params rq)"
    "ac_kdf_salt ?a = salt" "ac_master_wrapped ?a = gq_master_wrapped rq"
    by (simp_all add: account_of_register_def)
  have fresh: "ac_id b < ?i" if "b \<in> set (accounts s)" for b using next_id_fresh[OF that] .
  have none: "List.find (\<lambda>a. ac_email a = email) (accounts s) = None"
    using assms(3) by (simp add: account_by_email_def)
  let ?tok = "\<lparr>et_id = next_id et_id (email_tokens s), et_account_id = ?i, et_purpose = Verify_Email,
       et_token_hash = e_sha256 E (as_bytes token), et_expires_at = now + VERIFY_TOKEN_TTL_SECS, et_used_at = None\<rparr>"
  have "List.find (token_live t1 (e_sha256 E (as_bytes token)) Verify_Email) (email_tokens s) = None"
    using assms(4) by (auto simp: find_None_iff token_live_def)
  then have find_tok: "List.find (token_live t1 (e_sha256 E (as_bytes token)) Verify_Email) (email_tokens s1) = Some ?tok"
    using assms(8) by (simp add: s1 find_append assms(6) token_live_def VERIFY_TOKEN_TTL_SECS_def)
  let ?v = "?a\<lparr>ac_email_verified_at := Some t1\<rparr>"
  have acc1: "accounts s1 = accounts s @ [?a]" "totps s1 = totps s" by (simp_all add: s1)
  have ids: "\<forall>b \<in> set (accounts s). ac_id b \<noteq> ac_id ?a" using fresh by (fastforce simp: a_sel)
  note ver = verify_new_account[OF find_tok acc1(1) _ a_sel(3) ids, folded assms(9), simplified a_sel, simplified]
  have acc_by: "account_by_email s1 email = Some ?a" "account_by_email s2 email = Some ?v"
    using none by (simp_all add: account_by_email_def acc1 ver(2) find_append a_sel)
  have no_totp: "\<not> is_totp_active s2 ?i"
    using assms(5) fresh by (fastforce simp: ver(3) acc1 is_totp_active_def active_totp_def find_None_iff)
  have pw: "e_verify_password E cred (e_hash_password E phc_salt cred)" using assms(1) by (simp add: phc_ok_def)
  obtain x1 where x1: "check_ip ip t2 s1 = (None, x1)" using assms(12) by (cases "check_ip ip t2 s1") auto
  obtain x2 where x2: "check_ip ip t2 s2 = (None, x2)"
    using assms(12) ver(4) by (cases "check_ip ip t2 s2") (auto simp: check_ip_def split: prod.splits)
  have "fst (login E ip t2 fam d lq s1) = Inl EmailNotVerified"
    by (rule login_right_password(1)[OF x1, where a = ?a]) (simp_all add: assms(10,11) acc_by a_sel pw)
  moreover have "fst (login E ip t2 fam d lq s2) = Inr (fst (open_login E fam d ?v lq t2 x2))"
    by (rule login_right_password(2)[OF x2, where a = ?v and t = t1, simplified a_sel]) (simp_all add: assms(10,11) acc_by a_sel pw no_totp)
  moreover have "(email, Mail_Verify (cfg_base_url cfg @ lit ''/api/v1/accounts/verify?token='' @ token)) \<in> set (outbox s1)"
    by (simp add: s1 assms(6))
  ultimately show ?thesis using reg ver(1) by (simp add: open_login_def Let_def a_sel split: prod.split)
qed

definition toy_register :: register_request where
  "toy_register = \<lparr>gq_email = lit ''x@y.z'', gq_auth_credential = replicate 32 5, gq_kdf_params = kdf_desktop,
     gq_kdf_salt = replicate 16 3, gq_recovery_verifier = replicate 32 4, gq_master_wrapped = [1], gq_recovery_wrapped = [2]\<rparr>"

theorem register_verify_login_witness:
  "\<exists>rep. fst (login toy_env 7 1200 [3] toy_draws (toy_login\<lparr>lq_email := lit ''x@y.z'', lq_auth_credential := replicate 32 5\<rparr>)
     (snd (verify_address toy_env 1100 (fst (new_token toy_env [8] (lit ''bvet_'')))
       (snd (register toy_env toy_cfg 1000 [1] [8] toy_register toy_srv))))) = Inr rep
     \<and> lp_master_wrapped rep = Some [1]"
proof -
  have mail: "normalize_email (e_lower toy_env) (lit ''x@y.z'') = lit ''x@y.z''"
    by (simp add: normalize_email_def trim_def trim_start_def trim_end_def lit_def is_whitespace_def
      to_lowercase_def to_ascii_lowercase_def is_ascii_upper_def)
  have ve: "validate_email (lit ''x@y.z'') = Inr ()"
    by (simp add: validate_email_def lit_def str_len_def as_bytes_def utf8_char_def)
  have f: "register_fields toy_env toy_cfg toy_register = Inr (lit ''x@y.z'', replicate 32 5, replicate 32 4, replicate 16 3)"
    by (simp add: register_fields_def toy_register_def toy_cfg_def mail ve decode_credential_def decode_salt_def
        toy_decode validate_kdf_def toy_kdf)
  have none: "account_by_email toy_srv (lit ''x@y.z'') = None"
    by (simp add: account_by_email_def toy_srv_def toy_account_def lit_def)
  let ?lq = "toy_login\<lparr>lq_email := lit ''x@y.z'', lq_auth_credential := replicate 32 5\<rparr>"
  have "ip_failures (snd (register toy_env toy_cfg 1000 [1] [8] toy_register toy_srv)) = []"
    using none by (simp add: register_def f Let_def) (simp add: toy_srv_def)
  then have ip: "fst (check_ip 7 1200 (snd (register toy_env toy_cfg 1000 [1] [8] toy_register toy_srv))) = None"
    by (simp add: check_ip_def ip_check_def)
  have lq: "normalize_email (e_lower toy_env) (lq_email ?lq) = lit ''x@y.z''"
    "decode_or_default toy_env (lq_auth_credential ?lq) = replicate 32 5"
    by (simp add: mail) (simp add: decode_or_default_def toy_env_def)
  have "\<exists>rep. fst (login toy_env 7 1200 [3] toy_draws ?lq
     (snd (verify_address toy_env 1100 (fst (new_token toy_env [8] (lit ''bvet_'')))
       (snd (register toy_env toy_cfg 1000 [1] [8] toy_register toy_srv))))) = Inr rep
       \<and> lp_kdf_params rep = parse_json toy_env (e_kdf_to_json toy_env (gq_kdf_params toy_register))
       \<and> lp_kdf_salt rep = encode_salt toy_env (replicate 16 3)
       \<and> lp_master_wrapped rep = parse_json toy_env (gq_master_wrapped toy_register)"
    using register_verify_login[OF toy_phc f none _ _ refl refl _ refl lq ip, where ?t1.0 = 1100 and fam = "[3]" and d = toy_draws] by (simp add: toy_srv_def)
  moreover have "parse_json toy_env (gq_master_wrapped toy_register) = Some [1]"
    by (simp add: parse_json_def toy_register_def toy_env_def)
  ultimately show ?thesis by auto
qed

end
