(* ===== verification/Server_Writes.thy ===== *)
theory Server_Writes
  imports Server_Accounts_Spec Server_Items_Spec
begin

text \<open>
  Every request of every route as one type, and the handlers as sequences of writes: a locale
  states what a relation between states must allow, its lemmas lift the relation to the handlers,
  and three interpretations give what each group of handlers leaves alone.
\<close>

section \<open>Requests\<close>

datatype item_req =
    Iq_List secs auth_session int
  | Iq_Put secs auth_session "text" "text"
  | Iq_Delete secs auth_session "text" int
  | Iq_Checkpoint auth_session int "text"

datatype account_req =
    Aq_Register secs bytes bytes register_request
  | Aq_Resend secs bytes "text"
  | Aq_Verify secs "text"
  | Aq_Set_Backup ip_addr secs bytes auth_session "text" "text option" "text"
  | Aq_Verify_Backup secs "text"
  | Aq_Remove_Backup ip_addr secs auth_session "text" "text option"
  | Aq_Password ip_addr secs bytes auth_session change_password_request

datatype server_req =
    Sq_Session session_req
  | Sq_Mfa mfa_req
  | Sq_Recovery recovery_req
  | Sq_Item item_req
  | Sq_Account account_req

fun run_item :: "env \<Rightarrow> item_req \<Rightarrow> srv \<Rightarrow> srv" where
  "run_item E (Iq_List now au since) s = snd (list_items E now au since s)"
| "run_item E (Iq_Put now au i body) s = snd (put_item E now au i body s)"
| "run_item E (Iq_Delete now au i base) s = snd (delete_item E now au i base s)"
| "run_item E (Iq_Checkpoint au seq tag) s = snd (put_checkpoint E au seq tag s)"

fun run_account :: "env \<Rightarrow> config \<Rightarrow> account_req \<Rightarrow> srv \<Rightarrow> srv" where
  "run_account E cfg (Aq_Register now salt d rq) s = snd (register E cfg now salt d rq s)"
| "run_account E cfg (Aq_Resend now d email) s = snd (resend_verification E cfg now d email s)"
| "run_account E cfg (Aq_Verify now token) s = snd (verify_address E now token s)"
| "run_account E cfg (Aq_Set_Backup ip now d au cred code backup) s = snd (set_backup_email E cfg ip now d au cred code backup s)"
| "run_account E cfg (Aq_Verify_Backup now token) s = snd (verify_backup_email E now token s)"
| "run_account E cfg (Aq_Remove_Backup ip now au cred code) s = snd (remove_backup_email E ip now au cred code s)"
| "run_account E cfg (Aq_Password ip now salt au rq) s = snd (change_password E ip now salt au rq s)"

fun run_server :: "env \<Rightarrow> config \<Rightarrow> server_req \<Rightarrow> srv \<Rightarrow> srv" where
  "run_server E cfg (Sq_Session rq) s = run_session E rq s"
| "run_server E cfg (Sq_Mfa rq) s = run_mfa E rq s"
| "run_server E cfg (Sq_Recovery rq) s = run_recovery E cfg rq s"
| "run_server E cfg (Sq_Item rq) s = run_item E rq s"
| "run_server E cfg (Sq_Account rq) s = run_account E cfg rq s"

section \<open>What requests outside the item routes do to accounts, items and the outbox\<close>

definition keeps :: "(account_row \<Rightarrow> account_row) \<Rightarrow> bool" where
  "keeps f \<longleftrightarrow> (\<forall>a. ac_id (f a) = ac_id a \<and> ac_email (f a) = ac_email a
     \<and> ac_sync_seq (f a) = ac_sync_seq a \<and> ac_purged_before_seq (f a) = ac_purged_before_seq a)"

definition grows :: "srv \<Rightarrow> srv \<Rightarrow> bool" where
  "grows s s' \<longleftrightarrow> (\<exists>f. keeps f \<and> accounts s' = map f (accounts s))
     \<and> (\<exists>p. vault_items s' = filter p (vault_items s)) \<and> (\<exists>ms. outbox s' = outbox s @ ms)"

lemma grows_same: "accounts s' = accounts s \<Longrightarrow> vault_items s' = vault_items s \<Longrightarrow> outbox s' = outbox s \<Longrightarrow> grows s s'"
  unfolding grows_def
  by (intro conjI exI[of _ "\<lambda>a. a"] exI[of _ "\<lambda>_. True"] exI[of _ "[]"]) (simp_all add: keeps_def)

lemma grows_trans:
  assumes "grows s t" and "grows t u"
  shows "grows s u"
proof -
  obtain f g where "keeps f" "accounts t = map f (accounts s)" "keeps g" "accounts u = map g (accounts t)"
    using assms by (auto simp: grows_def)
  then have "keeps (g \<circ> f)" "accounts u = map (g \<circ> f) (accounts s)" by (simp_all add: keeps_def)
  moreover obtain p q where "vault_items t = filter p (vault_items s)" "vault_items u = filter q (vault_items t)"
    using assms by (auto simp: grows_def)
  then have "vault_items u = filter (\<lambda>x. p x \<and> q x) (vault_items s)" by simp
  moreover have "\<exists>ms. outbox u = outbox s @ ms" using assms by (auto simp: grows_def)
  ultimately show ?thesis unfolding grows_def by blast
qed

lemma grows_refl [simp]: "grows s s"
  by (rule grows_same) simp_all

text \<open>Tables that do not count.\<close>

lemma grows_other [simp]:
  "grows s (t\<lparr>sessions := a\<rparr>) \<longleftrightarrow> grows s t" "grows s (t\<lparr>totps := b\<rparr>) \<longleftrightarrow> grows s t"
  "grows s (t\<lparr>recovery_codes := c\<rparr>) \<longleftrightarrow> grows s t" "grows s (t\<lparr>email_tokens := d\<rparr>) \<longleftrightarrow> grows s t"
  "grows s (t\<lparr>recovery_requests := e\<rparr>) \<longleftrightarrow> grows s t" "grows s (t\<lparr>ip_failures := g\<rparr>) \<longleftrightarrow> grows s t"
  "grows s (record_failure ip now t) \<longleftrightarrow> grows s t"
  by (simp_all add: grows_def)

lemma grows_send_mail: "grows s t \<Longrightarrow> grows s (send_mail to b t)"
  by (auto simp: grows_def)

lemma grows_notify: "grows s t \<Longrightarrow> grows s (notify_owner e b bk t)"
  by (auto simp: notify_owner_def Let_def grows_send_mail split: option.split)

lemma grows_accounts:
  assumes "grows s t" and "keeps f"
  shows "grows s (t\<lparr>accounts := update_where p f (accounts t)\<rparr>)"
proof (rule grows_trans[OF assms(1)])
  have "accounts (t\<lparr>accounts := update_where p f (accounts t)\<rparr>) = map (\<lambda>a. if p a then f a else a) (accounts t)"
    by (simp add: update_where_def)
  moreover have "keeps (\<lambda>a. if p a then f a else a)" using assms(2) by (simp add: keeps_def)
  ultimately show "grows t (t\<lparr>accounts := update_where p f (accounts t)\<rparr>)" unfolding grows_def
    by (intro conjI exI[of _ "\<lambda>_. True"] exI[of _ "[]"]) auto
qed

lemma grows_update_account: "grows s t \<Longrightarrow> keeps f \<Longrightarrow> grows s (update_account i f t)"
  unfolding update_account_def by (rule grows_accounts)

lemma grows_items: "grows s t \<Longrightarrow> grows s (t\<lparr>vault_items := delete_where p (vault_items t)\<rparr>)"
  by (rule grows_trans) (auto simp: grows_def delete_where_def keeps_def intro: exI[of _ "\<lambda>a. a"])

lemma grows_check_ip: "check_ip ip now s = (r, t) \<Longrightarrow> grows s t"
  using check_ip_sel[of ip now s r t] by (intro grows_same)

lemmas grows_intros = grows_send_mail grows_notify grows_update_account grows_accounts grows_items

lemma keeps_intros [simp]:
  "keeps (recover_account E h rq c v n)" "keeps (rekey_account E h rq' c v)"
  "keeps (\<lambda>a. a\<lparr>ac_email_verified_at := x\<rparr>)"
  "keeps (\<lambda>a. a\<lparr>ac_failed_attempts := k, ac_lockout_until := l\<rparr>)"
  "keeps (\<lambda>a. a\<lparr>ac_backup_email := y, ac_backup_verified_at := z\<rparr>)" "keeps (\<lambda>a. a\<lparr>ac_backup_verified_at := z\<rparr>)"
  by (simp_all add: keeps_def)

section \<open>Handlers as sequences of writes\<close>

text \<open>
  A relation between states that is kept by the single writes the handlers are made of is kept by
  the handlers.  The first interface has the writes of the MFA and account routes, the second adds
  those to the sessions table.
\<close>

locale table_writes =
  fixes R :: "srv \<Rightarrow> srv \<Rightarrow> bool"
  assumes R_refl [simp]: "R s s"
    and R_trans: "R s t \<Longrightarrow> R t u \<Longrightarrow> R s u"
    and R_totps: "(totp_keys s \<Longrightarrow> distinct (map to_account_id x)) \<Longrightarrow> R s (s\<lparr>totps := x\<rparr>)"
    and R_codes: "R s (s\<lparr>recovery_codes := c\<rparr>)"
    and R_tokens: "R s (s\<lparr>email_tokens := e\<rparr>)"
    and R_ip: "R s (s\<lparr>ip_failures := g\<rparr>)"
    and R_mail: "R s (send_mail to b s)"
    and R_accounts: "keeps f \<Longrightarrow> R s (s\<lparr>accounts := update_where p f (accounts s)\<rparr>)"
begin

lemmas writes = R_trans[OF _ R_codes] R_trans[OF _ R_tokens] R_trans[OF _ R_ip] R_trans[OF _ R_mail]
  R_trans[OF _ R_accounts]

lemma R_record: "R s t \<Longrightarrow> R s (record_failure ip now t)"
  by (simp add: record_failure_def writes)

lemma R_update_account: "R s t \<Longrightarrow> keeps f \<Longrightarrow> R s (update_account i f t)"
  by (simp add: update_account_def writes)

lemma R_notify: "R s t \<Longrightarrow> R s (notify_owner e b bk t)"
  by (auto simp: notify_owner_def Let_def intro!: writes split: option.split)

lemma R_check_ip: "check_ip ip now s = (r, t) \<Longrightarrow> R s t"
  by (auto simp: check_ip_def intro: R_ip split: prod.splits)

lemma R_totps_keys: "map to_account_id x = map to_account_id (totps s) \<Longrightarrow> R s (s\<lparr>totps := x\<rparr>)"
  by (rule R_totps) (simp add: totp_keys_def)

lemma R_consume:
  "R s (snd (consume_totp E a code now s))" "R s (snd (consume_recovery_code E a code now s))"
  by (auto simp: consume_totp_def consume_recovery_code_def Let_def update_keys
      intro!: R_totps_keys writes split: option.split)

lemma R_fail: "R s t \<Longrightarrow> R s (snd (fail ip a now t))"
  by (auto simp: fail_def Let_def intro!: R_record R_update_account writes split: option.split)

lemma R_second_factor: "R s t \<Longrightarrow> R s (snd (second_factor E acc rq now t))"
  by (auto simp: second_factor_def case_prod_beta intro: R_trans[OF _ R_consume(1)] R_trans[OF _ R_consume(2)]
      split: option.split)

lemma R_confirm_both: "R s (snd (confirm_both E ip now au cred code s))"
  using R_consume(1)[of s E _ code now]
  by (auto simp: confirm_both_def and_then_def load_account_def confirm_credential_def Let_def case_prod_beta
      intro!: R_record split: option.split bool.split sum.split)

lemma R_issue: "R s t \<Longrightarrow> R s (snd (issue_recovery_codes E draws acc t))"
  by (rule issue_recovery_codes_rows[of E draws acc t]) (simp add: writes)

lemma R_mfa: "R s (run_mfa E rq s)"
proof (cases rq)
  case (Mq_Enroll ip now draw au cred)
  then show ?thesis
    by (auto simp: totp_enroll_def and_then_def load_account_def confirm_credential_def Let_def
        totp_keys_def distinct_upsert_key intro!: R_record R_totps split: option.split sum.split)
next
  case (Mq_Activate ip now draws au code)
  then show ?thesis
    by (auto simp: totp_activate_def Let_def case_prod_beta update_keys intro!: R_record R_issue R_totps_keys
        split: option.split)
next
  case (Mq_Disable ip now au cred code)
  obtain res s1 where c: "confirm_both E ip now au cred code s = (res, s1)" by fastforce
  have "R s s1" using R_confirm_both[of s E ip now au cred code] c by simp
  moreover have "R s1 (s1\<lparr>totps := delete_where p (totps s1), recovery_codes := k\<rparr>)" for p k
    by (rule R_trans[OF _ R_codes]) (rule R_totps, simp add: totp_keys_def distinct_delete)
  ultimately show ?thesis using c Mq_Disable
    by (auto simp: totp_disable_def and_then_def intro: R_trans split: sum.split)
next
  case (Mq_Regenerate ip now draws au cred code)
  obtain res s1 where c: "confirm_both E ip now au cred code s = (res, s1)" by fastforce
  have "R s s1" using R_confirm_both[of s E ip now au cred code] c by simp
  with c Mq_Regenerate show ?thesis
    by (auto simp: regenerate_recovery_codes_def and_then_def case_prod_beta intro!: R_issue split: sum.split)
qed

lemma R_confirmed: "R s (snd (confirmed_account E ip now au cred code s))"
  using confirmed_account_snd[of E ip now au cred code s] by (auto intro: R_record[OF R_refl])

lemma R_after_confirmed:
  assumes "\<And>a t. R s t \<Longrightarrow> R s (snd (k a t))"
  shows "R s (snd (and_then (confirmed_account E ip now au cred code s) k))"
  using R_confirmed[of s E ip now au cred code] assms
  by (cases "confirmed_account E ip now au cred code s") (auto simp: and_then_def split: sum.split)

lemma R_send_verification: "R s t \<Longrightarrow> R s (send_verification_email E cfg now d i email t)"
  by (simp add: send_verification_email_def Let_def case_prod_beta writes)

lemma R_account:
  assumes "\<And>now salt d r. rq \<noteq> Aq_Register now salt d r" and "\<And>ip now salt au r. rq \<noteq> Aq_Password ip now salt au r"
  shows "R s (run_account E cfg rq s)"
proof (cases rq)
  case (Aq_Resend now d email)
  then show ?thesis by (simp add: resend_verification_def R_send_verification split: option.split)
next
  case (Aq_Verify now token)
  have "R s (s\<lparr>email_tokens := t, accounts := update_where p (\<lambda>a. a\<lparr>ac_email_verified_at := Some now\<rparr>) (accounts s)\<rparr>)" for p t
  proof (rule R_trans[OF R_tokens])
    have "R (s\<lparr>email_tokens := t\<rparr>) (s\<lparr>email_tokens := t\<rparr>\<lparr>accounts := update_where p
        (\<lambda>a. a\<lparr>ac_email_verified_at := Some now\<rparr>) (accounts (s\<lparr>email_tokens := t\<rparr>))\<rparr>)"
      by (rule R_accounts) simp
    then show "R (s\<lparr>email_tokens := t\<rparr>) (s\<lparr>email_tokens := t,
        accounts := update_where p (\<lambda>a. a\<lparr>ac_email_verified_at := Some now\<rparr>) (accounts s)\<rparr>)" by simp
  qed
  with Aq_Verify show ?thesis by (simp add: verify_address_def split: option.split)
next
  case (Aq_Set_Backup ip now d au cred code backup)
  then show ?thesis
    by (auto simp: set_backup_email_def Let_def case_prod_beta intro!: R_after_confirmed R_update_account writes)
next
  case (Aq_Verify_Backup now token)
  then show ?thesis by (auto simp: verify_backup_email_def intro!: R_update_account writes split: option.split)
next
  case (Aq_Remove_Backup ip now au cred code)
  then show ?thesis
    by (auto simp: remove_backup_email_def Let_def intro!: R_after_confirmed R_update_account R_notify)
qed (use assms in blast)+

end

locale session_writes = table_writes +
  assumes R_sessions: "R s (s\<lparr>sessions := t\<rparr>)"
begin

lemma R_insert: "R s t \<Longrightarrow> R s (snd (insert_session_row E d acc f dev n c cap t))"
  by (simp add: insert_session_row_def Let_def case_prod_beta R_trans[OF _ R_sessions])

lemma R_open_login: "R s t \<Longrightarrow> R s (snd (open_login E fam d a rq now t))"
  by (auto simp: open_login_def create_session_def notify_new_sign_in_def Let_def case_prod_beta
      intro!: R_insert R_trans[OF _ R_sessions] R_update_account writes)

lemma R_login: "R s (snd (login E ip now fam d rq s))"
proof -
  obtain r s1 where c: "check_ip ip now s = (r, s1)" by fastforce
  note g = R_check_ip[OF c]
  show ?thesis using R_fail[OF g, of ip None now]
    by (auto simp: login_def c Let_def case_prod_beta g
        intro!: R_fail R_open_login R_second_factor split: option.split bool.split)
qed

lemma R_session: "R s (run_session E rq s)"
proof (cases rq)
  case (Rq_Refresh now d token)
  then show ?thesis
    by (auto simp: refresh_def Let_def case_prod_beta intro!: R_insert R_sessions split: option.split)
qed (simp_all add: R_login logout_def revoke_def revoke_others_def Let_def R_sessions)

lemma R_password: "R s (snd (change_password E ip now salt au r s))"
  by (auto simp: change_password_def Let_def
      intro!: R_after_confirmed R_notify R_trans[OF _ R_sessions] R_update_account split: sum.split)

end

section \<open>Sessions, factors and recovery requests\<close>

text \<open>Which other tables each part leaves alone.\<close>

lemma run_item_frame [simp]:
  "sessions (run_item E rq s) = sessions s" "totps (run_item E rq s) = totps s"
  "recovery_requests (run_item E rq s) = recovery_requests s" "outbox (run_item E rq s) = outbox s"
  by (cases rq; simp add: list_items_def put_item_def delete_item_def put_checkpoint_def next_seq_def
      purge_tombstones_def Let_def split: option.split)+

lemma item_emails: "map (\<lambda>a. (ac_id a, ac_email a)) (accounts (run_item E rq s)) = map (\<lambda>a. (ac_id a, ac_email a)) (accounts s)"
proof -
  have upd: "map (\<lambda>a. (ac_id a, ac_email a)) (update_where p f t) = map (\<lambda>a. (ac_id a, ac_email a)) t"
    if "\<And>a. ac_id (f a) = ac_id a" "\<And>a. ac_email (f a) = ac_email a" for p f t
    using that by (simp add: update_where_def)
  show ?thesis
    by (cases rq; simp add: list_items_def put_item_def delete_item_def put_checkpoint_def next_seq_def
        purge_tombstones_def Let_def upd split: option.split)
qed

lemma keeps_if: "keeps f \<Longrightarrow> keeps (\<lambda>a. if p a then f a else a)"
  by (simp add: keeps_def)

interpretation gr: session_writes grows
proof unfold_locales
  show "keeps f \<Longrightarrow> grows s (s\<lparr>accounts := update_where p f (accounts s)\<rparr>)" for s f p
    by (rule grows_accounts[OF grows_refl])
qed (auto intro: grows_trans grows_send_mail)

text \<open>The recovery requests stay, and so does one enrolment per account.\<close>

definition holds_still :: "srv \<Rightarrow> srv \<Rightarrow> bool" where
  "holds_still s s' \<longleftrightarrow> recovery_requests s' = recovery_requests s \<and> (totp_keys s \<longrightarrow> totp_keys s')"

interpretation hs: session_writes holds_still
  by unfold_locales (auto simp: holds_still_def totp_keys_def)

definition same_sessions :: "srv \<Rightarrow> srv \<Rightarrow> bool" where
  "same_sessions s s' \<longleftrightarrow> sessions s' = sessions s"

interpretation ss: table_writes same_sessions
  by unfold_locales (auto simp: same_sessions_def)

end
