(* ===== verification/Server_History.thy ===== *)
theory Server_History
  imports Server_Writes
begin

text \<open>
  The whole server as one state machine: every request of every route, in any order, by anyone,
  over one database.  Its invariant puts the invariants of the parts together, and an account
  that is taken over by recovery has always been told long before.
\<close>

section \<open>Recovery and registration\<close>

lemma run_recovery_totps [simp]: "totps (run_recovery E cfg rq s) = totps s"
proof (cases rq)
  case (Vq_Start ip now d email)
  obtain r s1 where c: "check_ip ip now s = (r, s1)" by fastforce
  then show ?thesis using check_ip_sel(4)[OF c] Vq_Start
    by (auto simp: start_recovery_def Let_def case_prod_beta split: option.split)
next
  case (Vq_Complete ip now salt q)
  obtain r s1 where c: "check_ip ip now s = (r, s1)" by fastforce
  have "totps (snd (recovery_mode E ip now acc q s1)) = totps s1" for acc
    by (simp add: recovery_mode_def Let_def split: option.split sum.split)
  then have m: "recovery_mode E ip now acc q s1 = (x, s2) \<Longrightarrow> totps s2 = totps s1" for acc x s2
    by (metis snd_conv)
  show ?thesis using check_ip_sel(4)[OF c] Vq_Complete
    by (auto simp: complete_recovery_def c and_then_def Let_def dest: m split: option.split sum.split prod.split)
next
  case (Vq_Cancel now token)
  then show ?thesis by (simp add: cancel_recovery_def Let_def)
qed

lemma start_grows: "grows s (snd (start_recovery E cfg ip now d email s))"
proof -
  obtain r s1 where c: "check_ip ip now s = (r, s1)" by fastforce
  from grows_check_ip[OF c] show ?thesis
    by (auto simp: start_recovery_def c Let_def case_prod_beta intro!: gr.R_notify split: option.split)
qed

lemma complete_tx_grows: "keeps f \<Longrightarrow> grows s (complete_tx p now r f s)"
  by (simp add: complete_tx_def Let_def grows_update_account grows_items)

lemma complete_grows: "grows s (snd (complete_recovery E ip now salt rq s))"
proof -
  obtain r s1 where c: "check_ip ip now s = (r, s1)" by fastforce
  note g1 = grows_check_ip[OF c]
  have m: "grows s (snd (recovery_mode E ip now acc rq s1))" for acc
    using g1 by (simp add: recovery_mode_def Let_def split: option.split sum.split)
  have tx: "grows s (complete_tx p now q (recover_account E salt rq cr nv ns) x)" if "grows s x" for p q cr nv ns x
    using that complete_tx_grows by (rule grows_trans) simp
  show ?thesis
  proof (cases "find_active_request E (cq_token rq) now s1")
    case (Some q)
    obtain mo s2 where mo: "recovery_mode E ip now (rr_account_id q) rq s1 = (mo, s2)" by fastforce
    with m[of "rr_account_id q"] have "grows s s2" by simp
    with g1 tx mo Some show ?thesis
      by (cases mo) (auto simp: complete_recovery_def c Let_def intro!: gr.R_notify split: option.split sum.split)
  qed (use g1 in \<open>simp add: complete_recovery_def c split: option.split\<close>)
qed

lemma run_recovery_grows: "grows s (run_recovery E cfg rq s)"
  by (cases rq) (simp_all add: start_grows complete_grows cancel_recovery_def Let_def)

text \<open>Registration appends one account under a fresh id and address, and nothing else but a token and a mail.\<close>

lemma register_cases:
  "(\<exists>to b. snd (register E cfg now salt d rq s) = send_mail to b s) \<or> snd (register E cfg now salt d rq s) = s
   \<or> (\<exists>email a. account_by_email s email = None \<and> ac_id a = next_id ac_id (accounts s) \<and> ac_email a = email
        \<and> ac_sync_seq a = 0 \<and> ac_purged_before_seq a = 0
        \<and> snd (register E cfg now salt d rq s)
          = send_verification_email E cfg now d (ac_id a) email (s\<lparr>accounts := accounts s @ [a]\<rparr>))"
proof (cases "register_fields E cfg rq")
  case (Inr v)
  obtain email cred ver sl where v: "v = (email, cred, ver, sl)" by (cases v) auto
  show ?thesis
  proof (cases "account_by_email s email")
    case None
    let ?a = "account_of_register E salt now rq email cred ver sl (next_id ac_id (accounts s))"
    have "ac_id ?a = next_id ac_id (accounts s) \<and> ac_email ?a = email \<and> ac_sync_seq ?a = 0 \<and> ac_purged_before_seq ?a = 0"
      by (simp add: account_of_register_def)
    then show ?thesis using None by (intro disjI2 exI[of _ email] exI[of _ ?a]) (simp add: register_def Inr v Let_def)
  qed (auto simp: register_def Inr v)
qed (simp add: register_def)

section \<open>The invariant of the server\<close>

definition cancel_link_of :: "config \<Rightarrow> text \<Rightarrow> text" where
  "cancel_link_of cfg token = cfg_base_url cfg @ lit ''/api/v1/accounts/recovery/cancel?token='' @ token"

text \<open>The owner of the account was sent the token of the request together with the link that cancels it.\<close>

definition announced :: "env \<Rightarrow> config \<Rightarrow> srv \<Rightarrow> bool" where
  "announced E cfg s \<longleftrightarrow> (\<forall>r \<in> set (recovery_requests s). \<exists>a \<in> set (accounts s). ac_id a = rr_account_id r
     \<and> (\<exists>hours token link_token. (ac_email a, Mail_Recovery hours token (cancel_link_of cfg link_token)) \<in> set (outbox s)
          \<and> e_sha256 E (as_bytes token) = rr_completion_hash r \<and> e_sha256 E (as_bytes link_token) = rr_cancel_hash r))"

definition server_ok :: "env \<Rightarrow> config \<Rightarrow> srv \<Rightarrow> bool" where
  "server_ok E cfg s \<longleftrightarrow> items_ok E s \<and> distinct (map ac_email (accounts s)) \<and> sessions_ok (sessions s)
     \<and> totp_keys s \<and> requests_ok (cfg_recovery_cooloff_secs cfg) (recovery_requests s) \<and> announced E cfg s"

text \<open>Random draws that repeat nothing stored: the family of a login, the hashes of a new token pair.\<close>

fun fresh_server :: "env \<Rightarrow> server_req \<Rightarrow> srv \<Rightarrow> bool" where
  "fresh_server E (Sq_Session rq) s = fresh_rq E rq s"
| "fresh_server E _ s = True"

fun fresh_server_run :: "env \<Rightarrow> config \<Rightarrow> server_req list \<Rightarrow> srv \<Rightarrow> bool" where
  "fresh_server_run E cfg [] s = True"
| "fresh_server_run E cfg (rq # rqs) s = (fresh_server E rq s \<and> fresh_server_run E cfg rqs (run_server E cfg rq s))"

lemma grows_items_ok:
  assumes "grows s s'" and "items_ok E s"
  shows "items_ok E s'"
proof -
  obtain f where f: "keeps f" "accounts s' = map f (accounts s)" using assms(1) by (auto simp: grows_def)
  obtain p where p: "vault_items s' = filter p (vault_items s)" using assms(1) by (auto simp: grows_def)
  have 1: "items_ok E (s\<lparr>accounts := accounts s'\<rparr>)"
    using f by (intro items_ok_frame[OF assms(2), where f = f]) (auto simp: keeps_def)
  then show ?thesis unfolding items_ok_def p by (auto simp: distinct_map_filter)
qed

lemma grows_emails: "grows s s' \<Longrightarrow> map ac_email (accounts s') = map ac_email (accounts s)"
  by (auto simp: grows_def keeps_def)

lemma grows_announced:
  assumes "grows s s'" and "announced E cfg s"
    and "\<And>r. r \<in> set (recovery_requests s') \<Longrightarrow> \<exists>q \<in> set (recovery_requests s).
      rr_account_id q = rr_account_id r \<and> rr_completion_hash q = rr_completion_hash r \<and> rr_cancel_hash q = rr_cancel_hash r"
  shows "announced E cfg s'"
  unfolding announced_def
proof
  fix r assume "r \<in> set (recovery_requests s')"
  then obtain q where q: "q \<in> set (recovery_requests s)" "rr_account_id q = rr_account_id r"
    "rr_completion_hash q = rr_completion_hash r" "rr_cancel_hash q = rr_cancel_hash r" using assms(3) by blast
  then obtain a h t l where a: "a \<in> set (accounts s)" "ac_id a = rr_account_id r"
    "(ac_email a, Mail_Recovery h t (cancel_link_of cfg l)) \<in> set (outbox s)"
    "e_sha256 E (as_bytes t) = rr_completion_hash r" "e_sha256 E (as_bytes l) = rr_cancel_hash r"
    using assms(2) unfolding announced_def by metis
  obtain f ms where f: "keeps f" "accounts s' = map f (accounts s)" "outbox s' = outbox s @ ms"
    using assms(1) by (auto simp: grows_def)
  show "\<exists>a \<in> set (accounts s'). ac_id a = rr_account_id r
     \<and> (\<exists>h t l. (ac_email a, Mail_Recovery h t (cancel_link_of cfg l)) \<in> set (outbox s')
          \<and> e_sha256 E (as_bytes t) = rr_completion_hash r \<and> e_sha256 E (as_bytes l) = rr_cancel_hash r)"
  proof (rule bexI[of _ "f a"])
    show "f a \<in> set (accounts s')" using a f by simp
    show "ac_id (f a) = rr_account_id r
     \<and> (\<exists>h t l. (ac_email (f a), Mail_Recovery h t (cancel_link_of cfg l)) \<in> set (outbox s')
          \<and> e_sha256 E (as_bytes t) = rr_completion_hash r \<and> e_sha256 E (as_bytes l) = rr_cancel_hash r)"
      using a f unfolding keeps_def by auto
  qed
qed

lemma start_announced:
  assumes "announced E cfg s"
  shows "announced E cfg (snd (start_recovery E cfg ip now d email s))"
proof -
  obtain res s1 where c: "check_ip ip now s = (res, s1)" by fastforce
  note sel = check_ip_sel[OF c]
  let ?s' = "snd (start_recovery E cfg ip now d email s)"
  show ?thesis
  proof (cases "res = None \<and> account_by_email (record_failure ip now s1) (normalize_email (e_lower E) email) \<noteq> None")
    case False
    then have "recovery_requests ?s' = recovery_requests s"
      by (cases res) (auto simp: start_recovery_def c sel)
    then show ?thesis by (intro grows_announced[OF start_grows assms]) auto
  next
    case True
    then obtain a where a: "account_by_email (record_failure ip now s1) (normalize_email (e_lower E) email) = Some a" by blast
    then have mem: "a \<in> set (accounts s)" using account_by_emailD sel(1) by fastforce
    let ?tok = "fst (new_token E (rd_completion d) (lit ''bvrec_''))" and ?can = "fst (new_token E (rd_cancel d) (lit ''bvcan_''))"
    let ?kept = "update_where (\<lambda>r. rr_account_id r = ac_id a \<and> rr_cancelled_at r = None \<and> rr_completed_at r = None)
        (\<lambda>r. r\<lparr>rr_cancelled_at := Some now\<rparr>) (recovery_requests s)"
    let ?row = "\<lparr>rr_id = next_id rr_id ?kept, rr_account_id = ac_id a,
        rr_completion_hash = e_sha256 E (as_bytes ?tok), rr_cancel_hash = e_sha256 E (as_bytes ?can),
        rr_created_at = now, rr_usable_at = now + cfg_recovery_cooloff_secs cfg,
        rr_expires_at = now + cfg_recovery_cooloff_secs cfg + COMPLETION_WINDOW_SECS, rr_cancelled_at = None, rr_completed_at = None\<rparr>"
    have s': "accounts ?s' = accounts s" "recovery_requests ?s' = ?kept @ [?row]"
      "(ac_email a, Mail_Recovery ((cfg_recovery_cooloff_secs cfg + 3599) sdiv 3600) ?tok (cancel_link_of cfg ?can)) \<in> set (outbox ?s')"
      "\<exists>ms. outbox ?s' = outbox s @ ms"
      using True a by (auto simp: start_recovery_def c Let_def sel new_token_def cancel_link_of_def)
    let ?told = "\<lambda>t r. \<exists>a \<in> set (accounts t). ac_id a = rr_account_id r
     \<and> (\<exists>h k l. (ac_email a, Mail_Recovery h k (cancel_link_of cfg l)) \<in> set (outbox t)
          \<and> e_sha256 E (as_bytes k) = rr_completion_hash r \<and> e_sha256 E (as_bytes l) = rr_cancel_hash r)"
    have "set (outbox s) \<subseteq> set (outbox ?s')" using s'(4) by auto
    then have old: "?told ?s' r" if "?told s r" for r using that unfolding s'(1) by blast
    have "?told ?s' r" if r: "r \<in> set ?kept" for r
    proof -
      from r obtain q where q: "q \<in> set (recovery_requests s)" "rr_account_id r = rr_account_id q"
        "rr_completion_hash r = rr_completion_hash q" "rr_cancel_hash r = rr_cancel_hash q"
        by (auto simp: update_where_def)
      have "?told s q" using assms q(1) unfolding announced_def by blast
      then have "?told s r" unfolding q(2-4) .
      then show ?thesis by (rule old)
    qed
    moreover have "?told ?s' ?row" by (rule bexI[of _ a]) (use mem s' in auto)
    ultimately show ?thesis unfolding announced_def s'(2) by auto
  qed
qed

lemma run_recovery_announced:
  assumes "announced E cfg s"
  shows "announced E cfg (run_recovery E cfg rq s)"
proof (cases rq)
  case (Vq_Start ip now d email)
  with start_announced[OF assms] show ?thesis by simp
next
  case (Vq_Complete ip now salt q)
  from complete_recovery_requests[of E 0 None s ip now salt q]
  have "\<exists>x \<in> set (recovery_requests s). rr_account_id x = rr_account_id r
      \<and> rr_completion_hash x = rr_completion_hash r \<and> rr_cancel_hash x = rr_cancel_hash r"
    if "r \<in> set (recovery_requests (run_recovery E cfg rq s))" for r
    using that Vq_Complete by cases (auto simp: update_where_def)
  then show ?thesis by (rule grows_announced[OF run_recovery_grows assms])
next
  case (Vq_Cancel now token)
  from cancel_recovery_requests[of E 0 None s now token]
  have "\<exists>x \<in> set (recovery_requests s). rr_account_id x = rr_account_id r
      \<and> rr_completion_hash x = rr_completion_hash r \<and> rr_cancel_hash x = rr_cancel_hash r"
    if "r \<in> set (recovery_requests (run_recovery E cfg rq s))" for r
    using that Vq_Cancel by cases (auto simp: update_where_def)
  then show ?thesis by (rule grows_announced[OF run_recovery_grows assms])
qed

fun server_family :: "env \<Rightarrow> server_req \<Rightarrow> text option" where
  "server_family E (Sq_Session rq) = drawn_family E rq"
| "server_family E _ = None"

fun server_pair :: "server_req \<Rightarrow> session_draws option" where
  "server_pair (Sq_Session rq) = drawn_pair rq"
| "server_pair _ = None"

lemma run_recovery_sessions:
  "rows_step E fam d (sessions s) (sessions (run_recovery E cfg rq s))"
proof (cases rq)
  case (Vq_Start ip now d email)
  obtain r s1 where c: "check_ip ip now s = (r, s1)" by fastforce
  then show ?thesis using check_ip_sel(3)[OF c] Vq_Start rows_same[of E fam _ "sessions s"]
    by (auto simp: start_recovery_def Let_def case_prod_beta split: option.split)
next
  case (Vq_Complete ip now salt q)
  obtain res s' where r: "complete_recovery E ip now salt q s = (res, s')" by fastforce
  obtain x s1 where c: "check_ip ip now s = (x, s1)" by fastforce
  have m: "sessions (snd (recovery_mode E ip now acc q s1)) = sessions s" for acc
    using check_ip_sel(3)[OF c] by (simp add: recovery_mode_def Let_def split: option.split sum.split)
  then have m': "recovery_mode E ip now acc q s1 = (y, s2) \<Longrightarrow> sessions s2 = sessions s" for acc y s2 by (metis snd_conv)
  have "sessions s' = sessions s \<or> (\<exists>p. sessions s' = update_where p (\<lambda>r. r\<lparr>se_revoked_at := Some now\<rparr>) (sessions s))"
    using r check_ip_sel(3)[OF c]
    by (auto simp: complete_recovery_def c and_then_def Let_def recovery_mode_Inr dest: m'
        split: option.splits sum.splits prod.splits if_splits)
  then show ?thesis using Vq_Complete r rows_same rows_revoke by (metis run_recovery.simps(2) snd_conv)
next
  case (Vq_Cancel now token)
  then show ?thesis by (simp add: cancel_recovery_def Let_def rows_same)
qed

lemma run_account_sessions: "rows_step E fam d (sessions s) (sessions (run_account E cfg rq s))"
proof -
  consider (reg) now salt dr q where "rq = Aq_Register now salt dr q"
    | (pass) ip now salt au q where "rq = Aq_Password ip now salt au q"
    | (other) "\<And>now salt d r. rq \<noteq> Aq_Register now salt d r" "\<And>ip now salt au r. rq \<noteq> Aq_Password ip now salt au r"
    by (cases rq) auto
  then show ?thesis
  proof cases
    case reg
    then show ?thesis using register_cases[of E cfg now salt dr q s] by (auto simp: rows_same)
  next
    case pass
    obtain res s1 where c: "confirmed_account E ip now au (pq_auth_credential q) (pq_totp_code q) s = (res, s1)" by fastforce
    have "sessions s1 = sessions s" using confirmed_account_snd[of E ip now au "pq_auth_credential q" "pq_totp_code q" s] c by auto
    then have "sessions (run_account E cfg rq s) = sessions s
        \<or> (\<exists>p. sessions (run_account E cfg rq s) = update_where p (\<lambda>r. r\<lparr>se_revoked_at := Some now\<rparr>) (sessions s))"
      by (auto simp: pass change_password_def c and_then_def Let_def split: sum.split)
    then show ?thesis using rows_same rows_revoke by metis
  next
    case other
    from ss.R_account[OF other, of s E cfg] show ?thesis by (simp add: same_sessions_def rows_same)
  qed
qed

lemma run_server_sessions:
  "rows_step E (server_family E rq) (server_pair rq) (sessions s) (sessions (run_server E cfg rq s))"
proof (cases rq)
  case (Sq_Mfa q)
  from ss.R_mfa[of s E q] Sq_Mfa show ?thesis by (simp add: same_sessions_def rows_same)
qed (simp_all add: run_session_step run_recovery_sessions run_account_sessions rows_same)

lemma run_server_still:
  assumes "\<And>r. rq \<noteq> Sq_Recovery r"
  shows "holds_still s (run_server E cfg rq s)"
proof (cases rq)
  case (Sq_Session q)
  with hs.R_session show ?thesis by simp
next
  case (Sq_Mfa q)
  with hs.R_mfa show ?thesis by simp
next
  case (Sq_Item q)
  then show ?thesis by (simp add: holds_still_def totp_keys_def)
next
  case (Sq_Account q)
  consider (reg) now salt dr x where "q = Aq_Register now salt dr x"
    | (pass) ip now salt au x where "q = Aq_Password ip now salt au x"
    | (other) "\<And>now salt d r. q \<noteq> Aq_Register now salt d r" "\<And>ip now salt au r. q \<noteq> Aq_Password ip now salt au r"
    by (cases q) auto
  then show ?thesis
  proof cases
    case reg
    then show ?thesis using Sq_Account register_cases[of E cfg now salt dr x s]
      by (auto simp: holds_still_def totp_keys_def)
  next
    case pass
    then show ?thesis using Sq_Account hs.R_password by simp
  next
    case other
    then show ?thesis using Sq_Account hs.R_account[OF other] by simp
  qed
qed (use assms in blast)

lemma run_server_requests:
  "requests_step E (cfg_recovery_cooloff_secs cfg) (case rq of Sq_Recovery q \<Rightarrow> drawn_request q | _ \<Rightarrow> None)
     (recovery_requests s) (recovery_requests (run_server E cfg rq s))"
  using run_server_still[of rq s E cfg] run_recovery_step[of E cfg _ s]
  by (cases rq) (auto simp: holds_still_def requests_same)

lemma run_server_grows:
  assumes "\<And>q. rq \<noteq> Sq_Item q" and "\<And>now salt d r. rq \<noteq> Sq_Account (Aq_Register now salt d r)"
  shows "grows s (run_server E cfg rq s)"
proof (cases rq)
  case (Sq_Account q)
  show ?thesis
  proof (cases "\<exists>ip now salt au r. q = Aq_Password ip now salt au r")
    case True
    then show ?thesis using Sq_Account gr.R_password by auto
  next
    case False
    then show ?thesis using Sq_Account assms(2) gr.R_account[of q s E cfg] by auto
  qed
qed (use assms gr.R_session gr.R_mfa run_recovery_grows in auto)

lemma item_step: "items_step E s (run_item E rq s)"
  by (cases rq) (auto intro: step_list step_put step_delete step_checkpoint prod.collapse[symmetric])

lemma distinct_emails_item: "map ac_email (accounts (run_item E rq s)) = map ac_email (accounts s)"
  using arg_cong[OF item_emails[of E rq s], where f = "map snd"] by (simp add: comp_def)

lemma item_announced:
  assumes "announced E cfg s"
  shows "announced E cfg (run_item E rq s)"
  unfolding announced_def run_item_frame
proof
  fix r assume "r \<in> set (recovery_requests s)"
  then obtain a h t l where a: "a \<in> set (accounts s)" "ac_id a = rr_account_id r"
    "(ac_email a, Mail_Recovery h t (cancel_link_of cfg l)) \<in> set (outbox s)"
    "e_sha256 E (as_bytes t) = rr_completion_hash r" "e_sha256 E (as_bytes l) = rr_cancel_hash r"
    using assms unfolding announced_def by blast
  have "(ac_id a, ac_email a) \<in> set (map (\<lambda>a. (ac_id a, ac_email a)) (accounts (run_item E rq s)))"
    unfolding item_emails using a(1) by simp
  then obtain a' where "a' \<in> set (accounts (run_item E rq s))" "ac_id a' = ac_id a" "ac_email a' = ac_email a" by auto
  then show "\<exists>a \<in> set (accounts (run_item E rq s)). ac_id a = rr_account_id r
     \<and> (\<exists>h t l. (ac_email a, Mail_Recovery h t (cancel_link_of cfg l)) \<in> set (outbox s)
          \<and> e_sha256 E (as_bytes t) = rr_completion_hash r \<and> e_sha256 E (as_bytes l) = rr_cancel_hash r)"
    using a by (intro bexI[of _ a']) auto
qed

lemma register_ok:
  assumes "items_ok E s" "distinct (map ac_email (accounts s))" "announced E cfg s"
    and s': "s' = snd (register E cfg now salt d rq s)"
  shows "items_ok E s' \<and> distinct (map ac_email (accounts s')) \<and> announced E cfg s'"
  using register_cases[of E cfg now salt d rq s]
proof (elim disjE exE conjE)
  fix to b assume "snd (register E cfg now salt d rq s) = send_mail to b s"
  then have g: "grows s s'" and "recovery_requests s' = recovery_requests s" using s' by (simp_all add: grows_send_mail)
  then show ?thesis using grows_items_ok[OF g assms(1)] grows_emails[OF g] assms(2) grows_announced[OF g assms(3)] by auto
next
  assume "snd (register E cfg now salt d rq s) = s"
  with assms show ?thesis by simp
next
  fix email a assume new: "account_by_email s email = None" "ac_id a = next_id ac_id (accounts s)" "ac_email a = email"
    "ac_sync_seq a = 0" "ac_purged_before_seq a = 0"
    and st: "snd (register E cfg now salt d rq s)
          = send_verification_email E cfg now d (ac_id a) email (s\<lparr>accounts := accounts s @ [a]\<rparr>)"
  have fresh: "ac_id a \<notin> ac_id ` set (accounts s)" using next_id_fresh[of _ "accounts s" ac_id] new(2) by force
  have mail: "ac_email a \<notin> ac_email ` set (accounts s)"
    using new(1,3) by (auto simp: account_by_email_def find_None_iff)
  have "items_ok E s'" using assms(1) fresh new(4,5) unfolding items_ok_def s' st by auto
  moreover have "distinct (map ac_email (accounts s'))" using assms(2) mail by (simp add: s' st)
  moreover have "announced E cfg s'" using assms(3) unfolding announced_def s' st by fastforce
  ultimately show ?thesis by blast
qed

lemma server_ok_step:
  assumes "server_ok E cfg s" and "fresh_server E rq s"
  shows "server_ok E cfg (run_server E cfg rq s)"
proof -
  let ?s' = "run_server E cfg rq s"
  have ok: "items_ok E s" "distinct (map ac_email (accounts s))" "announced E cfg s"
    using assms(1) by (simp_all add: server_ok_def)
  have "sessions_ok (sessions ?s')"
    using assms by (intro sessions_ok_step[OF run_server_sessions]) (cases rq; auto simp: server_ok_def fresh_rq_def)+
  moreover have "requests_ok (cfg_recovery_cooloff_secs cfg) (recovery_requests ?s')"
    using assms(1) by (intro requests_ok_step[OF run_server_requests]) (simp add: server_ok_def)
  moreover have "totp_keys ?s'"
  proof (cases "\<exists>r. rq = Sq_Recovery r")
    case True
    then show ?thesis using assms(1) by (auto simp: server_ok_def totp_keys_def)
  next
    case False
    then show ?thesis using run_server_still[of rq s E cfg] assms(1) by (auto simp: holds_still_def server_ok_def)
  qed
  moreover have "items_ok E ?s' \<and> distinct (map ac_email (accounts ?s')) \<and> announced E cfg ?s'"
  proof -
    consider (item) q where "rq = Sq_Item q" | (reg) now salt d r where "rq = Sq_Account (Aq_Register now salt d r)"
      | (other) "\<And>q. rq \<noteq> Sq_Item q" "\<And>now salt d r. rq \<noteq> Sq_Account (Aq_Register now salt d r)" by blast
    then show ?thesis
    proof cases
      case item
      then show ?thesis using items_step_laws[OF item_step ok(1), of q] ok(2,3) item_announced
        by (simp add: distinct_emails_item)
    next
      case reg
      then show ?thesis using register_ok[OF ok refl] by simp
    next
      case other
      have g: "grows s ?s'" by (rule run_server_grows[OF other])
      have "announced E cfg ?s'"
      proof (cases "\<exists>r. rq = Sq_Recovery r")
        case True
        then show ?thesis using run_recovery_announced[OF ok(3)] by auto
      next
        case False
        then have "recovery_requests ?s' = recovery_requests s" using run_server_still[of rq s E cfg] by (auto simp: holds_still_def)
        then show ?thesis by (intro grows_announced[OF g ok(3)]) auto
      qed
      then show ?thesis using grows_items_ok[OF g ok(1)] grows_emails[OF g] ok(2) by simp
    qed
  qed
  ultimately show ?thesis by (simp add: server_ok_def)
qed

lemma server_ok_run:
  assumes "server_ok E cfg s" and "fresh_server_run E cfg rqs s"
  shows "server_ok E cfg (fold (run_server E cfg) rqs s)"
  using assms
proof (induction rqs arbitrary: s)
  case (Cons rq rqs)
  then show ?case using server_ok_step[of E cfg s rq] by simp
qed simp

section \<open>Properties\<close>

text \<open>The database as the migrations leave it.\<close>

definition empty_srv :: srv where
  "empty_srv = \<lparr>accounts = [], email_tokens = [], sessions = [], totps = [], recovery_codes = [], vault_items = [],
     recovery_requests = [], server_secrets = [], ip_failures = [], outbox = [], nudges = [], dummy_hash = [],
     enumeration_secret = []\<rparr>"

lemma empty_srv_ok: "server_ok E cfg empty_srv"
  by (simp add: server_ok_def empty_srv_def items_ok_def sessions_ok_def family_ok_def totp_keys_def requests_ok_def announced_def)

text \<open>The invariant of the whole server: from the empty database, any sequence of requests of all
  routes, by anyone, leaves addresses and ids unique, every item row well formed and under its
  account's counter, the session table sound with one live row per login, one enrolment per account, at
  most one pending recovery per account with its cooling-off, and every recovery request announced to
  the owner.\<close>

lemma server_invariant:
  assumes "fresh_server_run E cfg rqs empty_srv" and "s = fold (run_server E cfg) rqs empty_srv"
  shows "distinct (map ac_id (accounts s)) \<and> distinct (map ac_email (accounts s)) \<and> items_ok E s
    \<and> sessions_ok (sessions s) \<and> totp_keys s
    \<and> requests_ok (cfg_recovery_cooloff_secs cfg) (recovery_requests s) \<and> announced E cfg s"
  using server_ok_run[OF empty_srv_ok assms(1)] assms(2) by (simp add: server_ok_def items_ok_def)

text \<open>Claim C23.  Nobody is taken over unannounced: whatever the history of the server, if a recovery of an
  account completes now, then at least the cooling-off ago a mail went to the address of that account
  with the token that is being used and a link that would have cancelled it.\<close>

theorem takeover_is_announced:
  assumes "fresh_server_run E cfg rqs empty_srv" and "s = fold (run_server E cfg) rqs empty_srv"
    and "complete_recovery E ip now salt rq s = (Inr preserve, s')" and "sha_ok E"
  shows "\<exists>r a hours token link_token. r \<in> set (recovery_requests s) \<and> account_by_id s (rr_account_id r) = Some a
    \<and> rr_created_at r + cfg_recovery_cooloff_secs cfg \<le> now
    \<and> (ac_email a, Mail_Recovery hours token (cancel_link_of cfg link_token)) \<in> set (outbox s)
    \<and> as_bytes token = as_bytes (cq_token rq) \<and> rr_cancelled_at r = None
    \<and> fst (cancel_recovery E now link_token s) = Inr ()"
proof -
  have ok: "server_ok E cfg s" using server_ok_run[OF empty_srv_ok assms(1)] assms(2) by simp
  from recovery_gate_facts[OF assms(3)] obtain r a where r: "r \<in> set (recovery_requests s)"
    "rr_cancelled_at r = None \<and> rr_completed_at r = None"
    "rr_completion_hash r = e_sha256 E (as_bytes (cq_token rq))" "rr_usable_at r \<le> now"
    "account_by_id s (rr_account_id r) = Some a" by blast
  from ok r(1) obtain a' h t l where a': "a' \<in> set (accounts s)" "ac_id a' = rr_account_id r"
    "(ac_email a', Mail_Recovery h t (cancel_link_of cfg l)) \<in> set (outbox s)"
    "e_sha256 E (as_bytes t) = rr_completion_hash r" "e_sha256 E (as_bytes l) = rr_cancel_hash r"
    unfolding server_ok_def announced_def by blast
  have "account_by_id s (rr_account_id r) = Some a'"
    using ok a'(1,2) account_by_id_iff by (auto simp: server_ok_def)
  with r(5) have same: "a' = a" by simp
  have tok: "as_bytes t = as_bytes (cq_token rq)" using a'(4) r(3) assms(4) by (auto simp: sha_ok_def)
  have "rr_usable_at r = rr_created_at r + cfg_recovery_cooloff_secs cfg"
    using ok r(1) by (auto simp: server_ok_def requests_ok_def)
  moreover have "fst (cancel_recovery E now l s) = Inr ()"
  proof -
    have "\<not> (\<forall>q \<in> set (recovery_requests s). \<not> (rr_cancel_hash q = e_sha256 E (as_bytes l)
        \<and> rr_cancelled_at q = None \<and> rr_completed_at q = None))"
      using r(1,2) a'(5) by (auto simp: pending_def)
    then show ?thesis by (simp add: cancel_recovery_def Let_def count_where_zero del: not_None_eq)
  qed
  ultimately show ?thesis using r a'(3) same tok
    by (intro exI[of _ r] exI[of _ a] exI[of _ h] exI[of _ t] exI[of _ l]) auto
qed

text \<open>A short history: an account is registered, a recovery is started, and it completes.\<close>

definition toy_history :: "server_req list" where
  "toy_history = [Sq_Account (Aq_Register 50 [1] [8] toy_register),
     Sq_Recovery (Vq_Start 7 100 toy_rdraws (lit ''x@y.z''))]"

lemma toy_history_fresh: "fresh_server_run toy_env toy_cfg toy_history empty_srv"
  by (simp add: toy_history_def)

lemma toy_history_run:
  "\<exists>s'. complete_recovery toy_env 8 120 [1] (toy_complete None) (fold (run_server toy_env toy_cfg) toy_history empty_srv) = (Inr False, s')"
proof -
  have mail: "normalize_email (e_lower toy_env) (lit ''x@y.z'') = lit ''x@y.z''"
    by (simp add: normalize_email_def trim_def trim_start_def trim_end_def lit_def is_whitespace_def
      to_lowercase_def to_ascii_lowercase_def is_ascii_upper_def)
  have ve: "validate_email (lit ''x@y.z'') = Inr ()"
    by (simp add: validate_email_def lit_def str_len_def as_bytes_def utf8_char_def)
  have f: "register_fields toy_env toy_cfg toy_register = Inr (lit ''x@y.z'', replicate 32 5, replicate 32 4, replicate 16 3)"
    by (simp add: register_fields_def toy_register_def toy_cfg_def mail ve decode_credential_def decode_salt_def
        toy_decode validate_kdf_def toy_kdf)
  have none: "account_by_email empty_srv (lit ''x@y.z'') = None" by (simp add: account_by_email_def empty_srv_def)
  let ?a = "account_of_register toy_env [1] 50 toy_register (lit ''x@y.z'') (replicate 32 5) (replicate 32 4) (replicate 16 3) 1"
  let ?s1 = "snd (register toy_env toy_cfg 50 [1] [8] toy_register empty_srv)"
  have s1: "accounts ?s1 = [?a]" "recovery_requests ?s1 = []" "ip_failures ?s1 = []"
    by (simp_all add: register_def f none Let_def) (simp_all add: empty_srv_def next_id_def)
  let ?s2 = "snd (start_recovery toy_env toy_cfg 7 100 toy_rdraws (lit ''x@y.z'') ?s1)"
  have c1: "check_ip 7 100 ?s1 = (None, ?s1)" by (simp add: check_ip_def ip_check_def s1)
  have em: "ac_email ?a = lit ''x@y.z''" "ac_id ?a = 1" by (simp_all add: account_of_register_def)
  have cool: "cfg_recovery_cooloff_secs toy_cfg = 10" by (simp add: toy_cfg_def)
  have "account_by_email (record_failure 7 100 ?s1) (lit ''x@y.z'') = Some ?a"
    by (simp add: account_by_email_def s1 em)
  then have s2: "accounts ?s2 = [?a]" "recovery_requests ?s2 = [request_row_for toy_env 10 toy_rdraws 1 100 1]"
    "ip_failures ?s2 = [(7, [100])]"
    by (simp_all add: start_recovery_def c1 mail Let_def s1 em request_row_for_def completion_hash_of_def
        cancel_hash_of_def new_token_def update_where_def next_id_def ip_record_failure_def cool)
  have c2: "check_ip 8 120 ?s2 = (None, ?s2)" by (simp add: check_ip_def ip_check_def s2)
  have find: "find_active_request toy_env (cq_token (toy_complete None)) 120 ?s2 = Some (request_row_for toy_env 10 toy_rdraws 1 100 1)"
    using toy_find[of None] by (simp add: find_active_request_def s2 toy_recovery_srv_def)
  have "account_by_id ?s2 1 = Some ?a" by (simp add: account_by_id_def s2 em)
  then have "account_by_id (complete_tx p 120 r (recover_account toy_env [1] rq x y z) ?s2) 1 = Some (recover_account toy_env [1] rq x y z ?a)"
    if "rr_account_id r = 1" for p r rq x y z
    using that account_by_id_update[of "recover_account toy_env [1] rq x y z" 1 ?s2 1] by (simp add: account_by_id_def)
  moreover have "recovery_mode toy_env 8 120 1 (toy_complete None) ?s2 = (Inr False, ?s2)"
    by (simp add: recovery_mode_Inr toy_complete_def)
  ultimately show ?thesis
    by (simp add: toy_history_def complete_recovery_def c2 find toy_complete_fields Let_def)
qed

theorem takeover_is_announced_witness:
  "\<exists>r \<in> set (recovery_requests (fold (run_server toy_env toy_cfg) toy_history empty_srv)).
     rr_created_at r + cfg_recovery_cooloff_secs toy_cfg \<le> 120"
proof -
  obtain s' where "complete_recovery toy_env 8 120 [1] (toy_complete None)
      (fold (run_server toy_env toy_cfg) toy_history empty_srv) = (Inr False, s')"
    using toy_history_run by blast
  from takeover_is_announced[OF toy_history_fresh refl this toy_sha] show ?thesis by blast
qed

end
