(* ===== verification/Server_Properties.thy ===== *)
theory Server_Properties
  imports Server_History
begin

text \<open>
  Tokens over the whole life of the server: what a spent, revoked or superseded token is worth
  after any further requests of any route.
\<close>

section \<open>Dead rows stay dead\<close>

definition server_draw :: "server_req \<Rightarrow> recovery_draws option" where
  "server_draw rq = (case rq of Sq_Recovery q \<Rightarrow> drawn_request q | _ \<Rightarrow> None)"

lemma server_dead_run:
  assumes "family_dead f (sessions s)" and "\<forall>rq \<in> set rqs. server_family E rq \<noteq> Some f"
  shows "family_dead f (sessions (fold (run_server E cfg) rqs s))"
  using assms
proof (induction rqs arbitrary: s)
  case (Cons rq rqs)
  then show ?case using family_dead_step[OF run_server_sessions[of E rq s cfg], of f] by simp
qed simp

lemma server_spent_run:
  assumes "refresh_spent h (sessions s)"
    and "\<forall>rq \<in> set rqs. \<forall>d. server_pair rq = Some d \<longrightarrow> refresh_hash_of E d \<noteq> h"
  shows "refresh_spent h (sessions (fold (run_server E cfg) rqs s))"
  using assms
proof (induction rqs arbitrary: s)
  case (Cons rq rqs)
  then show ?case using refresh_spent_step[OF run_server_sessions[of E rq s cfg], of h] by simp
qed simp

lemma server_sessions_ok_run:
  assumes "sessions_ok (sessions s)" and "fresh_server_run E cfg rqs s"
  shows "sessions_ok (sessions (fold (run_server E cfg) rqs s))"
  using assms
proof (induction rqs arbitrary: s)
  case (Cons rq rqs)
  have "sessions_ok (sessions (run_server E cfg rq s))"
    using Cons.prems by (intro sessions_ok_step[OF run_server_sessions]) (cases rq; auto simp: fresh_rq_def)+
  with Cons show ?case by simp
qed simp

lemma server_requests_run:
  assumes "request_dead h (recovery_requests s)"
    and "\<forall>rq \<in> set rqs. \<forall>d. server_draw rq = Some d \<longrightarrow> completion_hash_of E d \<noteq> h"
  shows "request_dead h (recovery_requests (fold (run_server E cfg) rqs s))"
  using assms
proof (induction rqs arbitrary: s)
  case (Cons rq rqs)
  then show ?case
    using request_dead_step[OF run_server_requests[of E cfg rq s, folded server_draw_def], of h] by simp
qed simp

section \<open>Properties\<close>

text \<open>Claim C28.  Session tables stay sound through any history with fresh random draws: unique ids and
  token hashes, one live row per login, and a ceiling of ninety days from the login that rotation
  carries along unchanged; so a bearer token is honoured only within ninety days of its login and
  only for the one live row of that login.\<close>

theorem session_lifetime:
  assumes "sessions_ok (sessions s)" and "fresh_server_run E cfg rqs s" and "s' = fold (run_server E cfg) rqs s"
  shows "sessions_ok (sessions s')
    \<and> (\<forall>now h au. authenticate E now h s' = Inr au \<longrightarrow>
         (\<exists>r \<in> set (sessions s'). se_family_id r = au_family_id au \<and> se_account_id r = au_account_id au
            \<and> now < se_created_at r + 90 * 24 * 3600 \<and> now < se_access_expires_at r
            \<and> (\<forall>q \<in> set (sessions s'). se_family_id q = au_family_id au \<and> se_revoked_at q = None \<longrightarrow> q = r)))"
proof (intro conjI allI impI)
  show ok: "sessions_ok (sessions s')" using server_sessions_ok_run[OF assms(1,2)] assms(3) by simp
  fix now h au assume "authenticate E now h s' = Inr au"
  then obtain token r where r: "r \<in> set (sessions s')" "session_live now (e_sha256 E (as_bytes token)) r"
    "au = \<lparr>au_account_id = se_account_id r, au_session_id = se_id r, au_family_id = se_family_id r\<rparr>"
    by (rule authenticate_Inr)
  have "se_absolute_expires_at r = Some (se_created_at r + ABSOLUTE_SESSION_TTL_SECS)"
    using ok r(1) by (simp add: sessions_ok_def)
  moreover have "q = r" if "q \<in> set (sessions s')" "se_family_id q = se_family_id r" "se_revoked_at q = None" for q
    using that ok r(1,2) unfolding sessions_ok_def family_ok_def session_live_def by blast
  ultimately show "\<exists>r \<in> set (sessions s'). se_family_id r = au_family_id au \<and> se_account_id r = au_account_id au
            \<and> now < se_created_at r + 90 * 24 * 3600 \<and> now < se_access_expires_at r
            \<and> (\<forall>q \<in> set (sessions s'). se_family_id q = au_family_id au \<and> se_revoked_at q = None \<longrightarrow> q = r)"
    using r by (intro bexI[OF _ r(1)]) (auto simp: session_live_def ABSOLUTE_SESSION_TTL_SECS_def)
qed

theorem session_lifetime_witness:
  "sessions_ok (sessions (fold (run_server toy_env toy_cfg) [Sq_Session (Rq_Refresh 10 toy_draws (lit ''r''))]
     (toy_srv\<lparr>sessions := [toy_session None]\<rparr>)))"
proof -
  have "fresh_server_run toy_env toy_cfg [Sq_Session (Rq_Refresh 10 toy_draws (lit ''r''))] (toy_srv\<lparr>sessions := [toy_session None]\<rparr>)"
    by (simp add: fresh_rq_def access_hash_of_def refresh_hash_of_def new_token_def toy_draws_def toy_session_def
        toy_env_def as_bytes_def lit_def utf8_char_def)
  from session_lifetime[OF _ this refl] show ?thesis by simp
qed



text \<open>Claim C27.  Theft response: showing a refresh token that has already been spent (its row is
  revoked) is refused and ends the whole login at once and for good: afterwards no bearer token and no
  refresh token of that login is honoured, whatever requests anyone makes, unless a later login draws
  the same random family.\<close>

theorem reuse_ends_login:
  assumes "List.find (\<lambda>r. se_refresh_hash r = e_sha256 E (as_bytes token)) (sessions s) = Some row"
    and "se_revoked_at row \<noteq> None" and "refresh E now d token s = (res, s1)"
    and "\<forall>rq \<in> set rqs. server_family E rq \<noteq> Some (se_family_id row)"
    and "s2 = fold (run_server E cfg) rqs s1"
  shows "res = Inl InvalidToken
    \<and> (\<forall>t h au. authenticate E t h s2 = Inr au \<longrightarrow> au_family_id au \<noteq> se_family_id row)
    \<and> (\<forall>t d' token' r. List.find (\<lambda>r. se_refresh_hash r = e_sha256 E (as_bytes token')) (sessions s2) = Some r \<longrightarrow>
         se_family_id r = se_family_id row \<longrightarrow> fst (refresh E t d' token' s2) = Inl InvalidToken)"
proof -
  have s1: "res = Inl InvalidToken" "sessions s1 = update_where
      (\<lambda>r. se_family_id r = se_family_id row \<and> se_revoked_at r = None)
      (\<lambda>r. r\<lparr>se_revoked_at := Some now\<rparr>) (sessions s)"
    using assms(1-3) by (auto simp: refresh_def)
  then have "family_dead (se_family_id row) (sessions s1)" by (auto simp: family_dead_def ball_update_where)
  from server_dead_run[OF this assms(4)] assms(5) have dead: "family_dead (se_family_id row) (sessions s2)" by simp
  have "au_family_id au \<noteq> se_family_id row" if a: "authenticate E t h s2 = Inr au" for t h au
  proof -
    obtain tk r where "r \<in> set (sessions s2)" "session_live t (e_sha256 E (as_bytes tk)) r"
      "au = \<lparr>au_account_id = se_account_id r, au_session_id = se_id r, au_family_id = se_family_id r\<rparr>"
      by (rule authenticate_Inr[OF a])
    with dead show ?thesis by (auto simp: family_dead_def session_live_def)
  qed
  moreover have "fst (refresh E t d' token' s2) = Inl InvalidToken"
    if f: "List.find (\<lambda>r. se_refresh_hash r = e_sha256 E (as_bytes token')) (sessions s2) = Some r"
      "se_family_id r = se_family_id row" for t d' token' r
    using find_SomeD[OF f(1)] f dead by (auto simp: refresh_def family_dead_def)
  ultimately show ?thesis using s1(1) by blast
qed

theorem reuse_ends_login_witness:
  "\<exists>s1. refresh toy_env 10 toy_draws (lit ''r'')
      (toy_srv\<lparr>sessions := [toy_session (Some 5), (toy_session None)\<lparr>se_id := 2, se_refresh_hash := as_bytes (lit ''q'')\<rparr>]\<rparr>)
      = (Inl InvalidToken, s1)
    \<and> fst (refresh toy_env 20 toy_draws (lit ''q'') s1) = Inl InvalidToken"
proof -
  let ?r2 = "(toy_session None)\<lparr>se_id := 2, se_refresh_hash := as_bytes (lit ''q'')\<rparr>"
  let ?s = "toy_srv\<lparr>sessions := [toy_session (Some 5), ?r2]\<rparr>"
  have sha: "e_sha256 toy_env m = m" for m by (simp add: toy_env_def)
  have f: "List.find (\<lambda>r. se_refresh_hash r = e_sha256 toy_env (as_bytes (lit ''r''))) (sessions ?s) = Some (toy_session (Some 5))"
    by (simp add: sha toy_session_def)
  have rev: "se_revoked_at (toy_session (Some 5)) \<noteq> None" by (simp add: toy_session_def)
  obtain res s1 where r: "refresh toy_env 10 toy_draws (lit ''r'') ?s = (res, s1)" by fastforce
  note k = reuse_ends_login[OF f rev r, of "[]" s1]
  have "sessions s1 = [toy_session (Some 5), ?r2\<lparr>se_revoked_at := Some 10\<rparr>]"
    using r f rev by (auto simp: refresh_def update_where_def toy_session_def)
  then have "\<exists>r. List.find (\<lambda>r. se_refresh_hash r = e_sha256 toy_env (as_bytes (lit ''q''))) (sessions s1) = Some r
      \<and> se_family_id r = se_family_id (toy_session (Some 5))"
    by (simp add: sha toy_session_def as_bytes_def lit_def utf8_char_def)
  with k r show ?thesis by auto
qed

text \<open>Each of the three ends of a live request leaves no live row with its completion hash.\<close>

lemma request_ended:
  assumes "requests_ok cooloff (recovery_requests s)" and "distinct (map rr_completion_hash (recovery_requests s))"
    and "find_active_request E token now s = Some r"
    and "(\<exists>ip salt rq p. ev = Vq_Complete ip now salt rq \<and> cq_token rq = token
            \<and> fst (complete_recovery E ip now salt rq s) = Inr p)
       \<or> (\<exists>link_token. ev = Vq_Cancel now link_token \<and> rr_cancel_hash r = e_sha256 E (as_bytes link_token))
       \<or> (\<exists>ip d email a. ev = Vq_Start ip now d email \<and> fst (start_recovery E cfg ip now d email s) = Inr ()
            \<and> account_by_email s (normalize_email (e_lower E) email) = Some a \<and> ac_id a = rr_account_id r)"
    and "\<forall>d. drawn_request ev = Some d \<longrightarrow> completion_hash_of E d \<noteq> e_sha256 E (as_bytes token)"
  shows "request_dead (e_sha256 E (as_bytes token)) (recovery_requests (run_recovery E cfg ev s))"
proof -
  let ?h = "e_sha256 E (as_bytes token)"
  note r = find_activeD[OF assms(3)]
  note ends = ends_request[OF assms(1,2) r(1), unfolded r(2)]
  show ?thesis
    using assms(4)
  proof (elim disjE exE conjE)
    fix ip salt rq p assume ev: "ev = Vq_Complete ip now salt rq" "cq_token rq = token"
      and ok: "fst (complete_recovery E ip now salt rq s) = Inr p"
    then obtain s2 where ok2: "complete_recovery E ip now salt rq s = (Inr p, s2)"
      by (cases "complete_recovery E ip now salt rq s") auto
    show ?thesis using ok2
    proof (rule complete_Inr)
      fix s1 r1 cred nv ns a
      assume c: "check_ip ip now s = (None, s1)" and f: "find_active_request E (cq_token rq) now s1 = Some r1"
        and s2: "s2 = notify_owner (ac_email a) (Mail_Recovered p)
           (backup_email_of (complete_tx p now r1 (recover_account E salt rq cred nv ns) s1) (rr_account_id r1))
           (complete_tx p now r1 (recover_account E salt rq cred nv ns) s1)"
      have "r1 = r" using f assms(3) ev check_ip_sel(7)[OF c] by (simp add: find_active_request_def)
      with s2 check_ip_sel(7)[OF c] have "recovery_requests s2 =
          update_where (\<lambda>q. rr_id q = rr_id r) (\<lambda>q. q\<lparr>rr_completed_at := Some now\<rparr>) (recovery_requests s)" by simp
      then have eq: "recovery_requests (run_recovery E cfg ev s) =
          update_where (\<lambda>q. rr_id q = rr_id r) (\<lambda>q. q\<lparr>rr_completed_at := Some now\<rparr>) (recovery_requests s)"
        using ok2 ev by simp
      show ?thesis by (rule ends[OF eq]) auto
    qed
  next
    fix link_token assume ev: "ev = Vq_Cancel now link_token" and h: "rr_cancel_hash r = e_sha256 E (as_bytes link_token)"
    let ?p = "\<lambda>r. rr_cancel_hash r = e_sha256 E (as_bytes link_token) \<and> rr_cancelled_at r = None \<and> rr_completed_at r = None"
    have eq: "recovery_requests (run_recovery E cfg ev s) =
        update_where ?p (\<lambda>r. r\<lparr>rr_cancelled_at := Some now\<rparr>) (recovery_requests s)"
      by (simp add: ev cancel_recovery_def Let_def)
    show ?thesis by (rule ends[OF eq]) (use h r(3,4) in auto)
  next
    fix ip d email a assume ev: "ev = Vq_Start ip now d email" "fst (start_recovery E cfg ip now d email s) = Inr ()"
      and a: "account_by_email s (normalize_email (e_lower E) email) = Some a" "ac_id a = rr_account_id r"
    obtain s1 where c: "check_ip ip now s = (None, s1)"
      using ev(2) by (auto simp: start_recovery_def split: prod.splits option.splits)
    let ?p = "\<lambda>q. rr_account_id q = ac_id a \<and> rr_cancelled_at q = None \<and> rr_completed_at q = None"
    let ?kept = "update_where ?p (\<lambda>q. q\<lparr>rr_cancelled_at := Some now\<rparr>) (recovery_requests s)"
    have "account_by_email (record_failure ip now s1) (normalize_email (e_lower E) email) = Some a"
      using a(1) check_ip_sel(1)[OF c] by (simp add: account_by_email_def)
    then have "\<exists>row. recovery_requests (run_recovery E cfg ev s) = ?kept @ [row] \<and> rr_completion_hash row = completion_hash_of E d"
      using ev check_ip_sel(7)[OF c]
      by (simp add: start_recovery_def c Let_def completion_hash_of_def new_token_def)
    moreover have "request_dead ?h ?kept" by (rule ends[OF refl]) (use a r(3,4) in auto)
    moreover have "completion_hash_of E d \<noteq> ?h" using assms(5) ev by simp
    ultimately show ?thesis by auto
  qed
qed

text \<open>Claim C32.  A recovery request is good for one completion: once it has been completed, cancelled by
  the link in its mail, or superseded by a newer one for the account, its token is refused for ever,
  whatever requests of any route anyone makes after.\<close>

theorem recovery_single_use:
  assumes "requests_ok cooloff (recovery_requests s)" and "distinct (map rr_completion_hash (recovery_requests s))"
    and "find_active_request E token now s = Some r"
    and "(\<exists>ip salt rq p. ev = Vq_Complete ip now salt rq \<and> cq_token rq = token
            \<and> fst (complete_recovery E ip now salt rq s) = Inr p)
       \<or> (\<exists>link_token. ev = Vq_Cancel now link_token \<and> rr_cancel_hash r = e_sha256 E (as_bytes link_token))
       \<or> (\<exists>ip d email a. ev = Vq_Start ip now d email \<and> fst (start_recovery E cfg ip now d email s) = Inr ()
            \<and> account_by_email s (normalize_email (e_lower E) email) = Some a \<and> ac_id a = rr_account_id r)"
    and "\<forall>d. drawn_request ev = Some d \<or> (\<exists>rq \<in> set evs. server_draw rq = Some d) \<longrightarrow> completion_hash_of E d \<noteq> e_sha256 E (as_bytes token)"
    and "s' = fold (run_server E cfg) evs (run_recovery E cfg ev s)" and "cq_token rq' = token"
  shows "\<exists>e. fst (complete_recovery E ip' now' salt' rq' s') = Inl e \<and> (e = InvalidToken \<or> (\<exists>w. e = RateLimited w))"
proof -
  let ?h = "e_sha256 E (as_bytes token)"
  have "request_dead ?h (recovery_requests (run_recovery E cfg ev s))"
    by (rule request_ended[OF assms(1-4)]) (use assms(5) in blast)
  then have "request_dead ?h (recovery_requests s')"
    using server_requests_run[of ?h "run_recovery E cfg ev s" evs] assms(5,6) by blast
  then show ?thesis
    using assms(7) by (intro complete_without_request dead_not_found) simp
qed

theorem recovery_single_use_witness:
  "\<exists>e. fst (complete_recovery toy_env 7 130 [] (toy_complete None)
       (run_recovery toy_env toy_cfg (Vq_Cancel 120 (fst (new_token toy_env [2] (lit ''bvcan_'')))) toy_recovery_srv)) = Inl e"
proof -
  let ?link = "fst (new_token toy_env [2] (lit ''bvcan_''))"
  have ok: "requests_ok 10 (recovery_requests toy_recovery_srv)" "distinct (map rr_completion_hash (recovery_requests toy_recovery_srv))"
    by (simp_all add: toy_recovery_srv_def requests_ok_def)
  have "rr_cancel_hash (request_row_for toy_env 10 toy_rdraws 1 100 1) = e_sha256 toy_env (as_bytes ?link)"
    by (simp add: request_row_for_def cancel_hash_of_def snd_new_token toy_rdraws_def)
  from recovery_single_use[OF ok toy_find[of None], where ev = "Vq_Cancel 120 ?link" and evs = "[]", OF _ _ refl refl] this
  show ?thesis by simp blast
qed

end
