(* ===== verification/Http_Client.thy ===== *)
theory Http_Client
  imports Rollback Account_Flows
begin

text \<open>
  desktop-core \<open>api.rs\<close> over HTTP: every method of \<open>ApiClient\<close> as the request it sends and what
  it makes of the response.  The HTTP library is the function \<open>http\<close> from a request to a response
  (or a network error), with everything behind it in its state \<open>'w\<close>; serde's encodings of the nested
  structures and base64 are the record \<open>wire\<close>.
\<close>

section \<open>JSON values, requests and responses\<close>

datatype json =
    J_Null
  | J_Bool bool
  | J_Int int
  | J_Str "text"
  | J_Arr "json list"
  | J_Obj "(string \<times> json) list"

text \<open>\<open>value["key"]\<close>, which is null for a missing key or anything but an object, and the accessors.\<close>

fun j_get :: "json \<Rightarrow> string \<Rightarrow> json" where
  "j_get (J_Obj fs) key = (case map_of fs key of Some v \<Rightarrow> v | None \<Rightarrow> J_Null)"
| "j_get _ key = J_Null"

fun as_str :: "json \<Rightarrow> text option" where
  "as_str (J_Str s) = Some s"
| "as_str _ = None"

fun j_i64 :: "json \<Rightarrow> int option" where
  "j_i64 (J_Int i) = (if - (2 ^ 63) \<le> i \<and> i < 2 ^ 63 then Some i else None)"
| "j_i64 _ = None"

fun j_u64 :: "json \<Rightarrow> int option" where
  "j_u64 (J_Int i) = (if 0 \<le> i \<and> i < 2 ^ 64 then Some i else None)"
| "j_u64 _ = None"

fun as_bool :: "json \<Rightarrow> bool option" where
  "as_bool (J_Bool b) = Some b"
| "as_bool _ = None"

fun as_array :: "json \<Rightarrow> json list option" where
  "as_array (J_Arr js) = Some js"
| "as_array _ = None"

definition j_opt :: "text option \<Rightarrow> json" where
  "j_opt s = (case s of None \<Rightarrow> J_Null | Some t \<Rightarrow> J_Str t)"

definition or_default :: "'a \<Rightarrow> 'a option \<Rightarrow> 'a" where
  "or_default d x = (case x of None \<Rightarrow> d | Some y \<Rightarrow> y)"

datatype http_method = GET | POST | PUT | DELETE

record request =
  rq_method :: http_method
  rq_url :: "text"
  rq_query :: "(string \<times> text) list"
  rq_json :: "json option"
  rq_bearer :: "text option"

text \<open>A response is its status and the outcome of reading its body as JSON.\<close>

type_synonym response = "nat \<times> (text + json)"
type_synonym 'w http = "'w \<Rightarrow> request \<Rightarrow> (text + response) \<times> 'w"

definition is_success :: "nat \<Rightarrow> bool" where
  "is_success status \<longleftrightarrow> 200 \<le> status \<and> status < 300"

definition body_or_null :: "text + json \<Rightarrow> json" where
  "body_or_null b = (case b of Inl _ \<Rightarrow> J_Null | Inr j \<Rightarrow> j)"

record session_info =
  sn_id :: "text"
  sn_device_name :: "text"
  sn_created_at :: int
  sn_last_used_at :: int
  sn_current :: bool

record wire =
  wi_b64_encode :: "bytes \<Rightarrow> text"
  wi_b64_decode :: "text \<Rightarrow> bytes option"
  wi_kdf_to :: "kdf_params \<Rightarrow> json"
  wi_kdf_of :: "json \<Rightarrow> text + kdf_params"
  wi_wrapped_to :: "wrapped_key \<Rightarrow> json"
  wi_wrapped_of :: "json \<Rightarrow> text + wrapped_key"
  wi_item_to :: "encrypted_item \<Rightarrow> json"
  wi_pull_of :: "json \<Rightarrow> text + pull_response"
  wi_remote_of :: "json \<Rightarrow> text + remote_item"
  wi_sessions_of :: "json \<Rightarrow> text + session_info list"

section \<open>The client\<close>

text \<open>\<open>ApiClient\<close>: the address and the two tokens (\<open>client\<close>).\<close>

record api_client =
  ap_base_url :: "text"
  ap_tokens :: client

definition api_new :: "text \<Rightarrow> api_client" where
  "api_new base_url = \<lparr>ap_base_url = normalize_base_url base_url,
     ap_tokens = \<lparr>cl_access = None, cl_refresh = None\<rparr>\<rparr>"

definition api_with_tokens :: "text \<Rightarrow> text option \<Rightarrow> text option \<Rightarrow> api_client" where
  "api_with_tokens base_url access refresh =
     (api_new base_url)\<lparr>ap_tokens := \<lparr>cl_access = access, cl_refresh = refresh\<rparr>\<rparr>"

definition api_refresh_token :: "api_client \<Rightarrow> text option" where
  "api_refresh_token a = cl_refresh (ap_tokens a)"

definition api_url :: "api_client \<Rightarrow> string \<Rightarrow> text" where
  "api_url a path = ap_base_url a @ lit path"

definition client_classify :: "nat \<Rightarrow> json \<Rightarrow> client_error" where
  "client_classify status body =
     (let code = or_default [] (as_str (j_get body ''error''))
      in if code = lit ''email_not_verified'' then Ce_EmailNotVerified
         else if code = lit ''mfa_required'' then Ce_MfaRequired
         else if code = lit ''locked_out'' \<or> code = lit ''rate_limited''
           then Ce_RateLimited (or_default 60 (j_i64 (j_get body ''retry_after_secs'')))
         else if code = lit ''cooling_off''
           then Ce_CoolingOff (or_default 0 (j_i64 (j_get body ''retry_after_secs'')))
         else if code = lit ''invalid_credentials'' then Ce_InvalidCredentials
         else if code = lit ''invalid_token'' then Ce_SessionExpired
         else Ce_Server (status_text status @ lit '': '' @ code))"

definition decode_salt :: "wire \<Rightarrow> json \<Rightarrow> client_error + bytes" where
  "decode_salt W body =
     (case as_str (j_get body ''kdf_salt'') of
        None \<Rightarrow> Inl (Ce_Server (lit ''missing kdf_salt''))
      | Some s \<Rightarrow> ok_or (Ce_Server (lit ''kdf_salt not base64url'')) (wi_b64_decode W s))"

definition server_err :: "text + 'a \<Rightarrow> client_error + 'a" where
  "server_err r = (case r of Inl e \<Rightarrow> Inl (Ce_Server e) | Inr x \<Rightarrow> Inr x)"

text \<open>The calls without a session.  Two shapes recur: the body is only read to classify a failure, or it
  is read first and must parse.\<close>

definition send_plain ::
    "'w http \<Rightarrow> 'w \<Rightarrow> request \<Rightarrow> (client_error + unit) \<times> 'w" where
  "send_plain http w rq =
     (case http w rq of
        (Inl e, w') \<Rightarrow> (Inl (Ce_Network e), w')
      | (Inr (status, body), w') \<Rightarrow>
          if is_success status then (Inr (), w')
          else (Inl (client_classify status (body_or_null body)), w'))"

definition send_parse ::
    "'w http \<Rightarrow> 'w \<Rightarrow> request \<Rightarrow> (nat \<Rightarrow> json \<Rightarrow> client_error + 'a) \<Rightarrow> (client_error + 'a) \<times> 'w" where
  "send_parse http w rq parse =
     (case http w rq of
        (Inl e, w') \<Rightarrow> (Inl (Ce_Network e), w')
      | (Inr (status, Inl e), w') \<Rightarrow> (Inl (Ce_Network e), w')
      | (Inr (status, Inr body), w') \<Rightarrow> (parse status body, w'))"

definition plain_request :: "http_method \<Rightarrow> text \<Rightarrow> (string \<times> text) list \<Rightarrow> json option \<Rightarrow> request" where
  "plain_request m url query body =
     \<lparr>rq_method = m, rq_url = url, rq_query = query, rq_json = body, rq_bearer = None\<rparr>"

record prelogin_info =
  pi_kdf_params :: kdf_params
  pi_kdf_salt :: bytes

definition api_prelogin :: "wire \<Rightarrow> 'w http \<Rightarrow> api_client \<Rightarrow> 'w \<Rightarrow> text \<Rightarrow> (client_error + prelogin_info) \<times> 'w" where
  "api_prelogin W http a w email =
     send_parse http w
       (plain_request GET (api_url a ''/api/v1/accounts/prelogin'') [(''email'', email)] None)
       (\<lambda>_ body.
          bind_r (server_err (wi_kdf_of W (j_get body ''kdf_params''))) (\<lambda>params.
          bind_r (decode_salt W body) (\<lambda>salt.
            Inr \<lparr>pi_kdf_params = params, pi_kdf_salt = salt\<rparr>)))"

definition api_register ::
    "wire \<Rightarrow> 'w http \<Rightarrow> api_client \<Rightarrow> 'w \<Rightarrow> text \<Rightarrow> registration_bundle \<Rightarrow> (client_error + unit) \<times> 'w" where
  "api_register W http a w email bundle =
     send_plain http w
       (plain_request POST (api_url a ''/api/v1/accounts/register'') [] (Some (J_Obj [
          (''email'', J_Str email),
          (''auth_credential'', J_Str (wi_b64_encode W (rb_auth_credential bundle))),
          (''recovery_verifier'', J_Str (wi_b64_encode W (rb_recovery_verifier bundle))),
          (''kdf_params'', wi_kdf_to W (rb_kdf_params bundle)),
          (''kdf_salt'', J_Str (wi_b64_encode W (rb_kdf_salt bundle))),
          (''master_wrapped_vault_key'', wi_wrapped_to W (rb_master_wrapped bundle)),
          (''recovery_wrapped_vault_key'', wi_wrapped_to W (rb_recovery_wrapped bundle))])))"

definition api_resend_verification :: "'w http \<Rightarrow> api_client \<Rightarrow> 'w \<Rightarrow> text \<Rightarrow> (client_error + unit) \<times> 'w" where
  "api_resend_verification http a w email =
     send_plain http w
       (plain_request POST (api_url a ''/api/v1/accounts/resend-verification'') []
          (Some (J_Obj [(''email'', J_Str email)])))"

record login_outcome =
  lo_access_token :: "text"
  lo_refresh_token :: "text"
  lo_kdf_params :: kdf_params
  lo_kdf_salt :: bytes
  lo_master_wrapped :: wrapped_key

definition parse_login :: "wire \<Rightarrow> nat \<Rightarrow> json \<Rightarrow> client_error + login_outcome" where
  "parse_login W status body =
     (if \<not> is_success status then Inl (client_classify status body)
      else
        bind_r (ok_or (Ce_Server (lit ''missing access_token'')) (as_str (j_get body ''access_token''))) (\<lambda>access.
        bind_r (ok_or (Ce_Server (lit ''missing refresh_token'')) (as_str (j_get body ''refresh_token''))) (\<lambda>refresh.
        bind_r (server_err (wi_kdf_of W (j_get body ''kdf_params''))) (\<lambda>params.
        bind_r (decode_salt W body) (\<lambda>salt.
        bind_r (server_err (wi_wrapped_of W (j_get body ''master_wrapped_vault_key''))) (\<lambda>wrapped.
          Inr \<lparr>lo_access_token = access, lo_refresh_token = refresh, lo_kdf_params = params,
               lo_kdf_salt = salt, lo_master_wrapped = wrapped\<rparr>))))))"

definition api_login ::
    "wire \<Rightarrow> 'w http \<Rightarrow> api_client \<Rightarrow> 'w \<Rightarrow> text \<Rightarrow> bytes \<Rightarrow> text option \<Rightarrow> text option \<Rightarrow> text \<Rightarrow>
     (client_error + login_outcome) \<times> api_client \<times> 'w" where
  "api_login W http a w email auth_credential totp_code recovery_code device_name =
     (case send_parse http w
         (plain_request POST (api_url a ''/api/v1/auth/login'') [] (Some (J_Obj [
            (''email'', J_Str email),
            (''auth_credential'', J_Str (wi_b64_encode W auth_credential)),
            (''totp_code'', j_opt totp_code),
            (''recovery_code'', j_opt recovery_code),
            (''device_name'', J_Str device_name)])))
         (parse_login W) of
        (Inl e, w') \<Rightarrow> (Inl e, a, w')
      | (Inr outcome, w') \<Rightarrow>
          (Inr outcome,
           a\<lparr>ap_tokens := \<lparr>cl_access = Some (lo_access_token outcome),
                           cl_refresh = Some (lo_refresh_token outcome)\<rparr>\<rparr>, w'))"

text \<open>The refresh endpoint, as \<open>refresh_session\<close> and \<open>authed\<close> use it.\<close>

definition rotate_call ::
    "'w http \<Rightarrow> text \<Rightarrow> 'w \<Rightarrow> text \<Rightarrow> (text + nat \<times> (text option \<times> text option)) \<times> 'w" where
  "rotate_call http base w refresh =
     (case http w (plain_request POST (base @ lit ''/api/v1/auth/refresh'') []
          (Some (J_Obj [(''refresh_token'', J_Str refresh)]))) of
        (Inl e, w') \<Rightarrow> (Inl e, w')
      | (Inr (status, Inl e), w') \<Rightarrow> (Inl e, w')
      | (Inr (status, Inr body), w') \<Rightarrow>
          (Inr (status, as_str (j_get body ''access_token''), as_str (j_get body ''refresh_token'')), w'))"

definition api_refresh_session :: "'w http \<Rightarrow> api_client \<Rightarrow> 'w \<Rightarrow> (client_error + text) \<times> api_client \<times> 'w" where
  "api_refresh_session http a w =
     (case refresh_session (rotate_call http (ap_base_url a)) (ap_tokens a) w of
        (r, c, w') \<Rightarrow> (r, a\<lparr>ap_tokens := c\<rparr>, w'))"

definition api_logout :: "'w http \<Rightarrow> api_client \<Rightarrow> 'w \<Rightarrow> api_client \<times> 'w" where
  "api_logout http a w =
     (a\<lparr>ap_tokens := \<lparr>cl_access = None, cl_refresh = None\<rparr>\<rparr>,
      case cl_access (ap_tokens a) of
        None \<Rightarrow> w
      | Some token \<Rightarrow>
          snd (http w ((plain_request POST (api_url a ''/api/v1/auth/logout'') [] None)\<lparr>rq_bearer := Some token\<rparr>)))"

section \<open>Recovery\<close>

definition api_recovery_start :: "'w http \<Rightarrow> api_client \<Rightarrow> 'w \<Rightarrow> text \<Rightarrow> (client_error + unit) \<times> 'w" where
  "api_recovery_start http a w email =
     send_plain http w
       (plain_request POST (api_url a ''/api/v1/accounts/recovery/start'') []
          (Some (J_Obj [(''email'', J_Str email)])))"

record recovery_info =
  ry_email :: "text"
  ry_kdf_params :: kdf_params
  ry_kdf_salt :: bytes
  ry_recovery_wrapped :: wrapped_key
  ry_supports_data_recovery :: bool

definition parse_recovery :: "wire \<Rightarrow> nat \<Rightarrow> json \<Rightarrow> client_error + recovery_info" where
  "parse_recovery W status body =
     (if \<not> is_success status then Inl (client_classify status body)
      else
        bind_r (ok_or (Ce_Server (lit ''missing email'')) (as_str (j_get body ''email''))) (\<lambda>email.
        bind_r (server_err (wi_kdf_of W (j_get body ''kdf_params''))) (\<lambda>params.
        bind_r (decode_salt W body) (\<lambda>salt.
        bind_r (server_err (wi_wrapped_of W (j_get body ''recovery_wrapped_vault_key''))) (\<lambda>wrapped.
          Inr \<lparr>ry_email = email, ry_kdf_params = params, ry_kdf_salt = salt, ry_recovery_wrapped = wrapped,
               ry_supports_data_recovery = or_default False (as_bool (j_get body ''supports_data_recovery''))\<rparr>)))))"

definition api_recovery_data ::
    "wire \<Rightarrow> 'w http \<Rightarrow> api_client \<Rightarrow> 'w \<Rightarrow> text \<Rightarrow> (client_error + recovery_info) \<times> 'w" where
  "api_recovery_data W http a w token =
     send_parse http w
       (plain_request GET (api_url a ''/api/v1/accounts/recovery/data'') [(''token'', token)] None)
       (parse_recovery W)"

definition api_recovery_complete ::
    "wire \<Rightarrow> 'w http \<Rightarrow> api_client \<Rightarrow> 'w \<Rightarrow> text \<Rightarrow> registration_bundle \<Rightarrow> bytes option \<Rightarrow> bool \<Rightarrow>
     (client_error + unit) \<times> 'w" where
  "api_recovery_complete W http a w token bundle verifier wipe =
     send_plain http w
       (plain_request POST (api_url a ''/api/v1/accounts/recovery/complete'') [] (Some (J_Obj [
          (''token'', J_Str token),
          (''recovery_verifier'', j_opt (map_option (wi_b64_encode W) verifier)),
          (''wipe'', J_Bool wipe),
          (''auth_credential'', J_Str (wi_b64_encode W (rb_auth_credential bundle))),
          (''kdf_params'', wi_kdf_to W (rb_kdf_params bundle)),
          (''kdf_salt'', J_Str (wi_b64_encode W (rb_kdf_salt bundle))),
          (''master_wrapped_vault_key'', wi_wrapped_to W (rb_master_wrapped bundle)),
          (''recovery_wrapped_vault_key'', wi_wrapped_to W (rb_recovery_wrapped bundle)),
          (''new_recovery_verifier'', J_Str (wi_b64_encode W (rb_recovery_verifier bundle)))])))"

section \<open>Calls with a session\<close>

text \<open>\<open>authed\<close> for a request built from the address and the token.\<close>

definition bearer_call ::
    "'w http \<Rightarrow> (text \<Rightarrow> request) \<Rightarrow> text \<Rightarrow> 'w \<Rightarrow> text \<Rightarrow> (text + nat \<times> json) \<times> 'w" where
  "bearer_call http build base w token =
     (case http w ((build base)\<lparr>rq_bearer := Some token\<rparr>) of
        (Inl e, w') \<Rightarrow> (Inl e, w')
      | (Inr (status, body), w') \<Rightarrow> (Inr (status, body_or_null body), w'))"

definition api_authed ::
    "'w http \<Rightarrow> (text \<Rightarrow> request) \<Rightarrow> api_client \<Rightarrow> 'w \<Rightarrow> (client_error + nat \<times> json) \<times> api_client \<times> 'w" where
  "api_authed http build a w =
     (case authed (rotate_call http (ap_base_url a)) (bearer_call http build (ap_base_url a)) (ap_tokens a) w of
        (r, c, w') \<Rightarrow> (r, a\<lparr>ap_tokens := c\<rparr>, w'))"

definition authed_parse ::
    "'w http \<Rightarrow> (text \<Rightarrow> request) \<Rightarrow> (json \<Rightarrow> client_error + 'a) \<Rightarrow> api_client \<Rightarrow> 'w \<Rightarrow>
     (client_error + 'a) \<times> api_client \<times> 'w" where
  "authed_parse http build parse a w =
     (case api_authed http build a w of
        (Inl e, a', w') \<Rightarrow> (Inl e, a', w')
      | (Inr (status, body), a', w') \<Rightarrow>
          if is_success status then (parse body, a', w')
          else (Inl (client_classify status body), a', w'))"

definition req :: "http_method \<Rightarrow> string \<Rightarrow> json option \<Rightarrow> text \<Rightarrow> request" where
  "req m path body base = plain_request m (base @ lit path) [] body"

definition codes_of :: "json \<Rightarrow> text list" where
  "codes_of body = (case as_array (j_get body ''recovery_codes'') of
     None \<Rightarrow> [] | Some js \<Rightarrow> List.map_filter as_str js)"

definition api_set_backup_email ::
    "wire \<Rightarrow> 'w http \<Rightarrow> bytes \<Rightarrow> text option \<Rightarrow> text \<Rightarrow> api_client \<Rightarrow> 'w \<Rightarrow> (client_error + unit) \<times> api_client \<times> 'w" where
  "api_set_backup_email W http auth_credential totp_code backup_email =
     authed_parse http (req POST ''/api/v1/account/backup-email'' (Some (J_Obj [
         (''auth_credential'', J_Str (wi_b64_encode W auth_credential)),
         (''totp_code'', j_opt totp_code), (''backup_email'', J_Str backup_email)])))
       (\<lambda>_. Inr ())"

definition api_remove_backup_email ::
    "wire \<Rightarrow> 'w http \<Rightarrow> bytes \<Rightarrow> text option \<Rightarrow> api_client \<Rightarrow> 'w \<Rightarrow> (client_error + unit) \<times> api_client \<times> 'w" where
  "api_remove_backup_email W http auth_credential totp_code =
     authed_parse http (req DELETE ''/api/v1/account/backup-email'' (Some (J_Obj [
         (''auth_credential'', J_Str (wi_b64_encode W auth_credential)),
         (''totp_code'', j_opt totp_code)])))
       (\<lambda>_. Inr ())"

definition api_totp_enroll ::
    "wire \<Rightarrow> 'w http \<Rightarrow> bytes \<Rightarrow> api_client \<Rightarrow> 'w \<Rightarrow> (client_error + text \<times> text) \<times> api_client \<times> 'w" where
  "api_totp_enroll W http auth_credential =
     authed_parse http (req POST ''/api/v1/mfa/totp/enroll'' (Some (J_Obj [
         (''auth_credential'', J_Str (wi_b64_encode W auth_credential))])))
       (\<lambda>body. Inr (or_default [] (as_str (j_get body ''secret_base32'')),
                    or_default [] (as_str (j_get body ''otpauth_uri''))))"

definition api_totp_activate ::
    "'w http \<Rightarrow> text \<Rightarrow> api_client \<Rightarrow> 'w \<Rightarrow> (client_error + text list) \<times> api_client \<times> 'w" where
  "api_totp_activate http code =
     authed_parse http (req POST ''/api/v1/mfa/totp/activate'' (Some (J_Obj [(''code'', J_Str code)])))
       (\<lambda>body. Inr (codes_of body))"

definition api_totp_disable ::
    "wire \<Rightarrow> 'w http \<Rightarrow> bytes \<Rightarrow> text \<Rightarrow> api_client \<Rightarrow> 'w \<Rightarrow> (client_error + unit) \<times> api_client \<times> 'w" where
  "api_totp_disable W http auth_credential totp_code =
     authed_parse http (req POST ''/api/v1/mfa/totp/disable'' (Some (J_Obj [
         (''auth_credential'', J_Str (wi_b64_encode W auth_credential)), (''totp_code'', J_Str totp_code)])))
       (\<lambda>_. Inr ())"

definition api_change_password ::
    "wire \<Rightarrow> 'w http \<Rightarrow> bytes \<Rightarrow> text option \<Rightarrow> registration_bundle \<Rightarrow> api_client \<Rightarrow> 'w \<Rightarrow>
     (client_error + unit) \<times> api_client \<times> 'w" where
  "api_change_password W http current_auth_credential totp_code bundle =
     authed_parse http (req POST ''/api/v1/account/change-password'' (Some (J_Obj [
         (''auth_credential'', J_Str (wi_b64_encode W current_auth_credential)),
         (''totp_code'', j_opt totp_code),
         (''new_auth_credential'', J_Str (wi_b64_encode W (rb_auth_credential bundle))),
         (''kdf_params'', wi_kdf_to W (rb_kdf_params bundle)),
         (''master_wrapped_vault_key'', wi_wrapped_to W (rb_master_wrapped bundle)),
         (''recovery_wrapped_vault_key'', wi_wrapped_to W (rb_recovery_wrapped bundle)),
         (''new_recovery_verifier'', J_Str (wi_b64_encode W (rb_recovery_verifier bundle)))])))
       (\<lambda>_. Inr ())"

definition api_mfa_status :: "'w http \<Rightarrow> api_client \<Rightarrow> 'w \<Rightarrow> (client_error + bool \<times> int) \<times> api_client \<times> 'w" where
  "api_mfa_status http =
     authed_parse http (req GET ''/api/v1/mfa/status'' None)
       (\<lambda>body. Inr (or_default False (as_bool (j_get body ''totp_active'')),
                    or_default 0 (j_i64 (j_get body ''recovery_codes_remaining''))))"

definition api_regenerate_recovery_codes ::
    "wire \<Rightarrow> 'w http \<Rightarrow> bytes \<Rightarrow> text \<Rightarrow> api_client \<Rightarrow> 'w \<Rightarrow> (client_error + text list) \<times> api_client \<times> 'w" where
  "api_regenerate_recovery_codes W http auth_credential totp_code =
     authed_parse http (req POST ''/api/v1/mfa/recovery-codes/regenerate'' (Some (J_Obj [
         (''auth_credential'', J_Str (wi_b64_encode W auth_credential)), (''totp_code'', J_Str totp_code)])))
       (\<lambda>body. Inr (codes_of body))"

definition http_get_checkpoint ::
    "wire \<Rightarrow> 'w http \<Rightarrow> api_client \<Rightarrow> 'w \<Rightarrow> (client_error + (int \<times> bytes) option) \<times> api_client \<times> 'w" where
  "http_get_checkpoint W http =
     authed_parse http (req GET ''/api/v1/vault/checkpoint'' None)
       (\<lambda>body.
          let cp = j_get body ''checkpoint''
          in if cp = J_Null then Inr None
             else
               bind_r (ok_or (Ce_Server (lit ''checkpoint missing seq'')) (j_i64 (j_get cp ''seq''))) (\<lambda>seq.
               bind_r (ok_or (Ce_Server (lit ''checkpoint tag not base64url''))
                        (wi_b64_decode W (or_default [] (as_str (j_get cp ''tag''))))) (\<lambda>tag.
                 Inr (Some (seq, tag)))))"

definition http_put_checkpoint ::
    "wire \<Rightarrow> 'w http \<Rightarrow> int \<Rightarrow> bytes \<Rightarrow> api_client \<Rightarrow> 'w \<Rightarrow> (client_error + unit) \<times> api_client \<times> 'w" where
  "http_put_checkpoint W http seq tag =
     authed_parse http (req PUT ''/api/v1/vault/checkpoint'' (Some (J_Obj [
         (''seq'', J_Int seq), (''tag'', J_Str (wi_b64_encode W tag))])))
       (\<lambda>_. Inr ())"

definition api_list_sessions ::
    "wire \<Rightarrow> 'w http \<Rightarrow> api_client \<Rightarrow> 'w \<Rightarrow> (client_error + session_info list) \<times> api_client \<times> 'w" where
  "api_list_sessions W http =
     authed_parse http (req GET ''/api/v1/sessions'' None)
       (\<lambda>body. server_err (wi_sessions_of W (j_get body ''sessions'')))"

definition api_revoke_session ::
    "'w http \<Rightarrow> text \<Rightarrow> api_client \<Rightarrow> 'w \<Rightarrow> (client_error + unit) \<times> api_client \<times> 'w" where
  "api_revoke_session http i =
     authed_parse http (\<lambda>base. plain_request DELETE (base @ lit ''/api/v1/sessions/'' @ i) [] None)
       (\<lambda>_. Inr ())"

definition api_revoke_other_sessions ::
    "'w http \<Rightarrow> api_client \<Rightarrow> 'w \<Rightarrow> (client_error + int) \<times> api_client \<times> 'w" where
  "api_revoke_other_sessions http =
     authed_parse http (req POST ''/api/v1/sessions/revoke-others'' None)
       (\<lambda>body. Inr (or_default 0 (j_u64 (j_get body ''revoked''))))"

section \<open>The sync transport\<close>

definition net_err :: "client_error \<Rightarrow> transport_error" where
  "net_err e = Network (client_error_text e)"

definition http_pull ::
    "wire \<Rightarrow> 'w http \<Rightarrow> api_client \<times> 'w \<Rightarrow> int \<Rightarrow> (transport_error + pull_response) \<times> api_client \<times> 'w" where
  "http_pull W http aw since =
     (case api_authed http (\<lambda>base. plain_request GET (base @ lit ''/api/v1/vault/items'')
          [(''since'', dec_int since)] None) (fst aw) (snd aw) of
        (Inl e, aw') \<Rightarrow> (Inl (net_err e), aw')
      | (Inr (status, body), aw') \<Rightarrow>
          if status \<noteq> 200 then (Inl (Rejected (lit ''pull: '' @ status_text status)), aw')
          else (case wi_pull_of W body of Inl e \<Rightarrow> Inl (Rejected e) | Inr p \<Rightarrow> Inr p, aw'))"

definition current_of :: "wire \<Rightarrow> json \<Rightarrow> remote_item option" where
  "current_of W body = (case wi_remote_of W (j_get body ''current'') of Inl _ \<Rightarrow> None | Inr r \<Rightarrow> Some r)"

definition accepted_of :: "json \<Rightarrow> push_outcome" where
  "accepted_of body = Accepted (or_default 0 (j_i64 (j_get body ''revision'')))
     (or_default 0 (j_i64 (j_get body ''seq'')))"

definition http_push_upsert ::
    "wire \<Rightarrow> 'w http \<Rightarrow> api_client \<times> 'w \<Rightarrow> encrypted_item \<Rightarrow> (transport_error + push_outcome) \<times> api_client \<times> 'w" where
  "http_push_upsert W http aw item =
     (case api_authed http (\<lambda>base. plain_request PUT (base @ lit ''/api/v1/vault/items/'' @ ei_item_id item)
          [] (Some (wi_item_to W item))) (fst aw) (snd aw) of
        (Inl e, aw') \<Rightarrow> (Inl (net_err e), aw')
      | (Inr (status, body), aw') \<Rightarrow>
          (if status = 200 then Inr (accepted_of body)
           else if status = 409 then Inr (Conflicted (current_of W body))
           else Inl (Rejected (lit ''upsert: '' @ status_text status)), aw'))"

definition http_push_delete ::
    "wire \<Rightarrow> 'w http \<Rightarrow> api_client \<times> 'w \<Rightarrow> text \<Rightarrow> int \<Rightarrow> (transport_error + push_outcome) \<times> api_client \<times> 'w" where
  "http_push_delete W http aw item_id base_revision =
     (case api_authed http (\<lambda>base. plain_request DELETE (base @ lit ''/api/v1/vault/items/'' @ item_id)
          [(''base_revision'', dec_int base_revision)] None) (fst aw) (snd aw) of
        (Inl e, aw') \<Rightarrow> (Inl (net_err e), aw')
      | (Inr (status, body), aw') \<Rightarrow>
          (if status = 200 then Inr (accepted_of body)
           else if status = 409 then Inr (Conflicted (current_of W body))
           else if status = 404 then Inr (Conflicted None)
           else Inl (Rejected (lit ''delete: '' @ status_text status)), aw'))"

definition http_transport :: "wire \<Rightarrow> 'w http \<Rightarrow> (api_client \<times> 'w) transport" where
  "http_transport W http = \<lparr>t_pull = http_pull W http, t_upsert = http_push_upsert W http,
     t_delete = http_push_delete W http\<rparr>"

definition http_checkpoints :: "wire \<Rightarrow> 'w http \<Rightarrow> (api_client \<times> 'w) checkpoint_api" where
  "http_checkpoints W http = \<lparr>ck_get = (\<lambda>(a, w). http_get_checkpoint W http a w),
     ck_put = (\<lambda>(a, w) seq tag. http_put_checkpoint W http seq tag a w)\<rparr>"

end
