(* ===== verification/Vault_Frame.thy ===== *)
theory Vault_Frame
  imports Http_Client
begin

text \<open>
  What a sync cycle leaves alone, and what it costs: parts of a vault that no operation of the cycle
  writes (\<open>vault_observer\<close>), and a meter on the transport (\<open>metered_transport\<close>), both proved for any
  vault and then for the SQLite replica over HTTP.
\<close>

section \<open>What a cycle leaves alone\<close>

locale vault_observer = local_vault V wf for V :: "'v vault_ops" and wf +
  fixes obs :: "'v \<Rightarrow> 'o"
  assumes obs_set: "wf v \<Longrightarrow> obs (vo_set_last_seq V v s) = obs v"
    and obs_apply: "wf v \<Longrightarrow> obs (vo_apply_remote V v r) = obs v"
    and obs_clear: "wf v \<Longrightarrow> obs (vo_clear_items V v) = obs v"
    and obs_pop: "wf v \<Longrightarrow> obs (vo_pop_front_op V v) = obs v"
begin

lemmas obs_laws [simp] = obs_set obs_apply obs_clear obs_pop

lemma obs_fold: "wf v \<Longrightarrow> obs (fold (\<lambda>item v. vo_apply_remote V v item) items v) = obs v"
  by (induction items arbitrary: v) auto

lemma obs_pulled: "wf v \<Longrightarrow> obs (fst (apply_pulled V dirty items v rep)) = obs v"
  by (induction items arbitrary: v rep) auto

lemma obs_settle: "wf v \<Longrightarrow> obs (fst (settle V v op outcome rep)) = obs v"
  by (auto simp: settle_def split: push_outcome.splits option.splits)

lemma obs_loop:
  assumes "wf v" and "push_loop V T v t rep = Some (res, v', t')"
  shows "obs v' = obs v"
  using assms
proof (induction "vo_pending_ops V v" arbitrary: v t rep)
  case Nil
  from Nil(3) show ?case by (subst (asm) push_loop.simps, simp flip: Nil(1))
next
  case (Cons op ops)
  obtain r t1 where p: "push_op T t op = (r, t1)" by fastforce
  show ?case
  proof (cases r)
    case (Inl e)
    from Cons(4) show ?thesis by (subst (asm) push_loop.simps, simp add: p Inl flip: Cons(2))
  next
    case (Inr outcome)
    obtain v1 rep1 where s: "settle V v op outcome rep = (v1, rep1)" by fastforce
    let ?v = "vo_pop_front_op V v1"
    have loop: "push_loop V T ?v t1 rep1 = Some (res, v', t')"
      using Cons(4) by (subst (asm) push_loop.simps) (simp add: p Inr s flip: Cons(2))
    from settle_laws(1,3)[OF Cons(3) s] Cons(2)[symmetric]
    have q: "ops = vo_pending_ops V ?v" and w: "wf v1" by simp_all
    have "wf ?v" using w by simp
    from Cons(1)[OF q this loop] w obs_settle[OF Cons(3), of op outcome rep] s show ?thesis by simp
  qed
qed

lemma sync_obs:
  assumes "wf v" and "sync V T v t = Some (res, v', t')"
  shows "obs v' = obs v"
proof -
  obtain r1 t1 where pull: "t_pull T t (vo_last_seq V v) = (r1, t1)" by fastforce
  show ?thesis
  proof (cases r1)
    case (Inl e)
    with assms(2) show ?thesis by (simp add: sync_def pull)
  next
    case (Inr p)
    define v1 where "v1 = (if pr_full_resync p then vo_clear_items V v else v)"
    obtain v2 rep2 where a: "apply_pulled V (map op_item_id (vo_pending_ops V v1)) (pr_items p) v1
      (empty_report\<lparr>sr_full_resync := pr_full_resync p\<rparr>) = (v2, rep2)" by fastforce
    have w1: "wf v1" "obs v1 = obs v" using assms(1) by (simp_all add: v1_def)
    have w2: "wf v2" "obs v2 = obs v"
      using apply_pulled_laws[OF a w1(1)] obs_pulled[OF w1(1)] a w1(2) by (metis fst_conv)+
    obtain r3 v3 t2 where loop: "push_loop V T v2 t1 rep2 = Some (r3, v3, t2)"
      using push_loop_total[OF w2(1)] by (metis prod_cases3)
    have w3: "wf v3" "obs v3 = obs v"
      using push_loop_laws[OF w2(1) loop] obs_loop[OF w2(1) loop] w2(2) by simp_all
    note f = fold_apply_laws[OF w3(1)] obs_fold[OF w3(1)]
    show ?thesis
      using assms(2) w3 f assms(1)
      by (auto simp: sync_def pull Inr Let_def a[unfolded v1_def] loop split: sum.splits prod.splits if_splits)
  qed
qed

lemma synchronize_obs:
  assumes "wf v" and "synchronize C V T K vk v t = Some (res, v', t')"
  shows "obs v' = obs v"
  using assms(2) sync_obs[OF assms(1)]
  by (auto simp: synchronize_def Let_def split: sum.splits prod.splits option.splits if_splits)

end

text \<open>In the SQLite replica: every setting but the cursor.\<close>

definition saved_meta :: "sqlite_vault \<Rightarrow> text \<Rightarrow> text option" where
  "saved_meta db = (meta_get db)(lit ''last_seq'' := None)"

interpretation sqm: vault_observer "sqlite_ops J" "sqlite_wf J" saved_meta for J
proof (unfold_locales, goal_cases)
  case (1 v s)
  then show ?case by (simp add: sqlite_ops_def sqlite_set_last_seq_def meta_set_def saved_meta_def
      meta_get_def update_conv' fun_eq_iff)
next
  case (2 v r)
  then show ?case by (simp add: sqlite_ops_def sqlite_apply_remote_def saved_meta_def meta_get_def fun_eq_iff)
next
  case (3 v)
  then show ?case by (simp add: sqlite_ops_def saved_meta_def meta_get_def fun_eq_iff)
next
  case (4 v)
  then show ?case by (simp add: sqlite_ops_def sqlite_pop_wf saved_meta_def meta_get_def fun_eq_iff)
qed

section \<open>What a cycle costs\<close>

locale metered_transport =
  fixes T :: "'t transport" and meter :: "'t \<Rightarrow> nat" and k :: nat
  assumes pull_cost: "t_pull T t since = (pulled, t') \<Longrightarrow> meter t' \<le> meter t + k"
    and upsert_cost: "t_upsert T t e = (res, t') \<Longrightarrow> meter t' \<le> meter t + k"
    and delete_cost: "t_delete T t i b = (res, t') \<Longrightarrow> meter t' \<le> meter t + k"
begin

lemma push_cost: "push_op T t op = (res, t') \<Longrightarrow> meter t' \<le> meter t + k"
  by (cases op) (auto simp: push_op_def intro: upsert_cost delete_cost)

end

locale metered_replica = local_vault V wf + metered_transport T meter k
  for V :: "'v vault_ops" and wf and T :: "'t transport" and meter and k
begin

lemma loop_cost:
  assumes "wf v" and "push_loop V T v t rep = Some (res, v', t')"
  shows "meter t' \<le> meter t + k * length (vo_pending_ops V v)"
  using assms
proof (induction "vo_pending_ops V v" arbitrary: v t rep)
  case Nil
  from Nil(3) show ?case by (subst (asm) push_loop.simps, simp flip: Nil(1))
next
  case (Cons op ops)
  obtain r t1 where p: "push_op T t op = (r, t1)" by fastforce
  have c: "meter t1 \<le> meter t + k" by (rule push_cost[OF p])
  show ?case
  proof (cases r)
    case (Inl e)
    from Cons(4) have "t' = t1" by (subst (asm) push_loop.simps, simp add: p Inl flip: Cons(2))
    with c show ?thesis by (simp flip: Cons(2))
  next
    case (Inr outcome)
    obtain v1 rep1 where s: "settle V v op outcome rep = (v1, rep1)" by fastforce
    let ?v = "vo_pop_front_op V v1"
    have loop: "push_loop V T ?v t1 rep1 = Some (res, v', t')"
      using Cons(4) by (subst (asm) push_loop.simps) (simp add: p Inr s flip: Cons(2))
    from settle_laws(1,3)[OF Cons(3) s] Cons(2)[symmetric]
    have q: "ops = vo_pending_ops V ?v" and w: "wf ?v" by simp_all
    from Cons(1)[OF q w loop] c show ?thesis by (simp flip: Cons(2) q)
  qed
qed

text \<open>Two pulls and one push for each queued operation.\<close>

lemma sync_cost:
  assumes "wf v" and "sync V T v t = Some (res, v', t')"
  shows "meter t' \<le> meter t + k * (length (vo_pending_ops V v) + 2)"
proof -
  obtain r1 t1 where pull: "t_pull T t (vo_last_seq V v) = (r1, t1)" by fastforce
  have c1: "meter t1 \<le> meter t + k" by (rule pull_cost[OF pull])
  show ?thesis
  proof (cases r1)
    case (Inl e)
    with assms(2) c1 show ?thesis by (simp add: sync_def pull)
  next
    case (Inr p)
    define v1 where "v1 = (if pr_full_resync p then vo_clear_items V v else v)"
    obtain v2 rep2 where a: "apply_pulled V (map op_item_id (vo_pending_ops V v1)) (pr_items p) v1
      (empty_report\<lparr>sr_full_resync := pr_full_resync p\<rparr>) = (v2, rep2)" by fastforce
    have w1: "wf v1" "vo_pending_ops V v1 = vo_pending_ops V v" using assms(1) by (simp_all add: v1_def)
    from apply_pulled_laws[OF a w1(1)] w1(2)
    have w2: "wf v2" "vo_pending_ops V v2 = vo_pending_ops V v" by simp_all
    obtain r3 v3 t2 where loop: "push_loop V T v2 t1 rep2 = Some (r3, v3, t2)"
      using push_loop_total[OF w2(1)] by (metis prod_cases3)
    have c2: "meter t2 \<le> meter t1 + k * length (vo_pending_ops V v)"
      using loop_cost[OF w2(1) loop] w2(2) by simp
    obtain r4 t3 where tail: "t_pull T t2 (pr_latest_seq p) = (r4, t3)" by fastforce
    have c3: "meter t3 \<le> meter t2 + k" by (rule pull_cost[OF tail])
    have "t' = t1 \<or> t' = t2 \<or> t' = t3"
      using assms(2) by (auto simp: sync_def pull Inr Let_def a[unfolded v1_def] loop tail split: sum.splits if_splits)
    with c1 c2 c3 show ?thesis by (auto simp: algebra_simps)
  qed
qed

lemma synchronize_cost:
  assumes "wf v" and "synchronize C V T K vk v t = Some (res, v', t')"
    and "\<And>t r t'. ck_get K t = (r, t') \<Longrightarrow> meter t' \<le> meter t + k"
    and "\<And>t s g r t'. ck_put K t s g = (r, t') \<Longrightarrow> meter t' \<le> meter t + k"
  shows "meter t' \<le> meter t + k * (length (vo_pending_ops V v) + 4)"
proof -
  obtain g t1 where g: "ck_get K t = (g, t1)" by fastforce
  have c1: "meter t1 \<le> meter t + k" by (rule assms(3)[OF g])
  obtain x v2 t2 where s: "sync V T v t1 = Some (x, v2, t2)"
    using sync_total[OF assms(1), of T t1] by (metis prod_cases3)
  have c2: "meter t2 \<le> meter t1 + k * (length (vo_pending_ops V v) + 2)" by (rule sync_cost[OF assms(1) s])
  have c3: "meter (snd (ck_put K t2 q h)) \<le> meter t2 + k" for q h
    using assms(4) by (metis prod.collapse)
  have "t' = t1 \<or> t' = t2 \<or> (\<exists>q h. t' = snd (ck_put K t2 q h))"
    using assms(2) by (auto simp: synchronize_def g s Let_def split: sum.splits if_splits)
  with c1 c2 show ?thesis
  proof (elim disjE exE)
    fix q h assume "t' = snd (ck_put K t2 q h)"
    with c1 c2 c3[of q h] show ?thesis by (simp add: algebra_simps)
  qed (simp_all add: algebra_simps)
qed

end

text \<open>An HTTP library that counts the requests it sends.\<close>

definition counted :: "'w http \<Rightarrow> (nat \<times> 'w) http" where
  "counted http nw rq = (case http (snd nw) rq of (r, w') \<Rightarrow> (r, fst nw + 1, w'))"

lemma rotate_cost: "fst (snd (rotate_call (counted http) base nw tok)) = fst nw + 1"
  by (simp add: rotate_call_def counted_def split: prod.splits sum.splits)

lemma refresh_cost: "fst (snd (snd (refresh_session (rotate_call (counted http) base) c nw))) \<le> fst nw + 1"
proof (cases "cl_refresh c")
  case (Some tok)
  obtain r nw' where q: "rotate_call (counted http) base nw tok = (r, nw')" by (metis surj_pair)
  then have "fst nw' = fst nw + 1" using rotate_cost[of http base nw tok] by simp
  with Some q show ?thesis by (auto simp: refresh_session_def split: sum.split prod.split option.split)
qed (simp add: refresh_session_def)

lemma bearer_cost: "fst (snd (authed_once (bearer_call (counted http) build base) c nw)) \<le> fst nw + 1"
  by (auto simp: authed_once_def bearer_call_def counted_def split: option.splits prod.splits sum.splits)

text \<open>An authenticated call sends at most three requests: itself, one rotation, itself again.\<close>

lemma authed_cost: "fst (snd (snd (api_authed (counted http) build a nw))) \<le> fst nw + 3"
proof -
  let ?call = "bearer_call (counted http) build (ap_base_url a)" and ?c = "ap_tokens a"
    and ?rot = "rotate_call (counted http) (ap_base_url a)"
  obtain r1 w1 where o1: "authed_once ?call ?c nw = (r1, w1)" by (metis surj_pair)
  then have c1: "fst w1 \<le> fst nw + 1" using bearer_cost[of http build "ap_base_url a" ?c nw] by simp
  obtain r2 c' w2 where f: "refresh_session ?rot ?c w1 = (r2, c', w2)" by (metis prod_cases3)
  then have c2: "fst w2 \<le> fst w1 + 1" using refresh_cost[of http "ap_base_url a" ?c w1] by simp
  obtain r3 w3 where l: "authed_once ?call c' w2 = (r3, w3)" by (metis surj_pair)
  then have c3: "fst w3 \<le> fst w2 + 1" using bearer_cost[of http build "ap_base_url a" c' w2] by simp
  have "fst (snd (snd (authed ?rot ?call ?c nw))) \<in> {fst w1, fst w2, fst w3}"
    by (auto simp: authed_def o1 f l split: sum.splits)
  with c1 c2 c3 have "fst (snd (snd (authed ?rot ?call ?c nw))) \<le> fst nw + 3" by auto
  then show ?thesis by (auto simp: api_authed_def split: prod.splits sum.splits)
qed

lemma authed_costD: "api_authed (counted http) build a nw = (r, t') \<Longrightarrow> fst (snd t') \<le> fst nw + 3"
  using authed_cost[of http build a nw] by simp

interpretation mh: metered_transport "http_transport W (counted http)" "\<lambda>t. fst (snd t)" 3 for W http
  by unfold_locales
    (auto simp: http_transport_def http_pull_def http_push_upsert_def http_push_delete_def
      split: prod.splits sum.splits if_splits dest!: authed_costD)

interpretation mr: metered_replica "sqlite_ops J" "sqlite_wf J" "http_transport W (counted http)"
    "\<lambda>t. fst (snd t)" 3 for J W http
  by unfold_locales

lemma checkpoint_cost:
  "ck_get (http_checkpoints W (counted http)) t = (r, t') \<Longrightarrow> fst (snd t') \<le> fst (snd t) + 3"
  "ck_put (http_checkpoints W (counted http)) t s g = (r', t') \<Longrightarrow> fst (snd t') \<le> fst (snd t) + 3"
  by (auto simp: http_checkpoints_def http_get_checkpoint_def http_put_checkpoint_def authed_parse_def
      split: prod.splits sum.splits if_splits dest!: authed_costD)

text \<open>Claim C8.  A sync ends: whatever the server answers, one protected cycle returns after at most three
  requests for each queued operation and twelve more (two pulls and two checkpoint calls, each with at
  most one rotation and one repetition), and of the settings in the replica it touches the cursor only.\<close>

theorem sync_requests_bounded:
  assumes "sqlite_wf J v"
  shows "\<exists>res v' a' n w'. synchronize C (sqlite_ops J) (http_transport W (counted http))
        (http_checkpoints W (counted http)) vk v (a, 0, w) = Some (res, v', a', n, w')
    \<and> n \<le> 3 * length (sqlite_pending_ops J v) + 12 \<and> saved_meta v' = saved_meta v"
proof -
  obtain res v' a' n w' where r: "synchronize C (sqlite_ops J) (http_transport W (counted http))
        (http_checkpoints W (counted http)) vk v (a, 0, w) = Some (res, v', a', n, w')"
    using sq.synchronize_total[OF assms, of C "http_transport W (counted http)"
        "http_checkpoints W (counted http)" vk "(a, 0, w)"] by (metis prod_cases5)
  with mr.synchronize_cost[OF assms r checkpoint_cost] sqm.synchronize_obs[OF assms r]
  show ?thesis by (auto simp: sqlite_ops_sel)
qed

text \<open>For witnesses only.\<close>

definition toy_wire :: wire where
  "toy_wire = \<lparr>wi_b64_encode = map unat, wi_b64_decode = (\<lambda>t. Some (map word_of_nat t)),
     wi_kdf_to = (\<lambda>_. J_Null), wi_kdf_of = (\<lambda>_. Inr kdf_desktop),
     wi_wrapped_to = (\<lambda>_. J_Null), wi_wrapped_of = (\<lambda>_. Inl []),
     wi_item_to = (\<lambda>_. J_Null), wi_pull_of = (\<lambda>_. Inl []), wi_remote_of = (\<lambda>_. Inl []),
     wi_sessions_of = (\<lambda>_. Inl [])\<rparr>"

theorem sync_requests_bounded_witness:
  "\<exists>res v' a' n w'. synchronize toy_crypto (sqlite_ops toy_codec)
        (http_transport toy_wire (counted (\<lambda>w rq. (Inr (401, Inr J_Null), w))))
        (http_checkpoints toy_wire (counted (\<lambda>w rq. (Inr (401, Inr J_Null), w)))) (VaultKey [1]) sqlite_empty
        (api_with_tokens (lit ''localhost'') (Some [1]) (Some [2]), 0, ())
      = Some (res, v', a', n, w') \<and> n \<le> 12"
  using sync_requests_bounded[OF sqlite_empty_wf[OF toy_codec_ok], of toy_crypto toy_wire
      "\<lambda>w rq. (Inr (401, Inr J_Null), w)" "VaultKey [1]" "api_with_tokens (lit ''localhost'') (Some [1]) (Some [2])" "()"]
  by auto

end
