(* ===== verification/Password_Rules.thy ===== *)
theory Password_Rules
  imports Rust_Text
begin

text \<open>
  desktop-core \<open>password.rs\<close>, \<open>hibp.rs\<close> and \<open>session.rs\<close>: the rules for a new master password,
  the breached-password lookup and the auto-lock timer.  Third-party code is a parameter: the zxcvbn
  estimator \<open>zx\<close>, SHA-1 \<open>sha1\<close>, the HTTP client \<open>http\<close>.
\<close>

section \<open>The zxcvbn score\<close>

text \<open>\<open>zxcvbn::Score\<close> is non-exhaustive; \<open>Score_Other\<close> stands for a variant added later.\<close>

datatype zscore = Score_Zero | Score_One | Score_Two | Score_Three | Score_Four | Score_Other

instantiation zscore :: linorder
begin

fun zscore_rank :: "zscore \<Rightarrow> nat" where
  "zscore_rank Score_Zero = 0"
| "zscore_rank Score_One = 1"
| "zscore_rank Score_Two = 2"
| "zscore_rank Score_Three = 3"
| "zscore_rank Score_Four = 4"
| "zscore_rank Score_Other = 5"

definition less_eq_zscore :: "zscore \<Rightarrow> zscore \<Rightarrow> bool" where
  "less_eq_zscore s t \<longleftrightarrow> zscore_rank s \<le> zscore_rank t"

definition less_zscore :: "zscore \<Rightarrow> zscore \<Rightarrow> bool" where
  "less_zscore s t \<longleftrightarrow> zscore_rank s < zscore_rank t"

instance
proof
  fix s t u :: zscore
  show "s \<le> t \<Longrightarrow> t \<le> s \<Longrightarrow> s = t"
    by (cases s; cases t) (simp_all add: less_eq_zscore_def)
qed (auto simp: less_eq_zscore_def less_zscore_def)

end

record zentropy =
  ze_score :: zscore
  ze_feedback :: "(text option \<times> text list) option"

section \<open>Rules for a new master password\<close>

definition MIN_PASSWORD_LEN :: nat where "MIN_PASSWORD_LEN = 14"
definition MIN_ZXCVBN_SCORE :: zscore where "MIN_ZXCVBN_SCORE = Score_Three"

definition check_password_strength :: "text \<Rightarrow> text + unit" where
  "check_password_strength password =
     (if length password < MIN_PASSWORD_LEN
      then Inl (lit ''Weak master password '' @ [8212] @ lit '' it needs at least ''
             @ dec MIN_PASSWORD_LEN @ lit '' characters. A memorable passphrase of a few words''
             @ lit '' is the easiest way to get there.'')
      else Inr ())"

definition check_password_guessability ::
    "(text \<Rightarrow> text list \<Rightarrow> zentropy) \<Rightarrow> text \<Rightarrow> text list \<Rightarrow> text + unit" where
  "check_password_guessability zx password user_inputs =
     (let entropy = zx password user_inputs
      in if MIN_ZXCVBN_SCORE \<le> ze_score entropy then Inr ()
         else
           (let msg = lit ''This password is too easy to guess.''
            in case ze_feedback entropy of
                 None \<Rightarrow> Inl msg
               | Some (warning, suggestions) \<Rightarrow>
                   Inl (msg
                     @ (case warning of None \<Rightarrow> [] | Some w \<Rightarrow> lit '' '' @ w)
                     @ (case suggestions of [] \<Rightarrow> [] | s # _ \<Rightarrow> lit '' '' @ s))))"

section \<open>Breached passwords\<close>

definition hex_digit :: "nat \<Rightarrow> uchar" where
  "hex_digit n = (if n < 10 then 48 + n else 55 + n)"

definition hex_upper :: "bytes \<Rightarrow> text" where
  "hex_upper bs = concat (map (\<lambda>b. [hex_digit (unat b div 16), hex_digit (unat b mod 16)]) bs)"

definition prefix_suffix :: "(bytes \<Rightarrow> bytes) \<Rightarrow> text \<Rightarrow> text \<times> text" where
  "prefix_suffix sha1 password =
     (let hex = hex_upper (sha1 (as_bytes password)) in (take 5 hex, drop 5 hex))"

fun scan_lines :: "text list \<Rightarrow> text \<Rightarrow> nat option" where
  "scan_lines [] suffix = None"
| "scan_lines (line # ls) suffix =
     (case split_once 58 (trim line) of
        None \<Rightarrow> scan_lines ls suffix
      | Some (sfx, count) \<Rightarrow>
          if eq_ignore_ascii_case sfx suffix
          then (case parse_unsigned 64 (trim count) of
                  None \<Rightarrow> None
                | Some n \<Rightarrow> if 0 < n then Some n else None)
          else scan_lines ls suffix)"

definition find_suffix_count :: "text \<Rightarrow> text \<Rightarrow> nat option" where
  "find_suffix_count body suffix = scan_lines (text_lines body) suffix"

definition RANGE_URL :: "text" where "RANGE_URL = lit ''https://api.pwnedpasswords.com/range/''"

text \<open>\<open>http w url\<close> is the GET: a network error, or a status and the body (or the error reading it).\<close>

definition password_breach_count ::
    "(bytes \<Rightarrow> bytes) \<Rightarrow> ('w \<Rightarrow> text \<Rightarrow> (text + nat \<times> (text + text)) \<times> 'w) \<Rightarrow> 'w \<Rightarrow> text \<Rightarrow>
     (text + nat option) \<times> 'w" where
  "password_breach_count sha1 http w password =
     (let (prefix, suffix) = prefix_suffix sha1 password
      in case http w (RANGE_URL @ prefix) of
           (Inl e, w') \<Rightarrow> (Inl e, w')
         | (Inr (status, body), w') \<Rightarrow>
             if \<not> (200 \<le> status \<and> status < 300) then (Inl (lit ''HTTP '' @ dec status), w')
             else (case body of
                     Inl e \<Rightarrow> (Inl e, w')
                   | Inr b \<Rightarrow> (Inr (find_suffix_count b suffix), w')))"

section \<open>Auto-lock\<close>

text \<open>Times are durations in nanoseconds since an origin; the clock is monotone (\<open>Instant\<close>).\<close>

record auto_lock =
  al_timeout :: nat
  al_last_activity :: nat

definition DEFAULT_TIMEOUT :: nat where "DEFAULT_TIMEOUT = 15 * 60 * 10 ^ 9"

definition autolock_new :: "nat \<Rightarrow> nat \<Rightarrow> auto_lock" where
  "autolock_new now timeout = \<lparr>al_timeout = timeout, al_last_activity = now\<rparr>"

definition touch :: "nat \<Rightarrow> auto_lock \<Rightarrow> auto_lock" where
  "touch now a = a\<lparr>al_last_activity := now\<rparr>"

definition should_lock :: "nat \<Rightarrow> auto_lock \<Rightarrow> bool" where
  "should_lock now a \<longleftrightarrow> al_timeout a \<le> now - al_last_activity a"

definition remaining :: "nat \<Rightarrow> auto_lock \<Rightarrow> nat" where
  "remaining now a = al_timeout a - (now - al_last_activity a)"

definition set_timeout :: "nat \<Rightarrow> auto_lock \<Rightarrow> auto_lock" where
  "set_timeout timeout a = a\<lparr>al_timeout := timeout\<rparr>"

section \<open>Facts\<close>

lemma should_lock_remaining: "should_lock now a \<longleftrightarrow> remaining now a = 0"
  by (simp add: should_lock_def remaining_def)

lemma hex_upper_length [simp]: "length (hex_upper bs) = 2 * length bs"
  by (induction bs) (simp_all add: hex_upper_def)

lemma hex_digit_inj: "a < 16 \<Longrightarrow> b < 16 \<Longrightarrow> hex_digit a = hex_digit b \<longleftrightarrow> a = b"
  by (auto simp: hex_digit_def split: if_splits)

lemma hex_upper_inj: "hex_upper a = hex_upper b \<longleftrightarrow> a = b"
proof
  show "hex_upper a = hex_upper b \<Longrightarrow> a = b"
  proof (induction a arbitrary: b)
    case Nil
    then show ?case using hex_upper_length[of b] by (simp add: hex_upper_def)
  next
    case (Cons x a)
    then obtain y b' where b: "b = y # b'" by (cases b) (auto simp: hex_upper_def)
    have "unat x < 256" "unat y < 256" using unsigned_less[of x] unsigned_less[of y] by simp_all
    then have "unat x div 16 < 16" "unat y div 16 < 16" by simp_all
    with Cons.prems b have "unat x div 16 = unat y div 16" "unat x mod 16 = unat y mod 16" "hex_upper a = hex_upper b'"
      by (simp_all add: hex_upper_def hex_digit_inj)
    then have "unat x = unat y" by (metis div_mult_mod_eq)
    then have "x = y" by (simp add: word_unat_eq_iff)
    with Cons.IH[of b'] b \<open>hex_upper a = hex_upper b'\<close> show ?case by simp
  qed
qed simp

text \<open>A range response: one \<open>suffix:count\<close> per line.\<close>

definition range_row :: "text \<times> nat \<Rightarrow> text" where
  "range_row r = fst r @ [58] @ dec (snd r) @ [13, 10]"

definition plain_suffix :: "text \<Rightarrow> bool" where
  "plain_suffix s \<longleftrightarrow> (\<forall>c \<in> set s. is_ascii_alphanumeric c)"

lemma no_space_trim: "\<forall>c \<in> set s. \<not> is_whitespace c \<Longrightarrow> trim s = s"
proof -
  assume a: "\<forall>c \<in> set s. \<not> is_whitespace c"
  have "dropWhile is_whitespace t = t" if "\<forall>c \<in> set t. \<not> is_whitespace c" for t
    using that by (cases t) simp_all
  from this[of s] this[of "rev s"] a have "dropWhile is_whitespace s = s" "dropWhile is_whitespace (rev s) = rev s"
    by simp_all
  then show "trim s = s" by (simp add: trim_def trim_start_def trim_end_def)
qed

lemma dec_plain: "\<forall>c \<in> set (dec n). 48 \<le> c \<and> c \<le> 57"
  using dec_digits[of n] by (simp add: list_all_iff is_ascii_digit_def)

lemma parse_dec: "n < 2 ^ 64 \<Longrightarrow> parse_unsigned 64 (dec n) = Some n"
proof -
  have "hd (dec n) \<noteq> 43" using dec_plain[of n] dec_nonempty[of n] by (cases "dec n") auto
  then show "n < 2 ^ 64 \<Longrightarrow> parse_unsigned 64 (dec n) = Some n" by (simp add: parse_unsigned_def)
qed

lemma range_row_parts:
  assumes "plain_suffix s"
  shows "10 \<notin> set (s @ [58] @ dec n @ [13])" and "trim (s @ [58] @ dec n) = s @ [58] @ dec n"
    and "split_once 58 (s @ [58] @ dec n) = Some (s, dec n)" and "trim (dec n) = dec n"
proof -
  have s: "48 \<le> c \<and> c \<le> 122 \<and> c \<noteq> 58" if "c \<in> set s" for c
    using assms that by (auto simp: plain_suffix_def is_ascii_alphanumeric_def is_ascii_digit_def
        is_ascii_upper_def is_ascii_lower_def)
  have d: "48 \<le> c \<and> c \<le> 57" if "c \<in> set (dec n)" for c using that dec_plain[of n] by blast
  have "10 \<notin> set s" "58 \<notin> set s" using s[of 10] s[of 58] by auto
  moreover have "10 \<notin> set (dec n)" using d[of 10] by auto
  ultimately show "10 \<notin> set (s @ [58] @ dec n @ [13])"
    and "split_once 58 (s @ [58] @ dec n) = Some (s, dec n)" by (simp_all add: split_once_Some)
  have "48 \<le> c \<and> c \<le> 122" if "c \<in> set (s @ [58] @ dec n)" for c
    using that s[of c] d[of c] by auto
  then have w: "\<not> is_whitespace c" if "c \<in> set (s @ [58] @ dec n)" for c
    using that by (fastforce simp: is_whitespace_def)
  then show "trim (s @ [58] @ dec n) = s @ [58] @ dec n" by (intro no_space_trim) blast
  from w show "trim (dec n) = dec n" by (intro no_space_trim) auto
qed

lemma scan_rows:
  assumes "\<forall>r \<in> set rows. plain_suffix (fst r) \<and> snd r < 2 ^ 64"
  shows "find_suffix_count (concat (map range_row rows)) suffix =
    (case List.find (\<lambda>r. eq_ignore_ascii_case (fst r) suffix) rows of
       Some (_, n) \<Rightarrow> if 0 < n then Some n else None | None \<Rightarrow> None)"
  using assms
proof (induction rows)
  case Nil
  then show ?case by (simp add: find_suffix_count_def)
next
  case (Cons r rows)
  obtain s n where r: "r = (s, n)" by fastforce
  with Cons.prems have ok: "plain_suffix s" "n < 2 ^ 64" by simp_all
  note parts = range_row_parts[OF ok(1), of n]
  have "text_lines (range_row (s, n) @ rest) = (s @ [58] @ dec n) # text_lines rest" for rest
    using text_lines_line[OF parts(1), of rest] strip_cr_snoc[of "s @ [58] @ dec n"]
    by (simp add: range_row_def)
  with Cons parts ok show ?case
    by (simp add: r find_suffix_count_def parse_dec del: append.simps)
qed

text \<open>The breach lookup is exact and private: the password's SHA-1 is split into the five
  characters sent and the rest kept, two passwords with different digests never share both; on a range
  response of \<open>suffix:count\<close> lines the lookup gives the count of the first line with the password's
  suffix (in either case), and nothing when there is none or when it is a padding line (count zero).\<close>

lemma breach_lookup_exact:
  assumes "\<forall>bs. length (sha1 bs) = 20"
    and "\<forall>r \<in> set rows. plain_suffix (fst r) \<and> snd r < 2 ^ 64"
  shows "length (fst (prefix_suffix sha1 password)) = 5
    \<and> (prefix_suffix sha1 password = prefix_suffix sha1 password' \<longleftrightarrow>
         sha1 (as_bytes password) = sha1 (as_bytes password'))
    \<and> find_suffix_count (concat (map range_row rows)) (snd (prefix_suffix sha1 password)) =
        (case List.find (\<lambda>r. eq_ignore_ascii_case (fst r) (snd (prefix_suffix sha1 password))) rows of
           Some (_, n) \<Rightarrow> if 0 < n then Some n else None | None \<Rightarrow> None)"
proof -
  have "prefix_suffix sha1 password = prefix_suffix sha1 password' \<longleftrightarrow>
      hex_upper (sha1 (as_bytes password)) = hex_upper (sha1 (as_bytes password'))"
    by (auto simp: prefix_suffix_def Let_def) (metis append_take_drop_id)
  with assms(1) scan_rows[OF assms(2)] show ?thesis
    by (simp add: prefix_suffix_def Let_def hex_upper_inj)
qed

definition toy_sha1 :: "bytes \<Rightarrow> bytes" where
  "toy_sha1 bs = replicate 20 (fold (+) bs 0)"

lemma plain_suffix_hex: "plain_suffix (hex_upper bs)"
proof -
  have "is_ascii_alphanumeric (hex_digit n)" if "n < 16" for n
    using that by (simp add: hex_digit_def is_ascii_alphanumeric_def is_ascii_digit_def is_ascii_upper_def)
  moreover have "unat b div 16 < 16" for b :: byte
  proof -
    have "unat b < 256" using unsigned_less[of b] by simp
    then show ?thesis by simp
  qed
  ultimately show ?thesis by (auto simp: plain_suffix_def hex_upper_def)
qed

end
