(* ===== verification/Vault_Health.thy ===== *)
theory Vault_Health
  imports Password_Rules "HOL-Library.Product_Lexorder" "HOL-Library.Multiset"
begin

text \<open>
  desktop-core \<open>health.rs\<close>: the report on weak and reused passwords, and what it computes.
\<close>

section \<open>The analysis\<close>

record health_entry =
  he_item_id :: "text"
  he_name :: "text"
  he_password :: "text"

record item_health =
  ih_item_id :: "text"
  ih_name :: "text"
  ih_score :: byte
  ih_reused :: bool

record health_report =
  hr_items :: "item_health list"
  hr_weak_count :: nat
  hr_reused_count :: nat
  hr_total_with_password :: nat

definition WEAK_SCORE_MAX :: byte where "WEAK_SCORE_MAX = 2"

fun score_u8 :: "zscore \<Rightarrow> byte" where
  "score_u8 Score_Zero = 0"
| "score_u8 Score_One = 1"
| "score_u8 Score_Two = 2"
| "score_u8 Score_Three = 3"
| "score_u8 Score_Four = 4"
| "score_u8 _ = 4"

text \<open>The indices of the entries, grouped by password (the order of the groups does not matter).\<close>

definition group_entries :: "health_entry list \<Rightarrow> (text \<times> nat list) list" where
  "group_entries entries =
     fold (\<lambda>(i, e) groups. AList.map_default (he_password e) [i] (\<lambda>ids. ids @ [i]) groups)
       (enumerate 0 entries) []"

definition mark_reused :: "(text \<times> nat list) list \<Rightarrow> bool list \<Rightarrow> bool list" where
  "mark_reused groups reused =
     fold (\<lambda>(_, ids) reused. if 1 < length ids then fold (\<lambda>i r. r[i := True]) ids reused else reused)
       groups reused"

fun flag_entries ::
    "(text \<Rightarrow> text list \<Rightarrow> zentropy) \<Rightarrow> bool list \<Rightarrow> (nat \<times> health_entry) list \<Rightarrow>
     item_health list \<times> nat \<times> nat \<Rightarrow> item_health list \<times> nat \<times> nat" where
  "flag_entries zx reused [] st = st"
| "flag_entries zx reused ((i, e) # es) (items, weak_count, reused_count) =
     (let score = score_u8 (ze_score (zx (he_password e) []));
          is_weak = score \<le> WEAK_SCORE_MAX;
          is_reused = reused ! i;
          items' = (if is_weak \<or> is_reused
                    then items @ [\<lparr>ih_item_id = he_item_id e, ih_name = he_name e,
                                    ih_score = score, ih_reused = is_reused\<rparr>]
                    else items)
      in flag_entries zx reused es
           (items', if is_weak then weak_count + 1 else weak_count,
            if is_reused then reused_count + 1 else reused_count))"

definition analyze :: "(text \<Rightarrow> text list \<Rightarrow> zentropy) \<Rightarrow> health_entry list \<Rightarrow> health_report" where
  "analyze zx entries =
     (let reused = mark_reused (group_entries entries) (replicate (length entries) False);
          (items, weak_count, reused_count) = flag_entries zx reused (enumerate 0 entries) ([], 0, 0)
      in \<lparr>hr_items = sort_key (\<lambda>h. (ih_score h, \<not> ih_reused h)) items,
          hr_weak_count = weak_count, hr_reused_count = reused_count,
          hr_total_with_password = length entries\<rparr>)"

section \<open>Facts\<close>

lemma group_entries_snoc:
  "group_entries (es @ [e]) =
     AList.map_default (he_password e) [length es] (\<lambda>ids. ids @ [length es]) (group_entries es)"
  by (simp add: group_entries_def enumerate_append_eq)

lemma group_entries_map:
  "map_of (group_entries es) p =
     (let ids = filter (\<lambda>i. he_password (es ! i) = p) [0..<length es] in if ids = [] then None else Some ids)
   \<and> distinct (map fst (group_entries es))"
proof (induction es arbitrary: p rule: rev_induct)
  case Nil
  then show ?case by (simp add: group_entries_def)
next
  case (snoc e es)
  have "filter (\<lambda>i. he_password ((es @ [e]) ! i) = q) [0..<length es]
      = filter (\<lambda>i. he_password (es ! i) = q) [0..<length es]" for q
    by (rule filter_cong) (auto simp: nth_append)
  with snoc show ?case
    by (auto simp: group_entries_snoc map_of_map_default distinct_map_default Let_def split: option.splits if_splits)
qed

lemma fold_mark: "length (fold (\<lambda>i r. r[i := True]) ids r) = length r
   \<and> (\<forall>j < length r. fold (\<lambda>i r. r[i := True]) ids r ! j = (r ! j \<or> j \<in> set ids))"
proof (induction ids arbitrary: r)
  case (Cons a ids)
  have "j < length r \<Longrightarrow> r[a := True] ! j = (r ! j \<or> j = a)" for j
    by (cases "a = j") simp_all
  with Cons[of "r[a := True]"] show ?case by auto
qed simp

lemma mark_reused_nth:
  "length (mark_reused groups r) = length r
   \<and> (\<forall>j < length r. mark_reused groups r ! j =
        (r ! j \<or> (\<exists>(p, ids) \<in> set groups. 1 < length ids \<and> j \<in> set ids)))"
proof (induction groups arbitrary: r)
  case Nil
  then show ?case by (simp add: mark_reused_def)
next
  case (Cons g groups)
  obtain p ids where g: "g = (p, ids)" by fastforce
  define r' where "r' = (if 1 < length ids then fold (\<lambda>i r. r[i := True]) ids r else r)"
  have r': "length r' = length r" "\<forall>j < length r. r' ! j = (r ! j \<or> 1 < length ids \<and> j \<in> set ids)"
    using fold_mark[of ids r] by (auto simp: r'_def)
  have "mark_reused (g # groups) r = mark_reused groups r'"
    by (simp add: mark_reused_def g r'_def)
  with Cons[of r'] r' show ?case by (auto simp: g)
qed

text \<open>Two indices in one group: the password occurs twice.\<close>

lemma reused_iff:
  assumes "i < length es"
  shows "mark_reused (group_entries es) (replicate (length es) False) ! i \<longleftrightarrow>
    (\<exists>j < length es. j \<noteq> i \<and> he_password (es ! j) = he_password (es ! i))"
proof -
  define ids where "ids p = filter (\<lambda>j. he_password (es ! j) = p) [0..<length es]" for p
  have m: "map_of (group_entries es) p = Some x \<longleftrightarrow> x = ids p \<and> x \<noteq> []" for p x
    using group_entries_map[of es p] by (auto simp: ids_def Let_def)
  have "(p, x) \<in> set (group_entries es) \<longleftrightarrow> x = ids p \<and> x \<noteq> []" for p x
    using m[of p x] group_entries_map[of es p] by (metis map_of_eq_Some_iff)
  then have "mark_reused (group_entries es) (replicate (length es) False) ! i \<longleftrightarrow>
      (\<exists>p. ids p \<noteq> [] \<and> 1 < length (ids p) \<and> i \<in> set (ids p))"
    using mark_reused_nth[of "group_entries es" "replicate (length es) False"] assms by auto
  also have "\<dots> \<longleftrightarrow> 1 < length (ids (he_password (es ! i)))"
    using assms by (auto simp: ids_def filter_empty_conv)
  also have "\<dots> \<longleftrightarrow> 1 < card (set (ids (he_password (es ! i))))"
    using distinct_card[of "ids (he_password (es ! i))"] by (simp add: ids_def)
  also have "\<dots> \<longleftrightarrow> (\<exists>j \<in> set (ids (he_password (es ! i))). j \<noteq> i)"
  proof
    assume c: "1 < card (set (ids (he_password (es ! i))))"
    show "\<exists>j \<in> set (ids (he_password (es ! i))). j \<noteq> i"
    proof (rule ccontr)
      assume "\<not> ?thesis"
      then have "card (set (ids (he_password (es ! i)))) \<le> card {i}" by (intro card_mono) auto
      with c show False by simp
    qed
  next
    assume "\<exists>j \<in> set (ids (he_password (es ! i))). j \<noteq> i"
    then obtain j where j: "j \<in> set (ids (he_password (es ! i)))" "j \<noteq> i" by blast
    with assms have "card {i, j} \<le> card (set (ids (he_password (es ! i))))"
      by (intro card_mono) (auto simp: ids_def)
    with j show "1 < card (set (ids (he_password (es ! i))))" by simp
  qed
  finally show ?thesis by (auto simp: ids_def)
qed

lemma flag_entries_eq:
  "flag_entries zx reused ies (items, w, r) =
     (items @ map (\<lambda>(i, e). \<lparr>ih_item_id = he_item_id e, ih_name = he_name e,
          ih_score = score_u8 (ze_score (zx (he_password e) [])), ih_reused = reused ! i\<rparr>)
        (filter (\<lambda>(i, e). score_u8 (ze_score (zx (he_password e) [])) \<le> WEAK_SCORE_MAX \<or> reused ! i) ies),
      w + length (filter (\<lambda>(i, e). score_u8 (ze_score (zx (he_password e) [])) \<le> WEAK_SCORE_MAX) ies),
      r + length (filter (\<lambda>(i, e). reused ! i) ies))"
  by (induction ies arbitrary: items w r) (auto simp: Let_def)

text \<open>The verdict on entry \<open>i\<close>, said directly.\<close>

definition weak_entry :: "(text \<Rightarrow> text list \<Rightarrow> zentropy) \<Rightarrow> health_entry list \<Rightarrow> nat \<Rightarrow> bool" where
  "weak_entry zx es i \<longleftrightarrow> ze_score (zx (he_password (es ! i)) []) \<le> Score_Two"

definition reused_entry :: "health_entry list \<Rightarrow> nat \<Rightarrow> bool" where
  "reused_entry es i \<longleftrightarrow> (\<exists>j < length es. j \<noteq> i \<and> he_password (es ! j) = he_password (es ! i))"

lemma score_weak: "score_u8 s \<le> WEAK_SCORE_MAX \<longleftrightarrow> s \<le> Score_Two"
  by (cases s) (simp_all add: WEAK_SCORE_MAX_def less_eq_zscore_def)

lemma length_filter_enumerate:
  "length (filter (\<lambda>(i, e). P i e) (enumerate 0 es)) = card {i. i < length es \<and> P i (es ! i)}"
proof -
  have e: "enumerate 0 es = map (\<lambda>i. (i, es ! i)) [0..<length es]"
    by (rule nth_equalityI) (simp_all add: nth_enumerate_eq)
  have "distinct (filter (\<lambda>i. P i (es ! i)) [0..<length es])" by simp
  from distinct_card[OF this] show ?thesis
    by (simp add: e filter_map comp_def conj_commute atLeast0LessThan lessThan_def)
qed

text \<open>Claim C15.  The health report says what it should: it lists exactly the entries whose password is
  weak (score at most two) or equal to that of another entry, each once, with its score and its reuse
  flag, weakest first and among equals the reused ones first, and it counts the weak, the reused and
  all entries.\<close>

theorem health_report_exact:
  "(let r = analyze zx es;
        verdict = (\<lambda>i. \<lparr>ih_item_id = he_item_id (es ! i), ih_name = he_name (es ! i),
          ih_score = score_u8 (ze_score (zx (he_password (es ! i)) [])), ih_reused = reused_entry es i\<rparr>)
    in mset (hr_items r) =
         mset (map verdict (filter (\<lambda>i. weak_entry zx es i \<or> reused_entry es i) [0..<length es]))
     \<and> sorted (map (\<lambda>h. (ih_score h, \<not> ih_reused h)) (hr_items r))
     \<and> hr_weak_count r = card {i. i < length es \<and> weak_entry zx es i}
     \<and> hr_reused_count r = card {i. i < length es \<and> reused_entry es i}
     \<and> hr_total_with_password r = length es)"
proof -
  define reused where "reused = mark_reused (group_entries es) (replicate (length es) False)"
  have ru: "i < length es \<Longrightarrow> reused ! i = reused_entry es i" for i
    using reused_iff[of i es] by (simp add: reused_def reused_entry_def)
  have e: "enumerate 0 es = map (\<lambda>i. (i, es ! i)) [0..<length es]"
    by (rule nth_equalityI) (simp_all add: nth_enumerate_eq)
  have weak: "weak_entry zx es i \<longleftrightarrow> score_u8 (ze_score (zx (he_password (es ! i)) [])) \<le> WEAK_SCORE_MAX" for i
    by (simp add: weak_entry_def score_weak)
  have f: "filter (\<lambda>i. score_u8 (ze_score (zx (he_password (es ! i)) [])) \<le> WEAK_SCORE_MAX \<or> reused ! i) [0..<length es]
      = filter (\<lambda>i. weak_entry zx es i \<or> reused_entry es i) [0..<length es]"
    by (rule filter_cong) (simp_all add: ru weak)
  have m: "map (\<lambda>i. \<lparr>ih_item_id = he_item_id (es ! i), ih_name = he_name (es ! i),
          ih_score = score_u8 (ze_score (zx (he_password (es ! i)) [])), ih_reused = reused ! i\<rparr>)
        (filter P [0..<length es]) =
      map (\<lambda>i. \<lparr>ih_item_id = he_item_id (es ! i), ih_name = he_name (es ! i),
          ih_score = score_u8 (ze_score (zx (he_password (es ! i)) [])), ih_reused = reused_entry es i\<rparr>)
        (filter P [0..<length es])" for P
    by (rule map_cong) (auto simp: ru)
  have c: "{i. i < length es \<and> reused ! i} = {i. i < length es \<and> reused_entry es i}"
    using ru by auto
  show ?thesis
    unfolding analyze_def reused_def[symmetric] flag_entries_eq length_filter_enumerate
    by (simp add: Let_def e filter_map comp_def f m c weak)
qed

end
