(* ===== verification/Desktop_Items.thy ===== *)
theory Desktop_Items
  imports Rust_Text
begin

text \<open>
  desktop-core \<open>items.rs\<close>: the plaintext inside the envelopes, its tags, the search and the list
  view.  Unicode lower-casing of a whole string (\<open>str::to_lowercase\<close>) is the parameter
  \<open>lc\<close>.  \<open>to_plaintext\<close> and \<open>from_plaintext\<close> are serde's JSON codec: the record
  \<open>item_codec\<close>.
\<close>

section \<open>Items\<close>

datatype item =
    Login_Item (it_name: "text") (it_username: "text") (it_password: "text") (it_url: "text")
      (it_notes: "text") (it_tags: "text list")
  | Note_Item (it_name: "text") (it_notes: "text") (it_tags: "text list")
  | Card_Item (it_name: "text") (it_cardholder: "text") (it_number: "text") (it_expiry: "text")
      (it_code: "text") (it_notes: "text") (it_tags: "text list")

fun item_kind :: "item \<Rightarrow> text" where
  "item_kind (Login_Item _ _ _ _ _ _) = lit ''login''"
| "item_kind (Note_Item _ _ _) = lit ''note''"
| "item_kind (Card_Item _ _ _ _ _ _ _) = lit ''card''"

text \<open>Writing through \<open>tags_mut\<close>, and through a matched \<open>name\<close>.\<close>

fun set_tags :: "item \<Rightarrow> text list \<Rightarrow> item" where
  "set_tags (Login_Item n u p l x _) ts = Login_Item n u p l x ts"
| "set_tags (Note_Item n x _) ts = Note_Item n x ts"
| "set_tags (Card_Item n h c e k x _) ts = Card_Item n h c e k x ts"

fun set_name :: "item \<Rightarrow> text \<Rightarrow> item" where
  "set_name (Login_Item _ u p l x ts) n = Login_Item n u p l x ts"
| "set_name (Note_Item _ x ts) n = Note_Item n x ts"
| "set_name (Card_Item _ h c e k x ts) n = Card_Item n h c e k x ts"

text \<open>The redacted \<open>Debug\<close> rendering.\<close>

definition item_debug :: "item \<Rightarrow> text" where
  "item_debug i = lit ''Item::'' @ item_kind i @ lit ''(<redacted>)''"

section \<open>Tags\<close>

definition tag_norm :: "(text \<Rightarrow> text) \<Rightarrow> text \<Rightarrow> text" where
  "tag_norm lc t = lc (trim t)"

definition has_tag :: "(text \<Rightarrow> text) \<Rightarrow> item \<Rightarrow> text \<Rightarrow> bool" where
  "has_tag lc i tag = list_ex (\<lambda>t. tag_norm lc t = tag_norm lc tag) (it_tags i)"

definition retag :: "(text \<Rightarrow> text) \<Rightarrow> item \<Rightarrow> text \<Rightarrow> text option \<Rightarrow> item \<times> bool" where
  "retag lc i from to =
     (let from_norm = tag_norm lc from
      in if \<not> list_ex (\<lambda>t. tag_norm lc t = from_norm) (it_tags i) then (i, False)
         else
           (let tags = filter (\<lambda>t. tag_norm lc t \<noteq> from_norm) (it_tags i)
            in case to of
                 None \<Rightarrow> (set_tags i tags, True)
               | Some new0 \<Rightarrow>
                   (let new = trim new0
                    in if new \<noteq> [] \<and> \<not> list_ex (\<lambda>t. tag_norm lc t = lc new) tags
                       then (set_tags i (tags @ [new]), True)
                       else (set_tags i tags, True))))"

section \<open>Search and the list view\<close>

fun haystacks :: "item \<Rightarrow> text list" where
  "haystacks (Login_Item name username password url notes tags) = [name, username, url] @ tags"
| "haystacks (Note_Item name notes tags) = [name] @ tags"
| "haystacks (Card_Item name cardholder number expiry code notes tags) = [name, cardholder] @ tags"

definition matches :: "(text \<Rightarrow> text) \<Rightarrow> item \<Rightarrow> text \<Rightarrow> bool" where
  "matches lc i query =
     (let q = lc (trim query)
      in if q = [] then True else list_ex (\<lambda>h. str_contains (lc h) q) (haystacks i))"

record item_summary =
  su_item_id :: "text"
  su_kind :: "text"
  su_name :: "text"
  su_subtitle :: "text"
  su_tags :: "text list"

fun subtitle :: "item \<Rightarrow> text" where
  "subtitle (Login_Item name username password url notes tags) =
     (if username = [] then url else username)"
| "subtitle (Note_Item name notes tags) = []"
| "subtitle (Card_Item name cardholder number expiry code notes tags) =
     (let digits = filter is_ascii_digit number
      in if 4 \<le> length digits
         then replicate 4 8226 @ [32] @ drop (length digits - 4) digits
         else [])"

definition item_summary_of :: "text \<Rightarrow> item \<Rightarrow> item_summary" where
  "item_summary_of item_id i = \<lparr>su_item_id = item_id, su_kind = item_kind i, su_name = it_name i,
     su_subtitle = subtitle i, su_tags = it_tags i\<rparr>"

section \<open>The JSON codec\<close>

record item_codec =
  ic_to :: "item \<Rightarrow> text + bytes"
  ic_of :: "bytes \<Rightarrow> text + item"

text \<open>What the code relies on of serde: an item serialises, and reads back as itself.\<close>

definition item_codec_ok :: "item_codec \<Rightarrow> bool" where
  "item_codec_ok IC \<longleftrightarrow> (\<forall>i. \<exists>b. ic_to IC i = Inr b \<and> ic_of IC b = Inr i)"

section \<open>Facts\<close>

lemma set_tags_sel [simp]:
  "it_tags (set_tags i ts) = ts" "it_name (set_tags i ts) = it_name i"
  "it_notes (set_tags i ts) = it_notes i" "item_kind (set_tags i ts) = item_kind i"
  "set_tags (set_tags i ts) us = set_tags i us" "set_tags i (it_tags i) = i"
  by (cases i; simp)+

lemma list_ex_image: "list_ex (\<lambda>x. f x = y) xs \<longleftrightarrow> y \<in> f ` set xs"
  by (induction xs) auto

lemma image_append_new:
  "f ` (set xs \<union> set (filter (\<lambda>y. f y \<notin> f ` set xs) ys)) = f ` set xs \<union> f ` set ys"
  "f ` set xs \<inter> f ` set (filter (\<lambda>y. f y \<notin> f ` set xs) ys) = {}"
  by (induction ys) (simp_all, blast+)

lemma has_tag_iff: "has_tag lc i tag \<longleftrightarrow> tag_norm lc tag \<in> tag_norm lc ` set (it_tags i)"
  by (simp add: has_tag_def list_ex_image)

lemma has_tag_norm: "tag_norm lc s = tag_norm lc t \<Longrightarrow> has_tag lc i s = has_tag lc i t"
  by (simp add: has_tag_def)

lemma tag_norm_trim [simp]: "tag_norm lc (trim t) = tag_norm lc t"
  by (simp add: tag_norm_def)

text \<open>The effect of \<open>retag\<close> in one equation: which name it adds, if any.\<close>

definition new_tag :: "text option \<Rightarrow> text list" where
  "new_tag to = (case to of None \<Rightarrow> [] | Some n \<Rightarrow> if trim n = [] then [] else [trim n])"

lemma retag_eq:
  "retag lc i from to =
     (if has_tag lc i from
      then (set_tags i (let kept = filter (\<lambda>t. tag_norm lc t \<noteq> tag_norm lc from) (it_tags i)
              in kept @ filter (\<lambda>n. tag_norm lc n \<notin> tag_norm lc ` set kept) (new_tag to)), True)
      else (i, False))"
proof -
  have "list_ex (\<lambda>t. tag_norm lc t = lc (trim n)) kept \<longleftrightarrow> tag_norm lc n \<in> tag_norm lc ` set kept" for n kept
    by (simp add: list_ex_image tag_norm_def)
  moreover have "tag_norm lc (trim n) = tag_norm lc n" for n by simp
  ultimately show ?thesis
    by (cases to) (simp_all add: retag_def has_tag_def new_tag_def Let_def)
qed

text \<open>Renaming or deleting a tag does to an item exactly what it says: it reports a change
  exactly when the item carried the tag; an item without it is untouched; afterwards the item carries
  the tags it carried before, except the old one, and the new one (when the name is not blank), in any
  spelling of case and surrounding white space; no tag is duplicated; everything else is kept.\<close>

lemma retag_spec:
  "(case retag lc i from to of (i', changed) \<Rightarrow>
      changed = has_tag lc i from
    \<and> (\<not> changed \<longrightarrow> i' = i)
    \<and> set_tags i' (it_tags i) = i
    \<and> (\<forall>t. has_tag lc i' t \<longleftrightarrow>
          (has_tag lc i t \<and> \<not> (changed \<and> tag_norm lc t = tag_norm lc from))
          \<or> (changed \<and> (\<exists>n. to = Some n \<and> trim n \<noteq> [] \<and> tag_norm lc t = tag_norm lc n)))
    \<and> (distinct (map (tag_norm lc) (it_tags i)) \<longrightarrow> distinct (map (tag_norm lc) (it_tags i'))))"
proof (cases "has_tag lc i from")
  case True
  define kept where "kept = filter (\<lambda>t. tag_norm lc t \<noteq> tag_norm lc from) (it_tags i)"
  have r: "retag lc i from to
      = (set_tags i (kept @ filter (\<lambda>n. tag_norm lc n \<notin> tag_norm lc ` set kept) (new_tag to)), True)"
    using True by (simp add: retag_eq kept_def Let_def)
  have kept: "tag_norm lc t \<in> tag_norm lc ` set kept \<longleftrightarrow>
      has_tag lc i t \<and> tag_norm lc t \<noteq> tag_norm lc from" for t
    by (auto simp: kept_def has_tag_iff image_iff)
  have new: "tag_norm lc t \<in> tag_norm lc ` set (new_tag to) \<longleftrightarrow>
      (\<exists>n. to = Some n \<and> trim n \<noteq> [] \<and> tag_norm lc t = tag_norm lc n)" for t
    by (cases to) (auto simp: new_tag_def)
  have "distinct (map (tag_norm lc) (filter p (new_tag to)))" for p by (cases to) (auto simp: new_tag_def)
  then have d: "distinct (map (tag_norm lc) (it_tags i)) \<longrightarrow> distinct (map (tag_norm lc)
      (kept @ filter (\<lambda>n. tag_norm lc n \<notin> tag_norm lc ` set kept) (new_tag to)))"
    unfolding map_append distinct_append set_map by (simp add: image_append_new(2) kept_def distinct_map_filter del: set_filter)
  have "has_tag lc (set_tags i (kept @ filter (\<lambda>n. tag_norm lc n \<notin> tag_norm lc ` set kept) (new_tag to))) t
      \<longleftrightarrow> tag_norm lc t \<in> tag_norm lc ` set kept \<or> tag_norm lc t \<in> tag_norm lc ` set (new_tag to)" for t
    unfolding has_tag_iff set_tags_sel set_append image_append_new(1) by blast
  with d show ?thesis by (simp add: r True kept new)
next
  case False
  then have "retag lc i from to = (i, False)" by (simp add: retag_eq)
  with False show ?thesis by simp
qed

text \<open>What the list view and the search may see of an item: no password, no notes, no expiry, no
  security code, and of a card number the last four digits.\<close>

fun redacted :: "item \<Rightarrow> item" where
  "redacted (Login_Item n u p l x ts) = Login_Item n u [] l [] ts"
| "redacted (Note_Item n x ts) = Note_Item n [] ts"
| "redacted (Card_Item n h c e k x ts) =
     Card_Item n h (let d = filter is_ascii_digit c in if 4 \<le> length d then drop (length d - 4) d else [])
       [] [] [] ts"

lemma redacted_sel [simp]:
  "it_name (redacted i) = it_name i" "it_tags (redacted i) = it_tags i" "item_kind (redacted i) = item_kind i"
  by (cases i; simp)+

text \<open>No secret reaches the list view or is searchable: the search, the tag filter, the summary
  of an item and its \<open>Debug\<close> rendering are those of the item without its password, notes, expiry and
  security code, and with only the last four digits of a card number.\<close>

lemma views_are_redacted:
  "matches lc (redacted i) query = matches lc i query \<and> has_tag lc (redacted i) tag = has_tag lc i tag
   \<and> item_summary_of item_id (redacted i) = item_summary_of item_id i \<and> item_debug (redacted i) = item_debug i"
proof -
  have "filter is_ascii_digit (drop n (filter is_ascii_digit c)) = drop n (filter is_ascii_digit c)" for n c
    by (rule filter_True) (use set_drop_subset in fastforce)
  then have "subtitle (redacted i) = subtitle i" by (cases i) (simp_all add: Let_def)
  moreover have "haystacks (redacted i) = haystacks i" by (cases i) simp_all
  ultimately show ?thesis
    by (simp add: matches_def has_tag_def item_summary_of_def item_debug_def)
qed

end
