(* ===== verification/Toy_Items.thy ===== *)
theory Toy_Items
  imports Desktop_Items
begin

text \<open>
  Concrete codecs for the plaintext of items and of backups.  JSON is third-party code and a parameter
  everywhere; these instances are used by witnesses only, to show that the round-trip laws can hold.
  A list of texts is written in three symbols: \<open>n\<close> ones and a zero for the character \<open>n\<close>, a two after
  each text.
\<close>

definition toy_char :: "uchar \<Rightarrow> bytes" where
  "toy_char n = replicate n 1 @ [0]"

definition toy_write :: "text list \<Rightarrow> bytes" where
  "toy_write ts = concat (map (\<lambda>t. concat (map toy_char t) @ [2]) ts)"

fun toy_read :: "bytes \<Rightarrow> nat \<Rightarrow> text \<Rightarrow> text list" where
  "toy_read [] n acc = []"
| "toy_read (b # bs) n acc =
     (if b = 1 then toy_read bs (n + 1) acc
      else if b = 0 then toy_read bs 0 (acc @ [n])
      else acc # toy_read bs 0 [])"

fun item_texts :: "item \<Rightarrow> text list" where
  "item_texts (Login_Item n u p l x ts) = [[0], n, u, p, l, x] @ ts"
| "item_texts (Note_Item n x ts) = [[1], n, x] @ ts"
| "item_texts (Card_Item n h c e k x ts) = [[2], n, h, c, e, k, x] @ ts"

definition item_of_texts :: "text list \<Rightarrow> item option" where
  "item_of_texts ts =
     (case ts of
        k # n # a # r \<Rightarrow>
          if k = [1] then Some (Note_Item n a r)
          else
            (case r of
               b # c # d # r' \<Rightarrow>
                 if k = [0] then Some (Login_Item n a b c d r')
                 else (case r' of f # r'' \<Rightarrow> Some (Card_Item n a b c d f r'') | [] \<Rightarrow> None)
             | _ \<Rightarrow> None)
      | _ \<Rightarrow> None)"

definition toy_items :: item_codec where
  "toy_items = \<lparr>ic_to = (\<lambda>i. Inr (toy_write (item_texts i))),
     ic_of = (\<lambda>b. case item_of_texts (toy_read b 0 []) of None \<Rightarrow> Inl [] | Some i \<Rightarrow> Inr i)\<rparr>"

text \<open>A sequence of items, each with the number of its texts first.\<close>

definition items_texts :: "item list \<Rightarrow> text list" where
  "items_texts is = concat (map (\<lambda>i. [length (item_texts i)] # item_texts i) is)"

function items_of_texts :: "text list \<Rightarrow> item list option" where
  "items_of_texts [] = Some []"
| "items_of_texts (k # ts) =
     (case (item_of_texts (take (hd k) ts), items_of_texts (drop (hd k) ts)) of
        (Some i, Some is) \<Rightarrow> Some (i # is)
      | _ \<Rightarrow> None)"
  by pat_completeness auto
termination
  by (relation "measure length") auto

section \<open>Facts\<close>

lemma toy_read_char: "toy_read (toy_char k @ bs) n acc = toy_read bs 0 (acc @ [n + k])"
proof -
  have "toy_read (replicate k 1 @ 0 # bs) n acc = toy_read bs 0 (acc @ [n + k])"
    by (induction k arbitrary: n) auto
  then show ?thesis by (simp add: toy_char_def)
qed

lemma toy_read_text: "toy_read (concat (map toy_char t) @ 2 # bs) 0 acc = (acc @ t) # toy_read bs 0 []"
  by (induction t arbitrary: acc) (simp_all add: toy_read_char)

lemma toy_read_write [simp]: "toy_read (toy_write ts) 0 [] = ts"
  by (induction ts) (simp_all add: toy_write_def toy_read_text)

lemma item_of_texts [simp]: "item_of_texts (item_texts i) = Some i"
  by (cases i) (simp_all add: item_of_texts_def)

lemma items_of_texts [simp]: "items_of_texts (items_texts is) = Some is"
  by (induction "is") (simp_all add: items_texts_def)

lemma toy_item_codec_ok [simp]: "item_codec_ok toy_items"
  by (simp add: item_codec_ok_def toy_items_def)

end
