(* ===== verification/Desktop_Shell.thy ===== *)
theory Desktop_Shell
  imports Vault_Frame Vault_Health Toy_Items
begin

text \<open>
  The desktop shell, src-tauri \<open>lib.rs\<close>: the unlocked session and the commands on items, tags and
  sync.  \<open>SqliteVault::open\<close> gives a connection to the one database file, so the database is part of
  the application's state, and the session holds the rest of \<open>Unlocked\<close>.  A command runs under the
  state's mutex; the commands here are sequences of such steps.
\<close>

section \<open>The cached account (\<open>store.rs\<close>)\<close>

record account_meta =
  am_server_url :: "text"
  am_email :: "text"
  am_kdf_params :: kdf_params
  am_kdf_salt :: bytes
  am_master_wrapped :: wrapped_key

record meta_codec =
  mc_to :: "account_meta \<Rightarrow> text + text"
  mc_of :: "text \<Rightarrow> account_meta option"

definition meta_codec_ok :: "meta_codec \<Rightarrow> bool" where
  "meta_codec_ok MC \<longleftrightarrow> (\<forall>m. \<exists>t. mc_to MC m = Inr t \<and> mc_of MC t = Some m)"

definition get_account_meta :: "meta_codec \<Rightarrow> sqlite_vault \<Rightarrow> account_meta option" where
  "get_account_meta MC db = Option.bind (meta_get db (lit ''account'')) (mc_of MC)"

definition set_account_meta :: "meta_codec \<Rightarrow> sqlite_vault \<Rightarrow> account_meta \<Rightarrow> (text + unit) \<times> sqlite_vault" where
  "set_account_meta MC db m =
     (case mc_to MC m of
        Inl e \<Rightarrow> (Inl (lit ''corrupt store: '' @ e), db)
      | Inr t \<Rightarrow> (Inr (), meta_set db (lit ''account'') t))"

section \<open>State\<close>

text \<open>Everything the shell is parameterised by: the primitives, the codecs, the HTTP library, Unicode
  lower-casing, the strength estimator, SHA-1 and the GET of the breach lookup.\<close>

record 'w shell =
  sh_crypto :: crypto
  sh_json :: codec
  sh_items :: item_codec
  sh_meta :: meta_codec
  sh_wire :: wire
  sh_http :: "'w http"
  sh_lower :: "text \<Rightarrow> text"
  sh_zxcvbn :: "text \<Rightarrow> text list \<Rightarrow> zentropy"
  sh_sha1 :: "bytes \<Rightarrow> bytes"
  sh_range :: "'w \<Rightarrow> text \<Rightarrow> (text + nat \<times> (text + text)) \<times> 'w"

record unlocked =
  un_secrets :: account_secrets
  un_api :: api_client
  un_autolock :: auto_lock
  un_email :: "text"

record 'w app =
  av_session :: "unlocked option"
  av_db :: sqlite_vault
  av_world :: 'w

definition un_key :: "unlocked \<Rightarrow> vault_key" where
  "un_key u = as_vault_key (un_secrets u)"

section \<open>The refresh token on disk\<close>

definition REFRESH_TOKEN_ID :: "text" where "REFRESH_TOKEN_ID = lit ''__meta/refresh_token''"

definition encrypt_refresh_token ::
    "crypto \<Rightarrow> bytes \<Rightarrow> account_secrets \<Rightarrow> text \<Rightarrow> encrypted_item option" where
  "encrypt_refresh_token C nonce secrets token =
     (case encrypt_item C nonce (as_vault_key secrets) REFRESH_TOKEN_ID 1 (as_bytes token) of
        Inl _ \<Rightarrow> None | Inr e \<Rightarrow> Some e)"

definition decrypt_refresh_token :: "crypto \<Rightarrow> codec \<Rightarrow> account_secrets \<Rightarrow> sqlite_vault \<Rightarrow> text option" where
  "decrypt_refresh_token C J secrets db =
     (case encrypted_refresh_token J db of
        None \<Rightarrow> None
      | Some envelope \<Rightarrow>
          (case decrypt_item C (as_vault_key secrets) envelope of
             Inl _ \<Rightarrow> None
           | Inr bytes \<Rightarrow> from_utf8 bytes))"

definition persist_rotated_refresh_token :: "'w shell \<Rightarrow> bytes \<Rightarrow> unlocked \<Rightarrow> sqlite_vault \<Rightarrow> sqlite_vault" where
  "persist_rotated_refresh_token S nonce u db =
     (case api_refresh_token (un_api u) of
        None \<Rightarrow> db
      | Some token \<Rightarrow>
          (case encrypt_refresh_token (sh_crypto S) nonce (un_secrets u) token of
             None \<Rightarrow> db
           | Some envelope \<Rightarrow> set_encrypted_refresh_token (sh_json S) db (Some envelope)))"

section \<open>Sync\<close>

fun transport_error_text :: "transport_error \<Rightarrow> text" where
  "transport_error_text (Network m) = lit ''network error: '' @ m"
| "transport_error_text (Rejected m) = lit ''request rejected: '' @ m"

fun sync_error_text :: "sync_error \<Rightarrow> text" where
  "sync_error_text (Engine (Transport e)) = transport_error_text e"
| "sync_error_text (Engine (RollbackDetected l s)) =
     lit ''rollback detected: server seq '' @ dec_int s @ lit '' < local high-water mark '' @ dec_int l"
| "sync_error_text (Sync_Api m) = lit ''sync transport error: '' @ m"
| "sync_error_text CheckpointForged =
     lit ''checkpoint failed authentication '' @ [8212] @ lit '' the server may be compromised''"
| "sync_error_text (Withholding c s) =
     lit ''server is withholding data (checkpoint seq '' @ dec_int c @ lit '' > served '' @ dec_int s @ lit '')''"

datatype sync_outcome = Synced sync_report | Offline | Alert "text"

definition outcome_of_sync :: "sync_error + sync_report \<Rightarrow> sync_outcome" where
  "outcome_of_sync r =
     (case r of
        Inr report \<Rightarrow> Synced report
      | Inl e \<Rightarrow>
          (case e of
             Engine (RollbackDetected l s) \<Rightarrow> Alert (sync_error_text e)
           | CheckpointForged \<Rightarrow> Alert (sync_error_text e)
           | Withholding c s \<Rightarrow> Alert (sync_error_text e)
           | _ \<Rightarrow> Offline))"

definition try_sync ::
    "'w shell \<Rightarrow> unlocked \<Rightarrow> sqlite_vault \<Rightarrow> 'w \<Rightarrow> (sync_outcome \<times> unlocked \<times> sqlite_vault \<times> 'w) option" where
  "try_sync S u db w =
     (case synchronize (sh_crypto S) (sqlite_ops (sh_json S)) (http_transport (sh_wire S) (sh_http S))
             (http_checkpoints (sh_wire S) (sh_http S)) (un_key u) db (un_api u, w) of
        None \<Rightarrow> None
      | Some (r, db', (a, w')) \<Rightarrow> Some (outcome_of_sync r, u\<lparr>un_api := a\<rparr>, db', w'))"

section \<open>Sessions and items\<close>

definition LOCKED :: "text" where "LOCKED = lit ''vault is locked''"

text \<open>\<open>f\<close> may change the vault but not the rest of the session.\<close>

definition with_session ::
    "nat \<Rightarrow> (unlocked \<Rightarrow> sqlite_vault \<Rightarrow> (text + 'r) \<times> sqlite_vault) \<Rightarrow> 'w app \<Rightarrow> (text + 'r) \<times> 'w app" where
  "with_session now f app =
     (case av_session app of
        None \<Rightarrow> (Inl LOCKED, app)
      | Some u0 \<Rightarrow>
          (let u = u0\<lparr>un_autolock := touch now (un_autolock u0)\<rparr>;
               (r, db) = f u (av_db app)
           in (r, app\<lparr>av_session := Some u, av_db := db\<rparr>)))"

text \<open>A stored row as the loops read it: skipped when deleted, internal, empty or unreadable.\<close>

definition live_item :: "'w shell \<Rightarrow> vault_key \<Rightarrow> stored_item \<Rightarrow> item option" where
  "live_item S vk stored =
     (if si_deleted stored \<or> starts_with (si_item_id stored) (lit ''__meta/'') then None
      else
        (case si_content stored of
           None \<Rightarrow> None
         | Some content \<Rightarrow>
             (case decrypt_item (sh_crypto S) vk content of
                Inl _ \<Rightarrow> None
              | Inr plain \<Rightarrow>
                  (case ic_of (sh_items S) plain of Inl _ \<Rightarrow> None | Inr i \<Rightarrow> Some i))))"

definition list_items_cmd ::
    "'w shell \<Rightarrow> nat \<Rightarrow> text \<Rightarrow> text option \<Rightarrow> 'w app \<Rightarrow> (text + item_summary list) \<times> 'w app" where
  "list_items_cmd S now query tag0 =
     (let tag = (case tag0 of Some t \<Rightarrow> if trim t = [] then None else Some t | None \<Rightarrow> None)
      in with_session now (\<lambda>u db.
           (Inr (sort_key (\<lambda>a. sh_lower S (su_name a))
              (List.map_filter (\<lambda>stored.
                 case live_item S (un_key u) stored of
                   None \<Rightarrow> None
                 | Some item \<Rightarrow>
                     if (case tag of None \<Rightarrow> True | Some t \<Rightarrow> has_tag (sh_lower S) item t)
                        \<and> matches (sh_lower S) item query
                     then Some (item_summary_of (si_item_id stored) item) else None)
                 (sqlite_list (sh_json S) db))), db)))"

record tag_count =
  tc_tag :: "text"
  tc_count :: nat

definition count_tag ::
    "(text \<Rightarrow> text) \<Rightarrow> text \<Rightarrow> (text \<times> text \<times> nat) list \<Rightarrow> (text \<times> text \<times> nat) list" where
  "count_tag lc tag counts =
     (let trimmed = trim tag
      in if trimmed = [] then counts
         else AList.map_default (lc trimmed) (trimmed, 1) (\<lambda>(d, n). (d, n + 1)) counts)"

text \<open>The \<open>BTreeMap\<close> is read in key order.\<close>

definition list_tags_cmd :: "'w shell \<Rightarrow> nat \<Rightarrow> 'w app \<Rightarrow> (text + tag_count list) \<times> 'w app" where
  "list_tags_cmd S now =
     with_session now (\<lambda>u db.
       (let items = List.map_filter (live_item S (un_key u)) (sqlite_list (sh_json S) db);
            counts = fold (\<lambda>i counts. fold (count_tag (sh_lower S)) (it_tags i) counts) items []
        in (Inr (sort_key (\<lambda>t. sh_lower S (tc_tag t))
               (map (\<lambda>(_, tag, n). \<lparr>tc_tag = tag, tc_count = n\<rparr>) (sort_key fst counts))), db)))"

text \<open>\<open>nonces k\<close> is the fresh nonce of the \<open>k\<close>-th item written.\<close>

fun retag_loop ::
    "'w shell \<Rightarrow> vault_key \<Rightarrow> (nat \<Rightarrow> bytes) \<Rightarrow> text \<Rightarrow> text option \<Rightarrow> stored_item list \<Rightarrow> nat \<Rightarrow>
     sqlite_vault \<Rightarrow> (text + nat) \<times> sqlite_vault" where
  "retag_loop S vk nonces from to [] changed_n db = (Inr changed_n, db)"
| "retag_loop S vk nonces from to (stored # rest) changed_n db =
     (case live_item S vk stored of
        None \<Rightarrow> retag_loop S vk nonces from to rest changed_n db
      | Some item0 \<Rightarrow>
          (case retag (sh_lower S) item0 from to of
             (item, changed) \<Rightarrow>
               if \<not> changed then retag_loop S vk nonces from to rest changed_n db
               else
                 (case ic_to (sh_items S) item of
                    Inl e \<Rightarrow> (Inl e, db)
                  | Inr plain \<Rightarrow>
                      (case encrypt_item (sh_crypto S) (nonces changed_n) vk (si_item_id stored)
                              (as_u64 (si_revision stored + 1)) plain of
                         Inl e \<Rightarrow> (Inl (crypto_error_text e), db)
                       | Inr envelope \<Rightarrow>
                           retag_loop S vk nonces from to rest (changed_n + 1)
                             (sqlite_stage (sh_json S) db (Upsert envelope))))))"

definition vault_health_cmd :: "'w shell \<Rightarrow> nat \<Rightarrow> 'w app \<Rightarrow> (text + health_report) \<times> 'w app" where
  "vault_health_cmd S now =
     with_session now (\<lambda>u db.
       (Inr (analyze (sh_zxcvbn S) (List.map_filter (\<lambda>stored.
          case live_item S (un_key u) stored of
            Some (Login_Item name username password url notes tags) \<Rightarrow>
              if password \<noteq> []
              then Some \<lparr>he_item_id = si_item_id stored, he_name = name, he_password = password\<rparr>
              else None
          | _ \<Rightarrow> None) (sqlite_list (sh_json S) db))), db))"

definition get_item_cmd :: "'w shell \<Rightarrow> nat \<Rightarrow> text \<Rightarrow> 'w app \<Rightarrow> (text + item) \<times> 'w app" where
  "get_item_cmd S now item_id =
     with_session now (\<lambda>u db.
       (case sqlite_get (sh_json S) db item_id of
          None \<Rightarrow> (Inl (lit ''item not found''), db)
        | Some stored \<Rightarrow>
            (case si_content stored of
               None \<Rightarrow> (Inl (lit ''item deleted''), db)
             | Some content \<Rightarrow>
                 (case decrypt_item (sh_crypto S) (un_key u) content of
                    Inl _ \<Rightarrow> (Inl (lit ''decryption failed''), db)
                  | Inr plain \<Rightarrow> (ic_of (sh_items S) plain, db)))))"

section \<open>Sync now\<close>

record sync_summary =
  sy_pushed :: nat
  sy_pulled :: nat
  sy_conflicts :: nat
  sy_offline :: bool

text \<open>What a sync draws: the nonce of the stored token, and for the \<open>k\<close>-th conflict the new item's id
  and nonce.\<close>

record sync_draws =
  sd_token_nonce :: bytes
  sd_copy :: "nat \<Rightarrow> text \<times> bytes"

definition COPY_SUFFIX :: "text" where "COPY_SUFFIX = lit '' (conflicted copy)''"

text \<open>The losing edits become new items; the result counts them.\<close>

fun conflict_copies ::
    "'w shell \<Rightarrow> vault_key \<Rightarrow> (nat \<Rightarrow> text \<times> bytes) \<Rightarrow> nat \<Rightarrow> conflict list \<Rightarrow> nat \<Rightarrow> sqlite_vault \<Rightarrow>
     nat \<times> sqlite_vault" where
  "conflict_copies S vk copy k [] copies db = (copies, db)"
| "conflict_copies S vk copy k (c # cs) copies db =
     (case cf_losing_op c of
        Delete _ _ \<Rightarrow> conflict_copies S vk copy (k + 1) cs copies db
      | Upsert envelope \<Rightarrow>
          (case decrypt_item (sh_crypto S) vk envelope of
             Inl _ \<Rightarrow> conflict_copies S vk copy (k + 1) cs copies db
           | Inr plain0 \<Rightarrow>
               (case ic_of (sh_items S) plain0 of
                  Inl _ \<Rightarrow> conflict_copies S vk copy (k + 1) cs copies db
                | Inr item0 \<Rightarrow>
                    (let item = set_name item0 (it_name item0 @ COPY_SUFFIX)
                     in case ic_to (sh_items S) item of
                          Inl _ \<Rightarrow> conflict_copies S vk copy (k + 1) cs copies db
                        | Inr plain \<Rightarrow>
                            (case encrypt_item (sh_crypto S) (snd (copy k)) vk (fst (copy k)) 1 plain of
                               Inl _ \<Rightarrow> conflict_copies S vk copy (k + 1) cs copies db
                             | Inr envelope' \<Rightarrow>
                                 conflict_copies S vk copy (k + 1) cs (copies + 1)
                                   (sqlite_stage (sh_json S) db (Upsert envelope')))))))"

definition alert_text :: "text \<Rightarrow> text" where
  "alert_text msg = [9888] @ lit '' Sync stopped: '' @ msg @ lit ''. Your local vault is unchanged. If you did''
     @ lit '' not restore the server from a backup, treat this as a possible compromise.''"

text \<open>Everything up to the second pass; the number is that of the copies made.\<close>

definition sync_pass ::
    "'w shell \<Rightarrow> sync_draws \<Rightarrow> nat \<Rightarrow> 'w app \<Rightarrow> ((text + sync_summary) \<times> nat \<times> 'w app) option" where
  "sync_pass S d now app =
     (case av_session app of
        None \<Rightarrow> Some (Inl LOCKED, 0, app)
      | Some u0 \<Rightarrow>
          (case try_sync S (u0\<lparr>un_autolock := touch now (un_autolock u0)\<rparr>) (av_db app) (av_world app) of
             None \<Rightarrow> None
           | Some (Alert msg, u, db, w) \<Rightarrow>
               Some (Inl (alert_text msg), 0, \<lparr>av_session = Some u, av_db = db, av_world = w\<rparr>)
           | Some (Offline, u, db, w) \<Rightarrow>
               Some (Inr \<lparr>sy_pushed = 0, sy_pulled = 0, sy_conflicts = 0, sy_offline = True\<rparr>, 0,
                     \<lparr>av_session = Some u, av_db = db, av_world = w\<rparr>)
           | Some (Synced report, u, db, w) \<Rightarrow>
               (let db1 = persist_rotated_refresh_token S (sd_token_nonce d) u db;
                    (copies, db2) = conflict_copies S (un_key u) (sd_copy d) 0 (sr_conflicts report) 0 db1
                in Some (Inr \<lparr>sy_pushed = sr_pushed report, sy_pulled = sr_pulled report,
                              sy_conflicts = length (sr_conflicts report), sy_offline = False\<rparr>,
                         copies, \<lparr>av_session = Some u, av_db = db2, av_world = w\<rparr>))))"

text \<open>The second pass sends the copies; its report is dropped.\<close>

definition sync_now ::
    "'w shell \<Rightarrow> sync_draws \<Rightarrow> nat \<Rightarrow> 'w app \<Rightarrow> ((text + sync_summary) \<times> 'w app) option" where
  "sync_now S d now app =
     (case sync_pass S d now app of
        None \<Rightarrow> None
      | Some (r, copies, app1) \<Rightarrow>
          (case av_session app1 of
             Some u \<Rightarrow>
               if copies > 0
               then (case try_sync S u (av_db app1) (av_world app1) of
                       None \<Rightarrow> None
                     | Some (_, u', db, w) \<Rightarrow> Some (r, \<lparr>av_session = Some u', av_db = db, av_world = w\<rparr>))
               else Some (r, app1)
           | None \<Rightarrow> Some (r, app1)))"

text \<open>\<open>sync_now(ctx).await.ok()\<close>: the outcome is dropped.\<close>

definition sync_after :: "'w shell \<Rightarrow> sync_draws \<Rightarrow> nat \<Rightarrow> 'r \<Rightarrow> 'w app \<Rightarrow> ((text + 'r) \<times> 'w app) option" where
  "sync_after S d now r app = map_option (\<lambda>(_, app'). (Inr r, app')) (sync_now S d now app)"

section \<open>Editing commands\<close>

definition retag_all ::
    "'w shell \<Rightarrow> (nat \<Rightarrow> bytes) \<Rightarrow> sync_draws \<Rightarrow> nat \<Rightarrow> text \<Rightarrow> text option \<Rightarrow> 'w app \<Rightarrow>
     ((text + nat) \<times> 'w app) option" where
  "retag_all S nonces d now from to app =
     (case with_session now (\<lambda>u db.
             retag_loop S (un_key u) nonces from to (sqlite_list (sh_json S) db) 0 db) app of
        (Inl e, app') \<Rightarrow> Some (Inl e, app')
      | (Inr changed, app') \<Rightarrow>
          if changed > 0 then sync_after S d now changed app' else Some (Inr changed, app'))"

definition rename_tag ::
    "'w shell \<Rightarrow> (nat \<Rightarrow> bytes) \<Rightarrow> sync_draws \<Rightarrow> nat \<Rightarrow> text \<Rightarrow> text \<Rightarrow> 'w app \<Rightarrow> ((text + nat) \<times> 'w app) option" where
  "rename_tag S nonces d now from to app =
     (if trim to = [] then Some (Inl (lit ''the new tag name cannot be empty''), app)
      else retag_all S nonces d now from (Some to) app)"

definition delete_tag ::
    "'w shell \<Rightarrow> (nat \<Rightarrow> bytes) \<Rightarrow> sync_draws \<Rightarrow> nat \<Rightarrow> text \<Rightarrow> 'w app \<Rightarrow> ((text + nat) \<times> 'w app) option" where
  "delete_tag S nonces d now tag app = retag_all S nonces d now tag None app"

text \<open>\<open>fresh\<close> is the drawn UUID, \<open>nonce\<close> the drawn nonce.\<close>

definition save_local ::
    "'w shell \<Rightarrow> text \<Rightarrow> bytes \<Rightarrow> nat \<Rightarrow> text option \<Rightarrow> item \<Rightarrow> 'w app \<Rightarrow> (text + text) \<times> 'w app" where
  "save_local S fresh nonce now item_id item =
     with_session now (\<lambda>u db.
       (let i = (case item_id of Some x \<Rightarrow> x | None \<Rightarrow> fresh);
            base_revision = (case sqlite_get (sh_json S) db i of Some st \<Rightarrow> si_revision st | None \<Rightarrow> 0)
        in case ic_to (sh_items S) item of
             Inl e \<Rightarrow> (Inl e, db)
           | Inr plain \<Rightarrow>
               (case encrypt_item (sh_crypto S) nonce (un_key u) i (as_u64 (base_revision + 1)) plain of
                  Inl e \<Rightarrow> (Inl (crypto_error_text e), db)
                | Inr envelope \<Rightarrow> (Inr i, sqlite_stage (sh_json S) db (Upsert envelope)))))"

definition save_item ::
    "'w shell \<Rightarrow> text \<Rightarrow> bytes \<Rightarrow> sync_draws \<Rightarrow> nat \<Rightarrow> text option \<Rightarrow> item \<Rightarrow> 'w app \<Rightarrow> ((text + text) \<times> 'w app) option" where
  "save_item S fresh nonce d now item_id item app =
     (case save_local S fresh nonce now item_id item app of
        (Inl e, app') \<Rightarrow> Some (Inl e, app')
      | (Inr i, app') \<Rightarrow> sync_after S d now i app')"

definition delete_local :: "'w shell \<Rightarrow> nat \<Rightarrow> text \<Rightarrow> 'w app \<Rightarrow> (text + unit) \<times> 'w app" where
  "delete_local S now item_id =
     with_session now (\<lambda>u db.
       (case sqlite_get (sh_json S) db item_id of
          None \<Rightarrow> (Inl (lit ''item not found''), db)
        | Some stored \<Rightarrow> (Inr (), sqlite_stage (sh_json S) db (Delete item_id (si_revision stored)))))"

definition delete_item_cmd ::
    "'w shell \<Rightarrow> sync_draws \<Rightarrow> nat \<Rightarrow> text \<Rightarrow> 'w app \<Rightarrow> ((text + unit) \<times> 'w app) option" where
  "delete_item_cmd S d now item_id app =
     (case delete_local S now item_id app of
        (Inl e, app') \<Rightarrow> Some (Inl e, app')
      | (Inr r, app') \<Rightarrow> sync_after S d now r app')"

section \<open>Locking\<close>

definition lock_cmd :: "'w app \<Rightarrow> 'w app" where
  "lock_cmd app = app\<lparr>av_session := None\<rparr>"

text \<open>One round of the watchdog (every five seconds).\<close>

definition watchdog :: "nat \<Rightarrow> 'w app \<Rightarrow> 'w app" where
  "watchdog now app =
     (case av_session app of
        Some u \<Rightarrow> if should_lock now (un_autolock u) then app\<lparr>av_session := None\<rparr> else app
      | None \<Rightarrow> app)"

datatype shell_status = Needs_Setup | Status_Locked "text" | Status_Unlocked "text"

definition status_cmd :: "'w shell \<Rightarrow> 'w app \<Rightarrow> shell_status" where
  "status_cmd S app =
     (case av_session app of
        Some u \<Rightarrow> Status_Unlocked (un_email u)
      | None \<Rightarrow>
          (case get_account_meta (sh_meta S) (av_db app) of
             Some m \<Rightarrow> Status_Locked (am_email m)
           | None \<Rightarrow> Needs_Setup))"

end
