(* ===== verification/Shell_Items.thy ===== *)
theory Shell_Items
  imports Desktop_Shell Sync_Props
begin

text \<open>
  What the item commands of the shell do, seen as a map from item ids to items.  \<open>item_map\<close> is the
  contract an editor relies on; the encrypted replica provides it.
\<close>

section \<open>The contract of an item map\<close>

datatype item_edit = Put "text" item | Remove "text"

fun edit_id :: "item_edit \<Rightarrow> text" where
  "edit_id (Put i _) = i"
| "edit_id (Remove i) = i"

fun edit_value :: "item_edit \<Rightarrow> item option" where
  "edit_value (Put _ x) = Some x"
| "edit_value (Remove _) = None"

definition edit_map :: "item_edit \<Rightarrow> (text \<Rightarrow> item option) \<Rightarrow> text \<Rightarrow> item option" where
  "edit_map e m = m(edit_id e := edit_value e)"

locale item_map =
  fixes inv :: "'s \<Rightarrow> bool" and view :: "'s \<Rightarrow> text \<Rightarrow> item option"
    and ok :: "item_edit \<Rightarrow> bool" and apply_edit :: "item_edit \<Rightarrow> 's \<Rightarrow> 's"
  assumes inv_edit: "inv s \<Longrightarrow> ok e \<Longrightarrow> inv (apply_edit e s)"
    and view_edit: "inv s \<Longrightarrow> ok e \<Longrightarrow> view (apply_edit e s) = edit_map e (view s)"
begin

text \<open>Any sequence of edits, and what is left of it for one item: the last edit.\<close>

lemma edits_inv: "inv s \<Longrightarrow> \<forall>e \<in> set es. ok e \<Longrightarrow> inv (fold apply_edit es s)"
  by (induction es arbitrary: s) (simp_all add: inv_edit)

lemma edits_view: "inv s \<Longrightarrow> \<forall>e \<in> set es. ok e \<Longrightarrow> view (fold apply_edit es s) = fold edit_map es (view s)"
  by (induction es arbitrary: s) (simp_all add: inv_edit view_edit)

lemma last_edit_wins:
  assumes "inv s" and "\<forall>e \<in> set (es @ e # es'). ok e" and "\<forall>e' \<in> set es'. edit_id e' \<noteq> edit_id e"
  shows "view (fold apply_edit (es @ e # es') s) (edit_id e) = edit_value e"
proof -
  have "fold edit_map es' m (edit_id e) = m (edit_id e)" for m
    using assms(3) by (induction es' arbitrary: m) (auto simp: edit_map_def)
  then show ?thesis using edits_view[OF assms(1,2)] by (simp add: edit_map_def)
qed

lemma edit_commute:
  assumes "inv s" and "ok e" and "ok f" and "edit_id e \<noteq> edit_id f"
  shows "view (apply_edit e (apply_edit f s)) = view (apply_edit f (apply_edit e s))"
  using assms by (simp add: view_edit inv_edit edit_map_def fun_upd_twist)

end

section \<open>Sealing and opening items\<close>

definition shell_ok :: "'w shell \<Rightarrow> bool" where
  "shell_ok S \<longleftrightarrow> crypto_ok (sh_crypto S) \<and> codec_ok (sh_json S) \<and> item_codec_ok (sh_items S)
     \<and> meta_codec_ok (sh_meta S)"

text \<open>The item format admits plaintexts below 4 GiB.\<close>

definition fits :: "'w shell \<Rightarrow> item \<Rightarrow> bool" where
  "fits S i \<longleftrightarrow> (\<forall>b. ic_to (sh_items S) i = Inr b \<longrightarrow> length b < 2 ^ 32)"

definition open_item :: "'w shell \<Rightarrow> vault_key \<Rightarrow> encrypted_item \<Rightarrow> item option" where
  "open_item S vk e =
     (case decrypt_item (sh_crypto S) vk e of
        Inl _ \<Rightarrow> None
      | Inr plain \<Rightarrow> (case ic_of (sh_items S) plain of Inl _ \<Rightarrow> None | Inr i \<Rightarrow> Some i))"

definition is_meta :: "text \<Rightarrow> bool" where
  "is_meta i = starts_with i (lit ''__meta/'')"

lemma live_item_alt:
  "live_item S vk st = (if si_deleted st \<or> is_meta (si_item_id st) then None
     else Option.bind (si_content st) (open_item S vk))"
  by (cases "si_content st") (simp_all add: live_item_def is_meta_def open_item_def)

lemma seal_item:
  assumes "shell_ok S" and "fits S item"
  obtains plain e where "ic_to (sh_items S) item = Inr plain"
    and "encrypt_item (sh_crypto S) nonce vk i r plain = Inr e"
    and "ei_item_id e = i" and "ei_revision e = r" and "open_item S vk e = Some item"
    and "decrypt_item (sh_crypto S) vk e = Inr plain" and "ic_of (sh_items S) plain = Inr item"
proof -
  obtain plain where p: "ic_to (sh_items S) item = Inr plain" "ic_of (sh_items S) plain = Inr item"
    using assms(1) unfolding shell_ok_def item_codec_ok_def by blast
  have "length plain < 2 ^ 32" using assms(2) p(1) unfolding fits_def by blast
  moreover have "aead_roundtrip (sh_crypto S)" "aead_total (sh_crypto S)"
    using assms(1) by (simp_all add: shell_ok_def crypto_ok_def)
  ultimately obtain e where "encrypt_item (sh_crypto S) nonce vk i r plain = Inr e" "ei_item_id e = i"
    "ei_revision e = r" "decrypt_item (sh_crypto S) vk e = Inr plain"
    using encrypt_decrypt_item by blast
  with p that show thesis by (simp add: open_item_def)
qed

section \<open>The replica as an item map\<close>

definition replica_items :: "'w shell \<Rightarrow> vault_key \<Rightarrow> sqlite_vault \<Rightarrow> text \<Rightarrow> item option" where
  "replica_items S vk db i = Option.bind (sqlite_get (sh_json S) db i) (live_item S vk)"

lemma replica_items_cong: "sq_items db' = sq_items db \<Longrightarrow> replica_items S vk db' = replica_items S vk db"
  using sqlite_get_cong[of db' db "sh_json S"] by (simp add: replica_items_def fun_eq_iff)

lemma sqlite_get_id:
  assumes "sqlite_wf J db" and "sqlite_get J db i = Some st"
  shows "si_item_id st = i"
  using sq.get_id[OF assms(1)] assms(2) unfolding sqlite_ops_sel by blast

lemma replica_items_meta:
  assumes "is_meta i" and "sqlite_wf (sh_json S) db"
  shows "replica_items S vk db i = None"
proof (cases "sqlite_get (sh_json S) db i")
  case (Some st)
  from sqlite_get_id[OF assms(2) Some] assms(1) Some show ?thesis
    by (simp add: replica_items_def live_item_alt)
qed (simp add: replica_items_def)

lemma replica_items_stage:
  assumes "sqlite_wf (sh_json S) db"
  shows "replica_items S vk (sqlite_stage (sh_json S) db op) =
    (replica_items S vk db)(op_item_id op := live_item S vk (staged op))"
  using sqlite_stage_get(1)[OF assms] by (auto simp: replica_items_def fun_eq_iff)

lemma live_staged:
  "live_item S vk (staged (Delete i b)) = None"
  "\<not> is_meta (ei_item_id e) \<Longrightarrow> live_item S vk (staged (Upsert e)) = open_item S vk e"
  by (simp_all add: live_item_alt)

text \<open>The list of the loops is the map, in id order.\<close>

lemma live_list:
  assumes "sqlite_wf (sh_json S) db"
  shows "st \<in> set (sqlite_list (sh_json S) db) \<and> live_item S vk st = Some i \<longleftrightarrow>
    sqlite_get (sh_json S) db (si_item_id st) = Some st \<and> replica_items S vk db (si_item_id st) = Some i"
  using sqlite_list_laws(1)[OF assms, of st] by (auto simp: replica_items_def)

section \<open>The local half of an edit\<close>

definition unlocked_app :: "'w shell \<Rightarrow> unlocked \<Rightarrow> 'w app \<Rightarrow> bool" where
  "unlocked_app S u app \<longleftrightarrow> av_session app = Some u \<and> sqlite_wf (sh_json S) (av_db app)"

lemma save_local_effect:
  assumes "shell_ok S" and "unlocked_app S u app" and "fits S item" and "\<not> is_meta i"
  obtains e app' where "save_local S fresh nonce now (Some i) item app = (Inr i, app')"
    and "app' = app\<lparr>av_session := Some (u\<lparr>un_autolock := touch now (un_autolock u)\<rparr>),
                   av_db := sqlite_stage (sh_json S) (av_db app) (Upsert e)\<rparr>"
    and "open_item S (un_key u) e = Some item" and "ei_item_id e = i"
proof -
  let ?u = "u\<lparr>un_autolock := touch now (un_autolock u)\<rparr>"
  obtain plain e where e: "ic_to (sh_items S) item = Inr plain"
    "encrypt_item (sh_crypto S) nonce (un_key u) i
       (as_u64 ((case sqlite_get (sh_json S) (av_db app) i of Some st \<Rightarrow> si_revision st | None \<Rightarrow> 0) + 1)) plain = Inr e"
    "ei_item_id e = i" "open_item S (un_key u) e = Some item"
    by (rule seal_item[OF assms(1,3)])
  have "un_key ?u = un_key u" by (simp add: un_key_def)
  with e assms(2) have "save_local S fresh nonce now (Some i) item app
      = (Inr i, app\<lparr>av_session := Some ?u, av_db := sqlite_stage (sh_json S) (av_db app) (Upsert e)\<rparr>)"
    by (simp add: save_local_def with_session_def unlocked_app_def Let_def)
  from that[OF this refl e(4,3)] show thesis .
qed

lemma delete_local_effect:
  assumes "unlocked_app S u app"
  shows "delete_local S now i app =
    (case sqlite_get (sh_json S) (av_db app) i of
       None \<Rightarrow> (Inl (lit ''item not found''), app\<lparr>av_session := Some (u\<lparr>un_autolock := touch now (un_autolock u)\<rparr>)\<rparr>)
     | Some st \<Rightarrow> (Inr (), app\<lparr>av_session := Some (u\<lparr>un_autolock := touch now (un_autolock u)\<rparr>),
                          av_db := sqlite_stage (sh_json S) (av_db app) (Delete i (si_revision st))\<rparr>))"
  using assms by (simp add: delete_local_def with_session_def unlocked_app_def Let_def split: option.splits)

section \<open>A server that cannot be reached\<close>

definition unreachable :: "'w shell \<Rightarrow> bool" where
  "unreachable S \<longleftrightarrow> (\<forall>w rq. \<exists>e w'. sh_http S w rq = (Inl e, w'))"

lemma unreachable_authed:
  assumes "unreachable S"
  shows "\<exists>e w'. api_authed (sh_http S) build a w = (Inl e, a, w')"
proof (cases "cl_access (ap_tokens a)")
  case None
  then show ?thesis by (simp add: api_authed_def authed_def authed_once_def)
next
  case (Some tok)
  obtain e w' where "sh_http S w ((build (ap_base_url a))\<lparr>rq_bearer := Some tok\<rparr>) = (Inl e, w')"
    using assms unfolding unreachable_def by blast
  with Some show ?thesis by (simp add: api_authed_def authed_def authed_once_def bearer_call_def)
qed

lemma unreachable_sync:
  assumes "unreachable S"
  shows "\<exists>w'. try_sync S u db w = Some (Offline, u, db, w')"
proof -
  obtain e w' where "api_authed (sh_http S) (req GET ''/api/v1/vault/checkpoint'' None) (un_api u) w
      = (Inl e, un_api u, w')"
    using unreachable_authed[OF assms] by blast
  then show ?thesis
    by (simp add: try_sync_def synchronize_def http_checkpoints_def http_get_checkpoint_def
        authed_parse_def outcome_of_sync_def Let_def)
qed

lemma unreachable_sync_now:
  assumes "unreachable S" and "av_session app = Some u"
  shows "\<exists>w'. sync_now S d now app = Some (Inr \<lparr>sy_pushed = 0, sy_pulled = 0, sy_conflicts = 0, sy_offline = True\<rparr>,
    app\<lparr>av_session := Some (u\<lparr>un_autolock := touch now (un_autolock u)\<rparr>), av_world := w'\<rparr>)"
proof -
  obtain w' where "try_sync S (u\<lparr>un_autolock := touch now (un_autolock u)\<rparr>) (av_db app) (av_world app)
      = Some (Offline, u\<lparr>un_autolock := touch now (un_autolock u)\<rparr>, av_db app, w')"
    using unreachable_sync[OF assms(1)] by blast
  with assms(2) show ?thesis by (intro exI[of _ w']) (simp add: sync_now_def sync_pass_def)
qed

section \<open>Edits while offline\<close>

fun edit_ok :: "'w shell \<Rightarrow> item_edit \<Rightarrow> bool" where
  "edit_ok S (Put i x) = (fits S x \<and> \<not> is_meta i)"
| "edit_ok S (Remove i) = True"

text \<open>An edit as the user makes it.  What the outside provides at each command (nonce, time, the draws
  of the sync that follows) is a function of the state, so it may differ from one edit to the next.\<close>

fun edit_cmd ::
    "'w shell \<Rightarrow> ('w app \<Rightarrow> bytes) \<Rightarrow> ('w app \<Rightarrow> nat) \<Rightarrow> ('w app \<Rightarrow> sync_draws) \<Rightarrow> item_edit \<Rightarrow> 'w app \<Rightarrow> 'w app" where
  "edit_cmd S nz clk dr (Put i x) app =
     (case save_item S [] (nz app) (dr app) (clk app) (Some i) x app of Some (_, app') \<Rightarrow> app' | None \<Rightarrow> app)"
| "edit_cmd S nz clk dr (Remove i) app =
     (case delete_item_cmd S (dr app) (clk app) i app of Some (_, app') \<Rightarrow> app' | None \<Rightarrow> app)"

lemma sync_after_offline:
  assumes "unreachable S" and "av_session app = Some u"
  shows "\<exists>w'. sync_after S d now r app
    = Some (Inr r, app\<lparr>av_session := Some (u\<lparr>un_autolock := touch now (un_autolock u)\<rparr>), av_world := w'\<rparr>)"
proof -
  obtain w' where "sync_now S d now app = Some (Inr \<lparr>sy_pushed = 0, sy_pulled = 0, sy_conflicts = 0, sy_offline = True\<rparr>,
    app\<lparr>av_session := Some (u\<lparr>un_autolock := touch now (un_autolock u)\<rparr>), av_world := w'\<rparr>)"
    using unreachable_sync_now[OF assms] by blast
  then show ?thesis by (intro exI[of _ w']) (simp add: sync_after_def)
qed

text \<open>What one edit does offline: at most one operation is staged, and it is the edit.\<close>

lemma edit_cmd_offline:
  assumes "shell_ok S" and "unreachable S" and "unlocked_app S u app" and "edit_ok S e"
  shows "\<exists>u' ops. unlocked_app S u' (edit_cmd S nz clk dr e app) \<and> un_secrets u' = un_secrets u
    \<and> replica_items S (un_key u) (av_db (edit_cmd S nz clk dr e app))
        = edit_map e (replica_items S (un_key u) (av_db app))
    \<and> sqlite_pending_ops (sh_json S) (av_db (edit_cmd S nz clk dr e app))
        = sqlite_pending_ops (sh_json S) (av_db app) @ ops
    \<and> (\<forall>x i. e = Put i x \<longrightarrow> (\<exists>en. ops = [Upsert en] \<and> ei_item_id en = i \<and> open_item S (un_key u) en = Some x))"
proof -
  let ?J = "sh_json S" and ?db = "av_db app"
  have wf: "sqlite_wf ?J ?db" and se: "av_session app = Some u" using assms(3) by (simp_all add: unlocked_app_def)
  show ?thesis
  proof (cases e)
    case (Put i x)
    with assms(4) have ok: "fits S x" "\<not> is_meta i" by simp_all
    from save_local_effect[OF assms(1,3) ok, of "[]" "nz app" "clk app"] obtain en app1 where
      sl: "save_local S [] (nz app) (clk app) (Some i) x app = (Inr i, app1)"
      "app1 = app\<lparr>av_session := Some (u\<lparr>un_autolock := touch (clk app) (un_autolock u)\<rparr>),
                 av_db := sqlite_stage ?J ?db (Upsert en)\<rparr>"
      "open_item S (un_key u) en = Some x" "ei_item_id en = i" by blast
    have "av_session app1 = Some (u\<lparr>un_autolock := touch (clk app) (un_autolock u)\<rparr>)" by (simp add: sl(2))
    from sync_after_offline[OF assms(2) this, of "dr app" "clk app" i] obtain w' where
      "sync_after S (dr app) (clk app) i app1 = Some (Inr i, app1\<lparr>av_session := Some
         (u\<lparr>un_autolock := touch (clk app) (touch (clk app) (un_autolock u))\<rparr>), av_world := w'\<rparr>)" by auto
    then have c: "edit_cmd S nz clk dr e app = app1\<lparr>av_session := Some
         (u\<lparr>un_autolock := touch (clk app) (touch (clk app) (un_autolock u))\<rparr>), av_world := w'\<rparr>"
      by (simp add: Put save_item_def sl(1))
    have db: "av_db (edit_cmd S nz clk dr e app) = sqlite_stage ?J ?db (Upsert en)" by (simp add: c sl(2))
    show ?thesis
      using sqlite_stage_wf[OF wf, of "Upsert en"] sqlite_stage_get(3)[OF wf, of "Upsert en"] sl(3,4) ok(2)
      by (intro exI[of _ "u\<lparr>un_autolock := touch (clk app) (touch (clk app) (un_autolock u))\<rparr>"] exI[of _ "[Upsert en]"])
        (simp add: unlocked_app_def c[unfolded Put] sl(2) Put edit_map_def replica_items_stage[OF wf] live_item_alt del: edit_cmd.simps)
  next
    case (Remove i)
    show ?thesis
    proof (cases "sqlite_get ?J ?db i")
      case None
      then have "edit_cmd S nz clk dr e app
          = app\<lparr>av_session := Some (u\<lparr>un_autolock := touch (clk app) (un_autolock u)\<rparr>)\<rparr>"
        by (simp add: Remove delete_item_cmd_def delete_local_effect[OF assms(3)])
      moreover have "replica_items S (un_key u) ?db i = None" using None by (simp add: replica_items_def)
      ultimately show ?thesis using wf
        by (intro exI[of _ "u\<lparr>un_autolock := touch (clk app) (un_autolock u)\<rparr>"] exI[of _ "[]"])
          (auto simp: unlocked_app_def Remove edit_map_def)
    next
      case (Some st)
      let ?op = "Delete i (si_revision st)"
      define app1 where "app1 = app\<lparr>av_session := Some (u\<lparr>un_autolock := touch (clk app) (un_autolock u)\<rparr>),
                 av_db := sqlite_stage ?J ?db ?op\<rparr>"
      have d: "delete_local S (clk app) i app = (Inr (), app1)"
        by (simp add: delete_local_effect[OF assms(3)] Some app1_def)
      have "av_session app1 = Some (u\<lparr>un_autolock := touch (clk app) (un_autolock u)\<rparr>)" by (simp add: app1_def)
      from sync_after_offline[OF assms(2) this, of "dr app" "clk app" "()"] obtain w' where
        "sync_after S (dr app) (clk app) () app1 = Some (Inr (), app1\<lparr>av_session := Some
           (u\<lparr>un_autolock := touch (clk app) (touch (clk app) (un_autolock u))\<rparr>), av_world := w'\<rparr>)" by auto
      then have c: "edit_cmd S nz clk dr e app = app1\<lparr>av_session := Some
           (u\<lparr>un_autolock := touch (clk app) (touch (clk app) (un_autolock u))\<rparr>), av_world := w'\<rparr>"
        by (simp add: Remove delete_item_cmd_def d)
      show ?thesis
        using sqlite_stage_wf[OF wf, of ?op] sqlite_stage_get(3)[OF wf, of ?op]
        by (intro exI[of _ "u\<lparr>un_autolock := touch (clk app) (touch (clk app) (un_autolock u))\<rparr>"] exI[of _ "[?op]"])
          (simp add: unlocked_app_def c[unfolded Remove] app1_def Remove edit_map_def replica_items_stage[OF wf] live_item_alt
            del: edit_cmd.simps)
    qed
  qed
qed

definition offline_inv :: "'w shell \<Rightarrow> account_secrets \<Rightarrow> 'w app \<Rightarrow> bool" where
  "offline_inv S secrets app \<longleftrightarrow> shell_ok S \<and> unreachable S
     \<and> (\<exists>u. unlocked_app S u app \<and> un_secrets u = secrets)"

interpretation ed: item_map "offline_inv S secrets" "\<lambda>app. replica_items S (as_vault_key secrets) (av_db app)"
    "edit_ok S" "edit_cmd S nz clk dr" for S secrets nz clk dr
proof (unfold_locales, goal_cases)
  case (1 app e)
  then show ?case using edit_cmd_offline[of S _ app e nz clk dr] unfolding offline_inv_def by metis
next
  case (2 app e)
  then show ?case using edit_cmd_offline[of S _ app e nz clk dr] unfolding offline_inv_def un_key_def by metis
qed

lemma edits_queue:
  assumes "offline_inv S secrets app" and "\<forall>e \<in> set es. edit_ok S e"
  shows "\<exists>ops. sqlite_pending_ops (sh_json S) (av_db (fold (edit_cmd S nz clk dr) es app))
      = sqlite_pending_ops (sh_json S) (av_db app) @ ops
    \<and> (\<forall>i x. Put i x \<in> set es \<longrightarrow>
         (\<exists>en. Upsert en \<in> set ops \<and> ei_item_id en = i \<and> open_item S (as_vault_key secrets) en = Some x))"
  using assms
proof (induction es arbitrary: app)
  case (Cons e es)
  let ?app1 = "edit_cmd S nz clk dr e app"
  obtain u where u: "shell_ok S" "unreachable S" "unlocked_app S u app" "un_secrets u = secrets" "edit_ok S e"
    using Cons.prems unfolding offline_inv_def by auto
  from edit_cmd_offline[OF u(1-3,5), of nz clk dr] obtain ops where
    ops: "sqlite_pending_ops (sh_json S) (av_db ?app1) = sqlite_pending_ops (sh_json S) (av_db app) @ ops"
    "\<forall>x i. e = Put i x \<longrightarrow> (\<exists>en. ops = [Upsert en] \<and> ei_item_id en = i \<and> open_item S (as_vault_key secrets) en = Some x)"
    using u(4) unfolding un_key_def by blast
  have "offline_inv S secrets ?app1" 
    by (rule ed.inv_edit[OF Cons.prems(1) u(5)])
  from Cons.IH[OF this] Cons.prems(2) obtain ops' where
    ops': "sqlite_pending_ops (sh_json S) (av_db (fold (edit_cmd S nz clk dr) es ?app1))
      = sqlite_pending_ops (sh_json S) (av_db ?app1) @ ops'"
    "\<forall>i x. Put i x \<in> set es \<longrightarrow>
         (\<exists>en. Upsert en \<in> set ops' \<and> ei_item_id en = i \<and> open_item S (as_vault_key secrets) en = Some x)"
    by auto
  show ?case
    using ops ops' by (intro exI[of _ "ops @ ops'"]) fastforce
qed simp

section \<open>A concrete shell\<close>

text \<open>For witnesses only: codecs that satisfy their laws, and a server that cannot be reached.\<close>

definition meta_text :: "account_meta \<Rightarrow> text" where
  "meta_text m = (let p = am_kdf_params m; w = am_master_wrapped m in
     [unat (kp_version p), unat (memory_kib p), unat (iterations p), unat (parallelism p),
      unat (wr_version w), if wr_purpose w = MasterWrap then 0 else 1,
      length (am_server_url m), length (am_email m), length (am_kdf_salt m), length (wr_nonce w)]
     @ am_server_url m @ am_email m @ map unat (am_kdf_salt m) @ map unat (wr_nonce w)
     @ map unat (wr_ciphertext w))"

definition meta_of_text :: "text \<Rightarrow> account_meta option" where
  "meta_of_text t =
     (if length t < 10 then None else
      (let b0 = drop 10 t; b1 = drop (t ! 6) b0; b2 = drop (t ! 7) b1; b3 = drop (t ! 8) b2
       in Some \<lparr>am_server_url = take (t ! 6) b0, am_email = take (t ! 7) b1,
            am_kdf_params = \<lparr>kp_version = word_of_nat (t ! 0), memory_kib = word_of_nat (t ! 1),
              iterations = word_of_nat (t ! 2), parallelism = word_of_nat (t ! 3)\<rparr>,
            am_kdf_salt = map word_of_nat (take (t ! 8) b2),
            am_master_wrapped = \<lparr>wr_version = word_of_nat (t ! 4),
              wr_purpose = (if t ! 5 = 0 then MasterWrap else RecoveryWrap),
              wr_nonce = map word_of_nat (take (t ! 9) b3),
              wr_ciphertext = map word_of_nat (drop (t ! 9) b3)\<rparr>\<rparr>))"

definition toy_meta :: meta_codec where
  "toy_meta = \<lparr>mc_to = \<lambda>m. Inr (meta_text m), mc_of = meta_of_text\<rparr>"

lemma toy_meta_ok [simp]: "meta_codec_ok toy_meta"
proof -
  have "meta_of_text (meta_text m) = Some m" for m
    by (cases m; cases "am_kdf_params m"; cases "am_master_wrapped m"; cases "wr_purpose (am_master_wrapped m)")
      (simp_all add: meta_of_text_def meta_text_def Let_def word_of_nat_unat_map)
  then show ?thesis by (simp add: meta_codec_ok_def toy_meta_def)
qed

definition toy_shell :: "unit shell" where
  "toy_shell = \<lparr>sh_crypto = toy_crypto, sh_json = toy_codec, sh_items = toy_items, sh_meta = toy_meta,
     sh_wire = toy_wire, sh_http = (\<lambda>w rq. (Inl [], w)), sh_lower = to_lowercase (\<lambda>c. [c]),
     sh_zxcvbn = (\<lambda>_ _. \<lparr>ze_score = Score_Four, ze_feedback = None\<rparr>), sh_sha1 = toy_sha1,
     sh_range = (\<lambda>w url. (Inl [], w))\<rparr>"

lemma toy_shell_ok [simp]: "shell_ok toy_shell" "unreachable toy_shell"
  by (simp_all add: shell_ok_def unreachable_def toy_shell_def)

definition toy_unlocked :: unlocked where
  "toy_unlocked = \<lparr>un_secrets = \<lparr>as_auth_key = AuthKey [3], as_vault_key = VaultKey [1]\<rparr>,
     un_api = api_new (lit ''localhost''), un_autolock = autolock_new 0 DEFAULT_TIMEOUT,
     un_email = lit ''a@b.c''\<rparr>"

definition toy_app :: "unit app" where
  "toy_app = \<lparr>av_session = Some toy_unlocked, av_db = sqlite_empty, av_world = ()\<rparr>"

lemma toy_app_unlocked [simp]: "unlocked_app toy_shell toy_unlocked toy_app"
  by (simp add: unlocked_app_def toy_app_def toy_shell_def)

lemma toy_fits: "length (toy_write (item_texts i)) < 2 ^ 32 \<Longrightarrow> fits toy_shell i"
  by (simp add: fits_def toy_shell_def toy_items_def)

text \<open>Claim C6.  Editing works without the server and loses nothing: after any sequence of saves and
  deletions made while the server cannot be reached, the vault shows, for every item, exactly what the
  edits in their order leave of it; everything queued before is still queued, in order, and every
  saved version is in the queue, encrypted under the vault key, waiting to be sent.\<close>

theorem offline_edits_kept:
  assumes "shell_ok S" and "unreachable S" and "unlocked_app S u app" and "\<forall>e \<in> set es. edit_ok S e"
  shows "replica_items S (un_key u) (av_db (fold (edit_cmd S nz clk dr) es app))
      = fold edit_map es (replica_items S (un_key u) (av_db app))
    \<and> (\<exists>ops. sqlite_pending_ops (sh_json S) (av_db (fold (edit_cmd S nz clk dr) es app))
          = sqlite_pending_ops (sh_json S) (av_db app) @ ops
        \<and> (\<forall>i x. Put i x \<in> set es \<longrightarrow>
             (\<exists>en. Upsert en \<in> set ops \<and> ei_item_id en = i \<and> open_item S (un_key u) en = Some x)))"
proof -
  have "offline_inv S (un_secrets u) app" using assms(1-3) by (auto simp: offline_inv_def)
  from ed.edits_view[OF this assms(4)] edits_queue[OF this assms(4)] show ?thesis
    unfolding un_key_def by blast
qed

theorem offline_edits_kept_witness:
  "let app' = fold (edit_cmd toy_shell (\<lambda>_. [7]) (\<lambda>_. 9) (\<lambda>_. \<lparr>sd_token_nonce = [], sd_copy = \<lambda>_. ([], [])\<rparr>))
        [Put [5] (Note_Item [1] [2] []), Put [6] (Note_Item [3] [] []), Remove [5]] toy_app
   in replica_items toy_shell (VaultKey [1]) (av_db app') [5] = None
    \<and> replica_items toy_shell (VaultKey [1]) (av_db app') [6] = Some (Note_Item [3] [] [])"
proof -
  have "fits toy_shell (Note_Item [1] [2] [])" "fits toy_shell (Note_Item [3] [] [])"
    by (rule toy_fits, simp add: toy_write_def toy_char_def)+
  then have "\<forall>e \<in> set [Put [5] (Note_Item [1] [2] []), Put [6] (Note_Item [3] [] []), Remove [5]]. edit_ok toy_shell e"
    by (simp add: is_meta_def lit_def)
  from offline_edits_kept[OF toy_shell_ok toy_app_unlocked this,
      of "\<lambda>_. [7]" "\<lambda>_. 9" "\<lambda>_. \<lparr>sd_token_nonce = [], sd_copy = \<lambda>_. ([], [])\<rparr>"]
  show ?thesis by (simp add: un_key_def toy_unlocked_def edit_map_def Let_def del: edit_cmd.simps)
qed

end
