(* ===== verification/Shell_Views.thy ===== *)
theory Shell_Views
  imports Shell_Items
begin

text \<open>
  What the shell shows of the vault, what tag management does to all of it, and what a sync makes of
  edits that lost.
\<close>

section \<open>The list\<close>

lemma set_map_filter: "set (List.map_filter f xs) = {y. \<exists>x \<in> set xs. f x = Some y}"
  by (induction xs) (auto simp: List.map_filter_simps split: option.splits)

lemma distinct_map_filter_key:
  assumes "distinct (map h xs)" and "\<forall>x \<in> set xs. \<forall>y. f x = Some y \<longrightarrow> g y = h x"
  shows "distinct (map g (List.map_filter f xs))"
  using assms
proof (induction xs)
  case (Cons x xs)
  then have IH: "distinct (map g (List.map_filter f xs))" by simp
  show ?case
  proof (cases "f x")
    case (Some y)
    have "g y \<notin> g ` set (List.map_filter f xs)"
    proof
      assume "g y \<in> g ` set (List.map_filter f xs)"
      then obtain x' y' where "x' \<in> set xs" "f x' = Some y'" "g y' = g y" by (auto simp: set_map_filter)
      with Cons.prems Some have "h x' = h x" "x' \<in> set xs" by auto
      with Cons.prems(1) show False by (metis distinct.simps(2) imageI list.set_map list.simps(9))
    qed
    with IH Some show ?thesis by (simp add: List.map_filter_simps)
  qed (use IH in \<open>simp add: List.map_filter_simps\<close>)
qed (simp add: List.map_filter_simps)

lemma distinct_map_sort_key: "distinct (map g xs) \<Longrightarrow> distinct (map g (sort_key k xs))"
  by (simp add: distinct_map)

text \<open>The rows a loop of the shell reads, by id.\<close>

lemma listed_rows:
  assumes "sqlite_wf (sh_json S) db"
  shows "(\<exists>st \<in> set (sqlite_list (sh_json S) db). live_item S vk st = Some x \<and> si_item_id st = i)
    \<longleftrightarrow> replica_items S vk db i = Some x"
proof
  assume "\<exists>st \<in> set (sqlite_list (sh_json S) db). live_item S vk st = Some x \<and> si_item_id st = i"
  then show "replica_items S vk db i = Some x" using live_list[OF assms] by blast
next
  assume r: "replica_items S vk db i = Some x"
  then obtain st where st: "sqlite_get (sh_json S) db i = Some st" "live_item S vk st = Some x"
    by (auto simp: replica_items_def bind_eq_Some_conv)
  moreover have "si_item_id st = i" by (rule sqlite_get_id[OF assms st(1)])
  ultimately show "\<exists>st \<in> set (sqlite_list (sh_json S) db). live_item S vk st = Some x \<and> si_item_id st = i"
    using sqlite_list_laws(1)[OF assms, of st] by blast
qed

text \<open>Claim C13.  The list shows the vault: it holds one summary for each live item that matches the query
  and carries the tag (a blank tag selects everything), nothing else, ordered by lower-cased name; and
  every item of the vault can be opened.\<close>

theorem list_shows_vault:
  assumes "unlocked_app S u app"
  shows "(\<exists>ss. fst (list_items_cmd S now query tag app) = Inr ss
      \<and> set ss = {item_summary_of i x | i x. replica_items S (un_key u) (av_db app) i = Some x
           \<and> matches (sh_lower S) x query
           \<and> (case tag of Some t \<Rightarrow> trim t = [] \<or> has_tag (sh_lower S) x t | None \<Rightarrow> True)}
      \<and> distinct (map su_item_id ss) \<and> sorted (map (\<lambda>s. sh_lower S (su_name s)) ss))
    \<and> (\<forall>i x. replica_items S (un_key u) (av_db app) i = Some x \<longrightarrow> fst (get_item_cmd S now i app) = Inr x)"
proof (intro conjI allI impI)
  have wf: "sqlite_wf (sh_json S) (av_db app)" and se: "av_session app = Some u"
    using assms by (simp_all add: unlocked_app_def)
  define keep where "keep = (\<lambda>x. (case (case tag of Some t \<Rightarrow> if trim t = [] then None else Some t | None \<Rightarrow> None) of
      None \<Rightarrow> True | Some t \<Rightarrow> has_tag (sh_lower S) x t) \<and> matches (sh_lower S) x query)"
  define f where "f = (\<lambda>st. case live_item S (un_key u) st of None \<Rightarrow> None
      | Some x \<Rightarrow> if keep x then Some (item_summary_of (si_item_id st) x) else None)"
  have l: "fst (list_items_cmd S now query tag app)
      = Inr (sort_key (\<lambda>a. sh_lower S (su_name a)) (List.map_filter f (sqlite_list (sh_json S) (av_db app))))"
    unfolding f_def keep_def by (simp add: list_items_cmd_def with_session_def se Let_def un_key_def)
  have "f st = Some s \<longleftrightarrow> (\<exists>x. live_item S (un_key u) st = Some x \<and> keep x \<and> s = item_summary_of (si_item_id st) x)" for st s
    by (auto simp: f_def split: option.splits)
  then have "set (List.map_filter f (sqlite_list (sh_json S) (av_db app)))
      = {item_summary_of i x | i x. (\<exists>st \<in> set (sqlite_list (sh_json S) (av_db app)).
           live_item S (un_key u) st = Some x \<and> si_item_id st = i) \<and> keep x}"
    by (auto simp: set_map_filter)
  also have "\<dots> = {item_summary_of i x | i x. replica_items S (un_key u) (av_db app) i = Some x
           \<and> matches (sh_lower S) x query
           \<and> (case tag of Some t \<Rightarrow> trim t = [] \<or> has_tag (sh_lower S) x t | None \<Rightarrow> True)}"
    unfolding listed_rows[OF wf] by (auto simp: keep_def split: option.splits)
  finally have s: "set (List.map_filter f (sqlite_list (sh_json S) (av_db app))) = \<dots>" .
  have "distinct (map su_item_id (List.map_filter f (sqlite_list (sh_json S) (av_db app))))"
    by (rule distinct_map_filter_key[where h = si_item_id])
      (use sqlite_list_laws(2)[OF wf] in \<open>auto simp: f_def item_summary_of_def split: option.splits if_splits\<close>)
  with l s show "\<exists>ss. fst (list_items_cmd S now query tag app) = Inr ss
      \<and> set ss = {item_summary_of i x | i x. replica_items S (un_key u) (av_db app) i = Some x
           \<and> matches (sh_lower S) x query
           \<and> (case tag of Some t \<Rightarrow> trim t = [] \<or> has_tag (sh_lower S) x t | None \<Rightarrow> True)}
      \<and> distinct (map su_item_id ss) \<and> sorted (map (\<lambda>s. sh_lower S (su_name s)) ss)"
    by (intro exI[of _ "sort_key (\<lambda>a. sh_lower S (su_name a)) (List.map_filter f (sqlite_list (sh_json S) (av_db app)))"])
      (simp add: distinct_map_sort_key)
  fix i x assume "replica_items S (un_key u) (av_db app) i = Some x"
  then obtain st where st: "sqlite_get (sh_json S) (av_db app) i = Some st" "live_item S (un_key u) st = Some x"
    by (auto simp: replica_items_def bind_eq_Some_conv)
  then show "fst (get_item_cmd S now i app) = Inr x"
    by (auto simp: get_item_cmd_def with_session_def se un_key_def live_item_def Let_def
        split: if_splits option.splits sum.splits)
qed

theorem list_shows_vault_witness:
  "fst (list_items_cmd toy_shell 3 [] None toy_app) = Inr []"
proof -
  have "replica_items toy_shell (un_key toy_unlocked) (av_db toy_app) i = None" for i
    by (simp add: replica_items_def toy_app_def)
  then show ?thesis using list_shows_vault[OF toy_app_unlocked, of 3 "[]" None] by auto
qed

section \<open>Tags across the vault\<close>

lemma retag_loop_effect:
  assumes "shell_ok S" and "sqlite_wf (sh_json S) db" and "distinct (map si_item_id sts)"
    and "\<forall>st \<in> set sts. sqlite_get (sh_json S) db (si_item_id st) = Some st"
    and "\<forall>st \<in> set sts. \<forall>x. live_item S vk st = Some x \<longrightarrow> fits S (fst (retag (sh_lower S) x from to))"
  shows "\<exists>db'. retag_loop S vk nonces from to sts n db =
      (Inr (n + length (filter (\<lambda>st. \<exists>x. live_item S vk st = Some x \<and> has_tag (sh_lower S) x from) sts)), db')
    \<and> sqlite_wf (sh_json S) db'
    \<and> (\<forall>i. replica_items S vk db' i = (if i \<in> si_item_id ` set sts
           then map_option (\<lambda>x. fst (retag (sh_lower S) x from to)) (replica_items S vk db i)
           else replica_items S vk db i))"
  using assms(2-5)
proof (induction sts arbitrary: n db)
  case (Cons st sts)
  let ?rt = "\<lambda>x. retag (sh_lower S) x from to"
  have get: "sqlite_get (sh_json S) db (si_item_id st) = Some st" using Cons.prems(3) by simp
  have ri: "replica_items S vk db (si_item_id st) = live_item S vk st" using get by (simp add: replica_items_def)
  have d: "si_item_id st \<notin> si_item_id ` set sts" using Cons.prems(2) by simp
  show ?case
  proof (cases "\<exists>x. live_item S vk st = Some x \<and> has_tag (sh_lower S) x from")
    case False
    have step: "retag_loop S vk nonces from to (st # sts) n db = retag_loop S vk nonces from to sts n db"
      using False by (auto simp: retag_eq split: option.splits)
    have "map_option (\<lambda>x. fst (?rt x)) (live_item S vk st) = live_item S vk st"
      using False by (cases "live_item S vk st") (auto simp: retag_eq)
    moreover obtain db' where "retag_loop S vk nonces from to sts n db =
      (Inr (n + length (filter (\<lambda>st. \<exists>x. live_item S vk st = Some x \<and> has_tag (sh_lower S) x from) sts)), db')"
      "sqlite_wf (sh_json S) db'"
      "\<forall>i. replica_items S vk db' i = (if i \<in> si_item_id ` set sts
           then map_option (\<lambda>x. fst (?rt x)) (replica_items S vk db i) else replica_items S vk db i)"
      using Cons.IH[of db n] Cons.prems by auto
    ultimately show ?thesis using False step d ri by (intro exI[of _ db']) auto
  next
    case True
    then obtain x where x: "live_item S vk st = Some x" "has_tag (sh_lower S) x from" by blast
    then have nm: "\<not> is_meta (si_item_id st)" by (auto simp: live_item_alt split: if_splits)
    define y where "y = fst (?rt x)"
    have rt: "?rt x = (y, True)" using x(2) by (simp add: y_def retag_eq)
    have "fits S y" using Cons.prems(4) x(1) by (simp add: y_def)
    from seal_item[OF assms(1) this] obtain plain e where e: "ic_to (sh_items S) y = Inr plain"
      "encrypt_item (sh_crypto S) (nonces n) vk (si_item_id st) (as_u64 (si_revision st + 1)) plain = Inr e"
      "ei_item_id e = si_item_id st" "open_item S vk e = Some y" by metis
    let ?db1 = "sqlite_stage (sh_json S) db (Upsert e)"
    have wf1: "sqlite_wf (sh_json S) ?db1" by (rule sqlite_stage_wf[OF Cons.prems(1)])
    have r1: "replica_items S vk ?db1 = (replica_items S vk db)(si_item_id st \<mapsto> y)"
      using replica_items_stage[OF Cons.prems(1), of vk "Upsert e"] e(3,4) nm
      by (simp add: live_item_alt)
    have g1: "\<forall>st' \<in> set sts. sqlite_get (sh_json S) ?db1 (si_item_id st') = Some st'"
    proof
      fix st' assume st': "st' \<in> set sts"
      then have "si_item_id st' \<noteq> op_item_id (Upsert e)" using d e(3) by (metis image_eqI op_item_id.simps(1))
      then show "sqlite_get (sh_json S) ?db1 (si_item_id st') = Some st'"
        using st' Cons.prems(3) sqlite_stage_get(1)[OF Cons.prems(1), of "Upsert e"] by (simp del: op_item_id.simps)
    qed
    have p: "distinct (map si_item_id sts)"
      "\<forall>st \<in> set sts. \<forall>x. live_item S vk st = Some x \<longrightarrow> fits S (fst (?rt x))" using Cons.prems by simp_all
    obtain db' where IH:
      "retag_loop S vk nonces from to sts (n + 1) ?db1 =
      (Inr (n + 1 + length (filter (\<lambda>st. \<exists>x. live_item S vk st = Some x \<and> has_tag (sh_lower S) x from) sts)), db')"
      "sqlite_wf (sh_json S) db'"
      "\<forall>i. replica_items S vk db' i = (if i \<in> si_item_id ` set sts
           then map_option (\<lambda>x. fst (?rt x)) (replica_items S vk ?db1 i) else replica_items S vk ?db1 i)"
      using Cons.IH[OF wf1 p(1) g1 p(2), of "n + 1"] by blast
    have "retag_loop S vk nonces from to (st # sts) n db = retag_loop S vk nonces from to sts (n + 1) ?db1"
      by (simp add: x(1) rt e(1,2))
    moreover have "n + 1 + length (filter (\<lambda>st. \<exists>x. live_item S vk st = Some x \<and> has_tag (sh_lower S) x from) sts)
        = n + length (filter (\<lambda>st. \<exists>x. live_item S vk st = Some x \<and> has_tag (sh_lower S) x from) (st # sts))"
      using True by simp
    moreover have "replica_items S vk db' i = (if i \<in> si_item_id ` set (st # sts)
           then map_option (\<lambda>x. fst (?rt x)) (replica_items S vk db i) else replica_items S vk db i)" for i
      using IH(3) d ri x(1) by (cases "i = si_item_id st") (simp_all add: r1 y_def)
    ultimately show ?thesis using IH(1,2) by (intro exI[of _ db']) simp
  qed
qed simp



end
