(* ===== verification/Shell_Sync.thy ===== *)
theory Shell_Sync
  imports Shell_Views
begin

text \<open>
  The shell around a sync: what it makes of edits that lost against the server, and the lock.
\<close>

section \<open>A cycle through the shell\<close>

context local_vault
begin

lemma synchronize_report:
  assumes "synchronize C V T K vk v t = Some (Inr rep, v', t')"
  shows "\<exists>t1 t2. sync V T v t1 = Some (Inr rep, v', t2)"
  using assms by (auto simp: synchronize_def Let_def split: sum.splits prod.splits option.splits if_splits)

end

lemma try_sync_Synced:
  assumes "try_sync S u db w = Some (Synced rep, u', db', w')" and "sqlite_wf (sh_json S) db"
  shows "un_secrets u' = un_secrets u" and "sqlite_wf (sh_json S) db'"
    and "sqlite_pending_ops (sh_json S) db' = []"
    and "sr_pushed rep + length (sr_conflicts rep) = length (sqlite_pending_ops (sh_json S) db)"
    and "subseq (map cf_losing_op (sr_conflicts rep)) (sqlite_pending_ops (sh_json S) db)"
proof -
  obtain a where s: "synchronize (sh_crypto S) (sqlite_ops (sh_json S)) (http_transport (sh_wire S) (sh_http S))
             (http_checkpoints (sh_wire S) (sh_http S)) (un_key u) db (un_api u, w) = Some (Inr rep, db', (a, w'))"
    "u' = u\<lparr>un_api := a\<rparr>"
    using assms(1) by (auto simp: try_sync_def outcome_of_sync_def split: option.splits sum.splits
        sync_error.splits sync_engine_error.splits)
  obtain t1 t2 where c: "sync (sqlite_ops (sh_json S)) (http_transport (sh_wire S) (sh_http S)) db t1
      = Some (Inr rep, db', t2)"
    using sq.synchronize_report[OF s(1)] by blast
  note l = sq.sync_laws[OF assms(2) c, unfolded sqlite_ops_sel]
  show "un_secrets u' = un_secrets u" by (simp add: s(2))
  from l show "sqlite_wf (sh_json S) db'" "sqlite_pending_ops (sh_json S) db' = []"
    "sr_pushed rep + length (sr_conflicts rep) = length (sqlite_pending_ops (sh_json S) db)"
    "subseq (map cf_losing_op (sr_conflicts rep)) (sqlite_pending_ops (sh_json S) db)"
    by auto
qed

lemma try_sync_total:
  assumes "sqlite_wf (sh_json S) db"
  obtains r u' db' w' where "try_sync S u db w = Some (r, u', db', w')" and "un_secrets u' = un_secrets u"
    and "sqlite_wf (sh_json S) db'" and "saved_meta db' = saved_meta db"
    and "un_email u' = un_email u" and "un_autolock u' = un_autolock u"
proof -
  obtain r db' a w' where s: "synchronize (sh_crypto S) (sqlite_ops (sh_json S))
      (http_transport (sh_wire S) (sh_http S)) (http_checkpoints (sh_wire S) (sh_http S)) (un_key u) db
      (un_api u, w) = Some (r, db', a, w')"
    using sq.synchronize_total[OF assms] by (metis prod_cases4)
  from sq.synchronize_laws[OF assms s] sqm.synchronize_obs[OF assms s]
  show thesis by (intro that[of "outcome_of_sync r" "u\<lparr>un_api := a\<rparr>" db' w']) (simp_all add: try_sync_def s)
qed

lemma persist_sel [simp]:
  "sq_items (persist_rotated_refresh_token S nonce u db) = sq_items db"
  "sq_ops (persist_rotated_refresh_token S nonce u db) = sq_ops db"
  "sq_ops_seq (persist_rotated_refresh_token S nonce u db) = sq_ops_seq db"
  by (auto simp: persist_rotated_refresh_token_def set_encrypted_refresh_token_def meta_set_def split: option.splits)

lemma persist_wf [simp]:
  "sqlite_wf J (persist_rotated_refresh_token S nonce u db) = sqlite_wf J db"
  by (simp add: sqlite_wf_def)

lemma persist_meta:
  assumes "key \<noteq> lit ''refresh_token''"
  shows "meta_get (persist_rotated_refresh_token S nonce u db) key = meta_get db key"
  using assms by (auto simp: persist_rotated_refresh_token_def set_encrypted_refresh_token_def meta_set_def
      meta_get_def update_conv' split: option.splits)

section \<open>Conflicted copies\<close>

definition copy_of :: "item \<Rightarrow> item" where
  "copy_of i = set_name i (it_name i @ COPY_SUFFIX)"

text \<open>What a losing operation said, if it can be read.\<close>

definition losing_item :: "'w shell \<Rightarrow> vault_key \<Rightarrow> pending_op \<Rightarrow> item option" where
  "losing_item S vk op = (case op of Upsert e \<Rightarrow> open_item S vk e | Delete _ _ \<Rightarrow> None)"

lemma map_filter_comp: "List.map_filter (f \<circ> g) xs = List.map_filter f (map g xs)"
  by (induction xs) (simp_all add: List.map_filter_simps comp_def split: option.splits)

lemma conflict_copies_effect:
  assumes "shell_ok S" and "sqlite_wf (sh_json S) db"
    and "\<forall>c \<in> set cs. \<forall>i. losing_item S vk (cf_losing_op c) = Some i \<longrightarrow> fits S (copy_of i)"
    and "inj (\<lambda>k. fst (copy k))" and "\<forall>k. \<not> is_meta (fst (copy k))"
  shows "\<exists>db' es. conflict_copies S vk copy k cs n db = (n + length es, db') \<and> sqlite_wf (sh_json S) db'
    \<and> sqlite_pending_ops (sh_json S) db' = sqlite_pending_ops (sh_json S) db @ map Upsert es
    \<and> map (open_item S vk) es
        = map (Some \<circ> copy_of) (List.map_filter (losing_item S vk \<circ> cf_losing_op) cs)
    \<and> (\<forall>e \<in> set es. replica_items S vk db' (ei_item_id e) = open_item S vk e \<and> ei_item_id e \<in> fst ` copy ` {k..})
    \<and> (\<forall>i. i \<notin> fst ` copy ` {k..} \<longrightarrow> replica_items S vk db' i = replica_items S vk db i)"
  using assms(2,3)
proof (induction cs arbitrary: k n db)
  case (Cons c cs)
  have rest: "\<forall>c \<in> set cs. \<forall>i. losing_item S vk (cf_losing_op c) = Some i \<longrightarrow> fits S (copy_of i)"
    using Cons.prems(2) by simp
  have sub: "i \<in> fst ` copy ` {k + 1..} \<Longrightarrow> i \<in> fst ` copy ` {k..}" for i by force
  show ?case
  proof (cases "losing_item S vk (cf_losing_op c)")
    case None
    then have step: "conflict_copies S vk copy k (c # cs) n db = conflict_copies S vk copy (k + 1) cs n db"
      by (auto simp: losing_item_def open_item_def split: pending_op.splits sum.splits)
    obtain db' es where IH: "conflict_copies S vk copy (k + 1) cs n db = (n + length es, db')"
      "sqlite_wf (sh_json S) db'"
      "sqlite_pending_ops (sh_json S) db' = sqlite_pending_ops (sh_json S) db @ map Upsert es"
      "map (open_item S vk) es = map (Some \<circ> copy_of) (List.map_filter (losing_item S vk \<circ> cf_losing_op) cs)"
      "\<forall>e \<in> set es. replica_items S vk db' (ei_item_id e) = open_item S vk e \<and> ei_item_id e \<in> fst ` copy ` {k + 1..}"
      "\<forall>i. i \<notin> fst ` copy ` {k + 1..} \<longrightarrow> replica_items S vk db' i = replica_items S vk db i"
      using Cons.IH[OF Cons.prems(1) rest, of "k + 1" n] by - (elim exE conjE, rule that)
    have mf: "List.map_filter (losing_item S vk \<circ> cf_losing_op) (c # cs)
        = List.map_filter (losing_item S vk \<circ> cf_losing_op) cs"
      using None by (simp add: List.map_filter_simps)
    show ?thesis unfolding step mf
    proof (rule exI[of _ db'], rule exI[of _ es], intro conjI)
      show "\<forall>e \<in> set es. replica_items S vk db' (ei_item_id e) = open_item S vk e \<and> ei_item_id e \<in> fst ` copy ` {k..}"
        using IH(5) sub by blast
      show "\<forall>i. i \<notin> fst ` copy ` {k..} \<longrightarrow> replica_items S vk db' i = replica_items S vk db i"
        using IH(6) sub by blast
    qed (rule IH)+
  next
    case (Some i)
    then obtain e plain0 where op: "cf_losing_op c = Upsert e" "decrypt_item (sh_crypto S) vk e = Inr plain0"
      "ic_of (sh_items S) plain0 = Inr i"
      by (auto simp: losing_item_def open_item_def split: pending_op.splits sum.splits)
    have "fits S (copy_of i)" using Cons.prems(2) Some by simp
    from seal_item[OF assms(1) this] obtain plain e' where e': "ic_to (sh_items S) (copy_of i) = Inr plain"
      "encrypt_item (sh_crypto S) (snd (copy k)) vk (fst (copy k)) 1 plain = Inr e'"
      "ei_item_id e' = fst (copy k)" "open_item S vk e' = Some (copy_of i)" by metis
    let ?db1 = "sqlite_stage (sh_json S) db (Upsert e')"
    have step: "conflict_copies S vk copy k (c # cs) n db = conflict_copies S vk copy (k + 1) cs (n + 1) ?db1"
      using e'(1,2) by (simp add: op copy_of_def Let_def)
    have wf1: "sqlite_wf (sh_json S) ?db1" by (rule sqlite_stage_wf[OF Cons.prems(1)])
    have p1: "sqlite_pending_ops (sh_json S) ?db1 = sqlite_pending_ops (sh_json S) db @ [Upsert e']"
      by (rule sqlite_stage_get(3)[OF Cons.prems(1)])
    have r1: "replica_items S vk ?db1 = (replica_items S vk db)(fst (copy k) \<mapsto> copy_of i)"
      using replica_items_stage[OF Cons.prems(1), of vk "Upsert e'"] e'(3,4) assms(5) by (simp add: live_item_alt)
    have new: "fst (copy k) \<notin> fst ` copy ` {k + 1..}"
    proof
      assume "fst (copy k) \<in> fst ` copy ` {k + 1..}"
      then obtain k' where "k + 1 \<le> k'" "fst (copy k) = fst (copy k')" by auto
      with injD[OF assms(4)] show False by fastforce
    qed
    obtain db' es where IH: "conflict_copies S vk copy (k + 1) cs (n + 1) ?db1 = (n + 1 + length es, db')"
      "sqlite_wf (sh_json S) db'"
      "sqlite_pending_ops (sh_json S) db' = sqlite_pending_ops (sh_json S) ?db1 @ map Upsert es"
      "map (open_item S vk) es = map (Some \<circ> copy_of) (List.map_filter (losing_item S vk \<circ> cf_losing_op) cs)"
      "\<forall>e \<in> set es. replica_items S vk db' (ei_item_id e) = open_item S vk e \<and> ei_item_id e \<in> fst ` copy ` {k + 1..}"
      "\<forall>i. i \<notin> fst ` copy ` {k + 1..} \<longrightarrow> replica_items S vk db' i = replica_items S vk ?db1 i"
      using Cons.IH[OF wf1 rest, of "k + 1" "n + 1"] by - (elim exE conjE, rule that)
    have in_k: "fst (copy k) \<in> fst ` copy ` {k..}" by simp
    show ?thesis
    proof (intro exI[of _ db'] exI[of _ "e' # es"] conjI)
      show "map (open_item S vk) (e' # es)
          = map (Some \<circ> copy_of) (List.map_filter (losing_item S vk \<circ> cf_losing_op) (c # cs))"
        using IH(4) e'(4) Some by (simp add: List.map_filter_simps)
      show "\<forall>e \<in> set (e' # es). replica_items S vk db' (ei_item_id e) = open_item S vk e
          \<and> ei_item_id e \<in> fst ` copy ` {k..}"
        using IH(5,6) new r1 e'(3,4) in_k sub by auto
      show "\<forall>i. i \<notin> fst ` copy ` {k..} \<longrightarrow> replica_items S vk db' i = replica_items S vk db i"
        using IH(6) sub in_k r1 by (metis fun_upd_apply)
    qed (use IH(1-3) step p1 in simp_all)
  qed
qed (auto simp: List.map_filter_simps)


text \<open>A server that refuses every write, for the witness: each push is a conflict with a purged item.\<close>

definition refusing_shell :: "unit shell" where
  "refusing_shell = toy_shell\<lparr>
     sh_wire := toy_wire\<lparr>wi_pull_of := \<lambda>_. Inr \<lparr>pr_items = [], pr_latest_seq = 0, pr_full_resync = False\<rparr>\<rparr>,
     sh_http := \<lambda>w rq. (Inr (if rq_method rq = PUT then 409 else 200, Inr J_Null), w)\<rparr>"

lemma refusing_shell_sel [simp]:
  "sh_crypto refusing_shell = toy_crypto" "sh_json refusing_shell = toy_codec"
  "sh_items refusing_shell = toy_items" "sh_meta refusing_shell = toy_meta" "shell_ok refusing_shell"
  using toy_shell_ok(1) by (simp_all add: refusing_shell_def toy_shell_def shell_ok_def)

lemma refusing_call:
  assumes "cl_access (ap_tokens a) = Some tok"
  shows "api_authed (sh_http refusing_shell) build a w
    = (Inr (if rq_method (build (ap_base_url a)) = PUT then 409 else 200, J_Null), a, w)"
  using assms by (simp add: api_authed_def authed_def authed_once_def bearer_call_def refusing_shell_def body_or_null_def)

lemma refusing_sync:
  assumes "cl_access (ap_tokens (un_api u)) = Some tok" and "sqlite_wf toy_codec db"
    and "sqlite_pending_ops toy_codec db = [Upsert e]" and "sqlite_last_seq db = 0"
  shows "\<exists>db'. try_sync refusing_shell u db () = Some (Synced \<lparr>sr_pulled = 0, sr_pushed = 0,
      sr_conflicts = [\<lparr>cf_item_id = ei_item_id e, cf_losing_op = Upsert e, cf_server_state = None\<rparr>],
      sr_full_resync = False\<rparr>, u, db', ())"
proof -
  let ?V = "sqlite_ops toy_codec" and ?T = "http_transport (sh_wire refusing_shell) (sh_http refusing_shell)"
    and ?t = "(un_api u, ())"
  note call = refusing_call[OF assms(1)]
  have pull: "t_pull ?T ?t since = (Inr \<lparr>pr_items = [], pr_latest_seq = 0, pr_full_resync = False\<rparr>, ?t)" for since
    by (simp add: http_transport_def http_pull_def call plain_request_def) (simp add: refusing_shell_def)
  have push: "push_op ?T ?t (Upsert e) = (Inr (Conflicted None), ?t)"
    by (simp add: push_op_def http_transport_def http_push_upsert_def call plain_request_def current_of_def)
      (simp add: refusing_shell_def toy_wire_def)
  have get: "ck_get (http_checkpoints (sh_wire refusing_shell) (sh_http refusing_shell)) ?t = (Inr None, ?t)"
    by (simp add: http_checkpoints_def http_get_checkpoint_def authed_parse_def call req_def plain_request_def
        is_success_def Let_def)
  let ?s = "settle ?V db (Upsert e) (Conflicted None) empty_report"
  have w1: "sqlite_wf toy_codec (fst ?s)" "sqlite_pending_ops toy_codec (fst ?s) = [Upsert e]"
    using sq.settle_laws(1,3)[OF assms(2), of "Upsert e" "Conflicted None" empty_report "fst ?s" "snd ?s"] assms(3)
    by (simp_all add: sqlite_ops_sel)
  define db1 where "db1 = vo_pop_front_op ?V (fst ?s)"
  have w2: "sqlite_wf toy_codec db1" "vo_pending_ops ?V db1 = []"
    using sq.pending_pop[OF w1(1)] sq.wf_pop[OF w1(1)] w1(2) by (simp_all add: db1_def sqlite_ops_sel)
  have r: "snd ?s = empty_report\<lparr>sr_conflicts := [\<lparr>cf_item_id = ei_item_id e, cf_losing_op = Upsert e,
      cf_server_state = None\<rparr>]\<rparr>" by (simp add: settle_def empty_report_def)
  have "push_loop ?V ?T db ?t empty_report = push_loop ?V ?T db1 ?t (snd ?s)"
    by (subst push_loop.simps) (simp add: assms(3) sqlite_ops_sel push db1_def)
  also have "\<dots> = Some (Inr (snd ?s), db1, ?t)" by (subst push_loop.simps) (simp add: w2(2))
  finally have loop: "push_loop ?V ?T db ?t empty_report = Some (Inr (snd ?s), db1, ?t)" .
  have er: "empty_report\<lparr>sr_full_resync := False\<rparr> = empty_report" by (simp add: empty_report_def)
  have "sync ?V ?T db ?t = Some (Inr (snd ?s), vo_set_last_seq ?V db1 0, ?t)"
    by (simp add: sync_def pull assms(4) sqlite_ops_sel er loop)
  moreover have "vo_last_seq ?V (vo_set_last_seq ?V db1 0) = 0" by (rule sq.last_seq_set[OF w2(1)])
  ultimately have "synchronize toy_crypto ?V ?T (http_checkpoints (sh_wire refusing_shell) (sh_http refusing_shell))
      (un_key u) db ?t = Some (Inr (snd ?s), vo_set_last_seq ?V db1 0, ?t)"
    by (simp add: synchronize_def get verify_checkpoint_def assms(4) sqlite_ops_sel Let_def)
  then show ?thesis by (simp add: try_sync_def outcome_of_sync_def r) (simp add: empty_report_def)
qed


end
