(* ===== verification/Vault_Transfer.thy ===== *)
theory Vault_Transfer
  imports Toy_Items Toy_Codec Account_Flows
begin

text \<open>
  desktop-core \<open>transfer.rs\<close>: encrypted backups and the CSV import.  serde's JSON of the payload
  and of the envelope is the record \<open>export_codec\<close>; the csv crate is the function \<open>csv\<close> from a
  file to its header row and its records, each with the error it can end in.
\<close>

section \<open>Backups\<close>

datatype transfer_error =
    Te_Decrypt
  | Te_BadFormat
  | Te_Csv "text"
  | Te_Other "text"

record export_payload =
  ep_exported_at_unix :: int
  ep_items :: "item list"

record export_codec =
  xc_payload_to :: "export_payload \<Rightarrow> text + bytes"
  xc_payload_of :: "bytes \<Rightarrow> export_payload option"
  xc_envelope_to :: "export_envelope \<Rightarrow> text + text"
  xc_envelope_of :: "text \<Rightarrow> export_envelope option"

definition export_codec_ok :: "export_codec \<Rightarrow> bool" where
  "export_codec_ok X \<longleftrightarrow>
     (\<forall>p. \<exists>b. xc_payload_to X p = Inr b \<and> xc_payload_of X b = Some p)
   \<and> (\<forall>e. \<exists>t. xc_envelope_to X e = Inr t \<and> xc_envelope_of X t = Some e)"

text \<open>\<open>now\<close> is the clock; \<open>salt\<close> and \<open>nonce\<close> are the fresh random values.\<close>

definition export_encrypted ::
    "crypto \<Rightarrow> export_codec \<Rightarrow> int \<Rightarrow> bytes \<Rightarrow> bytes \<Rightarrow> item list \<Rightarrow> text \<Rightarrow> transfer_error + text" where
  "export_encrypted C X now salt nonce items passphrase =
     (case xc_payload_to X \<lparr>ep_exported_at_unix = now, ep_items = items\<rparr> of
        Inl e \<Rightarrow> Inl (Te_Other e)
      | Inr plaintext \<Rightarrow>
          (case encrypt_export C salt nonce plaintext passphrase of
             Inl e \<Rightarrow> Inl (Te_Other (crypto_error_text e))
           | Inr envelope \<Rightarrow>
               (case xc_envelope_to X envelope of
                  Inl e \<Rightarrow> Inl (Te_Other e)
                | Inr t \<Rightarrow> Inr t)))"

definition import_encrypted ::
    "crypto \<Rightarrow> export_codec \<Rightarrow> text \<Rightarrow> text \<Rightarrow> transfer_error + item list" where
  "import_encrypted C X file_contents passphrase =
     (case xc_envelope_of X file_contents of
        None \<Rightarrow> Inl Te_BadFormat
      | Some envelope \<Rightarrow>
          if ex_format envelope \<noteq> lit ''basementen-vault-export'' then Inl Te_BadFormat
          else
            (case decrypt_export C envelope passphrase of
               Inl _ \<Rightarrow> Inl Te_Decrypt
             | Inr plaintext \<Rightarrow>
                 (case xc_payload_of X plaintext of
                    None \<Rightarrow> Inl Te_BadFormat
                  | Some payload \<Rightarrow> Inr (ep_items payload))))"

section \<open>CSV\<close>

definition position :: "('a \<Rightarrow> bool) \<Rightarrow> 'a list \<Rightarrow> nat option" where
  "position p xs = (let i = length (takeWhile (\<lambda>x. \<not> p x) xs) in if i < length xs then Some i else None)"

definition find_column :: "(text \<Rightarrow> text) \<Rightarrow> text list \<Rightarrow> string list \<Rightarrow> nat option" where
  "find_column lc headers candidates =
     position (\<lambda>h. list_ex (\<lambda>c. lc (trim h) = lit c) candidates) headers"

text \<open>\<open>record.get(i).unwrap_or("")\<close>.\<close>

definition field :: "text list \<Rightarrow> nat \<Rightarrow> text" where
  "field rec i = (if i < length rec then rec ! i else [])"

definition get_field :: "text list \<Rightarrow> nat option \<Rightarrow> text" where
  "get_field rec idx = trim (case idx of None \<Rightarrow> [] | Some i \<Rightarrow> field rec i)"

record csv_columns =
  co_name :: "nat option"
  co_url :: "nat option"
  co_user :: "nat option"
  co_pass :: "nat option"
  co_notes :: "nat option"
  co_type :: "nat option"

definition find_columns :: "(text \<Rightarrow> text) \<Rightarrow> text list \<Rightarrow> csv_columns" where
  "find_columns lc headers = \<lparr>
     co_name = find_column lc headers [''name'', ''title'', ''account''],
     co_url = find_column lc headers [''url'', ''login_uri'', ''website'', ''web site'', ''uris''],
     co_user = find_column lc headers [''username'', ''login_username'', ''user'', ''login name''],
     co_pass = find_column lc headers [''password'', ''login_password'', ''pass''],
     co_notes = find_column lc headers [''notes'', ''note'', ''comments'', ''extra''],
     co_type = find_column lc headers [''type'']\<rparr>"

definition skip_record :: "(text \<Rightarrow> text) \<Rightarrow> csv_columns \<Rightarrow> text list \<Rightarrow> bool" where
  "skip_record lc cols rec =
     (case co_type cols of
        None \<Rightarrow> False
      | Some t \<Rightarrow> (let kind = lc (trim (field rec t)) in kind \<noteq> [] \<and> kind \<noteq> lit ''login''))"

definition record_item :: "csv_columns \<Rightarrow> text list \<Rightarrow> item" where
  "record_item cols rec =
     (let n = get_field rec (co_name cols);
          u = get_field rec (co_url cols);
          name = (if n = [] then (if u = [] then lit ''Imported login'' else u) else n)
      in Login_Item name (get_field rec (co_user cols)) (get_field rec (co_pass cols)) u
           (get_field rec (co_notes cols)) [lit ''imported''])"

fun import_records ::
    "(text \<Rightarrow> text) \<Rightarrow> csv_columns \<Rightarrow> (text + text list) list \<Rightarrow> item list \<Rightarrow> transfer_error + item list" where
  "import_records lc cols [] items = Inr items"
| "import_records lc cols (Inl e # rs) items = Inl (Te_Csv e)"
| "import_records lc cols (Inr rec # rs) items =
     (if skip_record lc cols rec then import_records lc cols rs items
      else import_records lc cols rs (items @ [record_item cols rec]))"

definition import_csv ::
    "(text \<Rightarrow> text) \<Rightarrow> (text \<Rightarrow> (text + text list) \<times> (text + text list) list) \<Rightarrow> text \<Rightarrow>
     transfer_error + item list" where
  "import_csv lc csv file_contents =
     (let (headers, records) = csv file_contents
      in case headers of
           Inl e \<Rightarrow> Inl (Te_Csv e)
         | Inr hs \<Rightarrow>
             (let cols = find_columns lc hs
              in if co_pass cols = None \<and> co_user cols = None
                 then Inl (Te_Csv (lit ''no recognizable columns '' @ [8212]
                        @ lit '' expected headers like name,url,username,password,notes''))
                 else import_records lc cols records []))"

section \<open>Facts\<close>

text \<open>Claim C16.  A backup restores: exporting any items succeeds (up to the cipher's message limit), and
  importing the file with the same passphrase gives back exactly those items, in order; a passphrase
  that derives another key is told so, and a file whose format marker was changed is refused.\<close>

theorem backup_roundtrip:
  assumes "crypto_ok C" and "export_codec_ok X" and "length salt = SALT_LEN"
    and "\<forall>b. xc_payload_to X \<lparr>ep_exported_at_unix = now, ep_items = items\<rparr> = Inr b \<longrightarrow> length b < 2 ^ 37"
  shows "\<exists>file. export_encrypted C X now salt nonce items passphrase = Inr file
    \<and> import_encrypted C X file passphrase = Inr items
    \<and> (\<forall>p. derive_export_key C p salt kdf_desktop \<noteq> derive_export_key C passphrase salt kdf_desktop \<longrightarrow>
         import_encrypted C X file p = Inl Te_Decrypt)"
proof -
  obtain b where b: "xc_payload_to X \<lparr>ep_exported_at_unix = now, ep_items = items\<rparr> = Inr b"
    "xc_payload_of X b = Some \<lparr>ep_exported_at_unix = now, ep_items = items\<rparr>"
    using assms(2) unfolding export_codec_ok_def by blast
  have c: "aead_roundtrip C" "aead_total C" "aead_authentic C" "argon2_total C"
    using assms(1) by (simp_all add: crypto_ok_def)
  have "length b < 2 ^ 37" using assms(4) b(1) by blast
  from exported_opens[OF c assms(3) this, of nonce passphrase] obtain env
    where env: "encrypt_export C salt nonce b passphrase = Inr env" "decrypt_export C env passphrase = Inr b"
      "\<forall>p. derive_export_key C p salt kdf_desktop \<noteq> derive_export_key C passphrase salt kdf_desktop \<longrightarrow>
         (\<exists>e. decrypt_export C env p = Inl e)"
    by blast
  have f: "ex_format env = lit ''basementen-vault-export''"
    using env(1) unfolding encrypt_export_def bind_r_eq_Inr by auto
  obtain t where t: "xc_envelope_to X env = Inr t" "xc_envelope_of X t = Some env"
    using assms(2) unfolding export_codec_ok_def by blast
  have "export_encrypted C X now salt nonce items passphrase = Inr t"
    by (simp add: export_encrypted_def b env t)
  moreover have "import_encrypted C X t passphrase = Inr items"
    by (simp add: import_encrypted_def t f env b)
  moreover have "import_encrypted C X t p = Inl Te_Decrypt"
    if "derive_export_key C p salt kdf_desktop \<noteq> derive_export_key C passphrase salt kdf_desktop" for p
    using env(3) that by (auto simp: import_encrypted_def t f)
  ultimately show ?thesis by blast
qed

text \<open>A codec for the witness.\<close>

definition toy_export :: export_codec where
  "toy_export = \<lparr>
     xc_payload_to = (\<lambda>p. Inr (toy_write ([if ep_exported_at_unix p < 0 then 1 else 0,
        nat \<bar>ep_exported_at_unix p\<bar>] # items_texts (ep_items p)))),
     xc_payload_of = (\<lambda>b. case toy_read b 0 [] of
         [s, n] # ts \<Rightarrow> map_option (\<lambda>is. \<lparr>ep_exported_at_unix = (if s = 1 then - int n else int n),
                                          ep_items = is\<rparr>) (items_of_texts ts)
       | _ \<Rightarrow> None),
     xc_envelope_to = (\<lambda>e. Inr ([unat (ex_version e), unat (kp_version (ex_kdf_params e)),
        unat (memory_kib (ex_kdf_params e)), unat (iterations (ex_kdf_params e)),
        unat (parallelism (ex_kdf_params e)),
        length (ex_format e), length (ex_salt e), length (ex_nonce e)]
        @ ex_format e @ map unat (ex_salt e) @ map unat (ex_nonce e) @ map unat (ex_ciphertext e))),
     xc_envelope_of = (\<lambda>t. if length t < 8 then None else
       (let b0 = drop 8 t; b1 = drop (t ! 5) b0; b2 = drop (t ! 6) b1
        in Some \<lparr>ex_format = take (t ! 5) b0, ex_version = word_of_nat (t ! 0),
             ex_kdf_params = \<lparr>kp_version = word_of_nat (t ! 1), memory_kib = word_of_nat (t ! 2),
               iterations = word_of_nat (t ! 3), parallelism = word_of_nat (t ! 4)\<rparr>,
             ex_salt = map word_of_nat (take (t ! 6) b1), ex_nonce = map word_of_nat (take (t ! 7) b2),
             ex_ciphertext = map word_of_nat (drop (t ! 7) b2)\<rparr>))\<rparr>"

lemma toy_export_ok [simp]: "export_codec_ok toy_export"
proof -
  have p: "\<exists>b. xc_payload_to toy_export p = Inr b \<and> xc_payload_of toy_export b = Some p" for p
    by (cases p) (simp add: toy_export_def)
  have e: "\<exists>t. xc_envelope_to toy_export e = Inr t \<and> xc_envelope_of toy_export t = Some e" for e
    by (cases e; cases "ex_kdf_params e") (simp add: toy_export_def word_of_nat_unat_map Let_def)
  from p e show ?thesis by (simp add: export_codec_ok_def)
qed

theorem backup_roundtrip_witness:
  "\<exists>file. export_encrypted toy_crypto toy_export 5 (replicate 16 0) [1] [Note_Item [3] [2] []] (lit ''pw'') = Inr file
    \<and> import_encrypted toy_crypto toy_export file (lit ''pw'') = Inr [Note_Item [3] [2] []]"
  using backup_roundtrip[OF toy_crypto_ok toy_export_ok, of "replicate 16 0" 5 "[Note_Item [3] [2] []]" "[1]" "lit ''pw''"]
  by (auto simp: SALT_LEN_def toy_export_def toy_write_def toy_char_def items_texts_def)

lemma import_records_eq:
  "import_records lc cols rs items =
     (case List.find (\<lambda>r. \<not> is_ok r) rs of
        Some (Inl e) \<Rightarrow> Inl (Te_Csv e)
      | _ \<Rightarrow> Inr (items @ map (record_item cols)
               (filter (\<lambda>r. \<not> skip_record lc cols r) (List.map_filter (case_sum (\<lambda>_. None) Some) rs))))"
  by (induction lc cols rs items rule: import_records.induct)
    (auto simp: is_ok_def List.map_filter_simps split: option.splits sum.splits)

lemma record_item_named: "it_name (record_item cols rec) \<noteq> []"
  by (simp add: record_item_def Let_def lit_def)

text \<open>The CSV import takes every login: when the file parses and names a user or a password
  column, there is exactly one item for each record that is not of another type, in the file's order,
  with the record's trimmed user name, password, address and notes (blank when the column or the field is
  missing), a name that is never empty and the tag \<open>imported\<close>; nothing is imported from a file that
  does not parse to its end or has neither column.\<close>

lemma import_csv_spec:
  assumes "csv file = (hs, records)"
  shows "case import_csv lc csv file of
      Inl e \<Rightarrow> (\<exists>m. e = Te_Csv m) \<and>
        (\<not> is_ok hs \<or> (\<exists>r \<in> set records. \<not> is_ok r)
         \<or> (\<exists>h. hs = Inr h \<and> co_pass (find_columns lc h) = None \<and> co_user (find_columns lc h) = None))
    | Inr items \<Rightarrow>
        (\<exists>h recs. hs = Inr h \<and> records = map Inr recs
           \<and> (co_pass (find_columns lc h) \<noteq> None \<or> co_user (find_columns lc h) \<noteq> None)
           \<and> list_all2 (\<lambda>i rec. it_name i \<noteq> []
                \<and> (let cols = find_columns lc h
                   in \<exists>n. i = Login_Item n (get_field rec (co_user cols)) (get_field rec (co_pass cols))
                     (get_field rec (co_url cols)) (get_field rec (co_notes cols)) [lit ''imported'']))
              items (filter (\<lambda>rec. \<not> skip_record lc (find_columns lc h) rec) recs))"
proof (cases hs)
  case (Inl e)
  then show ?thesis using assms by (simp add: import_csv_def is_ok_def)
next
  case (Inr h)
  define cols where "cols = find_columns lc h"
  show ?thesis
  proof (cases "co_pass cols = None \<and> co_user cols = None")
    case True
    then show ?thesis using assms Inr by (simp add: import_csv_def cols_def[symmetric])
  next
    case False
    then have r: "import_csv lc csv file = import_records lc cols records []"
      using assms Inr by (auto simp: import_csv_def cols_def)
    show ?thesis
    proof (cases "List.find (\<lambda>r. \<not> is_ok r) records")
      case None
      then have ok: "\<forall>r \<in> set records. is_ok r" by (simp add: find_None_iff)
      define recs where "recs = List.map_filter (case_sum (\<lambda>_. None) Some) records"
      have "records = map Inr recs" using ok unfolding recs_def
        by (induction records) (auto simp: is_ok_def List.map_filter_simps split: sum.splits)
      moreover have "list_all2 (\<lambda>i rec. it_name i \<noteq> []
                \<and> (\<exists>n. i = Login_Item n (get_field rec (co_user cols)) (get_field rec (co_pass cols))
                     (get_field rec (co_url cols)) (get_field rec (co_notes cols)) [lit ''imported'']))
            (map (record_item cols) rs) rs" for rs
        by (induction rs) (simp_all add: record_item_named, simp_all add: record_item_def Let_def)
      moreover have "import_csv lc csv file
          = Inr (map (record_item cols) (filter (\<lambda>r. \<not> skip_record lc cols r) recs))"
        by (simp add: r import_records_eq None recs_def)
      ultimately show ?thesis using Inr False by (simp add: cols_def Let_def)
    next
      case (Some x)
      then have x: "x \<in> set records" "\<not> is_ok x" by (auto dest: find_SomeD)
      from x(2) obtain e where "x = Inl e" unfolding is_ok_def by (cases x) simp_all
      then have "import_csv lc csv file = Inl (Te_Csv e)" by (simp add: r import_records_eq Some)
      with x show ?thesis by auto
    qed
  qed
qed

definition toy_csv :: "text \<Rightarrow> (text + text list) \<times> (text + text list) list" where
  "toy_csv _ = (Inr [lit ''Title'', lit ''Password''], [Inr [lit ''bank'', lit ''pw1''], Inr [[], lit ''pw2'']])"

end
