(* ===== verification/Generator.thy ===== *)
theory Generator
  imports Rust_Text "HOL-Library.Multiset"
begin

text \<open>
  desktop-core \<open>generator.rs\<close>: random passwords and passphrases.  The operating system's generator
  is the record \<open>rng\<close> over its own state: a draw below a bound and a shuffle.  The strength estimate is
  a float, \<open>length * log2 (pool size)\<close>; the model returns its two integers.
\<close>

section \<open>The random number generator\<close>

record 'g rng =
  rn_range :: "'g \<Rightarrow> nat \<Rightarrow> nat \<times> 'g"
  rn_shuffle :: "'g \<Rightarrow> text \<Rightarrow> text \<times> 'g"

text \<open>What the code relies on: a draw is below its bound, a shuffle is a permutation.\<close>

definition rng_ok :: "'g rng \<Rightarrow> bool" where
  "rng_ok R \<longleftrightarrow> (\<forall>g n. 0 < n \<longrightarrow> fst (rn_range R g n) < n)
     \<and> (\<forall>g cs. mset (fst (rn_shuffle R g cs)) = mset cs)"

section \<open>Passwords\<close>

definition LOWER :: "text" where "LOWER = lit ''abcdefghijklmnopqrstuvwxyz''"
definition UPPER :: "text" where "UPPER = lit ''ABCDEFGHIJKLMNOPQRSTUVWXYZ''"
definition DIGITS :: "text" where "DIGITS = lit ''0123456789''"
definition SYMBOLS :: "text" where "SYMBOLS = lit ''!@#$%^&*()-_=+[]{};:,.<>?''"
definition AMBIGUOUS :: "text" where "AMBIGUOUS = lit ''Il1O0o''"

record generator_options =
  go_length :: nat
  go_lowercase :: bool
  go_uppercase :: bool
  go_digits :: bool
  go_symbols :: bool
  go_exclude_ambiguous :: bool

definition default_options :: generator_options where
  "default_options = \<lparr>go_length = 20, go_lowercase = True, go_uppercase = True, go_digits = True,
     go_symbols = True, go_exclude_ambiguous = False\<rparr>"

datatype generator_error = NoClasses | BadLength

definition class_filter :: "generator_options \<Rightarrow> text \<Rightarrow> text" where
  "class_filter opts cs = filter (\<lambda>c. \<not> go_exclude_ambiguous opts \<or> c \<notin> set AMBIGUOUS) cs"

definition char_classes :: "generator_options \<Rightarrow> text list" where
  "char_classes opts = filter (\<lambda>c. c \<noteq> [])
     ((if go_lowercase opts then [class_filter opts LOWER] else [])
      @ (if go_uppercase opts then [class_filter opts UPPER] else [])
      @ (if go_digits opts then [class_filter opts DIGITS] else [])
      @ (if go_symbols opts then [class_filter opts SYMBOLS] else []))"

definition pick :: "'g rng \<Rightarrow> text \<Rightarrow> 'g \<Rightarrow> uchar \<times> 'g" where
  "pick R cs g = (let (i, g') = rn_range R g (length cs) in (cs ! i, g'))"

fun pick_each :: "'g rng \<Rightarrow> text list \<Rightarrow> text \<Rightarrow> 'g \<Rightarrow> text \<times> 'g" where
  "pick_each R [] chars g = (chars, g)"
| "pick_each R (cls # clss) chars g =
     (let (c, g') = pick R cls g in pick_each R clss (chars @ [c]) g')"

text \<open>The \<open>while\<close> loop; each round adds one character.\<close>

function fill :: "'g rng \<Rightarrow> text \<Rightarrow> nat \<Rightarrow> text \<Rightarrow> 'g \<Rightarrow> text \<times> 'g" where
  "fill R pool len chars g =
     (if length chars < len
      then (let (c, g') = pick R pool g in fill R pool len (chars @ [c]) g')
      else (chars, g))"
  by pat_completeness auto
termination
  by (relation "measure (\<lambda>(R, pool, len, chars, g). len - length chars)") auto

declare fill.simps [simp del]

definition generate_password ::
    "'g rng \<Rightarrow> generator_options \<Rightarrow> 'g \<Rightarrow> (generator_error + text \<times> nat \<times> nat) \<times> 'g" where
  "generate_password R opts g =
     (if \<not> (4 \<le> go_length opts \<and> go_length opts \<le> 256) then (Inl BadLength, g)
      else
        (let classes = char_classes opts
         in if classes = [] then (Inl NoClasses, g)
            else if go_length opts < length classes then (Inl BadLength, g)
            else
              (let pool = concat classes;
                   (chars1, g1) = pick_each R classes [] g;
                   (chars2, g2) = fill R pool (go_length opts) chars1 g1;
                   (chars3, g3) = rn_shuffle R g2 chars2
               in (Inr (chars3, go_length opts, length pool), g3))))"

section \<open>Passphrases\<close>

record passphrase_options =
  po_words :: nat
  po_separator :: "text"
  po_capitalize :: bool
  po_include_number :: bool

definition default_passphrase :: passphrase_options where
  "default_passphrase = \<lparr>po_words = 5, po_separator = lit ''-'', po_capitalize = False,
     po_include_number = False\<rparr>"

text \<open>\<open>uc\<close> is \<open>char::to_uppercase\<close>.\<close>

definition capitalized :: "(uchar \<Rightarrow> text) \<Rightarrow> bool \<Rightarrow> text \<Rightarrow> text" where
  "capitalized uc cap word =
     (if cap then (case word of first # rest \<Rightarrow> uc first @ rest | [] \<Rightarrow> []) else word)"

fun draw_words ::
    "'g rng \<Rightarrow> (uchar \<Rightarrow> text) \<Rightarrow> bool \<Rightarrow> text list \<Rightarrow> nat \<Rightarrow> 'g \<Rightarrow> text list \<times> 'g" where
  "draw_words R uc cap words 0 g = ([], g)"
| "draw_words R uc cap words (Suc k) g =
     (let (i, g1) = rn_range R g (length words);
          (parts, g2) = draw_words R uc cap words k g1
      in (capitalized uc cap (words ! i) # parts, g2))"

definition two_digits :: "nat \<Rightarrow> text" where
  "two_digits n = (if n < 10 then 48 # dec n else dec n)"

text \<open>\<open>wordlist\<close> is the text of the word list file.  The estimate is
  \<open>words * log2 n\<close>, plus \<open>log2 100\<close> when the flag is set.\<close>

definition generate_passphrase ::
    "'g rng \<Rightarrow> (uchar \<Rightarrow> text) \<Rightarrow> text \<Rightarrow> passphrase_options \<Rightarrow> 'g \<Rightarrow>
     (generator_error + text \<times> (nat \<times> nat \<times> bool)) \<times> 'g" where
  "generate_passphrase R uc wordlist opts g =
     (if \<not> (3 \<le> po_words opts \<and> po_words opts \<le> 12) then (Inl BadLength, g)
      else
        (let words = filter (\<lambda>l. l \<noteq> []) (text_lines wordlist);
             n = length words;
             (parts, g1) = draw_words R uc (po_capitalize opts) words (po_words opts) g;
             sep = (if po_separator opts = [] then lit ''-'' else po_separator opts);
             phrase = join sep parts
         in if po_include_number opts
            then (let (d, g2) = rn_range R g1 100
                  in (Inr (phrase @ sep @ two_digits d, (po_words opts, n, True)), g2))
            else (Inr (phrase, (po_words opts, n, False)), g1)))"

section \<open>Facts\<close>

lemma pick_in: "rng_ok R \<Longrightarrow> cs \<noteq> [] \<Longrightarrow> pick R cs g = (c, g') \<Longrightarrow> c \<in> set cs"
  by (auto simp: pick_def rng_ok_def split: prod.splits) (metis fst_conv length_greater_0_conv nth_mem)

lemma pick_each_spec:
  assumes "rng_ok R" and "\<forall>c \<in> set clss. c \<noteq> []" and "pick_each R clss chars g = (chars', g')"
  shows "length chars' = length chars + length clss
    \<and> set chars \<subseteq> set chars' \<and> set chars' \<subseteq> set chars \<union> set (concat clss)
    \<and> (\<forall>cls \<in> set clss. set cls \<inter> set chars' \<noteq> {})"
  using assms(2,3)
proof (induction clss arbitrary: chars g)
  case (Cons cls clss)
  obtain c g1 where p: "pick R cls g = (c, g1)" by fastforce
  have c: "c \<in> set cls" by (rule pick_in[OF assms(1) _ p]) (use Cons.prems in simp)
  have r: "pick_each R clss (chars @ [c]) g1 = (chars', g')" using Cons.prems p by simp
  have "\<forall>c \<in> set clss. c \<noteq> []" using Cons.prems by simp
  from Cons.IH[OF this r] c show ?case by auto
qed simp

lemma fill_spec:
  assumes "rng_ok R" and "pool \<noteq> []" and "length chars \<le> len" and "fill R pool len chars g = (chars', g')"
  shows "length chars' = len \<and> set chars \<subseteq> set chars' \<and> set chars' \<subseteq> set chars \<union> set pool"
  using assms
proof (induction R pool len chars g rule: fill.induct)
  case (1 R pool len chars g)
  show ?case
  proof (cases "length chars < len")
    case True
    obtain c g1 where p: "pick R pool g = (c, g1)" by fastforce
    with "1.prems" True have "fill R pool len (chars @ [c]) g1 = (chars', g')"
      by (simp add: fill.simps[of R pool len chars])
    from "1.IH"[OF True p[symmetric] refl "1.prems"(1,2) _ this] True pick_in[OF "1.prems"(1,2) p]
    show ?thesis by auto
  next
    case False
    with "1.prems" show ?thesis by (simp add: fill.simps[of R pool len chars])
  qed
qed

text \<open>The alphabet of each selected class, by name.\<close>

definition selected :: "generator_options \<Rightarrow> text list" where
  "selected opts = map snd (filter fst [(go_lowercase opts, LOWER), (go_uppercase opts, UPPER),
     (go_digits opts, DIGITS), (go_symbols opts, SYMBOLS)])"

lemma class_filter_nonempty: "cs \<in> {LOWER, UPPER, DIGITS, SYMBOLS} \<Longrightarrow> class_filter opts cs \<noteq> []"
  by (cases "go_exclude_ambiguous opts")
    (auto simp: class_filter_def LOWER_def UPPER_def DIGITS_def SYMBOLS_def AMBIGUOUS_def lit_def)

lemma char_classes_eq: "char_classes opts = map (class_filter opts) (selected opts)"
  by (cases "go_lowercase opts"; cases "go_uppercase opts"; cases "go_digits opts"; cases "go_symbols opts")
    (simp_all add: char_classes_def selected_def class_filter_nonempty)

lemma selected_le: "length (selected opts) \<le> 4"
  by (cases "go_lowercase opts"; cases "go_uppercase opts"; cases "go_digits opts"; cases "go_symbols opts")
    (simp_all add: selected_def)

text \<open>Claim C17.  The password generator keeps its promise whatever the random draws: lengths outside 4 to
  256 and an empty selection are refused, everything else succeeds with a password of exactly the
  requested length, with a character of every selected class, only characters of selected classes, and
  none of the easily misread ones when they are excluded.\<close>

theorem generate_password_spec:
  assumes "rng_ok R"
  shows "case fst (generate_password R opts g) of
      Inl BadLength \<Rightarrow> \<not> (4 \<le> go_length opts \<and> go_length opts \<le> 256)
    | Inl NoClasses \<Rightarrow> 4 \<le> go_length opts \<and> go_length opts \<le> 256 \<and> selected opts = []
    | Inr (pw, _) \<Rightarrow> 4 \<le> go_length opts \<and> go_length opts \<le> 256 \<and> length pw = go_length opts
        \<and> (\<forall>cls \<in> set (selected opts). set cls \<inter> set pw \<noteq> {})
        \<and> (\<forall>c \<in> set pw. (\<exists>cls \<in> set (selected opts). c \<in> set cls)
             \<and> \<not> (go_exclude_ambiguous opts \<and> c \<in> set AMBIGUOUS))"
proof (cases "4 \<le> go_length opts \<and> go_length opts \<le> 256 \<and> selected opts \<noteq> []")
  case True
  define classes where "classes = map (class_filter opts) (selected opts)"
  have ne: "\<forall>c \<in> set classes. c \<noteq> []"
    by (auto simp: classes_def selected_def intro!: class_filter_nonempty)
  obtain chars1 g1 where p: "pick_each R classes [] g = (chars1, g1)" by fastforce
  obtain chars2 g2 where f: "fill R (concat classes) (go_length opts) chars1 g1 = (chars2, g2)" by fastforce
  obtain chars3 g3 where s: "rn_shuffle R g2 chars2 = (chars3, g3)" by fastforce
  have len: "length classes \<le> go_length opts" "classes \<noteq> []"
    using True selected_le[of opts] by (simp_all add: classes_def)
  then have r: "generate_password R opts g = (Inr (chars3, go_length opts, length (concat classes)), g3)"
    using True p f s by (simp add: generate_password_def char_classes_eq classes_def[symmetric] Let_def)
  note P = pick_each_spec[OF assms ne p]
  have "concat classes \<noteq> []" using len ne by (cases classes) auto
  moreover have "length chars1 \<le> go_length opts" using P len by simp
  ultimately have F: "length chars2 = go_length opts" "set chars1 \<subseteq> set chars2"
      "set chars2 \<subseteq> set chars1 \<union> set (concat classes)"
    using fill_spec[OF assms _ _ f] by blast+
  have "mset chars3 = mset chars2" using assms s by (metis rng_ok_def fst_conv)
  then have S: "set chars3 = set chars2" "length chars3 = length chars2"
    by (metis set_mset_mset, metis size_mset)
  have cls: "class_filter opts cls \<in> set classes" "set (class_filter opts cls) \<subseteq> set cls"
    if "cls \<in> set (selected opts)" for cls
    using that by (auto simp: classes_def class_filter_def)
  have "set cls \<inter> set chars3 \<noteq> {}" if "cls \<in> set (selected opts)" for cls
    using P F(2) S cls[OF that] by blast
  moreover have "(\<exists>cls \<in> set (selected opts). c \<in> set cls) \<and> \<not> (go_exclude_ambiguous opts \<and> c \<in> set AMBIGUOUS)"
    if "c \<in> set chars3" for c
  proof -
    have "set chars1 \<subseteq> set (concat classes)" using P by (simp only: list.set Un_empty_left)
    then have "c \<in> set (concat classes)" using that F S by blast
    then show ?thesis by (auto simp: classes_def class_filter_def)
  qed
  ultimately show ?thesis using True F S by (simp add: r)
next
  case False
  then show ?thesis by (auto simp: generate_password_def char_classes_eq)
qed

definition toy_rng :: "nat rng" where
  "toy_rng = \<lparr>rn_range = (\<lambda>g n. (g mod n, g + 1)), rn_shuffle = (\<lambda>g cs. (rev cs, g))\<rparr>"

lemma toy_rng_ok [simp]: "rng_ok toy_rng"
  by (simp add: rng_ok_def toy_rng_def)

theorem generate_password_spec_witness:
  "case fst (generate_password toy_rng default_options 7) of
     Inr (pw, _) \<Rightarrow> length pw = 20 \<and> set DIGITS \<inter> set pw \<noteq> {} | Inl _ \<Rightarrow> False"
proof -
  have "\<exists>x. fst (generate_password toy_rng default_options 7) = Inr x"
    by (simp add: generate_password_def default_options_def char_classes_eq selected_def Let_def
        case_prod_unfold)
  then show ?thesis
    using generate_password_spec[OF toy_rng_ok, of default_options 7]
    by (auto simp: default_options_def selected_def)
qed

lemma draw_words_spec:
  assumes "rng_ok R" and "words \<noteq> []"
  shows "\<exists>ws. length ws = k \<and> set ws \<subseteq> set words
    \<and> fst (draw_words R uc cap words k g) = map (capitalized uc cap) ws"
proof (induction k arbitrary: g)
  case (Suc k)
  obtain i g1 where i: "rn_range R g (length words) = (i, g1)" by fastforce
  with assms have "i < length words" unfolding rng_ok_def by (metis fst_conv length_greater_0_conv)
  moreover obtain ws where "length ws = k" "set ws \<subseteq> set words"
    "fst (draw_words R uc cap words k g1) = map (capitalized uc cap) ws" using Suc by blast
  ultimately show ?case
    by (intro exI[of _ "words ! i # ws"]) (auto simp: i case_prod_unfold Let_def)
qed simp

text \<open>A passphrase is what was asked for: three to twelve words of the list (capitalised when
  asked), joined by the separator (a hyphen when none is given), with two digits at the end when asked;
  other word counts are refused.\<close>

lemma generate_passphrase_spec:
  assumes "rng_ok R" and "\<exists>l \<in> set (text_lines wordlist). l \<noteq> []"
  shows "case fst (generate_passphrase R uc wordlist opts g) of
      Inl e \<Rightarrow> e = BadLength \<and> (po_words opts < 3 \<or> 12 < po_words opts)
    | Inr (phrase, _) \<Rightarrow> 3 \<le> po_words opts \<and> po_words opts \<le> 12
        \<and> (\<exists>ws n. length ws = po_words opts \<and> set ws \<subseteq> set (text_lines wordlist) \<and> [] \<notin> set ws \<and> n < 100
             \<and> (let sep = (if po_separator opts = [] then lit ''-'' else po_separator opts)
                in phrase = join sep (map (capitalized uc (po_capitalize opts)) ws
                     @ (if po_include_number opts then [two_digits n] else []))))"
proof (cases "3 \<le> po_words opts \<and> po_words opts \<le> 12")
  case True
  define words where "words = filter (\<lambda>l. l \<noteq> []) (text_lines wordlist)"
  have "words \<noteq> []" using assms(2) by (auto simp: words_def filter_empty_conv)
  from draw_words_spec[OF assms(1) this] obtain ws where ws: "length ws = po_words opts" "set ws \<subseteq> set words"
    "fst (draw_words R uc (po_capitalize opts) words (po_words opts) g) = map (capitalized uc (po_capitalize opts)) ws"
    by blast
  obtain g1 where d: "draw_words R uc (po_capitalize opts) words (po_words opts) g
      = (map (capitalized uc (po_capitalize opts)) ws, g1)"
    using ws(3) by (metis prod.collapse)
  obtain n g2 where n: "rn_range R g1 100 = (n, g2)" by fastforce
  have "n < 100" using assms(1) n unfolding rng_ok_def by (metis fst_conv zero_less_numeral)
  moreover have "set ws \<subseteq> set (text_lines wordlist)" "[] \<notin> set ws" using ws(2) by (auto simp: words_def)
  moreover have "join sep (xs @ [x]) = join sep xs @ sep @ x" if "xs \<noteq> []" for sep xs x
    using that by (induction sep xs rule: join.induct) auto
  moreover have "ws \<noteq> []" using ws(1) True by auto
  ultimately show ?thesis using True ws(1)
    by (auto simp: generate_passphrase_def words_def[symmetric] d n Let_def intro!: exI[of _ ws] exI[of _ n])
next
  case False
  then show ?thesis by (auto simp: generate_passphrase_def)
qed

end
