(* ===== verification/Shell_Account.thy ===== *)
theory Shell_Account
  imports Desktop_Shell Vault_Transfer Generator
begin

text \<open>
  The desktop shell, src-tauri \<open>lib.rs\<close>: the commands on the account (registering, logging in,
  unlocking, recovery, second factor, devices, the password) and the export, import, generator and
  clipboard commands.  The master password reaches vault-core here, and the network.
\<close>

section \<open>Shared pieces\<close>

text \<open>A panic of vault-core unwinds the command; it has no message of its own.\<close>

fun fault_text :: "fault \<Rightarrow> text" where
  "fault_text (Err e) = crypto_error_text e"
| "fault_text Panic = lit ''panic''"

definition map_err :: "('e \<Rightarrow> text) \<Rightarrow> 'e + 'a \<Rightarrow> text + 'a" where
  "map_err f r = (case r of Inl e \<Rightarrow> Inl (f e) | Inr x \<Rightarrow> Inr x)"

definition reject_if_breached :: "'w shell \<Rightarrow> text \<Rightarrow> 'w \<Rightarrow> (text + unit) \<times> 'w" where
  "reject_if_breached S password w =
     (case password_breach_count (sh_sha1 S) (sh_range S) w password of
        (Inr (Some n), w') \<Rightarrow>
          (Inl (lit ''This password appears in '' @ dec n @ lit '' known data breaches '' @ [8212]
              @ lit '' please choose a different one. Only a short, anonymized hash prefix was sent''
              @ lit '' to check this.''), w')
      | (_, w') \<Rightarrow> (Inr (), w'))"

text \<open>The three gates every new master password passes, in the order of \<open>register\<close>,
  \<open>recover_complete\<close> and \<open>change_password\<close>.\<close>

definition new_password_gate :: "'w shell \<Rightarrow> text \<Rightarrow> text list \<Rightarrow> 'w \<Rightarrow> (text + unit) \<times> 'w" where
  "new_password_gate S password inputs w =
     (case check_password_strength password of
        Inl e \<Rightarrow> (Inl e, w)
      | Inr _ \<Rightarrow>
          (case check_password_guessability (sh_zxcvbn S) password inputs of
             Inl e \<Rightarrow> (Inl e, w)
           | Inr _ \<Rightarrow> reject_if_breached S password w))"

text \<open>The server credential of a password, for the cached account.\<close>

definition credential_for :: "'w shell \<Rightarrow> sqlite_vault \<Rightarrow> text \<Rightarrow> text + bytes" where
  "credential_for S db password =
     (case get_account_meta (sh_meta S) db of
        None \<Rightarrow> Inl (lit ''no account metadata'')
      | Some meta \<Rightarrow>
          map_err fault_text (bind_r (login_credential (sh_crypto S) password (am_kdf_salt meta) (am_kdf_params meta))
            (\<lambda>ak. Inr (to_server_credential ak))))"

section \<open>Register, log in, unlock\<close>

text \<open>The draws of \<open>vault_core::account::register\<close>.\<close>

record register_draws =
  rd_salt :: bytes
  rd_key :: vault_key
  rd_rest :: draws

definition register_cmd ::
    "'w shell \<Rightarrow> register_draws \<Rightarrow> text \<Rightarrow> text \<Rightarrow> text \<Rightarrow> 'w \<Rightarrow> (text + text) \<times> 'w" where
  "register_cmd S rd server_url email password w =
     (case new_password_gate S password [email] w of
        (Inl e, w1) \<Rightarrow> (Inl e, w1)
      | (Inr _, w1) \<Rightarrow>
          (case Account_Flows.register (sh_crypto S) (rd_rest rd) (rd_salt rd) (rd_key rd) password kdf_desktop of
             Inl e \<Rightarrow> (Inl (fault_text e), w1)
           | Inr reg \<Rightarrow>
               (case api_register (sh_wire S) (sh_http S) (api_new server_url) w1 email (rg_bundle reg) of
                  (Inl e, w2) \<Rightarrow> (Inl (client_error_text e), w2)
                | (Inr _, w2) \<Rightarrow> (Inr (rg_recovery_code reg), w2))))"

definition login_cmd ::
    "'w shell \<Rightarrow> bytes \<Rightarrow> nat \<Rightarrow> text \<Rightarrow> text \<Rightarrow> text \<Rightarrow> text \<Rightarrow> text option \<Rightarrow> 'w app \<Rightarrow>
     ((text + shell_status) \<times> 'w app) option" where
  "login_cmd S nonce now hostname server_url email password totp_code app =
     (let fail = (\<lambda>e w. Some (Inl e, app\<lparr>av_world := w\<rparr>));
          a0 = api_new server_url
      in case api_prelogin (sh_wire S) (sh_http S) a0 (av_world app) email of
           (Inl e, w1) \<Rightarrow> fail (client_error_text e) w1
         | (Inr prelogin, w1) \<Rightarrow>
             (case login_credential (sh_crypto S) password (pi_kdf_salt prelogin) (pi_kdf_params prelogin) of
                Inl e \<Rightarrow> fail (fault_text e) w1
              | Inr ak \<Rightarrow>
                  (case api_login (sh_wire S) (sh_http S) a0 w1 email (to_server_credential ak) totp_code None hostname of
                     (Inl e, _, w2) \<Rightarrow> fail (client_error_text e) w2
                   | (Inr outcome, a, w2) \<Rightarrow>
                       (case Account_Flows.unlock (sh_crypto S) password (lo_kdf_salt outcome)
                               (lo_kdf_params outcome) (lo_master_wrapped outcome) of
                          Inl e \<Rightarrow> fail (fault_text e) w2
                        | Inr secrets \<Rightarrow>
                            (case set_account_meta (sh_meta S) (av_db app)
                                    \<lparr>am_server_url = server_url, am_email = email,
                                     am_kdf_params = lo_kdf_params outcome, am_kdf_salt = lo_kdf_salt outcome,
                                     am_master_wrapped = lo_master_wrapped outcome\<rparr> of
                               (Inl e, _) \<Rightarrow> fail e w2
                             | (Inr _, db) \<Rightarrow>
                                 (let u = \<lparr>un_secrets = secrets, un_api = a,
                                           un_autolock = autolock_new now DEFAULT_TIMEOUT, un_email = email\<rparr>
                                  in case try_sync S u (persist_rotated_refresh_token S nonce u db) w2 of
                                       None \<Rightarrow> None
                                     | Some (_, u', db', w3) \<Rightarrow>
                                         Some (Inr (Status_Unlocked email),
                                           \<lparr>av_session = Some u', av_db = db', av_world = w3\<rparr>)))))))"

definition unlock_cmd ::
    "'w shell \<Rightarrow> bytes \<Rightarrow> nat \<Rightarrow> text \<Rightarrow> 'w app \<Rightarrow> ((text + shell_status) \<times> 'w app) option" where
  "unlock_cmd S nonce now password app =
     (case get_account_meta (sh_meta S) (av_db app) of
        None \<Rightarrow> Some (Inl (lit ''no account on this device '' @ [8212] @ lit '' log in first''), app)
      | Some meta \<Rightarrow>
          (case Account_Flows.unlock (sh_crypto S) password (am_kdf_salt meta) (am_kdf_params meta)
                  (am_master_wrapped meta) of
             Inl _ \<Rightarrow> Some (Inl (lit ''wrong master password''), app)
           | Inr secrets \<Rightarrow>
               (let refresh = decrypt_refresh_token (sh_crypto S) (sh_json S) secrets (av_db app);
                    u0 = \<lparr>un_secrets = secrets, un_api = api_with_tokens (am_server_url meta) None refresh,
                          un_autolock = autolock_new now DEFAULT_TIMEOUT, un_email = am_email meta\<rparr>;
                    finish = (\<lambda>u db w. Some (Inr (Status_Unlocked (am_email meta)),
                                \<lparr>av_session = Some u, av_db = db, av_world = w\<rparr>))
                in if refresh = None then finish u0 (av_db app) (av_world app)
                   else
                     (case api_refresh_session (sh_http S) (un_api u0) (av_world app) of
                        (Inl _, a, w1) \<Rightarrow> finish (u0\<lparr>un_api := a\<rparr>) (av_db app) w1
                      | (Inr _, a, w1) \<Rightarrow>
                          (let u1 = u0\<lparr>un_api := a\<rparr>
                           in case try_sync S u1 (persist_rotated_refresh_token S nonce u1 (av_db app)) w1 of
                                None \<Rightarrow> None
                              | Some (_, u2, db2, w2) \<Rightarrow> finish u2 db2 w2)))))"

section \<open>Recovery\<close>

definition recover_start_cmd :: "'w shell \<Rightarrow> text \<Rightarrow> text \<Rightarrow> 'w \<Rightarrow> (text + text) \<times> 'w" where
  "recover_start_cmd S server_url email w =
     (case api_recovery_start (sh_http S) (api_new server_url) w email of
        (Inl e, w') \<Rightarrow> (Inl (client_error_text e), w')
      | (Inr _, w') \<Rightarrow>
          (Inr (lit ''If that address has an account, recovery instructions were e-mailed. ''
              @ lit ''The recovery token becomes usable after the cooling-off period.''), w'))"

definition resend_verification_cmd :: "'w shell \<Rightarrow> text \<Rightarrow> text \<Rightarrow> 'w \<Rightarrow> (text + text) \<times> 'w" where
  "resend_verification_cmd S server_url email w =
     (case api_resend_verification (sh_http S) (api_new server_url) w email of
        (Inl e, w') \<Rightarrow> (Inl (client_error_text e), w')
      | (Inr _, w') \<Rightarrow>
          (Inr (lit ''If that address has an account awaiting verification, a new link was sent.''), w'))"

definition recovery_data_error :: "client_error \<Rightarrow> text" where
  "recovery_data_error e =
     (case e of
        Ce_CoolingOff retry \<Rightarrow>
          lit ''this recovery is still in its cooling-off period '' @ [8212] @ lit '' usable in about ''
          @ dec_int ((if 0 \<le> retry + 3599 then (retry + 3599) div 3600 else - ((- (retry + 3599)) div 3600)))
          @ lit '' hours''
      | _ \<Rightarrow> client_error_text e)"

record recover_result =
  rr_recovery_code :: "text"
  rr_data_preserved :: bool

definition recover_with_kit ::
    "'w shell \<Rightarrow> register_draws \<Rightarrow> api_client \<Rightarrow> recovery_info \<Rightarrow> text \<Rightarrow> text \<Rightarrow> text \<Rightarrow> 'w \<Rightarrow>
     (text + registration \<times> bool) \<times> 'w" where
  "recover_with_kit S rd a info token code new_password w =
     (case recover_and_rekey (sh_crypto S) (rd_rest rd) code (ry_recovery_wrapped info) new_password
             (ry_kdf_salt info) kdf_desktop of
        Inl _ \<Rightarrow> (Inl (lit ''recovery failed '' @ [8212] @ lit '' check the Recovery Kit code for typos''), w)
      | Inr reg \<Rightarrow>
          (case api_recovery_complete (sh_wire S) (sh_http S) a w token (rg_bundle reg)
                  (Some (recovery_verifier (sh_crypto S) (as_vault_key (rg_secrets reg)))) False of
             (Inl e, w') \<Rightarrow> (Inl (client_error_text e), w')
           | (Inr _, w') \<Rightarrow> (Inr (reg, True), w')))"

definition recover_with_wipe ::
    "'w shell \<Rightarrow> register_draws \<Rightarrow> api_client \<Rightarrow> text \<Rightarrow> text \<Rightarrow> 'w \<Rightarrow> (text + registration \<times> bool) \<times> 'w" where
  "recover_with_wipe S rd a token new_password w =
     (case Account_Flows.register (sh_crypto S) (rd_rest rd) (rd_salt rd) (rd_key rd) new_password kdf_desktop of
        Inl e \<Rightarrow> (Inl (fault_text e), w)
      | Inr reg \<Rightarrow>
          (case api_recovery_complete (sh_wire S) (sh_http S) a w token (rg_bundle reg) None True of
             (Inl e, w') \<Rightarrow> (Inl (client_error_text e), w')
           | (Inr _, w') \<Rightarrow> (Inr (reg, False), w')))"

definition recover_complete_cmd ::
    "'w shell \<Rightarrow> register_draws \<Rightarrow> text \<Rightarrow> text \<Rightarrow> text option \<Rightarrow> text \<Rightarrow> bool \<Rightarrow> 'w app \<Rightarrow>
     (text + recover_result) \<times> 'w app" where
  "recover_complete_cmd S rd server_url token recovery_code new_password wipe app =
     (case new_password_gate S new_password [] (av_world app) of
        (Inl e, w1) \<Rightarrow> (Inl e, app\<lparr>av_world := w1\<rparr>)
      | (Inr _, w1) \<Rightarrow>
          (let a = api_new server_url
           in case api_recovery_data (sh_wire S) (sh_http S) a w1 token of
                (Inl e, w2) \<Rightarrow> (Inl (recovery_data_error e), app\<lparr>av_world := w2\<rparr>)
              | (Inr info, w2) \<Rightarrow>
                  (case (case recovery_code of
                           Some code \<Rightarrow>
                             if trim code \<noteq> [] then recover_with_kit S rd a info token code new_password w2
                             else if wipe then recover_with_wipe S rd a token new_password w2
                             else (Inl (lit ''enter your Recovery Kit code, or explicitly choose the ''
                                      @ lit ''reset-and-wipe option''), w2)
                         | None \<Rightarrow>
                             if wipe then recover_with_wipe S rd a token new_password w2
                             else (Inl (lit ''enter your Recovery Kit code, or explicitly choose the ''
                                      @ lit ''reset-and-wipe option''), w2)) of
                     (Inl e, w3) \<Rightarrow> (Inl e, app\<lparr>av_world := w3\<rparr>)
                   | (Inr (reg, preserved), w3) \<Rightarrow>
                       (let db = (av_db app)\<lparr>sq_items := []\<rparr>;
                            db = sqlite_set_last_seq db 0;
                            db = set_encrypted_refresh_token (sh_json S) db None
                        in (Inr \<lparr>rr_recovery_code = rg_recovery_code reg, rr_data_preserved = preserved\<rparr>,
                            app\<lparr>av_db := db, av_world := w3\<rparr>)))))"

section \<open>Commands that call the server for the session\<close>

text \<open>The shape they share: the session, the clock, what is computed locally, one call.\<close>

definition with_api ::
    "nat \<Rightarrow> (unlocked \<Rightarrow> sqlite_vault \<Rightarrow> text + 'p) \<Rightarrow>
     ('p \<Rightarrow> api_client \<Rightarrow> 'w \<Rightarrow> (client_error + 'r) \<times> api_client \<times> 'w) \<Rightarrow> 'w app \<Rightarrow> (text + 'r) \<times> 'w app" where
  "with_api now prepare call app =
     (case av_session app of
        None \<Rightarrow> (Inl LOCKED, app)
      | Some u0 \<Rightarrow>
          (let u = u0\<lparr>un_autolock := touch now (un_autolock u0)\<rparr>
           in case prepare u (av_db app) of
                Inl e \<Rightarrow> (Inl e, app\<lparr>av_session := Some u\<rparr>)
              | Inr p \<Rightarrow>
                  (case call p (un_api u) (av_world app) of
                     (r, a, w) \<Rightarrow>
                       (map_err client_error_text r,
                        app\<lparr>av_session := Some (u\<lparr>un_api := a\<rparr>), av_world := w\<rparr>))))"

definition set_backup_email_cmd ::
    "'w shell \<Rightarrow> nat \<Rightarrow> text \<Rightarrow> text option \<Rightarrow> text \<Rightarrow> 'w app \<Rightarrow> (text + text) \<times> 'w app" where
  "set_backup_email_cmd S now password totp_code backup_email app =
     (case with_api now (\<lambda>u db. credential_for S db password)
             (\<lambda>cred. api_set_backup_email (sh_wire S) (sh_http S) cred totp_code backup_email) app of
        (r, app') \<Rightarrow>
          (bind_r r (\<lambda>_. Inr (lit ''Verification e-mail sent to the backup address.'')), app'))"

definition remove_backup_email_cmd ::
    "'w shell \<Rightarrow> nat \<Rightarrow> text \<Rightarrow> text option \<Rightarrow> 'w app \<Rightarrow> (text + unit) \<times> 'w app" where
  "remove_backup_email_cmd S now password totp_code =
     with_api now (\<lambda>u db. credential_for S db password)
       (\<lambda>cred. api_remove_backup_email (sh_wire S) (sh_http S) cred totp_code)"

definition mfa_status_cmd :: "'w shell \<Rightarrow> nat \<Rightarrow> 'w app \<Rightarrow> (text + bool \<times> int) \<times> 'w app" where
  "mfa_status_cmd S now = with_api now (\<lambda>u db. Inr ()) (\<lambda>_. api_mfa_status (sh_http S))"

text \<open>\<open>qr\<close> renders the code (third-party).\<close>

definition totp_enroll_cmd ::
    "'w shell \<Rightarrow> (text \<Rightarrow> text + text) \<Rightarrow> nat \<Rightarrow> text \<Rightarrow> 'w app \<Rightarrow> (text + text \<times> text) \<times> 'w app" where
  "totp_enroll_cmd S qr now password app =
     (case with_api now (\<lambda>u db. credential_for S db password)
             (\<lambda>cred. api_totp_enroll (sh_wire S) (sh_http S) cred) app of
        (r, app') \<Rightarrow> (bind_r r (\<lambda>(secret, uri). bind_r (qr uri) (\<lambda>svg. Inr (secret, svg))), app'))"

definition totp_activate_cmd :: "'w shell \<Rightarrow> nat \<Rightarrow> text \<Rightarrow> 'w app \<Rightarrow> (text + text list) \<times> 'w app" where
  "totp_activate_cmd S now code =
     with_api now (\<lambda>u db. Inr ()) (\<lambda>_. api_totp_activate (sh_http S) (trim code))"

definition totp_disable_cmd :: "'w shell \<Rightarrow> nat \<Rightarrow> text \<Rightarrow> text \<Rightarrow> 'w app \<Rightarrow> (text + unit) \<times> 'w app" where
  "totp_disable_cmd S now password totp_code =
     with_api now (\<lambda>u db. credential_for S db password)
       (\<lambda>cred. api_totp_disable (sh_wire S) (sh_http S) cred (trim totp_code))"

definition regenerate_recovery_codes_cmd ::
    "'w shell \<Rightarrow> nat \<Rightarrow> text \<Rightarrow> text \<Rightarrow> 'w app \<Rightarrow> (text + text list) \<times> 'w app" where
  "regenerate_recovery_codes_cmd S now password totp_code =
     with_api now (\<lambda>u db. credential_for S db password)
       (\<lambda>cred. api_regenerate_recovery_codes (sh_wire S) (sh_http S) cred (trim totp_code))"

definition list_sessions_cmd :: "'w shell \<Rightarrow> nat \<Rightarrow> 'w app \<Rightarrow> (text + session_info list) \<times> 'w app" where
  "list_sessions_cmd S now = with_api now (\<lambda>u db. Inr ()) (\<lambda>_. api_list_sessions (sh_wire S) (sh_http S))"

definition revoke_session_cmd :: "'w shell \<Rightarrow> nat \<Rightarrow> text \<Rightarrow> 'w app \<Rightarrow> (text + unit) \<times> 'w app" where
  "revoke_session_cmd S now i = with_api now (\<lambda>u db. Inr ()) (\<lambda>_. api_revoke_session (sh_http S) i)"

definition revoke_other_sessions_cmd :: "'w shell \<Rightarrow> nat \<Rightarrow> 'w app \<Rightarrow> (text + int) \<times> 'w app" where
  "revoke_other_sessions_cmd S now =
     with_api now (\<lambda>u db. Inr ()) (\<lambda>_. api_revoke_other_sessions (sh_http S))"

section \<open>Changing the password\<close>

definition change_password_cmd ::
    "'w shell \<Rightarrow> draws \<Rightarrow> nat \<Rightarrow> text \<Rightarrow> text \<Rightarrow> text option \<Rightarrow> 'w app \<Rightarrow> (text + text) \<times> 'w app" where
  "change_password_cmd S d now current_password new_password totp_code app =
     (case av_session app of
        None \<Rightarrow> (Inl LOCKED, app)
      | Some u0 \<Rightarrow>
          (let u = u0\<lparr>un_autolock := touch now (un_autolock u0)\<rparr>;
               db = av_db app;
               out = (\<lambda>r u db w. (r, \<lparr>av_session = Some u, av_db = db, av_world = w\<rparr>))
           in case new_password_gate S new_password [un_email u] (av_world app) of
                (Inl e, w1) \<Rightarrow> out (Inl e) u db w1
              | (Inr _, w1) \<Rightarrow>
                  (case get_account_meta (sh_meta S) db of
                     None \<Rightarrow> out (Inl (lit ''no account metadata'')) u db w1
                   | Some meta \<Rightarrow>
                       (case login_credential (sh_crypto S) current_password (am_kdf_salt meta) (am_kdf_params meta) of
                          Inl e \<Rightarrow> out (Inl (fault_text e)) u db w1
                        | Inr ak \<Rightarrow>
                            (case Account_Flows.change_password (sh_crypto S) d (un_secrets u) new_password
                                    (am_kdf_salt meta) (am_kdf_params meta) of
                               Inl e \<Rightarrow> out (Inl (fault_text e)) u db w1
                             | Inr reg \<Rightarrow>
                                 (case api_change_password (sh_wire S) (sh_http S) (to_server_credential ak) totp_code
                                         (rg_bundle reg) (un_api u) w1 of
                                    (Inl e, a, w2) \<Rightarrow> out (Inl (client_error_text e)) (u\<lparr>un_api := a\<rparr>) db w2
                                  | (Inr _, a, w2) \<Rightarrow>
                                      (case set_account_meta (sh_meta S) db
                                              (meta\<lparr>am_kdf_params := rb_kdf_params (rg_bundle reg),
                                                    am_master_wrapped := rb_master_wrapped (rg_bundle reg)\<rparr>) of
                                         (Inl e, db') \<Rightarrow> out (Inl e) (u\<lparr>un_api := a\<rparr>) db' w2
                                       | (Inr _, db') \<Rightarrow>
                                           out (Inr (rg_recovery_code reg))
                                             (u\<lparr>un_api := a, un_secrets := rg_secrets reg\<rparr>) db' w2)))))))"

section \<open>Export, import, clipboard\<close>

definition decrypted_items :: "'w shell \<Rightarrow> unlocked \<Rightarrow> sqlite_vault \<Rightarrow> item list" where
  "decrypted_items S u db = List.map_filter (live_item S (un_key u)) (sqlite_list (sh_json S) db)"

fun transfer_error_text :: "transfer_error \<Rightarrow> text" where
  "transfer_error_text Te_Decrypt = lit ''wrong passphrase or corrupted file''"
| "transfer_error_text Te_BadFormat = lit ''not a Basementen Vault export file''"
| "transfer_error_text (Te_Csv m) = lit ''CSV error: '' @ m"
| "transfer_error_text (Te_Other m) = m"

text \<open>\<open>save\<close> is the file dialog and the write: the path shown, or the error.\<close>

definition export_vault_cmd ::
    "'w shell \<Rightarrow> export_codec \<Rightarrow> nat \<Rightarrow> int \<Rightarrow> bytes \<Rightarrow> bytes \<Rightarrow> text \<Rightarrow> (text \<Rightarrow> text + text) \<Rightarrow> 'w app \<Rightarrow>
     (text + text) \<times> 'w app" where
  "export_vault_cmd S X now unix salt nonce passphrase save app =
     (if length passphrase < 12 then (Inl (lit ''export passphrase must be at least 12 characters''), app)
      else
        (case with_session now (\<lambda>u db.
               (map_err transfer_error_text
                  (export_encrypted (sh_crypto S) X unix salt nonce (decrypted_items S u db) passphrase), db)) app of
           (Inl e, app') \<Rightarrow> (Inl e, app')
         | (Inr file_contents, app') \<Rightarrow>
             (bind_r (save file_contents) (\<lambda>path. Inr (lit ''Encrypted backup written to '' @ path)), app')))"

fun import_loop ::
    "'w shell \<Rightarrow> vault_key \<Rightarrow> (nat \<Rightarrow> text \<times> bytes) \<Rightarrow> nat \<Rightarrow> item list \<Rightarrow> sqlite_vault \<Rightarrow>
     (text + unit) \<times> sqlite_vault" where
  "import_loop S vk fresh k [] db = (Inr (), db)"
| "import_loop S vk fresh k (i # is) db =
     (case ic_to (sh_items S) i of
        Inl e \<Rightarrow> (Inl e, db)
      | Inr plain \<Rightarrow>
          (case encrypt_item (sh_crypto S) (snd (fresh k)) vk (fst (fresh k)) 1 plain of
             Inl e \<Rightarrow> (Inl (crypto_error_text e), db)
           | Inr envelope \<Rightarrow>
               import_loop S vk fresh (k + 1) is (sqlite_stage (sh_json S) db (Upsert envelope))))"

text \<open>\<open>picked\<close> is the file dialog and the read: the file's contents, or the error.\<close>

definition read_import ::
    "'w shell \<Rightarrow> export_codec \<Rightarrow> (text \<Rightarrow> (text + text list) \<times> (text + text list) list) \<Rightarrow>
     text + text \<Rightarrow> text option \<Rightarrow> text + item list" where
  "read_import S X csv picked passphrase =
     bind_r picked (\<lambda>contents.
       if str_contains contents (lit ''basementen-vault-export'')
       then
         (case passphrase of
            Some p \<Rightarrow>
              if p \<noteq> [] then map_err transfer_error_text (import_encrypted (sh_crypto S) X contents p)
              else Inl (lit ''this is an encrypted backup '' @ [8212] @ lit '' enter its passphrase'')
          | None \<Rightarrow> Inl (lit ''this is an encrypted backup '' @ [8212] @ lit '' enter its passphrase''))
       else map_err transfer_error_text (import_csv (sh_lower S) csv contents))"

definition import_vault_cmd ::
    "'w shell \<Rightarrow> export_codec \<Rightarrow> (text \<Rightarrow> (text + text list) \<times> (text + text list) list) \<Rightarrow>
     (nat \<Rightarrow> text \<times> bytes) \<Rightarrow> sync_draws \<Rightarrow> nat \<Rightarrow> text + text \<Rightarrow> text option \<Rightarrow> 'w app \<Rightarrow>
     ((text + nat) \<times> 'w app) option" where
  "import_vault_cmd S X csv fresh d now picked passphrase app =
     (case read_import S X csv picked passphrase of
        Inl e \<Rightarrow> Some (Inl e, app)
      | Inr items \<Rightarrow>
          (case with_session now (\<lambda>u db. import_loop S (un_key u) fresh 0 items db) app of
             (Inl e, app') \<Rightarrow> Some (Inl e, app')
           | (Inr _, app') \<Rightarrow> sync_after S d now (length items) app'))"

text \<open>The clipboard: written, and half a minute later cleared if it still holds the secret (\<open>None\<close> is
  a failed read).\<close>

definition copy_secret :: "text \<Rightarrow> text option \<Rightarrow> text option" where
  "copy_secret secret clipboard = Some secret"

definition copy_expire :: "text \<Rightarrow> text option \<Rightarrow> text option" where
  "copy_expire secret clipboard = (if clipboard = Some secret then Some [] else clipboard)"

fun generator_error_text :: "generator_error \<Rightarrow> text" where
  "generator_error_text NoClasses = lit ''select at least one character class''"
| "generator_error_text BadLength = lit ''length must be between 4 and 256''"

definition generate_cmd ::
    "'g rng \<Rightarrow> generator_options \<Rightarrow> 'g \<Rightarrow> (text + text \<times> nat \<times> nat) \<times> 'g" where
  "generate_cmd R opts g = (case generate_password R opts g of (r, g') \<Rightarrow> (map_err generator_error_text r, g'))"

definition generate_passphrase_cmd ::
    "'g rng \<Rightarrow> (uchar \<Rightarrow> text) \<Rightarrow> text \<Rightarrow> passphrase_options \<Rightarrow> 'g \<Rightarrow>
     (text + text \<times> (nat \<times> nat \<times> bool)) \<times> 'g" where
  "generate_passphrase_cmd R uc wordlist opts g =
     (case generate_passphrase R uc wordlist opts g of (r, g') \<Rightarrow> (map_err generator_error_text r, g'))"

end
