(* ===== verification/Shell_Flows.thy ===== *)
theory Shell_Flows
  imports Shell_Sync Shell_Account
begin

text \<open>
  The account through the shell: what a login leaves for the next offline unlock, what a change of the
  password changes, what a recovery clears, which passwords are accepted, and the lock.
\<close>

section \<open>The cached account\<close>

lemma account_meta_saved:
  assumes "saved_meta db' = saved_meta db"
  shows "get_account_meta MC db' = get_account_meta MC db"
    and "encrypted_refresh_token J db' = encrypted_refresh_token J db"
proof -
  have "meta_get db' k = meta_get db k" if "k \<noteq> lit ''last_seq''" for k
    using fun_cong[OF assms, of k] that by (simp add: saved_meta_def)
  from this[of "lit ''account''"] this[of "lit ''refresh_token''"]
  show "get_account_meta MC db' = get_account_meta MC db" "encrypted_refresh_token J db' = encrypted_refresh_token J db"
    by (simp_all add: get_account_meta_def encrypted_refresh_token_def)
qed

lemma account_meta_persist [simp]:
  "get_account_meta MC (persist_rotated_refresh_token S nonce u db) = get_account_meta MC db"
  using persist_meta[of "lit ''account''" S nonce u db] by (simp add: get_account_meta_def)

lemma set_account_meta_eq:
  assumes "meta_codec_ok MC"
  obtains db' where "set_account_meta MC db m = (Inr (), db')" and "get_account_meta MC db' = Some m"
    and "sq_items db' = sq_items db" and "sq_ops db' = sq_ops db" and "sq_ops_seq db' = sq_ops_seq db"
    and "sqlite_wf J db' = sqlite_wf J db" and "encrypted_refresh_token J db' = encrypted_refresh_token J db"
    and "sqlite_last_seq db' = sqlite_last_seq db"
proof -
  obtain t where t: "mc_to MC m = Inr t" "mc_of MC t = Some m" using assms unfolding meta_codec_ok_def by blast
  show thesis
    by (rule that[of "meta_set db (lit ''account'') t"])
      (simp_all add: set_account_meta_def t get_account_meta_def meta_set_def meta_get_def update_conv'
        sqlite_wf_def encrypted_refresh_token_def sqlite_last_seq_def)
qed

text \<open>A server that cannot be reached: every call fails in the network.\<close>

definition offline :: "'w shell \<Rightarrow> 'w http \<Rightarrow> 'w shell" where
  "offline S h = S\<lparr>sh_http := h\<rparr>"

lemma offline_sel [simp]:
  "sh_crypto (offline S h) = sh_crypto S" "sh_json (offline S h) = sh_json S" "sh_meta (offline S h) = sh_meta S"
  "sh_items (offline S h) = sh_items S" "sh_http (offline S h) = h"
  by (simp_all add: offline_def)

lemma unlock_offline:
  assumes "unreachable (offline S h)" and "get_account_meta (sh_meta S) (av_db app) = Some m"
    and "Account_Flows.unlock (sh_crypto S) password (am_kdf_salt m) (am_kdf_params m) (am_master_wrapped m) = Inr secrets"
  shows "\<exists>u w'. unlock_cmd (offline S h) nonce now password app
      = Some (Inr (Status_Unlocked (am_email m)), \<lparr>av_session = Some u, av_db = av_db app, av_world = w'\<rparr>)
    \<and> un_secrets u = secrets \<and> un_email u = am_email m"
proof -
  let ?S = "offline S h"
  define t where "t = decrypt_refresh_token (sh_crypto S) (sh_json S) secrets (av_db app)"
  define u0 where "u0 = \<lparr>un_secrets = secrets, un_api = api_with_tokens (am_server_url m) None t,
                          un_autolock = autolock_new now DEFAULT_TIMEOUT, un_email = am_email m\<rparr>"
  show ?thesis
  proof (cases t)
    case None
    then show ?thesis
      by (intro exI[of _ u0] exI[of _ "av_world app"])
        (simp add: unlock_cmd_def assms(2,3) Let_def u0_def flip: t_def)
  next
    case (Some tok)
    obtain e w' where n: "h (av_world app) (plain_request POST (ap_base_url (un_api u0) @ lit ''/api/v1/auth/refresh'') []
          (Some (J_Obj [(''refresh_token'', J_Str tok)]))) = (Inl e, w')"
      using assms(1) unfolding unreachable_def offline_sel by blast
    have r: "api_refresh_session h (un_api u0) (av_world app) = (Inl (Ce_Network e), un_api u0, w')"
      using n Some by (simp add: api_refresh_session_def refresh_session_def rotate_call_def u0_def api_with_tokens_def api_new_def)
    show ?thesis
      using r Some
      by (intro exI[of _ u0] exI[of _ w'])
        (simp add: unlock_cmd_def assms(2,3) Let_def t_def[symmetric] u0_def)
  qed
qed

lemma unlock_refused:
  assumes "get_account_meta (sh_meta S) (av_db app) = Some m"
    and "Account_Flows.unlock (sh_crypto S) password (am_kdf_salt m) (am_kdf_params m) (am_master_wrapped m) = Inl e"
  shows "unlock_cmd S nonce now password app = Some (Inl (lit ''wrong master password''), app)"
  by (simp add: unlock_cmd_def assms)

section \<open>Log in once, unlock offline\<close>

lemma login_cmd_cases:
  assumes "shell_ok S" and "sqlite_wf (sh_json S) (av_db app)"
  shows "\<exists>r app'. login_cmd S nonce now host url email pw totp app = Some (r, app')
    \<and> (case r of
         Inl e \<Rightarrow> \<exists>w. app' = app\<lparr>av_world := w\<rparr>
       | Inr st \<Rightarrow> st = Status_Unlocked email
           \<and> (\<exists>u m. av_session app' = Some u \<and> un_email u = email
                \<and> get_account_meta (sh_meta S) (av_db app') = Some m \<and> am_email m = email
                \<and> Account_Flows.unlock (sh_crypto S) pw (am_kdf_salt m) (am_kdf_params m) (am_master_wrapped m)
                    = Inr (un_secrets u)))"
proof -
  have mc: "meta_codec_ok (sh_meta S)" using assms(1) by (simp add: shell_ok_def)
  let ?a = "api_new url"
  obtain p w1 where p: "api_prelogin (sh_wire S) (sh_http S) ?a (av_world app) email = (p, w1)" by fastforce
  have failed: ?thesis if "login_cmd S nonce now host url email pw totp app = Some (Inl e, app\<lparr>av_world := w\<rparr>)" for e w
    using that by auto
  show ?thesis
  proof (cases p)
    case (Inl e)
    then show ?thesis by (intro failed) (simp add: login_cmd_def p Let_def)
  next
    case p': (Inr pre)
    show ?thesis
    proof (cases "login_credential (sh_crypto S) pw (pi_kdf_salt pre) (pi_kdf_params pre)")
      case (Inl e)
      then show ?thesis by (intro failed) (simp add: login_cmd_def p p' Let_def)
    next
      case ak: (Inr ak)
      obtain l a w2 where l: "api_login (sh_wire S) (sh_http S) ?a w1 email (to_server_credential ak) totp None host
          = (l, a, w2)" by (metis prod_cases3)
      show ?thesis
      proof (cases l)
        case (Inl e)
        then show ?thesis by (intro failed) (simp add: login_cmd_def p p' ak l Let_def)
      next
        case l': (Inr out)
        show ?thesis
        proof (cases "Account_Flows.unlock (sh_crypto S) pw (lo_kdf_salt out) (lo_kdf_params out) (lo_master_wrapped out)")
          case (Inl e)
          then show ?thesis by (intro failed) (simp add: login_cmd_def p p' ak l l' Let_def)
        next
          case un: (Inr secrets)
          let ?m = "\<lparr>am_server_url = url, am_email = email, am_kdf_params = lo_kdf_params out,
                     am_kdf_salt = lo_kdf_salt out, am_master_wrapped = lo_master_wrapped out\<rparr>"
          obtain db where db: "set_account_meta (sh_meta S) (av_db app) ?m = (Inr (), db)"
            "get_account_meta (sh_meta S) db = Some ?m" "sqlite_wf (sh_json S) db"
            using set_account_meta_eq[OF mc, of "av_db app" ?m "sh_json S"] assms(2) by metis
          let ?u = "\<lparr>un_secrets = secrets, un_api = a, un_autolock = autolock_new now DEFAULT_TIMEOUT, un_email = email\<rparr>"
          let ?db = "persist_rotated_refresh_token S nonce ?u db"
          have "sqlite_wf (sh_json S) ?db" using db(3) by simp
          then obtain o1 u' db' w3 where t: "try_sync S ?u ?db w2 = Some (o1, u', db', w3)"
            "un_secrets u' = secrets" "saved_meta db' = saved_meta ?db" "un_email u' = email"
            using try_sync_total[of S ?db ?u w2] by (metis unlocked.select_convs(1,4))
          have "get_account_meta (sh_meta S) db' = Some ?m"
            using account_meta_saved(1)[OF t(3), of "sh_meta S"] db(2) by simp
          with t un show ?thesis
            by (simp add: login_cmd_def p p' ak l l' db(1) Let_def)
        qed
      qed
    qed
  qed
qed

text \<open>Claim C9.  Log in once, work offline: a login always ends; one that fails changes nothing on the device;
  after one that succeeds the vault unlocks with the same password and the server gone, to the same
  keys, account and vault, and until then the shell reports it locked under that account.\<close>

theorem login_then_unlock_offline:
  assumes "shell_ok S" and "sqlite_wf (sh_json S) (av_db app)" and "unreachable (offline S h)"
  shows "\<exists>r app'. login_cmd S nonce now host url email pw totp app = Some (r, app')
    \<and> (case r of
         Inl e \<Rightarrow> \<exists>w. app' = app\<lparr>av_world := w\<rparr>
       | Inr st \<Rightarrow> st = Status_Unlocked email \<and> status_cmd S (lock_cmd app') = Status_Locked email
           \<and> (\<exists>u u' w'. av_session app' = Some u
                \<and> unlock_cmd (offline S h) nonce' now' pw (lock_cmd app')
                    = Some (Inr (Status_Unlocked email), \<lparr>av_session = Some u', av_db = av_db app', av_world = w'\<rparr>)
                \<and> un_secrets u' = un_secrets u
                \<and> replica_items S (un_key u') (av_db app') = replica_items S (un_key u) (av_db app')))"
proof -
  obtain r app' where l: "login_cmd S nonce now host url email pw totp app = Some (r, app')"
    "case r of
         Inl e \<Rightarrow> \<exists>w. app' = app\<lparr>av_world := w\<rparr>
       | Inr st \<Rightarrow> st = Status_Unlocked email
           \<and> (\<exists>u m. av_session app' = Some u \<and> un_email u = email
                \<and> get_account_meta (sh_meta S) (av_db app') = Some m \<and> am_email m = email
                \<and> Account_Flows.unlock (sh_crypto S) pw (am_kdf_salt m) (am_kdf_params m) (am_master_wrapped m)
                    = Inr (un_secrets u))"
    using login_cmd_cases[OF assms(1,2)] by blast
  show ?thesis
  proof (cases r)
    case (Inl e)
    with l show ?thesis by auto
  next
    case (Inr st)
    with l(2) obtain u m where m: "st = Status_Unlocked email" "av_session app' = Some u"
      "get_account_meta (sh_meta S) (av_db app') = Some m" "am_email m = email"
      "Account_Flows.unlock (sh_crypto S) pw (am_kdf_salt m) (am_kdf_params m) (am_master_wrapped m) = Inr (un_secrets u)"
      by auto
    have "get_account_meta (sh_meta S) (av_db (lock_cmd app')) = Some m" using m(3) by (simp add: lock_cmd_def)
    from unlock_offline[OF assms(3) this m(5), of nonce' now'] obtain u' w' where
      "unlock_cmd (offline S h) nonce' now' pw (lock_cmd app')
        = Some (Inr (Status_Unlocked email), \<lparr>av_session = Some u', av_db = av_db (lock_cmd app'), av_world = w'\<rparr>)"
      "un_secrets u' = un_secrets u" using m(4) by auto
    moreover have "status_cmd S (lock_cmd app') = Status_Locked email"
      using m(3,4) by (simp add: status_cmd_def lock_cmd_def)
    ultimately show ?thesis using l(1) Inr m(1,2) by (auto simp: lock_cmd_def un_key_def)
  qed
qed

text \<open>A server that lets the registered password in, for the witness.\<close>

definition welcoming_shell :: "registration \<Rightarrow> unit shell" where
  "welcoming_shell reg = toy_shell\<lparr>
     sh_wire := toy_wire\<lparr>wi_wrapped_of := \<lambda>_. Inr (rb_master_wrapped (rg_bundle reg)),
                         wi_b64_decode := \<lambda>_. Some (replicate 16 0)\<rparr>,
     sh_http := \<lambda>w rq. (Inr (200, Inr (J_Obj [(''access_token'', J_Str [1]), (''refresh_token'', J_Str [2]),
                  (''kdf_salt'', J_Str [3])])), w)\<rparr>"

lemma welcoming_shell_sel [simp]:
  "sh_crypto (welcoming_shell reg) = toy_crypto" "sh_json (welcoming_shell reg) = toy_codec"
  "sh_meta (welcoming_shell reg) = toy_meta" "shell_ok (welcoming_shell reg)"
  "unreachable (offline (welcoming_shell reg) (\<lambda>w rq. (Inl [], w)))"
  using toy_shell_ok by (simp_all add: welcoming_shell_def toy_shell_def shell_ok_def unreachable_def)

theorem login_then_unlock_offline_witness:
  "\<exists>reg app' u u' w'. register toy_crypto \<lparr>dr_recovery = RecoveryKey (replicate 32 7), dr_nonce1 = [1], dr_nonce2 = [2]\<rparr>
         (replicate 16 0) (VaultKey (replicate 32 9)) (lit ''pw'') kdf_desktop = Inr reg
    \<and> login_cmd (welcoming_shell reg) [4] 5 [] (lit ''localhost'') (lit ''a@b.c'') (lit ''pw'') None toy_app
        = Some (Inr (Status_Unlocked (lit ''a@b.c'')), app')
    \<and> av_session app' = Some u
    \<and> unlock_cmd (offline (welcoming_shell reg) (\<lambda>w rq. (Inl [], w))) [6] 7 (lit ''pw'') (lock_cmd app')
        = Some (Inr (Status_Unlocked (lit ''a@b.c'')), \<lparr>av_session = Some u', av_db = av_db app', av_world = w'\<rparr>)
    \<and> un_secrets u' = un_secrets u"
proof -
  let ?d = "\<lparr>dr_recovery = RecoveryKey (replicate 32 7), dr_nonce1 = [1], dr_nonce2 = [2]\<rparr>"
    and ?salt = "replicate 16 0 :: bytes" and ?vk = "VaultKey (replicate 32 9)" and ?pw = "lit ''pw''"
  have len: "length ?salt = SALT_LEN" "length (vk_bytes ?vk) = KEY_LEN" by (simp_all add: SALT_LEN_def KEY_LEN_def)
  obtain reg where reg: "register toy_crypto ?d ?salt ?vk ?pw kdf_desktop = Inr reg"
    using build_registration_total[OF toy_crypto_ok kdf_desktop_valid len] unfolding register_def by blast
  have rt: "aead_roundtrip toy_crypto" using toy_crypto_ok by (simp add: crypto_ok_def)
  have un: "Account_Flows.unlock toy_crypto ?pw ?salt kdf_desktop (rb_master_wrapped (rg_bundle reg)) = Inr (rg_secrets reg)"
    by (rule unlock_built[OF rt len(2) reg[unfolded register_def]])
  then obtain ak where ak: "login_credential toy_crypto ?pw ?salt kdf_desktop = Inr ak"
    unfolding unlock_def login_credential_def bind_r_eq_Inr by auto
  let ?S = "welcoming_shell reg"
  have wf: "sqlite_wf (sh_json ?S) (av_db toy_app)" by (simp add: toy_app_def)
  obtain r app' where l: "login_cmd ?S [4] 5 [] (lit ''localhost'') (lit ''a@b.c'') ?pw None toy_app = Some (r, app')"
    "case r of
         Inl e \<Rightarrow> \<exists>w. app' = toy_app\<lparr>av_world := w\<rparr>
       | Inr st \<Rightarrow> st = Status_Unlocked (lit ''a@b.c'') \<and> status_cmd ?S (lock_cmd app') = Status_Locked (lit ''a@b.c'')
           \<and> (\<exists>u u' w'. av_session app' = Some u
                \<and> unlock_cmd (offline ?S (\<lambda>w rq. (Inl [], w))) [6] 7 ?pw (lock_cmd app')
                    = Some (Inr (Status_Unlocked (lit ''a@b.c'')), \<lparr>av_session = Some u', av_db = av_db app', av_world = w'\<rparr>)
                \<and> un_secrets u' = un_secrets u
                \<and> replica_items ?S (un_key u') (av_db app') = replica_items ?S (un_key u) (av_db app'))"
    using login_then_unlock_offline[OF welcoming_shell_sel(4) wf welcoming_shell_sel(5),
        of "[4]" 5 "[]" "lit ''localhost''" "lit ''a@b.c''" ?pw None "[6]" 7] by blast
  have p: "api_prelogin (sh_wire ?S) (sh_http ?S) (api_new (lit ''localhost'')) (av_world toy_app) (lit ''a@b.c'')
      = (Inr \<lparr>pi_kdf_params = kdf_desktop, pi_kdf_salt = ?salt\<rparr>, av_world toy_app)"
    by (simp add: welcoming_shell_def toy_wire_def api_prelogin_def send_parse_def server_err_def decode_salt_def)
  let ?out = "\<lparr>lo_access_token = [1], lo_refresh_token = [2], lo_kdf_params = kdf_desktop,
        lo_kdf_salt = ?salt, lo_master_wrapped = rb_master_wrapped (rg_bundle reg)\<rparr>"
  have "\<exists>a. api_login (sh_wire ?S) (sh_http ?S) (api_new (lit ''localhost'')) (av_world toy_app) (lit ''a@b.c'')
      (to_server_credential ak) None None [] = (Inr ?out, a, av_world toy_app)"
    by (simp add: welcoming_shell_def toy_wire_def api_login_def send_parse_def server_err_def decode_salt_def
        parse_login_def is_success_def)
  then obtain a where lg: "api_login (sh_wire ?S) (sh_http ?S) (api_new (lit ''localhost'')) (av_world toy_app)
      (lit ''a@b.c'') (to_server_credential ak) None None [] = (Inr ?out, a, av_world toy_app)" by blast
  let ?m = "\<lparr>am_server_url = lit ''localhost'', am_email = lit ''a@b.c'', am_kdf_params = kdf_desktop,
     am_kdf_salt = ?salt, am_master_wrapped = rb_master_wrapped (rg_bundle reg)\<rparr>"
  obtain db where db: "set_account_meta toy_meta (av_db toy_app) ?m = (Inr (), db)"
    using set_account_meta_eq[OF toy_meta_ok] by metis
  have "\<exists>z. login_cmd ?S [4] 5 [] (lit ''localhost'') (lit ''a@b.c'') ?pw None toy_app
      = (case z of None \<Rightarrow> None | Some x \<Rightarrow> Some (Inr (Status_Unlocked (lit ''a@b.c'')), x))"
  proof -
    let ?u = "\<lparr>un_secrets = rg_secrets reg, un_api = a, un_autolock = autolock_new 5 DEFAULT_TIMEOUT, un_email = lit ''a@b.c''\<rparr>"
    let ?t = "try_sync ?S ?u (persist_rotated_refresh_token ?S [4] ?u db) (av_world toy_app)"
    have "login_cmd ?S [4] 5 [] (lit ''localhost'') (lit ''a@b.c'') ?pw None toy_app
      = (case ?t of None \<Rightarrow> None | Some (_, u', db', w3) \<Rightarrow> Some (Inr (Status_Unlocked (lit ''a@b.c'')),
          \<lparr>av_session = Some u', av_db = db', av_world = w3\<rparr>))"
      unfolding login_cmd_def Let_def p lg prod.case sum.case prelogin_info.simps login_outcome.simps
        welcoming_shell_sel ak un db by (rule refl)
    then show ?thesis
      by (intro exI[of _ "map_option (\<lambda>(_, u', db', w3). \<lparr>av_session = Some u', av_db = db', av_world = w3\<rparr>) ?t"])
        (simp split: option.split prod.split)
  qed
  with l(1) have "\<exists>st. r = Inr st" by (auto split: option.splits)
  with l reg show ?thesis by (simp only: ex_simps) (elim exE, simp, blast)
qed

section \<open>Changing the password\<close>

lemma change_password_cmd_cases:
  assumes "shell_ok S" and "unlocked_app S u app"
  obtains (failed) e u' w where "change_password_cmd S d now cur new totp app
        = (Inl e, app\<lparr>av_session := Some u', av_world := w\<rparr>)" and "un_secrets u' = un_secrets u"
  | (changed) m reg db u' w where "get_account_meta (sh_meta S) (av_db app) = Some m"
      and "build_registration (sh_crypto S) d (am_kdf_params m) (am_kdf_salt m) new (un_key u) = Inr reg"
      and "get_account_meta (sh_meta S) db
        = Some (m\<lparr>am_kdf_params := am_kdf_params m, am_master_wrapped := rb_master_wrapped (rg_bundle reg)\<rparr>)"
      and "sq_items db = sq_items (av_db app)" and "sq_ops db = sq_ops (av_db app)"
      and "sqlite_wf (sh_json S) db" and "sqlite_last_seq db = sqlite_last_seq (av_db app)"
      and "change_password_cmd S d now cur new totp app
        = (Inr (rg_recovery_code reg), \<lparr>av_session = Some u', av_db = db, av_world = w\<rparr>)"
      and "un_secrets u' = rg_secrets reg" and "as_vault_key (rg_secrets reg) = un_key u"
proof -
  have se: "av_session app = Some u" and wf: "sqlite_wf (sh_json S) (av_db app)"
    using assms(2) by (simp_all add: unlocked_app_def)
  have mc: "meta_codec_ok (sh_meta S)" using assms(1) by (simp add: shell_ok_def)
  let ?u = "u\<lparr>un_autolock := touch now (un_autolock u)\<rparr>"
  obtain g w1 where g: "new_password_gate S new [un_email u] (av_world app) = (g, w1)" by fastforce
  note step = change_password_cmd_def se Let_def g
  have bad: thesis if "change_password_cmd S d now cur new totp app
      = (Inl e, \<lparr>av_session = Some u', av_db = av_db app, av_world = w\<rparr>)" "un_secrets u' = un_secrets u" for e u' w
    using failed[where e = e and u' = u' and w = w] that by simp
  show thesis
  proof (cases g)
    case (Inl e)
    then show ?thesis by (intro bad[where u' = ?u and w = w1]) (simp_all add: step)
  next
    case g': (Inr x)
    show ?thesis
    proof (cases "get_account_meta (sh_meta S) (av_db app)")
      case None
      then show ?thesis by (intro bad[where u' = ?u and w = w1]) (simp_all add: step g')
    next
      case m: (Some m)
      show ?thesis
      proof (cases "login_credential (sh_crypto S) cur (am_kdf_salt m) (am_kdf_params m)")
        case (Inl e)
        then show ?thesis by (intro bad[where u' = ?u and w = w1]) (simp_all add: step g' m)
      next
        case ak: (Inr ak)
        show ?thesis
        proof (cases "Account_Flows.change_password (sh_crypto S) d (un_secrets u) new (am_kdf_salt m) (am_kdf_params m)")
          case (Inl e)
          then show ?thesis by (intro bad[where u' = ?u and w = w1]) (simp_all add: step g' m ak)
        next
          case reg: (Inr reg)
          have b: "build_registration (sh_crypto S) d (am_kdf_params m) (am_kdf_salt m) new (un_key u) = Inr reg"
            using reg by (auto simp: Account_Flows.change_password_def to_salt_def un_key_def bind_r_def split: if_splits)
          then have rg: "rb_kdf_params (rg_bundle reg) = am_kdf_params m" "as_vault_key (rg_secrets reg) = un_key u"
            by (auto elim: build_registration_Inr)
          obtain r a w2 where c: "api_change_password (sh_wire S) (sh_http S) (to_server_credential ak) totp
              (rg_bundle reg) (un_api u) w1 = (r, a, w2)" by (metis prod_cases3)
          show ?thesis
          proof (cases r)
            case (Inl e)
            then show ?thesis by (intro bad[where u' = "?u\<lparr>un_api := a\<rparr>" and w = w2]) (simp_all add: step g' m ak reg c)
          next
            case r: (Inr y)
            let ?m = "m\<lparr>am_kdf_params := am_kdf_params m, am_master_wrapped := rb_master_wrapped (rg_bundle reg)\<rparr>"
            obtain db where db: "set_account_meta (sh_meta S) (av_db app) ?m = (Inr (), db)"
              "get_account_meta (sh_meta S) db = Some ?m" "sq_items db = sq_items (av_db app)"
              "sq_ops db = sq_ops (av_db app)" "sqlite_wf (sh_json S) db" "sqlite_last_seq db = sqlite_last_seq (av_db app)"
              using set_account_meta_eq[OF mc, of "av_db app" ?m "sh_json S"] wf by metis
            have "change_password_cmd S d now cur new totp app = (Inr (rg_recovery_code reg),
                \<lparr>av_session = Some (?u\<lparr>un_api := a, un_secrets := rg_secrets reg\<rparr>), av_db = db, av_world = w2\<rparr>)"
              using db(1) by (simp add: step g' m ak reg c r rg(1))
            from changed[OF m b db(2-6) this _ rg(2)] show ?thesis by simp
          qed
        qed
      qed
    qed
  qed
qed

text \<open>Claim C10.  A change of the password is all or nothing on the device, and keeps the vault: if it fails, the
  database and the keys in memory are as before; if it succeeds, items, queue and cursor are unchanged
  and so is the vault key, the new password unlocks offline, and every password that derives another
  master key is refused without a request (the vault key is 32 bytes).\<close>

theorem change_password_all_or_nothing:
  assumes "shell_ok S" and "unlocked_app S u app" and "length (vk_bytes (un_key u)) = KEY_LEN"
    and "unreachable (offline S h)"
  shows "case change_password_cmd S d now cur new totp app of
      (Inl e, app') \<Rightarrow> av_db app' = av_db app \<and> (\<exists>u'. av_session app' = Some u' \<and> un_secrets u' = un_secrets u)
    | (Inr code, app') \<Rightarrow>
        sq_items (av_db app') = sq_items (av_db app) \<and> sq_ops (av_db app') = sq_ops (av_db app)
        \<and> sqlite_last_seq (av_db app') = sqlite_last_seq (av_db app)
        \<and> (\<exists>u' m. unlocked_app S u' app' \<and> un_key u' = un_key u
            \<and> get_account_meta (sh_meta S) (av_db app') = Some m
            \<and> (\<exists>w' u2. unlock_cmd (offline S h) nonce' now' new (lock_cmd app')
                 = Some (Inr (Status_Unlocked (am_email m)), \<lparr>av_session = Some u2, av_db = av_db app', av_world = w'\<rparr>)
                 \<and> un_secrets u2 = un_secrets u')
            \<and> (\<forall>old. derive_master_key (sh_crypto S) old (am_kdf_salt m) (am_kdf_params m)
                      \<noteq> derive_master_key (sh_crypto S) new (am_kdf_salt m) (am_kdf_params m) \<longrightarrow>
                 unlock_cmd S nonce' now' old (lock_cmd app')
                   = Some (Inl (lit ''wrong master password''), lock_cmd app')))"
proof (rule change_password_cmd_cases[OF assms(1,2), of d now cur new totp], goal_cases)
  case (1 e u' w)
  then show ?case by simp
next
  case (2 m reg db u' w)
  let ?m = "m\<lparr>am_kdf_params := am_kdf_params m, am_master_wrapped := rb_master_wrapped (rg_bundle reg)\<rparr>"
    and ?app' = "\<lparr>av_session = Some u', av_db = db, av_world = w\<rparr>"
  have cr: "crypto_ok (sh_crypto S)" using assms(1) by (simp add: shell_ok_def)
  then have "aead_roundtrip (sh_crypto S)" by (simp add: crypto_ok_def)
  from unlock_built[OF this assms(3) 2(2)]
  have un: "Account_Flows.unlock (sh_crypto S) new (am_kdf_salt ?m) (am_kdf_params ?m) (am_master_wrapped ?m)
      = Inr (rg_secrets reg)" by simp
  have lm: "get_account_meta (sh_meta S) (av_db (lock_cmd ?app')) = Some ?m"
    using 2(3) by (simp add: lock_cmd_def)
  from unlock_offline[OF assms(4) lm un, of nonce' now'] obtain u2 w' where
    new: "unlock_cmd (offline S h) nonce' now' new (lock_cmd ?app')
       = Some (Inr (Status_Unlocked (am_email ?m)), \<lparr>av_session = Some u2, av_db = av_db (lock_cmd ?app'), av_world = w'\<rparr>)"
      "un_secrets u2 = rg_secrets reg" by blast
  have old: "unlock_cmd S nonce' now' old (lock_cmd ?app') = Some (Inl (lit ''wrong master password''), lock_cmd ?app')"
    if other: "derive_master_key (sh_crypto S) old (am_kdf_salt ?m) (am_kdf_params ?m)
      \<noteq> derive_master_key (sh_crypto S) new (am_kdf_salt ?m) (am_kdf_params ?m)" for old
  proof -
    obtain e where "Account_Flows.unlock (sh_crypto S) old (am_kdf_salt ?m) (am_kdf_params ?m) (am_master_wrapped ?m) = Inl e"
      using unlock_wrong[OF cr 2(2), of old "am_kdf_salt m" "am_kdf_params m"] other by auto
    from unlock_refused[OF lm this] show ?thesis .
  qed
  have u': "unlocked_app S u' ?app'" "un_key u' = un_key u"
    using 2(6,9,10) by (simp_all add: unlocked_app_def un_key_def)
  have "\<exists>w' u2. unlock_cmd (offline S h) nonce' now' new (lock_cmd ?app')
       = Some (Inr (Status_Unlocked (am_email ?m)), \<lparr>av_session = Some u2, av_db = db, av_world = w'\<rparr>)
       \<and> un_secrets u2 = un_secrets u'"
    using new 2(9) by (auto simp: lock_cmd_def)
  with u' old 2(3) have "\<exists>u' m. unlocked_app S u' ?app' \<and> un_key u' = un_key u
            \<and> get_account_meta (sh_meta S) db = Some m
            \<and> (\<exists>w' u2. unlock_cmd (offline S h) nonce' now' new (lock_cmd ?app')
                 = Some (Inr (Status_Unlocked (am_email m)), \<lparr>av_session = Some u2, av_db = db, av_world = w'\<rparr>)
                 \<and> un_secrets u2 = un_secrets u')
            \<and> (\<forall>old. derive_master_key (sh_crypto S) old (am_kdf_salt m) (am_kdf_params m)
                      \<noteq> derive_master_key (sh_crypto S) new (am_kdf_salt m) (am_kdf_params m) \<longrightarrow>
                 unlock_cmd S nonce' now' old (lock_cmd ?app')
                   = Some (Inl (lit ''wrong master password''), lock_cmd ?app'))"
    by (intro exI[of _ u'] exI[of _ ?m] conjI allI impI)
  then show ?case unfolding 2(8) using 2(4,5,7) by simp
qed

theorem change_password_all_or_nothing_witness:
  "\<exists>reg app code app' u2 w'. av_session app \<noteq> None
    \<and> change_password_cmd (welcoming_shell reg)
        \<lparr>dr_recovery = RecoveryKey (replicate 32 8), dr_nonce1 = [3], dr_nonce2 = [4]\<rparr> 9 (lit ''pw'')
        (lit ''a new password'') None app = (Inr code, app')
    \<and> unlock_cmd (offline (welcoming_shell reg) (\<lambda>w rq. (Inl [], w))) [6] 10 (lit ''a new password'') (lock_cmd app')
        = Some (Inr (Status_Unlocked (lit ''a@b.c'')), \<lparr>av_session = Some u2, av_db = av_db app', av_world = w'\<rparr>)
    \<and> un_key u2 = VaultKey (replicate 32 9)"
proof -
  let ?d = "\<lparr>dr_recovery = RecoveryKey (replicate 32 7), dr_nonce1 = [1], dr_nonce2 = [2]\<rparr>"
    and ?d' = "\<lparr>dr_recovery = RecoveryKey (replicate 32 8), dr_nonce1 = [3], dr_nonce2 = [4]\<rparr>"
    and ?salt = "replicate 16 0 :: bytes" and ?vk = "VaultKey (replicate 32 9)" and ?new = "lit ''a new password''"
  have len: "length ?salt = SALT_LEN" "length (vk_bytes ?vk) = KEY_LEN" by (simp_all add: SALT_LEN_def KEY_LEN_def)
  obtain reg where reg: "build_registration toy_crypto ?d kdf_desktop ?salt (lit ''pw'') ?vk = Inr reg"
    using build_registration_total[OF toy_crypto_ok kdf_desktop_valid len] by blast
  then obtain mk where mk: "derive_master_key toy_crypto (lit ''pw'') ?salt kdf_desktop = Inr mk" "as_vault_key (rg_secrets reg) = ?vk"
    by (auto elim: build_registration_Inr)
  obtain reg' where reg': "build_registration toy_crypto ?d' kdf_desktop ?salt ?new ?vk = Inr reg'"
    using build_registration_total[OF toy_crypto_ok kdf_desktop_valid len] by blast
  let ?S = "welcoming_shell reg" and ?m = "\<lparr>am_server_url = lit ''localhost'', am_email = lit ''a@b.c'',
     am_kdf_params = kdf_desktop, am_kdf_salt = ?salt, am_master_wrapped = rb_master_wrapped (rg_bundle reg)\<rparr>"
  obtain db where db: "get_account_meta toy_meta db = Some ?m" "sqlite_wf toy_codec db"
    using set_account_meta_eq[OF toy_meta_ok, of sqlite_empty ?m toy_codec] by (metis sqlite_empty_wf toy_codec_ok)
  let ?u = "\<lparr>un_secrets = rg_secrets reg, un_api = api_with_tokens (lit ''localhost'') (Some [1]) None,
     un_autolock = autolock_new 0 DEFAULT_TIMEOUT, un_email = lit ''a@b.c''\<rparr>"
  define app where "app = \<lparr>av_session = Some ?u, av_db = db, av_world = ()\<rparr>"
  have un: "unlocked_app ?S ?u app" "length (vk_bytes (un_key ?u)) = KEY_LEN" "un_key ?u = ?vk"
    using db(2) len(2) mk(2) by (simp_all add: unlocked_app_def app_def un_key_def)
  have gate: "new_password_gate ?S ?new x w = (Inr (), w)" for x w
    by (simp add: new_password_gate_def check_password_strength_def check_password_guessability_def MIN_PASSWORD_LEN_def
        MIN_ZXCVBN_SCORE_def reject_if_breached_def password_breach_count_def Let_def less_eq_zscore_def lit_def
        case_prod_unfold welcoming_shell_def toy_shell_def)
  have call: "\<exists>a. api_change_password (sh_wire ?S) (sh_http ?S) cred None b
      (api_with_tokens (lit ''localhost'') (Some [1]) None) () = (Inr (), a, ())" for cred b
    by (simp add: api_change_password_def authed_parse_def api_authed_def authed_def authed_once_def bearer_call_def
        api_with_tokens_def api_new_def welcoming_shell_def is_success_def)
  have "\<exists>code app'. change_password_cmd ?S ?d' 9 (lit ''pw'') ?new None app = (Inr code, app')"
  proof (rule change_password_cmd_cases[OF welcoming_shell_sel(4) un(1), of ?d' 9 "lit ''pw''" ?new None])
    fix e u' w
    assume "change_password_cmd ?S ?d' 9 (lit ''pw'') ?new None app = (Inl e, app\<lparr>av_session := Some u', av_world := w\<rparr>)"
    moreover obtain a where "api_change_password (sh_wire ?S) (sh_http ?S)
        (to_server_credential (fst (derive_subkeys toy_crypto mk))) None (rg_bundle reg')
        (api_with_tokens (lit ''localhost'') (Some [1]) None) () = (Inr (), a, ())" using call by blast
    moreover have "Account_Flows.change_password toy_crypto ?d' (rg_secrets reg) ?new ?salt kdf_desktop = Inr reg'"
      using reg' mk(2) len(1) by (simp add: Account_Flows.change_password_def to_salt_def)
    moreover obtain db' where "set_account_meta toy_meta db (?m\<lparr>am_kdf_params := rb_kdf_params (rg_bundle reg'),
        am_master_wrapped := rb_master_wrapped (rg_bundle reg')\<rparr>) = (Inr (), db')"
      using set_account_meta_eq[OF toy_meta_ok] by metis
    ultimately show ?thesis
      by (simp add: change_password_cmd_def app_def gate db(1) login_credential_def mk(1))
  qed blast
  then obtain code app' where c: "change_password_cmd ?S ?d' 9 (lit ''pw'') ?new None app = (Inr code, app')" by blast
  from change_password_all_or_nothing[OF welcoming_shell_sel(4) un(1,2) welcoming_shell_sel(5),
      where d = ?d' and now = 9 and cur = "lit ''pw''" and new = ?new and totp = None and nonce' = "[6]" and now' = 10,
      unfolded c]
  obtain u' m u2 w' where r: "un_key u' = ?vk" "get_account_meta toy_meta (av_db app') = Some m"
    "unlock_cmd (offline ?S (\<lambda>w rq. (Inl [], w))) [6] 10 ?new (lock_cmd app')
       = Some (Inr (Status_Unlocked (am_email m)), \<lparr>av_session = Some u2, av_db = av_db app', av_world = w'\<rparr>)"
    "un_secrets u2 = un_secrets u'" using un(3) by auto
  have "am_email m = lit ''a@b.c''"
  proof (rule change_password_cmd_cases[OF welcoming_shell_sel(4) un(1), of ?d' 9 "lit ''pw''" ?new None])
    fix m' reg1 db1 u1 w1
    assume "get_account_meta (sh_meta ?S) (av_db app) = Some m'"
      "get_account_meta (sh_meta ?S) db1
        = Some (m'\<lparr>am_kdf_params := am_kdf_params m', am_master_wrapped := rb_master_wrapped (rg_bundle reg1)\<rparr>)"
      "change_password_cmd ?S ?d' 9 (lit ''pw'') ?new None app
        = (Inr (rg_recovery_code reg1), \<lparr>av_session = Some u1, av_db = db1, av_world = w1\<rparr>)"
    with r(2) c db(1) show ?thesis by (auto simp: app_def)
  qed (simp add: c)
  with c r show ?thesis
    by (intro exI[of _ reg] exI[of _ app] exI[of _ code] exI[of _ app'] exI[of _ u2] exI[of _ w'])
      (simp add: app_def un_key_def)
qed

end
