(* ===== verification/Shell_Guards.thy ===== *)
theory Shell_Guards
  imports Shell_Flows
begin

text \<open>
  What the shell refuses: passwords that are too weak to leave the device, and everything once the vault
  is locked; and what it leaves on the device after a recovery, a login over another account's replica
  and a call that rotated the session.
\<close>

section \<open>New passwords\<close>

lemma gate_weak:
  assumes "length pw < 14 \<or> ze_score (sh_zxcvbn S pw inputs) < Score_Three"
  shows "\<exists>e. new_password_gate S pw inputs w = (Inl e, w)"
proof (cases "check_password_strength pw")
  case (Inr x)
  with assms have "\<not> Score_Three \<le> ze_score (sh_zxcvbn S pw inputs)"
    by (auto simp: check_password_strength_def MIN_PASSWORD_LEN_def not_le split: if_splits)
  then have "\<exists>e. check_password_guessability (sh_zxcvbn S) pw inputs = Inl e"
    by (auto simp: check_password_guessability_def MIN_ZXCVBN_SCORE_def Let_def split: option.splits)
  with Inr show ?thesis by (auto simp: new_password_gate_def)
qed (simp add: new_password_gate_def)

lemma gate_breached:
  assumes "password_breach_count (sh_sha1 S) (sh_range S) w pw = (Inr (Some n), w1)"
  shows "\<exists>e w'. new_password_gate S pw inputs w = (Inl e, w') \<and> w' \<in> {w, w1}"
  using assms by (auto simp: new_password_gate_def reject_if_breached_def split: sum.splits)

lemma gate_blocks:
  assumes "new_password_gate S pw inputs w = (Inl e, w')"
  shows "inputs = [email] \<Longrightarrow> register_cmd S rd url email pw w = (Inl e, w')"
    and "inputs = [] \<Longrightarrow> w = av_world app \<Longrightarrow>
      recover_complete_cmd S rd url token code pw wipe app = (Inl e, app\<lparr>av_world := w'\<rparr>)"
    and "av_session app = Some u \<Longrightarrow> inputs = [un_email u] \<Longrightarrow> w = av_world app \<Longrightarrow>
      change_password_cmd S d now cur pw totp app
        = (Inl e, app\<lparr>av_session := Some (u\<lparr>un_autolock := touch now (un_autolock u)\<rparr>), av_world := w'\<rparr>)"
  using assms by (simp_all add: register_cmd_def recover_complete_cmd_def change_password_cmd_def Let_def)



section \<open>The lock\<close>

text \<open>Claim C12.  An idle vault locks, and a locked vault gives nothing: once the session has been idle for its
  timeout the watchdog drops it and keeps the encrypted database; from then on every command that
  needs the vault answers that it is locked, changes nothing and sends nothing.  A session in use stays:
  after a command at time \<open>t\<close> the watchdog leaves it alone until \<open>t\<close> plus the timeout.\<close>

theorem idle_vault_locks:
  assumes "\<forall>u. av_session app = Some u \<longrightarrow> al_last_activity (un_autolock u) + al_timeout (un_autolock u) \<le> now"
  shows "let a = watchdog now app in
      av_db a = av_db app \<and> av_world a = av_world app \<and> (\<forall>m. status_cmd S a \<noteq> Status_Unlocked m)
      \<and> list_items_cmd S t query tag a = (Inl LOCKED, a) \<and> list_tags_cmd S t a = (Inl LOCKED, a)
      \<and> vault_health_cmd S t a = (Inl LOCKED, a) \<and> get_item_cmd S t i a = (Inl LOCKED, a)
      \<and> save_item S fresh nonce dr t oi x a = Some (Inl LOCKED, a) \<and> delete_item_cmd S dr t i a = Some (Inl LOCKED, a)
      \<and> delete_tag S nonces dr t tg a = Some (Inl LOCKED, a) \<and> sync_now S dr t a = Some (Inl LOCKED, a)
      \<and> (trim tg' \<noteq> [] \<longrightarrow> rename_tag S nonces dr t tg tg' a = Some (Inl LOCKED, a))
      \<and> (12 \<le> length pp \<longrightarrow> export_vault_cmd S X t unix salt nonce pp save a = (Inl LOCKED, a))
      \<and> (\<forall>is. read_import S X csv picked pp' = Inr is \<longrightarrow>
           import_vault_cmd S X csv fr dr t picked pp' a = Some (Inl LOCKED, a))
      \<and> change_password_cmd S d t cur new totp a = (Inl LOCKED, a)
      \<and> with_api t prep call a = (Inl LOCKED, a)
      \<and> (\<forall>u f. av_session app = Some u \<longrightarrow> t \<le> t' \<longrightarrow> t' < t + al_timeout (un_autolock u) \<longrightarrow>
           watchdog t' (snd (with_session t f app)) = snd (with_session t f app))"
proof -
  define a where "a = watchdog now app"
  have a: "av_session a = None" "av_db a = av_db app" "av_world a = av_world app"
    using assms by (auto simp: a_def watchdog_def should_lock_def split: option.splits)
  have w: "with_session t f a = (Inl LOCKED, a)" for f :: "unlocked \<Rightarrow> sqlite_vault \<Rightarrow> (text + 'z) \<times> sqlite_vault"
    by (simp add: with_session_def a(1))
  have used: "watchdog t' (snd (with_session t f app)) = snd (with_session t f app)"
    if "av_session app = Some u" "t \<le> t'" "t' < t + al_timeout (un_autolock u)" for u and f :: "unlocked \<Rightarrow> sqlite_vault \<Rightarrow> (text + 'y) \<times> sqlite_vault"
    using that by (auto simp: with_session_def watchdog_def should_lock_def touch_def Let_def split: prod.splits)
  show ?thesis unfolding Let_def a_def[symmetric]
  proof (intro conjI)
    show "list_items_cmd S t query tag a = (Inl LOCKED, a)" by (simp add: list_items_cmd_def Let_def with_session_def a(1))
    show "list_tags_cmd S t a = (Inl LOCKED, a)" by (simp add: list_tags_cmd_def with_session_def a(1))
    show "vault_health_cmd S t a = (Inl LOCKED, a)" by (simp add: vault_health_cmd_def with_session_def a(1))
    show "get_item_cmd S t i a = (Inl LOCKED, a)" by (simp add: get_item_cmd_def with_session_def a(1))
    show "save_item S fresh nonce dr t oi x a = Some (Inl LOCKED, a)"
      by (simp add: save_item_def save_local_def with_session_def a(1))
    show "delete_item_cmd S dr t i a = Some (Inl LOCKED, a)"
      by (simp add: delete_item_cmd_def delete_local_def with_session_def a(1))
    show "delete_tag S nonces dr t tg a = Some (Inl LOCKED, a)"
      by (simp add: delete_tag_def retag_all_def with_session_def a(1))
    show "trim tg' \<noteq> [] \<longrightarrow> rename_tag S nonces dr t tg tg' a = Some (Inl LOCKED, a)"
      by (simp add: rename_tag_def retag_all_def with_session_def a(1))
    show "sync_now S dr t a = Some (Inl LOCKED, a)" by (simp add: sync_now_def sync_pass_def a(1))
    show "12 \<le> length pp \<longrightarrow> export_vault_cmd S X t unix salt nonce pp save a = (Inl LOCKED, a)"
      by (simp add: export_vault_cmd_def with_session_def a(1))
    show "\<forall>is. read_import S X csv picked pp' = Inr is \<longrightarrow>
           import_vault_cmd S X csv fr dr t picked pp' a = Some (Inl LOCKED, a)"
      by (simp add: import_vault_cmd_def with_session_def a(1))
    show "change_password_cmd S d t cur new totp a = (Inl LOCKED, a)" by (simp add: change_password_cmd_def a(1))
    show "with_api t prep call a = (Inl LOCKED, a)" by (simp add: with_api_def a(1))
  qed (use a used in \<open>auto simp: status_cmd_def split: option.splits\<close>)
qed

theorem idle_vault_locks_witness:
  "list_items_cmd toy_shell 5 [] None (watchdog DEFAULT_TIMEOUT toy_app) = (Inl LOCKED, watchdog DEFAULT_TIMEOUT toy_app)"
proof -
  have idle: "\<forall>u. av_session toy_app = Some u \<longrightarrow>
      al_last_activity (un_autolock u) + al_timeout (un_autolock u) \<le> DEFAULT_TIMEOUT"
    by (simp add: toy_app_def toy_unlocked_def autolock_new_def)
  show ?thesis
    by (rule idle_vault_locks[OF idle, unfolded Let_def, THEN conjunct2, THEN conjunct2, THEN conjunct2, THEN conjunct1])
qed

section \<open>What is left on the device\<close>

text \<open>A completed recovery clears the items, the cursor and the session token of the replica, whatever
  account they belonged to; the queue of unsent edits and the cached account stay, so the old password
  still unlocks this device and the next login sends edits encrypted under the old vault key.\<close>

lemma recovery_keeps_queue:
  assumes "recover_complete_cmd S rd url token code pw wipe app = (Inr res, app')"
  shows "sq_items (av_db app') = [] \<and> sqlite_last_seq (av_db app') = 0
    \<and> encrypted_refresh_token (sh_json S) (av_db app') = None
    \<and> av_session app' = av_session app \<and> sq_ops (av_db app') = sq_ops (av_db app)
    \<and> get_account_meta (sh_meta S) (av_db app') = get_account_meta (sh_meta S) (av_db app)"
proof -
  have "\<exists>w. app' = app\<lparr>av_db := set_encrypted_refresh_token (sh_json S)
      (sqlite_set_last_seq ((av_db app)\<lparr>sq_items := []\<rparr>) 0) None, av_world := w\<rparr>"
    using assms by (auto simp: recover_complete_cmd_def Let_def split: prod.splits sum.splits option.splits if_splits)
  then show ?thesis
    by (auto simp: set_encrypted_refresh_token_def sqlite_set_last_seq_def meta_set_def sqlite_last_seq_def
        meta_get_def get_account_meta_def encrypted_refresh_token_def delete_conv' update_conv' lit_def)
qed

text \<open>No command that only calls the server writes the database; a refresh token rotated on the way is
  not persisted, and the one on disk is spent.\<close>

lemma with_api_keeps_database:
  "av_db (snd (with_api now prep call app)) = av_db app"
  by (auto simp: with_api_def Let_def split: option.splits sum.splits prod.splits)

lemma rotated_token_not_persisted:
  assumes "av_session app = Some u" and "prep (u\<lparr>un_autolock := touch now (un_autolock u)\<rparr>) (av_db app) = Inr p"
    and "call p (un_api u) (av_world app) = (r, a, w)" and "api_refresh_token a \<noteq> api_refresh_token (un_api u)"
  shows "\<exists>u'. av_session (snd (with_api now prep call app)) = Some u'
    \<and> api_refresh_token (un_api u') \<noteq> api_refresh_token (un_api u)
    \<and> encrypted_refresh_token J (av_db (snd (with_api now prep call app))) = encrypted_refresh_token J (av_db app)"
  using assms by (simp add: with_api_def Let_def)

end
