(* ===== verification/Known_Limits.thy ===== *)
theory Known_Limits
  imports Shell_Guards Server_Properties
begin

text \<open>
  Behaviour that the code has and that falls short of what its documentation promises, each as a lemma
  about the model.
\<close>

section \<open>Checkpoints\<close>

text \<open>A wipe replaces the vault key and empties the vault, but leaves the checkpoint signed by the old one.\<close>

lemma wipe_keeps_checkpoint:
  assumes "complete_recovery E ip now salt rq s = (Inr p, s')"
  shows "\<exists>r a a'. account_by_id s r = Some a \<and> account_by_id s' r = Some a'
    \<and> ac_checkpoint_seq a' = ac_checkpoint_seq a \<and> ac_checkpoint_tag a' = ac_checkpoint_tag a
    \<and> ac_master_wrapped a' = cq_master_wrapped rq"
  using assms
proof (rule complete_Inr)
  fix s1 r cred nv ns a
  assume c: "check_ip ip now s = (None, s1)"
    and a: "account_by_id s1 (rr_account_id r) = Some a"
    and s': "s' = notify_owner (ac_email a) (Mail_Recovered p)
           (backup_email_of (complete_tx p now r (recover_account E salt rq cred nv ns) s1) (rr_account_id r))
           (complete_tx p now r (recover_account E salt rq cred nv ns) s1)"
  have "account_by_id s (rr_account_id r) = Some a" using a check_ip_sel[OF c] by (simp add: account_by_id_def)
  moreover have "account_by_id s' (rr_account_id r) = Some (recover_account E salt rq cred nv ns a)"
    using account_by_id_update[of "recover_account E salt rq cred nv ns" "rr_account_id r" s1 "rr_account_id r"] a
    by (simp add: account_by_id_def s')
  ultimately show ?thesis
    by (intro exI[of _ "rr_account_id r"] exI[of _ a] exI[of _ "recover_account E salt rq cred nv ns a"]) simp
qed

text \<open>A device with the new key then refuses that checkpoint as forged, in every cycle.\<close>

lemma old_checkpoint_is_forged:
  assumes "hkdf_separates C" and "sqlite_wf J v" and "ck_get K t = (Inr (Some (seq, sync_checkpoint_tag C vk' seq)), t')"
    and "vk \<noteq> vk'" and "- (2 ^ 63) \<le> seq" and "seq < 2 ^ 63"
  shows "synchronize C (sqlite_ops J) T K vk v t = Some (Inl CheckpointForged, v, t')"
proof -
  have "\<not> verify_sync_checkpoint C vk seq (sync_checkpoint_tag C vk' seq)"
    using checkpoint_tag_binds[OF assms(1,5,6,5,6)] assms(4) by blast
  then show ?thesis by (simp add: synchronize_def assms(3) verify_checkpoint_def Let_def)
qed

text \<open>The write of a new checkpoint is best effort, but an older one of one's own is an alarm: when the write
  fails once, the next cycle of the same device stops with a rollback.\<close>

lemma missed_checkpoint_is_rollback:
  assumes "ck_get K t = (Inr (Some (seq, sync_checkpoint_tag C vk seq)), t')" and "seq < sqlite_last_seq v"
  shows "synchronize C (sqlite_ops J) T K vk v t
    = Some (Inl (Engine (RollbackDetected (sqlite_last_seq v) seq)), v, t')"
  using assms by (simp add: synchronize_def verify_checkpoint_def verify_sync_checkpoint_def Let_def sqlite_ops_sel)

section \<open>Queued edits\<close>

text \<open>Two edits of an item queued offline carry consecutive revisions.  If another device wrote the item once
  in between, the first conflicts and the second is accepted on top of what the device never saw.\<close>

lemma stacked_edit_overwrites:
  assumes "items_ok E s" and "put_valid E i body1 e1" and "put_valid E i body2 e2"
    and "account_by_id s (au_account_id au) = Some a"
    and "stored_revision s (au_account_id au) i = int (unat (ei_revision e1))"
    and "int (unat (ei_revision e2)) = int (unat (ei_revision e1)) + 1"
  shows "\<exists>w row s'. put_item E now au i body1 s = (Inr (Conflict_409 w), s)
    \<and> fst (put_item E now au i body2 s) = Inr (Written i (int (unat (ei_revision e2))) (Some (vi_seq row)) False)
    \<and> snd (put_item E now au i body2 s) = s' \<and> item_row_of s' (au_account_id au) i = Some row
    \<and> vi_content row = Some body2"
proof -
  have "put_item E now au i body1 s
      = (Inr (Conflict_409 (map_option (row_to_remote E) (item_row_of s (au_account_id au) i))), s)"
    by (rule put_item_refuse[OF assms(1,2)]) (use assms(5) in simp)
  moreover obtain row s' where r: "put_item E now au i body2 s
        = (Inr (Written i (int (unat (ei_revision e2))) (Some (vi_seq row)) False), s')"
    "written (au_account_id au) i row s s'" "vi_content row = Some body2"
    by (rule put_item_accept[OF assms(1,3,4)]) (use assms(5,6) in auto)
  moreover have "item_row_of s' (au_account_id au) i = Some row" using written_rows[OF r(2)] by simp
  ultimately show ?thesis by auto
qed

text \<open>An operation leaves the queue when its conflict is noted; if the closing pull then fails the report is
  dropped with it, and no conflicted copy is made.\<close>

definition lossy :: "nat transport" where
  "lossy = \<lparr>t_pull = \<lambda>n since. (if n = 0 then Inr \<lparr>pr_items = [], pr_latest_seq = 0, pr_full_resync = False\<rparr>
                               else Inl (Network []), n + 1),
     t_upsert = \<lambda>n e. (Inr (Conflicted None), n), t_delete = \<lambda>n i b. (Inr (Conflicted None), n)\<rparr>"

lemma failed_tail_drops_report:
  "\<exists>v'. sync (sqlite_ops toy_codec) lossy toy_replica 0 = Some (Inl (Transport (Network [])), v', 2)
     \<and> sqlite_pending_ops toy_codec toy_replica = [Upsert (toy_item 1 7)] \<and> sqlite_pending_ops toy_codec v' = []"
proof -
  let ?V = "sqlite_ops toy_codec" and ?op = "Upsert (toy_item 1 7)"
  let ?s = "settle ?V toy_replica ?op (Conflicted None) empty_report"
  have w1: "sqlite_wf toy_codec (fst ?s)" "sqlite_pending_ops toy_codec (fst ?s) = [?op]"
    using sq.settle_laws(1,3)[OF toy_replica_wf, of ?op "Conflicted None" empty_report "fst ?s" "snd ?s"]
    by (simp_all add: sqlite_ops_sel)
  define db1 where "db1 = vo_pop_front_op ?V (fst ?s)"
  have q: "vo_pending_ops ?V db1 = []"
    using sq.pending_pop[OF w1(1)] w1(2) by (simp add: db1_def sqlite_ops_sel)
  have push: "push_op lossy n ?op = (Inr (Conflicted None), n)" for n by (simp add: push_op_def lossy_def)
  have "push_loop ?V lossy toy_replica 1 empty_report = push_loop ?V lossy db1 1 (snd ?s)"
    by (subst push_loop.simps) (simp add: sqlite_ops_sel push db1_def)
  also have "\<dots> = Some (Inr (snd ?s), db1, 1)" by (subst push_loop.simps) (simp add: q)
  finally have loop: "push_loop ?V lossy toy_replica 1 empty_report = Some (Inr (snd ?s), db1, 1)" .
  have "sqlite_last_seq toy_replica = 0"
    using sqlite_last_seq_cong[OF sqlite_stage_get(2)[OF sqlite_empty_wf[OF toy_codec_ok], of ?op]]
    by (simp add: toy_replica_def)
  moreover have "empty_report\<lparr>sr_full_resync := False\<rparr> = empty_report" by (simp add: empty_report_def)
  moreover have "t_pull lossy 0 since = (Inr \<lparr>pr_items = [], pr_latest_seq = 0, pr_full_resync = False\<rparr>, 1)"
    "t_pull lossy 1 since = (Inl (Network []), 2)" for since by (simp_all add: lossy_def)
  ultimately have "sync ?V lossy toy_replica 0 = Some (Inl (Transport (Network [])), db1, 2)"
    using loop by (simp add: sync_def sqlite_ops_sel)
  with q show ?thesis by (simp add: sqlite_ops_sel)
qed

section \<open>Addresses\<close>

text \<open>A host name that begins like a private address is sent clear text; the IPv6 loopback is not local.\<close>

lemma base_url_prefixes:
  "normalize_base_url (lit ''10.evil.com'') = lit ''http://10.evil.com''"
  "normalize_base_url (lit ''127.x.org'') = lit ''http://127.x.org''"
  "normalize_base_url (lit ''[::1]:8080'') = lit ''https://[::1]:8080''"
  by (simp_all add: normalize_base_url_def lit_def Let_def is_local_host_def is_private_172_def trim_def trim_start_def
      trim_end_def trim_end_matches_def is_whitespace_def split_first_def strip_prefix_def)

end
