(* ===== verification/Server_App.thy ===== *)
theory Server_App
  imports Server_Properties
begin

text \<open>
  vault-server around its handlers: the configuration from the environment (\<open>config.rs\<close>), the mail
  backends (\<open>mailer.rs\<close>), the change notifier and the start of the state (\<open>state.rs\<close>), and the headers
  every response carries (\<open>lib.rs\<close>).  The environment is a map from names to values; parsing of socket
  addresses, the SMTP library and the broadcast channels of tokio are parameters.
\<close>

section \<open>Parsing of integers\<close>

text \<open>\<open>str::parse\<close> for integers, with the error that is found first and its \<open>Display\<close>.\<close>

datatype int_error = Int_Empty | Int_Invalid | Int_Pos_Overflow | Int_Neg_Overflow

fun int_error_text :: "int_error \<Rightarrow> text" where
  "int_error_text Int_Empty = lit ''cannot parse integer from empty string''"
| "int_error_text Int_Invalid = lit ''invalid digit found in string''"
| "int_error_text Int_Pos_Overflow = lit ''number too large to fit in target type''"
| "int_error_text Int_Neg_Overflow = lit ''number too small to fit in target type''"

fun parse_digits :: "int \<Rightarrow> int \<Rightarrow> bool \<Rightarrow> int \<Rightarrow> text \<Rightarrow> int_error + int" where
  "parse_digits lo hi neg acc [] = Inr acc"
| "parse_digits lo hi neg acc (c # cs) =
     (if \<not> is_ascii_digit c then Inl Int_Invalid
      else
        (let x = int (c - 48); next = (if neg then acc * 10 - x else acc * 10 + x)
         in if next < lo then Inl Int_Neg_Overflow
            else if hi < next then Inl Int_Pos_Overflow
            else parse_digits lo hi neg next cs))"

definition parse_signed_text :: "int \<Rightarrow> int \<Rightarrow> text \<Rightarrow> int_error + int" where
  "parse_signed_text lo hi s =
     (case s of
        [] \<Rightarrow> Inl Int_Empty
      | c # cs \<Rightarrow>
          if (c = 43 \<or> c = 45) \<and> cs = [] then Inl Int_Invalid
          else if c = 43 then parse_digits lo hi False 0 cs
          else if c = 45 \<and> lo < 0 then parse_digits lo hi True 0 cs
          else parse_digits lo hi False 0 s)"

definition parse_i64 :: "text \<Rightarrow> int_error + int" where
  "parse_i64 = parse_signed_text (- (2 ^ 63)) (2 ^ 63 - 1)"

definition parse_u16 :: "text \<Rightarrow> int_error + int" where
  "parse_u16 = parse_signed_text 0 (2 ^ 16 - 1)"

section \<open>Configuration (\<open>config.rs\<close>)\<close>

datatype mail_config =
    Mail_Console
  | Mail_Smtp "text" int "text" "text" "text" bool
    \<comment> \<open>host, port, user name, password, sender, implicit TLS\<close>

record 'a server_config =
  sc_listen_addr :: 'a
  sc_db_path :: "text"
  sc_core :: config
  sc_mail :: mail_config

type_synonym environment = "string \<Rightarrow> text option"

definition env_var :: "environment \<Rightarrow> string \<Rightarrow> text option" where
  "env_var V key = (case V key of None \<Rightarrow> None | Some v \<Rightarrow> if v = [] then None else Some v)"

definition env_or :: "environment \<Rightarrow> string \<Rightarrow> text \<Rightarrow> text" where
  "env_or V key d = (case env_var V key of None \<Rightarrow> d | Some v \<Rightarrow> v)"

definition env_flag :: "environment \<Rightarrow> string \<Rightarrow> bool" where
  "env_flag V key = (case env_var V key of None \<Rightarrow> False | Some v \<Rightarrow> v = lit ''true'' \<or> v = lit ''1'')"

definition cooloff_from_env :: "environment \<Rightarrow> text + int" where
  "cooloff_from_env V =
     (case env_var V ''BV_RECOVERY_COOLOFF_HOURS'' of
        None \<Rightarrow> Inr (72 * 3600)
      | Some v \<Rightarrow>
          (case parse_i64 v of
             Inl e \<Rightarrow> Inl (lit ''BV_RECOVERY_COOLOFF_HOURS: '' @ int_error_text e)
           | Inr h \<Rightarrow> Inr (signed_take_bit 63 (h * 3600))))"

definition smtp_from_env :: "environment \<Rightarrow> text + mail_config" where
  "smtp_from_env V =
     bind_r (ok_or (lit ''BV_SMTP_HOST is required for BV_MAILER=smtp'') (env_var V ''BV_SMTP_HOST'')) (\<lambda>host.
     bind_r (case parse_u16 (env_or V ''BV_SMTP_PORT'' (lit ''587'')) of
               Inl e \<Rightarrow> Inl (lit ''BV_SMTP_PORT: '' @ int_error_text e) | Inr p \<Rightarrow> Inr p) (\<lambda>port.
     bind_r (ok_or (lit ''BV_SMTP_FROM is required for BV_MAILER=smtp'') (env_var V ''BV_SMTP_FROM'')) (\<lambda>from.
       Inr (Mail_Smtp host port (env_or V ''BV_SMTP_USERNAME'' []) (env_or V ''BV_SMTP_PASSWORD'' []) from
              (env_flag V ''BV_SMTP_IMPLICIT_TLS'')))))"

definition mail_from_env :: "environment \<Rightarrow> text + mail_config" where
  "mail_from_env V =
     (case env_var V ''BV_MAILER'' of
        None \<Rightarrow> Inr Mail_Console
      | Some m \<Rightarrow>
          if m = lit ''console'' then Inr Mail_Console
          else if m = lit ''smtp'' then smtp_from_env V
          else Inl (lit ''BV_MAILER: unknown mailer '' @ [39] @ m @ [39]))"

definition from_env :: "(text \<Rightarrow> text + 'a) \<Rightarrow> environment \<Rightarrow> text + 'a server_config" where
  "from_env parse_addr V =
     bind_r (case parse_addr (env_or V ''BV_LISTEN_ADDR'' (lit ''127.0.0.1:8080'')) of
               Inl e \<Rightarrow> Inl (lit ''BV_LISTEN_ADDR: '' @ e) | Inr a \<Rightarrow> Inr a) (\<lambda>listen_addr.
     bind_r (cooloff_from_env V) (\<lambda>cooloff.
     bind_r (mail_from_env V) (\<lambda>mail.
       Inr \<lparr>sc_listen_addr = listen_addr, sc_db_path = env_or V ''BV_DB_PATH'' (lit ''vault.db''),
            sc_core = \<lparr>cfg_base_url = trim_end_matches 47 (env_or V ''BV_BASE_URL'' (lit ''http://127.0.0.1:8080'')),
              cfg_registration_open = (case env_var V ''BV_REGISTRATION_OPEN'' of None \<Rightarrow> True
                | Some v \<Rightarrow> v \<noteq> lit ''false'' \<and> v \<noteq> lit ''0''),
              cfg_trust_proxy = env_flag V ''BV_TRUST_PROXY'',
              cfg_recovery_cooloff_secs = cooloff\<rparr>,
            sc_mail = mail\<rparr>)))"

section \<open>Mail (\<open>mailer.rs\<close>)\<close>

record outgoing_mail =
  om_to :: "text"
  om_subject :: "text"
  om_body :: "text"

text \<open>lettre: the relay for a host, addresses, the message and its delivery.\<close>

record ('r, 'm) smtp_lib =
  sl_relay :: "text \<Rightarrow> bool \<Rightarrow> text + 'r"  \<comment> \<open>host, implicit TLS (else STARTTLS)\<close>
  sl_port :: "'r \<Rightarrow> int \<Rightarrow> 'r"
  sl_credentials :: "'r \<Rightarrow> text \<Rightarrow> text \<Rightarrow> 'r"
  sl_mailbox :: "text \<Rightarrow> text + 'm"
  sl_recipient :: "text \<Rightarrow> text + 'm"
  sl_message :: "'m \<Rightarrow> 'm \<Rightarrow> text \<Rightarrow> text \<Rightarrow> text option"
    \<comment> \<open>sender, recipient, subject, body: the error if the message cannot be built\<close>
  sl_deliver :: "'r \<Rightarrow> outgoing_mail \<Rightarrow> text option"  \<comment> \<open>the error, if any\<close>

datatype ('r, 'm) mailer =
    Mailer_Console
  | Mailer_Smtp 'r 'm
  | Mailer_Memory "outgoing_mail list"

definition mailer_from_config :: "('r, 'm) smtp_lib \<Rightarrow> mail_config \<Rightarrow> text + ('r, 'm) mailer" where
  "mailer_from_config L cfg =
     (case cfg of
        Mail_Console \<Rightarrow> Inr Mailer_Console
      | Mail_Smtp host port username password from implicit_tls \<Rightarrow>
          bind_r (case sl_relay L host implicit_tls of
                    Inl e \<Rightarrow> Inl (lit ''SMTP relay config: '' @ e) | Inr r \<Rightarrow> Inr (sl_port L r port)) (\<lambda>relay.
          bind_r (case sl_mailbox L from of
                    Inl e \<Rightarrow> Inl (lit ''BV_SMTP_FROM: '' @ e) | Inr m \<Rightarrow> Inr m) (\<lambda>sender.
            Inr (Mailer_Smtp (if username \<noteq> [] then sl_credentials L relay username password else relay) sender))))"

text \<open>What sending leaves behind: lines of the server's log and messages handed to the relay.\<close>

datatype mail_log =
    Log_Mail outgoing_mail
  | Log_Send_Failed "text" "text" "text"
  | Log_Build_Failed "text" "text"

record mail_world =
  mw_log :: "mail_log list"
  mw_relayed :: "outgoing_mail list"

definition mailer_send ::
    "('r, 'm) smtp_lib \<Rightarrow> outgoing_mail \<Rightarrow> ('r, 'm) mailer \<Rightarrow> mail_world \<Rightarrow> ('r, 'm) mailer \<times> mail_world" where
  "mailer_send L m mailer w =
     (case mailer of
        Mailer_Console \<Rightarrow> (mailer, w\<lparr>mw_log := mw_log w @ [Log_Mail m]\<rparr>)
      | Mailer_Memory store \<Rightarrow> (Mailer_Memory (store @ [m]), w)
      | Mailer_Smtp relay sender \<Rightarrow>
          (mailer,
           case bind_r (sl_recipient L (om_to m)) (\<lambda>rcpt.
                  case sl_message L sender rcpt (om_subject m) (om_body m) of None \<Rightarrow> Inr () | Some e \<Rightarrow> Inl e) of
             Inl e \<Rightarrow> w\<lparr>mw_log := mw_log w @ [Log_Build_Failed e (om_to m)]\<rparr>
           | Inr _ \<Rightarrow>
               (let w1 = w\<lparr>mw_relayed := mw_relayed w @ [m]\<rparr>
                in case sl_deliver L relay m of
                     None \<Rightarrow> w1
                   | Some e \<Rightarrow> w1\<lparr>mw_log := mw_log w1 @ [Log_Send_Failed e (om_to m) (om_subject m)]\<rparr>)))"

definition mailer_sent :: "('r, 'm) mailer \<Rightarrow> outgoing_mail list" where
  "mailer_sent mailer = (case mailer of Mailer_Memory store \<Rightarrow> store | _ \<Rightarrow> [])"

section \<open>Change notifications (\<open>state.rs\<close>, \<open>items.rs\<close>)\<close>

text \<open>Broadcast channels of tokio: a new sender of a capacity, a subscription, a send.\<close>

record ('tx, 'rx) broadcast =
  bc_channel :: "nat \<Rightarrow> 'tx"
  bc_subscribe :: "'tx \<Rightarrow> 'rx \<times> 'tx"
  bc_send :: "'tx \<Rightarrow> int \<Rightarrow> 'tx"

type_synonym 'tx notifier = "int \<Rightarrow> 'tx option"

definition notifier_subscribe ::
    "('tx, 'rx) broadcast \<Rightarrow> int \<Rightarrow> 'tx notifier \<Rightarrow> 'rx \<times> 'tx notifier" where
  "notifier_subscribe B account_id channels =
     (let tx = (case channels account_id of Some tx \<Rightarrow> tx | None \<Rightarrow> bc_channel B 16)
      in case bc_subscribe B tx of (rx, tx') \<Rightarrow> (rx, channels(account_id \<mapsto> tx')))"

definition notifier_notify ::
    "('tx, 'rx) broadcast \<Rightarrow> int \<Rightarrow> int \<Rightarrow> 'tx notifier \<Rightarrow> 'tx notifier" where
  "notifier_notify B account_id seq channels =
     (case channels account_id of
        None \<Rightarrow> channels
      | Some tx \<Rightarrow> channels(account_id \<mapsto> bc_send B tx seq))"

text \<open>The event stream: what is sent for each receipt, until the channel closes.\<close>

datatype receipt = Got int | Lagged nat | Closed

fun event_stream :: "receipt list \<Rightarrow> (string \<times> text) list" where
  "event_stream [] = []"
| "event_stream (Got seq # rs) = (''changed'', dec_int seq) # event_stream rs"
| "event_stream (Lagged n # rs) = (''changed'', lit ''0'') # event_stream rs"
| "event_stream (Closed # rs) = []"

section \<open>Start (\<open>state.rs\<close>)\<close>

text \<open>\<open>AppState::new\<close>: the two draws are the secret and the credential whose hash stands in for unknown
  accounts (with its salt).\<close>

definition app_state_new :: "env \<Rightarrow> bytes \<Rightarrow> bytes \<Rightarrow> bytes \<Rightarrow> bytes \<Rightarrow> srv \<Rightarrow> srv" where
  "app_state_new E fresh fallback salt random s =
     (case load_or_create_secret fresh (lit ''enumeration_secret'') s of
        (secret, s1) \<Rightarrow>
          s1\<lparr>ip_failures := [], nudges := [], dummy_hash := e_hash_password E salt random,
             enumeration_secret := (case secret of Some b \<Rightarrow> b | None \<Rightarrow> fallback)\<rparr>)"

section \<open>Response headers (\<open>lib.rs\<close>)\<close>

type_synonym headers = "string \<Rightarrow> text option"

definition security_headers :: "headers \<Rightarrow> headers" where
  "security_headers h = h(''cache-control'' \<mapsto> lit ''no-store'', ''x-content-type-options'' \<mapsto> lit ''nosniff'',
     ''x-frame-options'' \<mapsto> lit ''DENY'', ''referrer-policy'' \<mapsto> lit ''no-referrer'',
     ''content-security-policy'' \<mapsto> lit ''default-src 'none'; frame-ancestors 'none'' @ [39])"

section \<open>Facts\<close>

text \<open>Printed integers parse back.\<close>

lemma parse_digits_snoc:
  "parse_digits lo hi neg acc (cs @ [c]) =
     (case parse_digits lo hi neg acc cs of Inl e \<Rightarrow> Inl e | Inr a \<Rightarrow> parse_digits lo hi neg a [c])"
  by (induction cs arbitrary: acc) (simp_all add: Let_def)

lemma parse_digits_dec:
  assumes "lo \<le> 0" and "0 \<le> hi" and "if neg then lo \<le> - int n else int n \<le> hi"
  shows "parse_digits lo hi neg 0 (dec n) = Inr (if neg then - int n else int n)"
  using assms(3)
proof (induction n rule: dec.induct)
  case (1 n)
  have d: "is_ascii_digit (48 + m)" if "m < 10" for m
    using that by (simp add: is_ascii_digit_def)
  have step: "parse_digits lo hi neg (if neg then - int q else int q) [48 + n mod 10]
      = Inr (if neg then - int n else int n)" if "int n = int q * 10 + int (n mod 10)" for q
  proof (cases neg)
    case True
    with that 1(2) assms(2) d[of "n mod 10"] show ?thesis by (simp add: Let_def)
  next
    case False
    with that 1(2) assms(1) d[of "n mod 10"] show ?thesis by (simp add: Let_def)
  qed
  show ?case
  proof (cases "n < 10")
    case True
    with step[of 0] show ?thesis by (subst dec.simps) (simp split: if_splits)
  next
    case False
    have q: "int n = int (n div 10) * 10 + int (n mod 10)" by presburger
    then have "if neg then lo \<le> - int (n div 10) else int (n div 10) \<le> hi" using 1(2) by (auto split: if_splits)
    from 1(1)[OF False this] step[OF q] False show ?thesis
      by (subst dec.simps) (simp only: parse_digits_snoc sum.case if_False)
  qed
qed

lemma dec_hd: "\<exists>c cs. dec n = c # cs \<and> is_ascii_digit c"
  using dec_digits[of n] dec_nonempty[of n] by (cases "dec n") auto

lemma parse_signed_dec:
  assumes "lo \<le> n" and "n \<le> hi" and "lo \<le> 0" and "0 \<le> hi"
  shows "parse_signed_text lo hi (dec_int n) = Inr n"
proof (cases "n < 0")
  case True
  then have "parse_digits lo hi True 0 (dec (nat (- n))) = Inr n"
    using assms by (subst parse_digits_dec) simp_all
  with True assms show ?thesis by (simp add: parse_signed_text_def dec_int_def)
next
  case False
  then have "parse_digits lo hi False 0 (dec (nat n)) = Inr n" using assms by (subst parse_digits_dec) simp_all
  moreover obtain c cs where "dec (nat n) = c # cs" "is_ascii_digit c" using dec_hd by blast
  ultimately show ?thesis using False by (auto simp: parse_signed_text_def dec_int_def is_ascii_digit_def)
qed

lemma parse_i64_dec: "- (2 ^ 63) \<le> n \<Longrightarrow> n < 2 ^ 63 \<Longrightarrow> parse_i64 (dec_int n) = Inr n"
  unfolding parse_i64_def by (rule parse_signed_dec) simp_all

lemma parse_digits_range:
  assumes "parse_digits lo hi neg acc s = Inr n" and "lo \<le> acc" and "acc \<le> hi"
  shows "lo \<le> n \<and> n \<le> hi"
  using assms by (induction s arbitrary: acc) (auto simp: Let_def split: if_splits)

lemma parse_signed_range:
  assumes "parse_signed_text lo hi s = Inr n" and "lo \<le> 0" and "0 \<le> hi"
  shows "lo \<le> n \<and> n \<le> hi"
proof -
  have "\<exists>neg t. parse_digits lo hi neg 0 t = Inr n"
    using assms(1) by (auto simp: parse_signed_text_def simp del: parse_digits.simps split: list.splits if_splits)
  with parse_digits_range[of lo hi _ 0] assms(2,3) show ?thesis by blast
qed

lemma trim_end_matches_last: "trim_end_matches c s = [] \<or> last (trim_end_matches c s) \<noteq> c"
proof -
  have "dropWhile (\<lambda>d. d = c) t = [] \<or> hd (dropWhile (\<lambda>d. d = c) t) \<noteq> c" for t
    by (induction t) auto
  from this[of "rev s"] show ?thesis unfolding trim_end_matches_def by (metis last_rev rev_is_Nil_conv)
qed

lemma trim_end_matches_suffix: "\<exists>n. s = trim_end_matches c s @ replicate n c"
proof -
  have "t = replicate (length (takeWhile (\<lambda>d. d = c) t)) c @ dropWhile (\<lambda>d. d = c) t" for t
    by (induction t) auto
  from this[of "rev s"] have "s = rev (replicate (length (takeWhile (\<lambda>d. d = c) (rev s))) c
      @ dropWhile (\<lambda>d. d = c) (rev s))" by (metis rev_rev_ident)
  then show ?thesis unfolding trim_end_matches_def by (metis rev_append rev_replicate)
qed

section \<open>What a configuration is\<close>

lemma smtp_from_env_ok:
  assumes "mail_from_env V = Inr (Mail_Smtp host port user pass from tls)"
  shows "host \<noteq> [] \<and> 0 \<le> port \<and> port < 65536 \<and> from \<noteq> []"
proof -
  have "\<exists>t. parse_signed_text 0 (2 ^ 16 - 1) t = Inr port" and n: "host \<noteq> []" "from \<noteq> []"
    using assms by (auto simp: mail_from_env_def smtp_from_env_def bind_r_eq_Inr ok_or_def env_var_def parse_u16_def
      split: option.splits if_splits sum.splits)
  then have "0 \<le> port \<and> port \<le> 2 ^ 16 - 1" using parse_signed_range[of 0 "2 ^ 16 - 1"] by auto
  with n show ?thesis by simp
qed

lemma cooloff_range:
  assumes "cooloff_from_env V = Inr n"
  shows "- (2 ^ 63) \<le> n \<and> n < 2 ^ 63"
  using assms signed_take_bit_int_greater_eq_minus_exp[of 63] signed_take_bit_int_less_exp[of 63]
  by (auto simp: cooloff_from_env_def split: option.splits sum.splits)

lemma cooloff_hours:
  assumes "V ''BV_RECOVERY_COOLOFF_HOURS'' = Some (dec_int h)" and "\<bar>h\<bar> \<le> 2562047788015215"
  shows "cooloff_from_env V = Inr (h * 3600)"
proof -
  have "dec_int h \<noteq> []" by (simp add: dec_int_def)
  moreover have "parse_i64 (dec_int h) = Inr h" using assms(2) by (intro parse_i64_dec) simp_all
  moreover have "signed_take_bit 63 (h * 3600) = h * 3600" using assms(2) by (intro signed_take_bit_int_eq_self) simp_all
  ultimately show ?thesis using assms(1) by (simp add: cooloff_from_env_def env_var_def)
qed

text \<open>A configuration the server starts with: links never get a double slash, the waiting time of a
  recovery is an \<open>i64\<close>, 72 hours unless set and otherwise the hours given (up to 292 million years),
  and a relay has a host, a port and a sender.\<close>

lemma config_sound:
  assumes "from_env P V = Inr c"
  shows "(cfg_base_url (sc_core c) = [] \<or> last (cfg_base_url (sc_core c)) \<noteq> 47)
    \<and> - (2 ^ 63) \<le> cfg_recovery_cooloff_secs (sc_core c) \<and> cfg_recovery_cooloff_secs (sc_core c) < 2 ^ 63
    \<and> (V ''BV_RECOVERY_COOLOFF_HOURS'' = None \<longrightarrow> cfg_recovery_cooloff_secs (sc_core c) = 259200)
    \<and> (\<forall>h. V ''BV_RECOVERY_COOLOFF_HOURS'' = Some (dec_int h) \<and> \<bar>h\<bar> \<le> 2562047788015215
           \<longrightarrow> cfg_recovery_cooloff_secs (sc_core c) = h * 3600)
    \<and> (\<forall>host port user pass from tls. sc_mail c = Mail_Smtp host port user pass from tls
           \<longrightarrow> host \<noteq> [] \<and> 0 \<le> port \<and> port < 65536 \<and> from \<noteq> [])"
proof -
  obtain n m where nm: "cooloff_from_env V = Inr n" "mail_from_env V = Inr m" and c: "sc_mail c = m"
    "cfg_recovery_cooloff_secs (sc_core c) = n"
    "cfg_base_url (sc_core c) = trim_end_matches 47 (env_or V ''BV_BASE_URL'' (lit ''http://127.0.0.1:8080''))"
    using assms by (auto simp: from_env_def bind_r_eq_Inr)
  have "V ''BV_RECOVERY_COOLOFF_HOURS'' = None \<longrightarrow> n = 259200"
    using nm(1) by (auto simp: cooloff_from_env_def env_var_def)
  with cooloff_range[OF nm(1)] cooloff_hours[of V] nm smtp_from_env_ok[of V] trim_end_matches_last c
  show ?thesis by auto
qed

text \<open>Nothing asks for a positive waiting time: zero and negative hours start a server whose recoveries
  are usable at once.\<close>

lemma zero_cooloff_accepted:
  assumes "V ''BV_RECOVERY_COOLOFF_HOURS'' = Some (dec_int (- 1))"
  shows "cooloff_from_env V = Inr (- 3600)"
  using cooloff_hours[of V "- 1"] assms by simp

section \<open>Mail and notifications\<close>

text \<open>A mail is recorded once, in the log, the relay or the store, and a failure is a line of the log
  and nothing else: callers never see it.\<close>

lemma mailer_send_once:
  "case mailer_send L m mailer w of (mailer', w') \<Rightarrow>
     (case mailer of
        Mailer_Console \<Rightarrow> mailer' = mailer \<and> w' = w\<lparr>mw_log := mw_log w @ [Log_Mail m]\<rparr>
      | Mailer_Memory store \<Rightarrow> mailer_sent mailer' = mailer_sent mailer @ [m] \<and> w' = w
      | Mailer_Smtp relay sender \<Rightarrow> mailer' = mailer
          \<and> (mw_relayed w' = mw_relayed w @ [m]
             \<or> (mw_relayed w' = mw_relayed w \<and> (\<exists>e. mw_log w' = mw_log w @ [Log_Build_Failed e (om_to m)]))))"
  by (auto simp: mailer_send_def mailer_sent_def Let_def split: mailer.split sum.split option.split)

text \<open>A notification reaches the subscribers of its account only, and needs none.\<close>

lemma notify_is_private:
  "notifier_notify B acc seq ch j = (if j = acc then map_option (\<lambda>tx. bc_send B tx seq) (ch j) else ch j)"
  by (simp add: notifier_notify_def split: option.split)

lemma subscribe_then_notify:
  assumes "bc_subscribe B (case ch acc of Some tx \<Rightarrow> tx | None \<Rightarrow> bc_channel B 16) = (rx, tx')"
  shows "notifier_subscribe B acc ch = (rx, ch(acc \<mapsto> tx'))"
    and "notifier_notify B acc seq (snd (notifier_subscribe B acc ch)) acc = Some (bc_send B tx' seq)"
  using assms by (simp_all add: notifier_subscribe_def notifier_notify_def)

text \<open>Every notification becomes one event and lost ones become one more, so a client that missed
  something is told to pull.\<close>

lemma event_stream_length:
  "Closed \<notin> set rs \<Longrightarrow> length (event_stream rs) = length rs \<and> fst ` set (event_stream rs) \<subseteq> {''changed''}"
  by (induction rs rule: event_stream.induct) auto

section \<open>Restarts\<close>

text \<open>A restart keeps the secret, so the parameters told for an unknown address are the same before and
  after it.\<close>

lemma restart_keeps_prelogin:
  assumes "length fresh = 32" and "account_by_email s (normalize_email (e_lower E) email) = None"
    and "map_of (server_secrets s) (lit ''enumeration_secret'') \<noteq> None \<longrightarrow>
         length (the (map_of (server_secrets s) (lit ''enumeration_secret''))) = 32"
    and s1_def: "s1 = app_state_new E fresh fallback salt random s"
  shows "fst (prelogin E email (app_state_new E fresh' fallback' salt' random' s1)) = fst (prelogin E email s1)"
proof -
  let ?k = "lit ''enumeration_secret''"
  obtain b t where l: "load_or_create_secret fresh ?k s = (Some b, t)" "map_of (server_secrets t) ?k = Some b"
    "accounts t = accounts s" "length b = 32"
    using assms(1,3) by (cases "map_of (server_secrets s) ?k") (auto simp: load_or_create_secret_def Let_def map_add_def)
  then have s1: "enumeration_secret s1 = b" "map_of (server_secrets s1) ?k = Some b" "accounts s1 = accounts s"
    by (simp_all add: s1_def app_state_new_def)
  with l(4) have s2: "enumeration_secret (app_state_new E fresh' fallback' salt' random' s1) = b"
    "accounts (app_state_new E fresh' fallback' salt' random' s1) = accounts s"
    by (simp_all add: app_state_new_def load_or_create_secret_def)
  with s1 assms(2) show ?thesis by (simp add: prelogin_def account_by_email_def Let_def)
qed

text \<open>Whatever a handler set, a response may not be cached, sniffed or framed.\<close>

lemma security_headers_win:
  "security_headers h ''cache-control'' = Some (lit ''no-store'')"
  "security_headers h ''x-frame-options'' = Some (lit ''DENY'')"
  "security_headers h ''x-content-type-options'' = Some (lit ''nosniff'')"
  "security_headers h ''referrer-policy'' = Some (lit ''no-referrer'')"
  by (simp_all add: security_headers_def)

end
