(* ===== verification/Server_Http.thy ===== *)
theory Server_Http
  imports Server_App Http_Client
begin

text \<open>
  vault-server as the HTTP service it is: the routes of \<open>build_app\<close> (\<open>lib.rs\<close>), the extractors in
  front of each handler (session, address, JSON body, query), the JSON of every reply and the error
  responses (\<open>error.rs\<close>).  One request is one step of \<open>serve\<close>.  The JSON printer and parser, the
  decoder of KDF parameters and the texts of the framework's own refusals are parameters.

  A body is refused with 422 and a query with 400 when a field is missing, of the wrong type or given
  twice; bodies that spell a structure as an array, which serde reads as well, count as refused.
\<close>

section \<open>What the service is built from\<close>

record web_app =
  sv_env :: env
  sv_cfg :: config
  sv_js_text :: "json \<Rightarrow> text"  \<comment> \<open>\<open>Value::to_string\<close>\<close>
  sv_js_parse :: "text \<Rightarrow> json option"  \<comment> \<open>\<open>serde_json::from_str\<close>\<close>
  sv_kdf_of :: "json \<Rightarrow> kdf_params option"  \<comment> \<open>\<open>Deserialize\<close> of \<open>KdfParams\<close>\<close>
  sv_reject :: "nat \<Rightarrow> text"  \<comment> \<open>the framework's text for a refusal\<close>

text \<open>What a handler reads besides the request: the clock, the two sources of the caller's address,
  and the bytes it draws.\<close>

record ctx =
  cx_now :: secs
  cx_forwarded :: "text option"
  cx_peer :: "ip_addr option"
  cx_salt :: bytes
  cx_draw :: bytes
  cx_tokens :: session_draws
  cx_codes :: "nat \<Rightarrow> bytes"
  cx_recovery :: recovery_draws

datatype body = Body_Json json | Body_Text "text"

record http_reply =
  hr_status :: nat
  hr_body :: body
  hr_retry_after :: "secs option"

section \<open>Routes (\<open>lib.rs\<close>)\<close>

datatype endpoint =
    Ep_Health
  | Ep_Register | Ep_Verify | Ep_Resend | Ep_Prelogin
  | Ep_Login | Ep_Refresh | Ep_Logout
  | Ep_Sessions | Ep_Revoke_Others | Ep_Revoke "text"
  | Ep_Totp_Enroll | Ep_Totp_Activate | Ep_Totp_Disable | Ep_Mfa_Status | Ep_Regenerate
  | Ep_Keys | Ep_List_Items | Ep_Put_Item "text" | Ep_Delete_Item "text" | Ep_Events
  | Ep_Get_Checkpoint | Ep_Put_Checkpoint
  | Ep_Recovery_Start | Ep_Recovery_Data | Ep_Recovery_Complete | Ep_Recovery_Cancel
  | Ep_Set_Backup | Ep_Remove_Backup | Ep_Change_Password | Ep_Verify_Backup

definition fixed_routes :: "(string \<times> (http_method \<times> endpoint) list) list" where
  "fixed_routes = [
     (''/api/v1/health'', [(GET, Ep_Health)]),
     (''/api/v1/accounts/register'', [(POST, Ep_Register)]),
     (''/api/v1/accounts/verify'', [(GET, Ep_Verify)]),
     (''/api/v1/accounts/resend-verification'', [(POST, Ep_Resend)]),
     (''/api/v1/accounts/prelogin'', [(GET, Ep_Prelogin)]),
     (''/api/v1/auth/login'', [(POST, Ep_Login)]),
     (''/api/v1/auth/refresh'', [(POST, Ep_Refresh)]),
     (''/api/v1/auth/logout'', [(POST, Ep_Logout)]),
     (''/api/v1/sessions'', [(GET, Ep_Sessions)]),
     (''/api/v1/sessions/revoke-others'', [(POST, Ep_Revoke_Others)]),
     (''/api/v1/mfa/totp/enroll'', [(POST, Ep_Totp_Enroll)]),
     (''/api/v1/mfa/totp/activate'', [(POST, Ep_Totp_Activate)]),
     (''/api/v1/mfa/totp/disable'', [(POST, Ep_Totp_Disable)]),
     (''/api/v1/mfa/status'', [(GET, Ep_Mfa_Status)]),
     (''/api/v1/mfa/recovery-codes/regenerate'', [(POST, Ep_Regenerate)]),
     (''/api/v1/vault/keys'', [(GET, Ep_Keys)]),
     (''/api/v1/vault/items'', [(GET, Ep_List_Items)]),
     (''/api/v1/vault/events'', [(GET, Ep_Events)]),
     (''/api/v1/vault/checkpoint'', [(GET, Ep_Get_Checkpoint), (PUT, Ep_Put_Checkpoint)]),
     (''/api/v1/accounts/recovery/start'', [(POST, Ep_Recovery_Start)]),
     (''/api/v1/accounts/recovery/data'', [(GET, Ep_Recovery_Data)]),
     (''/api/v1/accounts/recovery/complete'', [(POST, Ep_Recovery_Complete)]),
     (''/api/v1/accounts/recovery/cancel'', [(GET, Ep_Recovery_Cancel)]),
     (''/api/v1/account/backup-email'', [(POST, Ep_Set_Backup), (DELETE, Ep_Remove_Backup)]),
     (''/api/v1/account/change-password'', [(POST, Ep_Change_Password)]),
     (''/api/v1/accounts/verify-backup'', [(GET, Ep_Verify_Backup)])]"

text \<open>The two routes with a segment, which must not be empty and which a fixed route beats.\<close>

definition segment_routes :: "(string \<times> (http_method \<times> (text \<Rightarrow> endpoint)) list) list" where
  "segment_routes = [
     (''/api/v1/sessions/'', [(DELETE, Ep_Revoke)]),
     (''/api/v1/vault/items/'', [(PUT, Ep_Put_Item), (DELETE, Ep_Delete_Item)])]"

definition segment_of :: "string \<Rightarrow> text \<Rightarrow> text option" where
  "segment_of pfx path =
     (case strip_prefix path (lit pfx) of
        None \<Rightarrow> None
      | Some seg \<Rightarrow> if seg = [] \<or> 47 \<in> set seg then None else Some seg)"

datatype routed = Routed endpoint | Method_Refused | No_Route

fun route_segment :: "(string \<times> (http_method \<times> (text \<Rightarrow> endpoint)) list) list \<Rightarrow> http_method \<Rightarrow> text \<Rightarrow> routed" where
  "route_segment [] m path = No_Route"
| "route_segment ((pfx, ms) # rs) m path =
     (case segment_of pfx path of
        None \<Rightarrow> route_segment rs m path
      | Some seg \<Rightarrow> (case map_of ms m of None \<Rightarrow> Method_Refused | Some ep \<Rightarrow> Routed (ep seg)))"

definition route :: "http_method \<Rightarrow> text \<Rightarrow> routed" where
  "route m path =
     (case map_of (map (\<lambda>(p, ms). (lit p, ms)) fixed_routes) path of
        Some ms \<Rightarrow> (case map_of ms m of None \<Rightarrow> Method_Refused | Some ep \<Rightarrow> Routed ep)
      | None \<Rightarrow> route_segment segment_routes m path)"

section \<open>Replies\<close>

definition ok_json :: "(string \<times> json) list \<Rightarrow> http_reply" where
  "ok_json fs = \<lparr>hr_status = 200, hr_body = Body_Json (J_Obj fs), hr_retry_after = None\<rparr>"

definition ok_text :: "text \<Rightarrow> http_reply" where
  "ok_text t = \<lparr>hr_status = 200, hr_body = Body_Text t, hr_retry_after = None\<rparr>"

definition refused :: "web_app \<Rightarrow> nat \<Rightarrow> http_reply" where
  "refused A status = \<lparr>hr_status = status, hr_body = Body_Text (sv_reject A status), hr_retry_after = None\<rparr>"

fun api_error_text :: "api_error \<Rightarrow> text" where
  "api_error_text (BadRequest m) = lit ''invalid request: '' @ m"
| "api_error_text InvalidCredentials = lit ''invalid credentials''"
| "api_error_text EmailNotVerified = lit ''e-mail address not verified''"
| "api_error_text MfaRequired = lit ''a second factor is required''"
| "api_error_text (LockedOut r) = lit ''temporarily locked out''"
| "api_error_text (RateLimited r) = lit ''too many requests''"
| "api_error_text InvalidToken = lit ''invalid or expired token''"
| "api_error_text (CoolingOff r) = lit ''recovery is in its cooling-off period''"
| "api_error_text NotFound = lit ''not found''"
| "api_error_text Internal = lit ''internal error''"

definition j_int_opt :: "int option \<Rightarrow> json" where
  "j_int_opt n = (case n of None \<Rightarrow> J_Null | Some i \<Rightarrow> J_Int i)"

definition error_reply :: "api_error \<Rightarrow> http_reply" where
  "error_reply e =
     (case api_error_response e of (status, code, retry_after) \<Rightarrow>
        \<lparr>hr_status = status,
         hr_body = Body_Json (J_Obj [(''error'', J_Str code), (''message'', J_Str (api_error_text e)),
           (''retry_after_secs'', j_int_opt retry_after)]),
         hr_retry_after = retry_after\<rparr>)"

definition finish :: "('a \<Rightarrow> http_reply) \<Rightarrow> 'a reply \<Rightarrow> http_reply \<times> srv" where
  "finish f r = (case r of (Inl e, s) \<Rightarrow> (error_reply e, s) | (Inr x, s) \<Rightarrow> (f x, s))"

definition status_ok :: "(string \<times> json) list \<Rightarrow> http_reply" where
  "status_ok fs = ok_json ((''status'', J_Str (lit ''ok'')) # fs)"

definition said :: "string \<Rightarrow> string \<times> json" where
  "said message = (''message'', J_Str (lit message))"

text \<open>A stored JSON text as a value; \<open>parse_json\<close> gives null for none.\<close>

definition j_text :: "web_app \<Rightarrow> text option \<Rightarrow> json" where
  "j_text A t = (case Option.bind t (sv_js_parse A) of None \<Rightarrow> J_Null | Some j \<Rightarrow> j)"

definition remote_json :: "web_app \<Rightarrow> wire_item \<Rightarrow> json" where
  "remote_json A w = J_Obj [(''item_id'', J_Str (wi_item_id w)), (''revision'', J_Int (wi_revision w)),
     (''seq'', J_Int (wi_seq w)), (''deleted'', J_Bool (wi_deleted w)), (''content'', j_text A (wi_content w))]"

definition cp_json :: "(int \<times> text) option \<Rightarrow> json" where
  "cp_json c = (case c of None \<Rightarrow> J_Null | Some (seq, tag) \<Rightarrow> J_Obj [(''seq'', J_Int seq), (''tag'', J_Str tag)])"

definition list_json :: "web_app \<Rightarrow> list_reply \<Rightarrow> http_reply" where
  "list_json A rep = ok_json [(''items'', J_Arr (map (remote_json A) (lr_items rep))),
     (''latest_seq'', J_Int (lr_latest_seq rep)), (''full_resync'', J_Bool (lr_full_resync rep)),
     (''checkpoint'', cp_json (lr_checkpoint rep))]"

definition write_json :: "web_app \<Rightarrow> write_reply \<Rightarrow> http_reply" where
  "write_json A w =
     (case w of
        Written i revision seq deleted \<Rightarrow>
          ok_json ([(''item_id'', J_Str i), (''revision'', J_Int revision)]
            @ (case seq of None \<Rightarrow> [] | Some q \<Rightarrow> [(''seq'', J_Int q)])
            @ (if deleted then [(''deleted'', J_Bool True)] else []))
      | Conflict_409 current \<Rightarrow>
          \<lparr>hr_status = 409, hr_body = Body_Json (J_Obj [(''error'', J_Str (lit ''conflict'')),
             (''current'', case current of None \<Rightarrow> J_Null | Some r \<Rightarrow> remote_json A r)]),
           hr_retry_after = None\<rparr>)"

definition tokens_json :: "text \<times> text \<Rightarrow> (string \<times> json) list" where
  "tokens_json t = [(''access_token'', J_Str (fst t)), (''refresh_token'', J_Str (snd t)),
     (''access_expires_in'', J_Int ACCESS_TOKEN_TTL_SECS)]"

definition login_json :: "web_app \<Rightarrow> login_reply \<Rightarrow> http_reply" where
  "login_json A r = ok_json (tokens_json (lp_access_token r, lp_refresh_token r) @
     [(''kdf_params'', j_text A (lp_kdf_params r)), (''kdf_salt'', J_Str (lp_kdf_salt r)),
      (''master_wrapped_vault_key'', j_text A (lp_master_wrapped r))])"

definition prelogin_json :: "web_app \<Rightarrow> text \<times> text \<Rightarrow> http_reply" where
  "prelogin_json A r = ok_json [(''kdf_params'', j_text A (Some (fst r))), (''kdf_salt'', J_Str (snd r))]"

definition keys_json :: "web_app \<Rightarrow> vault_keys \<Rightarrow> http_reply" where
  "keys_json A k = ok_json [(''kdf_params'', j_text A (vk_kdf_params k)),
     (''master_wrapped_vault_key'', j_text A (vk_master_wrapped k)),
     (''recovery_wrapped_vault_key'', j_text A (vk_recovery_wrapped k))]"

definition session_json :: "Server_Sessions.session_info \<Rightarrow> json" where
  "session_json i = J_Obj [(''id'', J_Str (Server_Sessions.sn_id i)),
     (''device_name'', J_Str (Server_Sessions.sn_device_name i)),
     (''created_at'', J_Int (Server_Sessions.sn_created_at i)),
     (''last_used_at'', J_Int (Server_Sessions.sn_last_used_at i)),
     (''current'', J_Bool (Server_Sessions.sn_current i))]"

definition codes_json :: "string \<Rightarrow> text list \<Rightarrow> http_reply" where
  "codes_json message codes = status_ok [(''recovery_codes'', J_Arr (map J_Str codes)), said message]"

definition recovery_json :: "web_app \<Rightarrow> recovery_data \<Rightarrow> http_reply" where
  "recovery_json A d = ok_json [(''email'', J_Str (Server_Recovery.ry_email d)),
     (''kdf_params'', j_text A (Server_Recovery.ry_kdf_params d)),
     (''kdf_salt'', J_Str (Server_Recovery.ry_kdf_salt d)),
     (''recovery_wrapped_vault_key'', j_text A (Server_Recovery.ry_recovery_wrapped d)),
     (''supports_data_recovery'', J_Bool (Server_Recovery.ry_supports_data_recovery d))]"

section \<open>Extractors\<close>

text \<open>The fields of a structure: absent, given once, or given twice (refused).\<close>

definition once :: "string \<Rightarrow> (string \<times> 'a) list \<Rightarrow> 'a option option" where
  "once key fs =
     (case filter (\<lambda>(k, _). k = key) fs of [] \<Rightarrow> Some None | [(_, v)] \<Rightarrow> Some (Some v) | _ \<Rightarrow> None)"

definition req_value :: "(string \<times> json) list \<Rightarrow> string \<Rightarrow> json option" where
  "req_value fs key = (case once key fs of Some (Some v) \<Rightarrow> Some v | _ \<Rightarrow> None)"

definition req_str :: "(string \<times> json) list \<Rightarrow> string \<Rightarrow> text option" where
  "req_str fs key = Option.bind (req_value fs key) as_str"

definition req_i64 :: "(string \<times> json) list \<Rightarrow> string \<Rightarrow> int option" where
  "req_i64 fs key = Option.bind (req_value fs key) j_i64"

definition opt_str :: "(string \<times> json) list \<Rightarrow> string \<Rightarrow> text option option" where
  "opt_str fs key =
     (case once key fs of
        Some None \<Rightarrow> Some None | Some (Some J_Null) \<Rightarrow> Some None | Some (Some (J_Str t)) \<Rightarrow> Some (Some t)
      | _ \<Rightarrow> None)"

definition default_bool :: "(string \<times> json) list \<Rightarrow> string \<Rightarrow> bool option" where
  "default_bool fs key =
     (case once key fs of Some None \<Rightarrow> Some False | Some (Some (J_Bool b)) \<Rightarrow> Some b | _ \<Rightarrow> None)"

definition stored_value :: "web_app \<Rightarrow> (string \<times> json) list \<Rightarrow> string \<Rightarrow> text option" where
  "stored_value A fs key = map_option (sv_js_text A) (req_value fs key)"

definition req_kdf :: "web_app \<Rightarrow> (string \<times> json) list \<Rightarrow> kdf_params option" where
  "req_kdf A fs = Option.bind (req_value fs ''kdf_params'') (sv_kdf_of A)"

definition q_str :: "(string \<times> text) list \<Rightarrow> string \<Rightarrow> text option" where
  "q_str qs key = (case once key qs of Some (Some t) \<Rightarrow> Some t | _ \<Rightarrow> None)"

definition sum_option :: "'e + 'a \<Rightarrow> 'a option" where
  "sum_option r = (case r of Inl _ \<Rightarrow> None | Inr x \<Rightarrow> Some x)"

definition q_i64 :: "(string \<times> text) list \<Rightarrow> string \<Rightarrow> int option" where
  "q_i64 qs key = Option.bind (q_str qs key) (\<lambda>t. sum_option (parse_i64 t))"

definition q_since :: "(string \<times> text) list \<Rightarrow> int option" where
  "q_since qs = (case once ''since'' qs of Some None \<Rightarrow> Some 0 | _ \<Rightarrow> q_i64 qs ''since'')"

text \<open>The request structures of the handlers.\<close>

definition register_of :: "web_app \<Rightarrow> (string \<times> json) list \<Rightarrow> register_request option" where
  "register_of A fs =
     Option.bind (req_str fs ''email'') (\<lambda>email.
     Option.bind (req_str fs ''auth_credential'') (\<lambda>cred.
     Option.bind (req_kdf A fs) (\<lambda>kdf.
     Option.bind (req_str fs ''kdf_salt'') (\<lambda>salt.
     Option.bind (req_str fs ''recovery_verifier'') (\<lambda>verifier.
     Option.bind (stored_value A fs ''master_wrapped_vault_key'') (\<lambda>master.
     Option.bind (stored_value A fs ''recovery_wrapped_vault_key'') (\<lambda>recovery.
       Some \<lparr>gq_email = email, gq_auth_credential = cred, gq_kdf_params = kdf, gq_kdf_salt = salt,
             gq_recovery_verifier = verifier, gq_master_wrapped = master, gq_recovery_wrapped = recovery\<rparr>)))))))"

definition login_of :: "(string \<times> json) list \<Rightarrow> login_request option" where
  "login_of fs =
     Option.bind (req_str fs ''email'') (\<lambda>email.
     Option.bind (req_str fs ''auth_credential'') (\<lambda>cred.
     Option.bind (opt_str fs ''totp_code'') (\<lambda>totp.
     Option.bind (opt_str fs ''recovery_code'') (\<lambda>code.
     Option.bind (opt_str fs ''device_name'') (\<lambda>device.
       Some \<lparr>lq_email = email, lq_auth_credential = cred, lq_totp_code = totp, lq_recovery_code = code,
             lq_device_name = device\<rparr>)))))"

definition complete_of :: "web_app \<Rightarrow> (string \<times> json) list \<Rightarrow> complete_request option" where
  "complete_of A fs =
     Option.bind (req_str fs ''token'') (\<lambda>token.
     Option.bind (opt_str fs ''recovery_verifier'') (\<lambda>verifier.
     Option.bind (default_bool fs ''wipe'') (\<lambda>wipe.
     Option.bind (req_str fs ''auth_credential'') (\<lambda>cred.
     Option.bind (req_kdf A fs) (\<lambda>kdf.
     Option.bind (req_str fs ''kdf_salt'') (\<lambda>salt.
     Option.bind (stored_value A fs ''master_wrapped_vault_key'') (\<lambda>master.
     Option.bind (stored_value A fs ''recovery_wrapped_vault_key'') (\<lambda>recovery.
     Option.bind (req_str fs ''new_recovery_verifier'') (\<lambda>new_verifier.
       Some \<lparr>cq_token = token, cq_recovery_verifier = verifier, cq_wipe = wipe, cq_auth_credential = cred,
             cq_kdf_params = kdf, cq_kdf_salt = salt, cq_master_wrapped = master,
             cq_recovery_wrapped = recovery, cq_new_recovery_verifier = new_verifier\<rparr>)))))))))"

definition change_of :: "web_app \<Rightarrow> (string \<times> json) list \<Rightarrow> change_password_request option" where
  "change_of A fs =
     Option.bind (req_str fs ''auth_credential'') (\<lambda>cred.
     Option.bind (opt_str fs ''totp_code'') (\<lambda>totp.
     Option.bind (req_str fs ''new_auth_credential'') (\<lambda>new_cred.
     Option.bind (req_kdf A fs) (\<lambda>kdf.
     Option.bind (stored_value A fs ''master_wrapped_vault_key'') (\<lambda>master.
     Option.bind (stored_value A fs ''recovery_wrapped_vault_key'') (\<lambda>recovery.
     Option.bind (req_str fs ''new_recovery_verifier'') (\<lambda>new_verifier.
       Some \<lparr>pq_auth_credential = cred, pq_totp_code = totp, pq_new_auth_credential = new_cred,
             pq_kdf_params = kdf, pq_master_wrapped = master, pq_recovery_wrapped = recovery,
             pq_new_recovery_verifier = new_verifier\<rparr>)))))))"

text \<open>Two or three strings of a body, for the small requests.\<close>

definition pair_of :: "'a option \<Rightarrow> 'b option \<Rightarrow> ('a \<times> 'b) option" where
  "pair_of a b = Option.bind a (\<lambda>x. map_option (Pair x) b)"

definition with_auth ::
    "web_app \<Rightarrow> ctx \<Rightarrow> request \<Rightarrow> (auth_session \<Rightarrow> srv \<Rightarrow> http_reply \<times> srv) \<Rightarrow> srv \<Rightarrow> http_reply \<times> srv" where
  "with_auth A cx rq h s =
     (case authenticate (sv_env A) (cx_now cx) (map_option ((@) (lit ''Bearer '')) (rq_bearer rq)) s of
        Inl e \<Rightarrow> (error_reply e, s)
      | Inr au \<Rightarrow> h au s)"

definition with_body ::
    "web_app \<Rightarrow> request \<Rightarrow> ((string \<times> json) list \<Rightarrow> 'b option) \<Rightarrow> ('b \<Rightarrow> srv \<Rightarrow> http_reply \<times> srv) \<Rightarrow> srv \<Rightarrow>
     http_reply \<times> srv" where
  "with_body A rq f h s =
     (case rq_json rq of
        None \<Rightarrow> (refused A 415, s)
      | Some j \<Rightarrow>
          (case (case j of J_Obj fs \<Rightarrow> f fs | _ \<Rightarrow> None) of
             None \<Rightarrow> (refused A 422, s)
           | Some x \<Rightarrow> h x s))"

definition with_query ::
    "web_app \<Rightarrow> 'b option \<Rightarrow> ('b \<Rightarrow> srv \<Rightarrow> http_reply \<times> srv) \<Rightarrow> srv \<Rightarrow> http_reply \<times> srv" where
  "with_query A q h s = (case q of None \<Rightarrow> (refused A 400, s) | Some x \<Rightarrow> h x s)"

definition caller_ip :: "web_app \<Rightarrow> ctx \<Rightarrow> ip_addr" where
  "caller_ip A cx = client_ip (sv_env A) (sv_cfg A) (cx_forwarded cx) (cx_peer cx)"

section \<open>Serving a request\<close>

text \<open>Every route, in the order of its extractors: caller and session first, then path, query and body.
  The event stream is its head; what follows it is \<open>event_stream\<close>.\<close>

fun serve_ep :: "web_app \<Rightarrow> ctx \<Rightarrow> endpoint \<Rightarrow> request \<Rightarrow> srv \<Rightarrow> http_reply \<times> srv" where
  "serve_ep A cx Ep_Register rq s =
     with_body A rq (register_of A) (\<lambda>b s. finish
       (\<lambda>_. status_ok [said ''If this address is new, a verification e-mail has been sent.''])
       (Server_Accounts.register (sv_env A) (sv_cfg A) (cx_now cx) (cx_salt cx) (cx_draw cx) b s)) s"
| "serve_ep A cx Ep_Verify rq s =
     with_query A (q_str (rq_query rq) ''token'') (\<lambda>token s. finish
       (\<lambda>_. ok_text (lit ''E-mail address verified. You can now log in from your Basementen Vault app.''))
       (verify_address (sv_env A) (cx_now cx) token s)) s"
| "serve_ep A cx Ep_Resend rq s =
     with_body A rq (\<lambda>fs. req_str fs ''email'') (\<lambda>email s. finish
       (\<lambda>_. status_ok [said ''If this address has an account awaiting verification, a new link has been sent.''])
       (resend_verification (sv_env A) (sv_cfg A) (cx_now cx) (cx_draw cx) email s)) s"
| "serve_ep A cx Ep_Prelogin rq s =
     with_query A (q_str (rq_query rq) ''email'') (\<lambda>email s. finish (prelogin_json A)
       (prelogin (sv_env A) email s)) s"
| "serve_ep A cx Ep_Login rq s =
     with_body A rq login_of (\<lambda>b s. finish (login_json A)
       (login (sv_env A) (caller_ip A cx) (cx_now cx) (cx_draw cx) (cx_tokens cx) b s)) s"
| "serve_ep A cx Ep_Refresh rq s =
     with_body A rq (\<lambda>fs. req_str fs ''refresh_token'') (\<lambda>token s. finish (\<lambda>t. ok_json (tokens_json t))
       (refresh (sv_env A) (cx_now cx) (cx_tokens cx) token s)) s"
| "serve_ep A cx Ep_Recovery_Start rq s =
     with_body A rq (\<lambda>fs. req_str fs ''email'') (\<lambda>email s. finish
       (\<lambda>_. status_ok [said ''If that address has an account, recovery instructions have been sent.''])
       (start_recovery (sv_env A) (sv_cfg A) (caller_ip A cx) (cx_now cx) (cx_recovery cx) email s)) s"
| "serve_ep A cx Ep_Recovery_Data rq s =
     with_query A (q_str (rq_query rq) ''token'') (\<lambda>token s. finish (recovery_json A)
       (recovery_data_of (sv_env A) (cx_now cx) token s)) s"
| "serve_ep A cx Ep_Recovery_Complete rq s =
     with_body A rq (complete_of A) (\<lambda>b s. finish (\<lambda>kept. status_ok [(''data_preserved'', J_Bool kept)])
       (complete_recovery (sv_env A) (caller_ip A cx) (cx_now cx) (cx_salt cx) b s)) s"
| "serve_ep A cx Ep_Recovery_Cancel rq s =
     with_query A (q_str (rq_query rq) ''token'') (\<lambda>token s. finish
       (\<lambda>_. ok_text (lit ''Recovery cancelled. Your account is unchanged. Consider changing your e-mail password if you did not start this recovery.''))
       (cancel_recovery (sv_env A) (cx_now cx) token s)) s"
| "serve_ep A cx Ep_Verify_Backup rq s =
     with_query A (q_str (rq_query rq) ''token'') (\<lambda>token s. finish
       (\<lambda>_. ok_text (lit ''Backup e-mail verified. It can now be used to start account recovery.''))
       (verify_backup_email (sv_env A) (cx_now cx) token s)) s"
| "serve_ep A cx Ep_Health rq s = (ok_text (lit ''ok''), s)"
| "serve_ep A cx Ep_Logout rq s =
     with_auth A cx rq (\<lambda>au s. finish (\<lambda>_. status_ok []) (logout (cx_now cx) au s)) s"
| "serve_ep A cx Ep_Sessions rq s =
     with_auth A cx rq (\<lambda>au s. finish (\<lambda>ds. ok_json [(''sessions'', J_Arr (map session_json ds))])
       (list_sessions (cx_now cx) au s)) s"
| "serve_ep A cx Ep_Revoke_Others rq s =
     with_auth A cx rq (\<lambda>au s. finish (\<lambda>n. ok_json [(''revoked'', J_Int (int n))])
       (revoke_others (cx_now cx) au s)) s"
| "serve_ep A cx (Ep_Revoke family) rq s =
     with_auth A cx rq (\<lambda>au s. finish (\<lambda>_. status_ok []) (revoke (cx_now cx) au family s)) s"
| "serve_ep A cx Ep_Totp_Enroll rq s =
     with_auth A cx rq (\<lambda>au. with_body A rq (\<lambda>fs. req_str fs ''auth_credential'') (\<lambda>cred s. finish
       (\<lambda>p. ok_json [(''secret_base32'', J_Str (fst p)), (''otpauth_uri'', J_Str (snd p))])
       (totp_enroll (sv_env A) (caller_ip A cx) (cx_now cx) (cx_draw cx) au cred s))) s"
| "serve_ep A cx Ep_Totp_Activate rq s =
     with_auth A cx rq (\<lambda>au. with_body A rq (\<lambda>fs. req_str fs ''code'') (\<lambda>code s. finish
       (codes_json ''Store these recovery codes somewhere safe; they are shown only once.'')
       (totp_activate (sv_env A) (caller_ip A cx) (cx_now cx) (cx_codes cx) au code s))) s"
| "serve_ep A cx Ep_Totp_Disable rq s =
     with_auth A cx rq (\<lambda>au. with_body A rq
       (\<lambda>fs. pair_of (req_str fs ''auth_credential'') (req_str fs ''totp_code'')) (\<lambda>(cred, code) s. finish
       (\<lambda>_. status_ok []) (totp_disable (sv_env A) (caller_ip A cx) (cx_now cx) au cred code s))) s"
| "serve_ep A cx Ep_Regenerate rq s =
     with_auth A cx rq (\<lambda>au. with_body A rq
       (\<lambda>fs. pair_of (req_str fs ''auth_credential'') (req_str fs ''totp_code'')) (\<lambda>(cred, code) s. finish
       (codes_json ''New recovery codes generated; your previous codes no longer work.'')
       (regenerate_recovery_codes (sv_env A) (caller_ip A cx) (cx_now cx) (cx_codes cx) au cred code s))) s"
| "serve_ep A cx Ep_Mfa_Status rq s =
     with_auth A cx rq (\<lambda>au s. finish
       (\<lambda>p. ok_json [(''totp_active'', J_Bool (fst p)), (''recovery_codes_remaining'', J_Int (int (snd p)))])
       (mfa_status au s)) s"
| "serve_ep A cx Ep_Keys rq s =
     with_auth A cx rq (\<lambda>au s. finish (keys_json A) (get_keys (sv_env A) au s)) s"
| "serve_ep A cx Ep_List_Items rq s =
     with_auth A cx rq (\<lambda>au. with_query A (q_since (rq_query rq)) (\<lambda>since s. finish (list_json A)
       (list_items (sv_env A) (cx_now cx) au since s))) s"
| "serve_ep A cx (Ep_Put_Item item_id) rq s =
     with_auth A cx rq (\<lambda>au s.
       case rq_json rq of
         None \<Rightarrow> (refused A 415, s)
       | Some j \<Rightarrow> finish (write_json A) (put_item (sv_env A) (cx_now cx) au item_id (sv_js_text A j) s)) s"
| "serve_ep A cx (Ep_Delete_Item item_id) rq s =
     with_auth A cx rq (\<lambda>au. with_query A (q_i64 (rq_query rq) ''base_revision'') (\<lambda>base s. finish
       (write_json A) (delete_item (sv_env A) (cx_now cx) au item_id base s))) s"
| "serve_ep A cx Ep_Events rq s = with_auth A cx rq (\<lambda>au s. (ok_text [], s)) s"
| "serve_ep A cx Ep_Get_Checkpoint rq s =
     with_auth A cx rq (\<lambda>au s. finish (\<lambda>c. ok_json [(''checkpoint'', cp_json c)])
       (get_checkpoint (sv_env A) au s)) s"
| "serve_ep A cx Ep_Put_Checkpoint rq s =
     with_auth A cx rq (\<lambda>au. with_body A rq (\<lambda>fs. pair_of (req_i64 fs ''seq'') (req_str fs ''tag''))
       (\<lambda>(seq, tag) s. finish (\<lambda>_. status_ok []) (put_checkpoint (sv_env A) au seq tag s))) s"
| "serve_ep A cx Ep_Set_Backup rq s =
     with_auth A cx rq (\<lambda>au. with_body A rq
       (\<lambda>fs. pair_of (req_str fs ''auth_credential'') (pair_of (opt_str fs ''totp_code'') (req_str fs ''backup_email'')))
       (\<lambda>(cred, code, backup) s. finish (\<lambda>_. status_ok [said ''Verification e-mail sent to the backup address.''])
       (set_backup_email (sv_env A) (sv_cfg A) (caller_ip A cx) (cx_now cx) (cx_draw cx) au cred code backup s))) s"
| "serve_ep A cx Ep_Remove_Backup rq s =
     with_auth A cx rq (\<lambda>au. with_body A rq
       (\<lambda>fs. pair_of (req_str fs ''auth_credential'') (opt_str fs ''totp_code'')) (\<lambda>(cred, code) s. finish
       (\<lambda>_. status_ok []) (remove_backup_email (sv_env A) (caller_ip A cx) (cx_now cx) au cred code s))) s"
| "serve_ep A cx Ep_Change_Password rq s =
     with_auth A cx rq (\<lambda>au. with_body A rq (change_of A) (\<lambda>b s. finish (\<lambda>_. status_ok [])
       (Server_Recovery.change_password (sv_env A) (caller_ip A cx) (cx_now cx) (cx_salt cx) au b s))) s"

text \<open>The headers of a reply: the waiting time of an error, and the layer over all routes.\<close>

definition reply_headers :: "http_reply \<Rightarrow> headers" where
  "reply_headers r = security_headers
     (case hr_retry_after r of None \<Rightarrow> Map.empty | Some n \<Rightarrow> [''retry-after'' \<mapsto> dec_int n])"

definition serve :: "web_app \<Rightarrow> ctx \<Rightarrow> text \<Rightarrow> request \<Rightarrow> srv \<Rightarrow> http_reply \<times> srv" where
  "serve A cx path rq s =
     (case route (rq_method rq) path of
        No_Route \<Rightarrow> (\<lparr>hr_status = 404, hr_body = Body_Text [], hr_retry_after = None\<rparr>, s)
      | Method_Refused \<Rightarrow> (\<lparr>hr_status = 405, hr_body = Body_Text [], hr_retry_after = None\<rparr>, s)
      | Routed ep \<Rightarrow> serve_ep A cx ep rq s)"

end
