(* ===== verification/Server_Http_Spec.thy ===== *)
theory Server_Http_Spec
  imports Server_Http
begin

text \<open>
  What the service promises whatever is sent to it: routes that need a session give nothing without
  one, and every request, well formed or not, is a step of the server's state machine, so the
  invariant of \<open>Server_History\<close> holds of everything the network can do.
\<close>

section \<open>One request, one step\<close>

lemma finish_snd [simp]: "snd (finish f r) = snd r"
  by (simp add: finish_def split: prod.split sum.split)

text \<open>Draws of a session request that come from the context.\<close>

fun draws_of :: "ctx \<Rightarrow> server_req \<Rightarrow> bool" where
  "draws_of cx (Sq_Session (Rq_Login ip now fam d rq)) = (fam = cx_draw cx \<and> d = cx_tokens cx)"
| "draws_of cx (Sq_Session (Rq_Refresh now d token)) = (d = cx_tokens cx)"
| "draws_of cx _ = True"

definition moves :: "web_app \<Rightarrow> ctx \<Rightarrow> srv \<Rightarrow> srv \<Rightarrow> bool" where
  "moves A cx s s' \<longleftrightarrow> s' = s \<or> (\<exists>q. s' = run_server (sv_env A) (sv_cfg A) q s \<and> draws_of cx q)"

named_theorems moves_intros

lemma moves_refl [moves_intros]: "moves A cx s s"
  by (simp add: moves_def)

lemma movesI: "s' = run_server (sv_env A) (sv_cfg A) q s \<Longrightarrow> draws_of cx q \<Longrightarrow> moves A cx s s'"
  by (auto simp: moves_def)

lemma moves_session [moves_intros]:
  "(\<And>au. moves A cx s (snd (h au s))) \<Longrightarrow> moves A cx s (snd (with_auth A cx rq h s))"
  by (simp add: with_auth_def moves_refl split: sum.split)

lemma moves_body [moves_intros]:
  "(\<And>b. moves A cx s (snd (h b s))) \<Longrightarrow> moves A cx s (snd (with_body A rq f h s))"
  by (simp add: with_body_def moves_refl split: option.split)

lemma moves_query [moves_intros]:
  "(\<And>b. moves A cx s (snd (h b s))) \<Longrightarrow> moves A cx s (snd (with_query A q h s))"
  by (simp add: with_query_def moves_refl split: option.split)

lemma moves_requests:
  "moves A cx s (run_account (sv_env A) (sv_cfg A) aq s)"
  "moves A cx s (run_mfa (sv_env A) mq s)"
  "moves A cx s (run_item (sv_env A) iq s)"
  "moves A cx s (run_recovery (sv_env A) (sv_cfg A) vq s)"
  "draws_of cx (Sq_Session rq) \<Longrightarrow> moves A cx s (run_session (sv_env A) rq s)"
  by (rule movesI[where q = "Sq_Account aq"] movesI[where q = "Sq_Mfa mq"] movesI[where q = "Sq_Item iq"]
      movesI[where q = "Sq_Recovery vq"] movesI[where q = "Sq_Session rq"]; simp)+

lemmas moves_account_handlers [moves_intros] =
  moves_requests(1)[where aq = "Aq_Register now salt d b" for now salt d b, unfolded run_account.simps]
  moves_requests(1)[where aq = "Aq_Resend now d email" for now d email, unfolded run_account.simps]
  moves_requests(1)[where aq = "Aq_Verify now token" for now token, unfolded run_account.simps]
  moves_requests(1)[where aq = "Aq_Set_Backup ip now d au cred code backup" for ip now d au cred code backup, unfolded run_account.simps]
  moves_requests(1)[where aq = "Aq_Verify_Backup now token" for now token, unfolded run_account.simps]
  moves_requests(1)[where aq = "Aq_Remove_Backup ip now au cred code" for ip now au cred code, unfolded run_account.simps]
  moves_requests(1)[where aq = "Aq_Password ip now salt au b" for ip now salt au b, unfolded run_account.simps]

lemmas moves_mfa_handlers [moves_intros] =
  moves_requests(2)[where mq = "Mq_Enroll ip now d au cred" for ip now d au cred, unfolded run_mfa.simps]
  moves_requests(2)[where mq = "Mq_Activate ip now ds au code" for ip now ds au code, unfolded run_mfa.simps]
  moves_requests(2)[where mq = "Mq_Disable ip now au cred code" for ip now au cred code, unfolded run_mfa.simps]
  moves_requests(2)[where mq = "Mq_Regenerate ip now ds au cred code" for ip now ds au cred code, unfolded run_mfa.simps]

lemmas moves_item_handlers [moves_intros] =
  moves_requests(3)[where iq = "Iq_List now au since" for now au since, unfolded run_item.simps]
  moves_requests(3)[where iq = "Iq_Put now au i body" for now au i body, unfolded run_item.simps]
  moves_requests(3)[where iq = "Iq_Delete now au i base" for now au i base, unfolded run_item.simps]
  moves_requests(3)[where iq = "Iq_Checkpoint au seq tag" for au seq tag, unfolded run_item.simps]

lemmas moves_recovery_handlers [moves_intros] =
  moves_requests(4)[where vq = "Vq_Start ip now d email" for ip now d email, unfolded run_recovery.simps]
  moves_requests(4)[where vq = "Vq_Complete ip now salt b" for ip now salt b, unfolded run_recovery.simps]
  moves_requests(4)[where vq = "Vq_Cancel now token" for now token, unfolded run_recovery.simps]

lemma moves_session_handlers [moves_intros]:
  "moves A cx s (snd (login (sv_env A) ip now (cx_draw cx) (cx_tokens cx) lq s))"
  "moves A cx s (snd (refresh (sv_env A) now (cx_tokens cx) token s))"
  "moves A cx s (snd (logout now au s))"
  "moves A cx s (snd (revoke now au family s))"
  "moves A cx s (snd (revoke_others now au s))"
  using moves_requests(5)[where rq = "Rq_Login ip now (cx_draw cx) (cx_tokens cx) lq"]
    moves_requests(5)[where rq = "Rq_Refresh now (cx_tokens cx) token"] moves_requests(5)[where rq = "Rq_Logout now au"]
    moves_requests(5)[where rq = "Rq_Revoke now au family"] moves_requests(5)[where rq = "Rq_Revoke_Others now au"]
  by simp_all

lemma reading_handlers [simp]:
  "snd (prelogin E email s) = s" "snd (recovery_data_of E now token s) = s" "snd (list_sessions now au s) = s"
  "snd (mfa_status au s) = s" "snd (get_keys E au s) = s" "snd (get_checkpoint E au s) = s"
  by (simp_all add: prelogin_def recovery_data_of_def list_sessions_def mfa_status_def get_keys_def get_checkpoint_def
      Let_def case_prod_beta split: option.split)

lemma serve_ep_moves: "moves A cx s (snd (serve_ep A cx ep rq s))"
  by (cases ep) (auto simp: moves_refl intro!: moves_intros split: option.split prod.split)

lemma serve_moves: "moves A cx s (snd (serve A cx path rq s))"
  by (simp add: serve_def serve_ep_moves moves_refl split: routed.split)

section \<open>No session, no access\<close>

fun open_endpoint :: "endpoint \<Rightarrow> bool" where
  "open_endpoint Ep_Health = True"
| "open_endpoint Ep_Register = True"
| "open_endpoint Ep_Verify = True"
| "open_endpoint Ep_Resend = True"
| "open_endpoint Ep_Prelogin = True"
| "open_endpoint Ep_Login = True"
| "open_endpoint Ep_Refresh = True"
| "open_endpoint Ep_Recovery_Start = True"
| "open_endpoint Ep_Recovery_Data = True"
| "open_endpoint Ep_Recovery_Complete = True"
| "open_endpoint Ep_Recovery_Cancel = True"
| "open_endpoint Ep_Verify_Backup = True"
| "open_endpoint _ = False"

lemma authenticate_Inl: "authenticate E now h s = Inl e \<Longrightarrow> e = InvalidToken"
  by (auto simp: authenticate_def split: option.splits)

lemma with_auth_refuses:
  assumes "authenticate (sv_env A) (cx_now cx) (map_option ((@) (lit ''Bearer '')) (rq_bearer rq)) s = Inl e"
  shows "with_auth A cx rq h s = (error_reply InvalidToken, s)"
  using assms authenticate_Inl[OF assms] by (simp add: with_auth_def)

section \<open>Everything the network can do\<close>

definition fresh_ctx :: "env \<Rightarrow> ctx \<Rightarrow> srv \<Rightarrow> bool" where
  "fresh_ctx E cx s \<longleftrightarrow> (\<forall>r \<in> set (sessions s). login_family E (cx_draw cx) \<noteq> se_family_id r
     \<and> access_hash_of E (cx_tokens cx) \<noteq> se_access_hash r \<and> refresh_hash_of E (cx_tokens cx) \<noteq> se_refresh_hash r)"

lemma fresh_ctx_req:
  assumes "fresh_ctx E cx s" and "draws_of cx q"
  shows "fresh_server E q s"
  using assms by (cases "(cx, q)" rule: draws_of.cases) (auto simp: fresh_ctx_def fresh_rq_def)

lemma moves_server_ok:
  assumes "moves A cx s s'" and "fresh_ctx (sv_env A) cx s" and "server_ok (sv_env A) (sv_cfg A) s"
  shows "server_ok (sv_env A) (sv_cfg A) s'"
  using assms server_ok_step fresh_ctx_req by (auto simp: moves_def)

text \<open>What happens to a running server: a request (its context, path and content), or a restart with its
  draws.\<close>

datatype service_event =
    Served ctx "text" request
  | Restarted bytes bytes bytes bytes

fun run_event :: "web_app \<Rightarrow> service_event \<Rightarrow> srv \<Rightarrow> srv" where
  "run_event A (Served cx path rq) s = snd (serve A cx path rq s)"
| "run_event A (Restarted fresh fallback salt random) s = app_state_new (sv_env A) fresh fallback salt random s"

fun fresh_events :: "web_app \<Rightarrow> service_event list \<Rightarrow> srv \<Rightarrow> bool" where
  "fresh_events A [] s = True"
| "fresh_events A (ev # evs) s =
     ((case ev of Served cx path rq \<Rightarrow> fresh_ctx (sv_env A) cx s | Restarted _ _ _ _ \<Rightarrow> True)
      \<and> fresh_events A evs (run_event A ev s))"

lemma app_state_new_sel:
  "accounts (app_state_new E fresh fb salt rd s) = accounts s"
  "email_tokens (app_state_new E fresh fb salt rd s) = email_tokens s"
  "sessions (app_state_new E fresh fb salt rd s) = sessions s"
  "totps (app_state_new E fresh fb salt rd s) = totps s"
  "recovery_codes (app_state_new E fresh fb salt rd s) = recovery_codes s"
  "vault_items (app_state_new E fresh fb salt rd s) = vault_items s"
  "recovery_requests (app_state_new E fresh fb salt rd s) = recovery_requests s"
  "outbox (app_state_new E fresh fb salt rd s) = outbox s"
  by (simp_all add: app_state_new_def load_or_create_secret_def Let_def split: option.split)

lemma restart_server_ok: "server_ok E cfg s \<Longrightarrow> server_ok E cfg (app_state_new E' fresh fb salt rd s)"
  by (simp add: server_ok_def items_ok_def totp_keys_def announced_def app_state_new_sel)

lemma events_server_ok:
  assumes "fresh_events A evs s" and "server_ok (sv_env A) (sv_cfg A) s"
  shows "server_ok (sv_env A) (sv_cfg A) (fold (run_event A) evs s)"
  using assms
proof (induction evs arbitrary: s)
  case (Cons ev evs)
  have "server_ok (sv_env A) (sv_cfg A) (run_event A ev s)"
    using Cons.prems by (cases ev) (auto intro: moves_server_ok[OF serve_moves] restart_server_ok)
  with Cons show ?case by simp
qed simp


text \<open>For witnesses only: the service over the toy functions, JSON without a parser for stored texts.\<close>

definition toy_app :: web_app where
  "toy_app = \<lparr>sv_env = toy_env, sv_cfg = \<lparr>cfg_base_url = [], cfg_registration_open = True,
       cfg_trust_proxy = False, cfg_recovery_cooloff_secs = 10\<rparr>,
     sv_js_text = (\<lambda>j. case j of J_Str t \<Rightarrow> t | _ \<Rightarrow> []), sv_js_parse = (\<lambda>t. Some (J_Str t)),
     sv_kdf_of = (\<lambda>_. Some kdf_desktop), sv_reject = (\<lambda>_. [])\<rparr>"

definition toy_ctx :: ctx where
  "toy_ctx = \<lparr>cx_now = 50, cx_forwarded = None, cx_peer = Some 8, cx_salt = [1], cx_draw = [2],
     cx_tokens = \<lparr>sd_access = [3], sd_refresh = [4]\<rparr>, cx_codes = (\<lambda>i. [5, word_of_nat i]),
     cx_recovery = \<lparr>rd_completion = [6], rd_cancel = [7]\<rparr>\<rparr>"

definition toy_http_register :: request where
  "toy_http_register = \<lparr>rq_method = POST, rq_url = [], rq_query = [],
     rq_json = Some (J_Obj [(''email'', J_Str (lit ''x@y.z'')), (''auth_credential'', J_Str (replicate 32 5)),
       (''kdf_params'', J_Null), (''kdf_salt'', J_Str (replicate 16 3)), (''recovery_verifier'', J_Str (replicate 32 4)),
       (''master_wrapped_vault_key'', J_Str [1]), (''recovery_wrapped_vault_key'', J_Str [2])]),
     rq_bearer = None\<rparr>"

definition toy_events :: "service_event list" where
  "toy_events = [Restarted (replicate 32 1) [] [] [], Served toy_ctx (lit ''/api/v1/accounts/register'') toy_http_register]"

lemma toy_http_fields:
  "\<exists>fs. rq_json toy_http_register = Some (J_Obj fs) \<and> register_of toy_app fs = Some toy_register"
  "\<exists>c v t. register_fields toy_env (sv_cfg toy_app) toy_register = Inr (lit ''x@y.z'', c, v, t)"
proof -
  show "\<exists>fs. rq_json toy_http_register = Some (J_Obj fs) \<and> register_of toy_app fs = Some toy_register"
    by (simp add: toy_http_register_def toy_register_def register_of_def req_str_def req_value_def once_def
        req_kdf_def stored_value_def toy_app_def)
  have mail: "normalize_email (e_lower toy_env) (lit ''x@y.z'') = lit ''x@y.z''"
    by (simp add: normalize_email_def trim_def trim_start_def trim_end_def lit_def is_whitespace_def
      to_lowercase_def to_ascii_lowercase_def is_ascii_upper_def)
  have "validate_email (lit ''x@y.z'') = Inr ()"
    by (simp add: validate_email_def lit_def str_len_def as_bytes_def utf8_char_def)
  then show "\<exists>c v t. register_fields toy_env (sv_cfg toy_app) toy_register = Inr (lit ''x@y.z'', c, v, t)"
    by (simp add: register_fields_def toy_register_def toy_app_def mail decode_credential_def
        Server_Accounts.decode_salt_def toy_decode validate_kdf_def toy_kdf)
qed

lemma toy_events_account: "map ac_email (accounts (fold (run_event toy_app) toy_events empty_srv)) = [lit ''x@y.z'']"
proof -
  have r: "route POST (lit ''/api/v1/accounts/register'') = Routed Ep_Register" by code_simp
  have m: "rq_method toy_http_register = POST" by (simp add: toy_http_register_def)
  obtain fs where f: "rq_json toy_http_register = Some (J_Obj fs)" "register_of toy_app fs = Some toy_register"
    using toy_http_fields(1) by blast
  obtain c v t where g: "register_fields toy_env (sv_cfg toy_app) toy_register = Inr (lit ''x@y.z'', c, v, t)"
    using toy_http_fields(2) by blast
  have e: "sv_env toy_app = toy_env" by (simp add: toy_app_def)
  have none: "accounts (app_state_new toy_env x y z u empty_srv) = []" for x y z u
    by (simp add: app_state_new_sel empty_srv_def)
  show ?thesis
    by (simp add: toy_events_def serve_def r m with_body_def f g e Server_Accounts.register_def none Let_def
        account_by_email_def send_verification_email_def account_of_register_def case_prod_beta send_mail_def)
qed


end
