(* ===== verification/Server_Tenants.thy ===== *)
theory Server_Tenants
  imports Server_Http_Spec
begin

text \<open>
  Accounts are separate: what a request with a session can change belongs to the account of the
  session.  \<open>spares i\<close> compares two states table by table, on the rows of every account but \<open>i\<close>.
\<close>

section \<open>Rows of the others\<close>

definition others :: "('r \<Rightarrow> int) \<Rightarrow> int \<Rightarrow> 'r list \<Rightarrow> 'r list \<Rightarrow> bool" where
  "others k i t t' \<longleftrightarrow> (\<forall>j. j \<noteq> i \<longrightarrow> filter (\<lambda>r. k r = j) t' = filter (\<lambda>r. k r = j) t)"

named_theorems others_intros

lemma others_refl [simp, others_intros]: "others k i t t"
  by (simp add: others_def)

lemma others_trans: "others k i t u \<Longrightarrow> others k i u v \<Longrightarrow> others k i t v"
  by (simp add: others_def)

lemma others_update [others_intros]:
  assumes "\<And>r. r \<in> set t \<Longrightarrow> p r \<Longrightarrow> k r = i" and "\<And>r. k (f r) = k r"
  shows "others k i t (update_where p f t)"
  unfolding others_def
proof (intro allI impI)
  fix j :: int assume "j \<noteq> i"
  then show "filter (\<lambda>r. k r = j) (update_where p f t) = filter (\<lambda>r. k r = j) t"
    using assms by (induction t) auto
qed

lemma others_delete [others_intros]:
  assumes "\<And>r. r \<in> set t \<Longrightarrow> p r \<Longrightarrow> k r = i"
  shows "others k i t (delete_where p t)"
  unfolding others_def
proof (intro allI impI)
  fix j :: int assume "j \<noteq> i"
  then show "filter (\<lambda>r. k r = j) (delete_where p t) = filter (\<lambda>r. k r = j) t"
    using assms by (induction t) auto
qed

lemma others_append [others_intros]: "(\<And>r. r \<in> set xs \<Longrightarrow> k r = i) \<Longrightarrow> others k i t (t @ xs)"
  by (auto simp: others_def filter_empty_conv)

lemma others_upsert [others_intros]:
  assumes "\<And>r. r \<in> set t \<Longrightarrow> p r \<Longrightarrow> k r = i" and "\<And>r. k (f r) = k r" and "k row = i"
  shows "others k i t (upsert_where p f row t)"
  using assms others_append[of "[row]" k i t] by (simp add: upsert_where_def others_update)

section \<open>States\<close>

definition spares :: "int \<Rightarrow> srv \<Rightarrow> srv \<Rightarrow> bool" where
  "spares i s s' \<longleftrightarrow> others ac_id i (accounts s) (accounts s')
     \<and> others et_account_id i (email_tokens s) (email_tokens s')
     \<and> others se_account_id i (sessions s) (sessions s')
     \<and> others to_account_id i (totps s) (totps s')
     \<and> others rc_account_id i (recovery_codes s) (recovery_codes s')
     \<and> others vi_account_id i (vault_items s) (vault_items s')
     \<and> others rr_account_id i (recovery_requests s) (recovery_requests s')"

lemma spares_refl [simp]: "spares i s s"
  by (simp add: spares_def)

lemma spares_trans: "spares i s t \<Longrightarrow> spares i t u \<Longrightarrow> spares i s u"
  unfolding spares_def by (meson others_trans)

text \<open>What no account owns.\<close>

lemma spares_shared [simp]:
  "spares i s (record_failure ip now t) = spares i s t" "spares i s (send_mail to b t) = spares i s t"
  "spares i s (notify acc seq t) = spares i s t" "spares i s (notify_owner e b bk t) = spares i s t"
  by (simp_all add: spares_def record_failure_def send_mail_def notify_def notify_owner_def Let_def split: option.split)

lemma spares_update_account:
  "(\<And>a. ac_id (f a) = ac_id a) \<Longrightarrow> spares i s t \<Longrightarrow> spares i s (update_account i f t)"
  by (rule spares_trans[of _ _ t]) (auto simp: spares_def update_account_def intro!: others_update)

lemma spares_and_then:
  assumes "spares i s (snd m)" and "\<And>x t. m = (Inr x, t) \<Longrightarrow> spares i s t \<Longrightarrow> spares i s (snd (f x t))"
  shows "spares i s (snd (and_then m f))"
  using assms by (auto simp: and_then_def split: prod.split sum.split)

section \<open>The handlers\<close>

named_theorems spares_handlers

lemma load_account_cases: "load_account i s = (r, t) \<Longrightarrow> t = s \<and> (\<forall>a. r = Inr a \<longrightarrow> ac_id a = i)"
  by (auto simp: load_account_def dest: account_by_idD split: option.splits)

lemma confirm_credential_spares: "spares i s (snd (confirm_credential E ip now a cred s))"
  by (simp add: confirm_credential_def Let_def)

lemma confirm_sensitive_spares: "confirm_sensitive E ip now a cred code s = (r, t) \<Longrightarrow> spares i s t"
  by (auto simp: confirm_sensitive_def split: sum.splits option.splits if_splits)

lemma confirmed_account_spares:
  assumes "confirmed_account E ip now au cred code s = (r, t)"
  shows "spares i s t \<and> (\<forall>a. r = Inr a \<longrightarrow> ac_id a = au_account_id au)"
proof -
  obtain l s1 where l: "load_account (au_account_id au) s = (l, s1)" by fastforce
  from assms l load_account_cases[OF l] show ?thesis
    by (cases l) (auto simp: confirmed_account_def and_then_def split: prod.splits sum.splits
        dest: confirm_sensitive_spares)
qed

lemma consume_totp_spares: "spares i s (snd (consume_totp E i code now s))"
  by (auto simp: consume_totp_def spares_def step_unused_def split: option.split intro!: others_intros)

lemma issue_spares: "spares i s (snd (issue_recovery_codes E ds i s))"
proof -
  have "spares i s (snd (fold (issue_one E i) bs (cs, t)))" if "spares i s t" for bs cs t
    using that
  proof (induction bs arbitrary: cs t)
    case (Cons b bs)
    have "spares i s (snd (issue_one E i b (cs, t)))"
      using Cons.prems by (rule spares_trans) (auto simp: spares_def issue_one_def Let_def intro!: others_intros)
    then show ?case using Cons.IH by (metis fold_simps(2) prod.collapse)
  qed simp
  moreover have "spares i s (s\<lparr>recovery_codes := delete_where (\<lambda>r. rc_account_id r = i) (recovery_codes s)\<rparr>)"
    by (auto simp: spares_def intro!: others_intros)
  ultimately show ?thesis by (simp add: issue_recovery_codes_def)
qed

lemma confirm_both_spares:
  assumes "confirm_both E ip now au cred code s = (r, t)"
  shows "spares (au_account_id au) s t \<and> (\<forall>a. r = Inr a \<longrightarrow> ac_id a = au_account_id au)"
proof -
  obtain l s1 where l: "load_account (au_account_id au) s = (l, s1)" by fastforce
  obtain b s2 where c: "consume_totp E (au_account_id au) code now s = (b, s2)" by fastforce
  with consume_totp_spares[of "au_account_id au" s E code now] have "spares (au_account_id au) s s2" by simp
  with assms l load_account_cases[OF l] c show ?thesis
    by (cases l) (auto simp: confirm_both_def and_then_def confirm_credential_def Let_def
        split: if_splits bool.splits)
qed

lemma mfa_spares [spares_handlers]:
  "spares (au_account_id au) s (snd (totp_enroll E ip now d au cred s))"
  "spares (au_account_id au) s (snd (totp_activate E ip now ds au code s))"
  "spares (au_account_id au) s (snd (totp_disable E ip now au cred code s))"
  "spares (au_account_id au) s (snd (regenerate_recovery_codes E ip now ds au cred code s))"
proof -
  let ?i = "au_account_id au"
  obtain l s1 where l: "load_account ?i s = (l, s1)" by fastforce
  have "spares ?i s (s\<lparr>totps := upsert_where (\<lambda>r. to_account_id r = ?i) f row (totps s)\<rparr>)"
    if "to_account_id row = ?i" "\<And>r. to_account_id (f r) = to_account_id r" for f row
    using that by (auto simp: spares_def intro!: others_intros)
  then show "spares ?i s (snd (totp_enroll E ip now d au cred s))"
    using load_account_cases[OF l]
    by (cases l) (auto simp: totp_enroll_def l and_then_def confirm_credential_def Let_def split: if_splits)
  let ?t = "s\<lparr>totps := update_where (\<lambda>r. to_account_id r = ?i) (\<lambda>r. r\<lparr>to_activated_at := Some now\<rparr>) (totps s)\<rparr>"
  have "spares ?i s ?t" by (auto simp: spares_def intro!: others_intros)
  then have "spares ?i s (snd (issue_recovery_codes E ds ?i ?t))" using issue_spares by (rule spares_trans)
  then show "spares ?i s (snd (totp_activate E ip now ds au code s))"
    by (auto simp: totp_activate_def Let_def case_prod_beta split: option.split)
  obtain b t where b: "confirm_both E ip now au cred code s = (b, t)" by fastforce
  note c = confirm_both_spares[OF b]
  have "spares ?i t (t\<lparr>totps := delete_where (\<lambda>r. to_account_id r = ?i) (totps t),
      recovery_codes := delete_where (\<lambda>r. rc_account_id r = ?i) (recovery_codes t)\<rparr>)"
    by (auto simp: spares_def intro!: others_intros)
  with c show "spares ?i s (snd (totp_disable E ip now au cred code s))"
    by (cases b) (auto simp: totp_disable_def b intro: spares_trans)
  from c issue_spares[of ?i t E ds] show "spares ?i s (snd (regenerate_recovery_codes E ip now ds au cred code s))"
    by (cases b) (auto simp: regenerate_recovery_codes_def b case_prod_beta intro: spares_trans)
qed

lemma next_seq_spares: "next_seq i s = (r, t) \<Longrightarrow> spares i s t"
  by (auto simp: next_seq_def intro: spares_update_account split: option.splits)

lemma items_spares [spares_handlers]:
  "spares (au_account_id au) s (snd (list_items E now au since s))"
  "spares (au_account_id au) s (snd (put_item E now au i body s))"
  "spares (au_account_id au) s (snd (delete_item E now au i base s))"
  "spares (au_account_id au) s (snd (put_checkpoint E au seq tag s))"
proof -
  let ?a = "au_account_id au"
  have "spares ?a s (s\<lparr>vault_items := delete_where (purgeable ?a now) (vault_items s)\<rparr>)"
    by (auto simp: spares_def purgeable_def intro!: others_intros)
  then have "spares ?a s (purge_tombstones ?a now s)"
    by (auto simp: purge_tombstones_def Let_def intro: spares_update_account)
  then show "spares ?a s (snd (list_items E now au since s))"
    by (auto simp: list_items_def Let_def split: option.split)
  obtain q t where q: "next_seq ?a s = (q, t)" by fastforce
  have up: "spares ?a s (t\<lparr>vault_items := upsert_where (is_item ?a i) f row (vault_items t)\<rparr>)"
    if "\<And>r. vi_account_id (f r) = vi_account_id r" "vi_account_id row = ?a" for f row
    using that by (intro spares_trans[OF next_seq_spares[OF q]]) (auto simp: spares_def is_item_def intro!: others_intros)
  then show "spares ?a s (snd (put_item E now au i body s))"
    by (auto simp: put_item_def Let_def q split: option.split)
  have "spares ?a s (t\<lparr>vault_items := update_where (is_item ?a i) f (vault_items t)\<rparr>)"
    if "\<And>r. vi_account_id (f r) = vi_account_id r" for f
    using that by (intro spares_trans[OF next_seq_spares[OF q]]) (auto simp: spares_def is_item_def intro!: others_intros)
  then show "spares ?a s (snd (delete_item E now au i base s))"
    by (auto simp: delete_item_def Let_def q split: option.split)
  show "spares ?a s (snd (put_checkpoint E au seq tag s))"
    by (auto simp: put_checkpoint_def spares_def intro!: others_intros split: option.split)
qed

lemma account_spares [spares_handlers]:
  "spares (au_account_id au) s (snd (set_backup_email E cfg ip now d au cred code backup s))"
  "spares (au_account_id au) s (snd (remove_backup_email E ip now au cred code s))"
  "spares (au_account_id au) s (snd (Server_Recovery.change_password E ip now salt au rq s))"
proof -
  let ?i = "au_account_id au"
  obtain r t where c: "confirmed_account E ip now au cred code s = (r, t)" by fastforce
  note k = confirmed_account_spares[OF c]
  have tok: "spares ?i s (u\<lparr>email_tokens := ts @ [row]\<rparr>)"
    if "spares ?i s u" "et_account_id row = ?i" "ts = email_tokens u" for u row ts
    using that(2,3) by (intro spares_trans[OF that(1)]) (auto simp: spares_def intro!: others_intros)
  show "spares ?i s (snd (set_backup_email E cfg ip now d au cred code backup s))"
    using k by (cases r) (auto simp: set_backup_email_def c Let_def case_prod_beta intro!: tok spares_update_account)
  show "spares ?i s (snd (remove_backup_email E ip now au cred code s))"
    using k by (cases r) (auto simp: remove_backup_email_def c Let_def intro!: spares_update_account)
  obtain r' t' where c': "confirmed_account E ip now au (pq_auth_credential rq) (pq_totp_code rq) s = (r', t')" by fastforce
  note k' = confirmed_account_spares[OF c']
  have ses: "spares ?i s (u\<lparr>sessions := update_where p (\<lambda>r. r\<lparr>se_revoked_at := Some now\<rparr>) ts\<rparr>)"
    if "spares ?i s u" "\<And>r. p r \<Longrightarrow> se_account_id r = ?i" "ts = sessions u" for u p ts
    using that(2,3) by (intro spares_trans[OF that(1)]) (auto simp: spares_def intro!: others_intros)
  show "spares ?i s (snd (Server_Recovery.change_password E ip now salt au rq s))"
    using k' by (cases r') (auto simp: Server_Recovery.change_password_def c' Let_def rekey_account_def
        intro!: ses spares_update_account split: sum.split prod.split)
qed

text \<open>A session is its row: the id it is revoked by is of the caller's account.\<close>

lemma session_spares [spares_handlers]:
  "spares (au_account_id au) s (snd (revoke now au family s))"
  "spares (au_account_id au) s (snd (revoke_others now au s))"
  "spares (au_account_id au) s (snd (list_sessions now au s))"
  "spares (au_account_id au) s (snd (mfa_status au s))"
  "spares (au_account_id au) s (snd (get_keys E au s))"
  "spares (au_account_id au) s (snd (get_checkpoint E au s))"
  by (auto simp: spares_def revoke_def revoke_others_def Let_def intro!: others_intros)

lemma logout_spares:
  assumes "distinct (map se_id (sessions s))" and "authenticate E now h s = Inr au"
  shows "spares (au_account_id au) s (snd (logout now' au s))"
proof -
  obtain token r where "r \<in> set (sessions s)" "au_session_id au = se_id r" "au_account_id au = se_account_id r"
    using authenticate_Inr[OF assms(2)] by (metis auth_session.select_convs(1,2))
  moreover have "q = r" if "q \<in> set (sessions s)" "se_id q = se_id r" for q
    using assms(1) that calculation(1) by (meson eq_key_imp_eq_value distinct_map inj_onD)
  ultimately show ?thesis by (auto simp: logout_def spares_def intro!: others_intros)
qed

section \<open>The service\<close>

lemma spares_with_body:
  "(\<And>b. spares i s (snd (h b s))) \<Longrightarrow> spares i s (snd (with_body A rq f h s))"
  by (simp add: with_body_def split: option.split)

lemma spares_with_query:
  "(\<And>b. spares i s (snd (h b s))) \<Longrightarrow> spares i s (snd (with_query A q h s))"
  by (simp add: with_query_def split: option.split)

text \<open>The caller's header, as the session extractor sees it.\<close>

definition bearer_of :: "request \<Rightarrow> text option" where
  "bearer_of rq = map_option ((@) (lit ''Bearer '')) (rq_bearer rq)"

lemma serve_ep_guarded:
  assumes "\<not> open_endpoint ep"
  shows "\<exists>h. serve_ep A cx ep rq = with_auth A cx rq h
    \<and> (\<forall>au. distinct (map se_id (sessions s)) \<longrightarrow> authenticate (sv_env A) (cx_now cx) (bearer_of rq) s = Inr au
          \<longrightarrow> spares (au_account_id au) s (snd (h au s)))"
  using assms
  by (cases ep) (rule exI, rule conjI, rule ext, simp,
      auto intro!: spares_handlers logout_spares spares_with_body spares_with_query split: prod.split option.split)+


text \<open>For witnesses only.\<close>

definition toy_session :: session_row where
  "toy_session = \<lparr>se_id = 1, se_account_id = 1, se_family_id = lit ''f'', se_access_hash = as_bytes (lit ''t''),
     se_refresh_hash = as_bytes (lit ''r''), se_access_expires_at = 100, se_refresh_expires_at = 200,
     se_device_name = [], se_created_at = 0, se_revoked_at = None, se_last_used_at = Some 0,
     se_absolute_expires_at = Some 1000\<rparr>"

definition toy_request :: "http_method \<Rightarrow> request" where
  "toy_request m = \<lparr>rq_method = m, rq_url = [], rq_query = [(''base_revision'', lit ''1'')], rq_json = None,
     rq_bearer = Some (lit ''t'')\<rparr>"


end
