(* ===== verification/Http_Line.thy ===== *)
theory Http_Line
  imports Server_Tenants Sync_Props
begin

text \<open>
  The client of desktop-core \<open>api.rs\<close> and the service of vault-server \<open>lib.rs\<close> on one line: what the
  client sends is routed, authenticated, decoded, handled and answered, request by request, each with a
  clock and random bytes of its own, while other devices write and requests and responses get lost.
  This theory has the line, the deserialisation of the client, and what any authenticated call does:
  through expired tokens and their rotation the tokens stay the account's, and an answer is the
  handler's.
\<close>

section \<open>Deserialisation in the client (vault-sync \<open>types.rs\<close>)\<close>

definition req_bool :: "(string \<times> json) list \<Rightarrow> string \<Rightarrow> bool option" where
  "req_bool fs key = Option.bind (req_value fs key) as_bool"

text \<open>\<open>Option<EncryptedItem>\<close>, given how an envelope is read.\<close>

definition content_of_json :: "(json \<Rightarrow> encrypted_item option) \<Rightarrow> (string \<times> json) list \<Rightarrow> encrypted_item option option" where
  "content_of_json dj fs =
     (case once ''content'' fs of
        None \<Rightarrow> None | Some None \<Rightarrow> Some None | Some (Some J_Null) \<Rightarrow> Some None
      | Some (Some j) \<Rightarrow> map_option Some (dj j))"

fun remote_of_json :: "(json \<Rightarrow> encrypted_item option) \<Rightarrow> json \<Rightarrow> remote_item option" where
  "remote_of_json dj (J_Obj fs) =
     Option.bind (req_str fs ''item_id'') (\<lambda>item_id.
     Option.bind (req_i64 fs ''revision'') (\<lambda>revision.
     Option.bind (req_i64 fs ''seq'') (\<lambda>seq.
     Option.bind (req_bool fs ''deleted'') (\<lambda>deleted.
     Option.bind (content_of_json dj fs) (\<lambda>content.
       Some \<lparr>ri_item_id = item_id, ri_revision = revision, ri_seq = seq, ri_deleted = deleted,
             ri_content = content\<rparr>)))))"
| "remote_of_json dj _ = None"

fun all_some :: "'a option list \<Rightarrow> 'a list option" where
  "all_some [] = Some []"
| "all_some (x # xs) = Option.bind x (\<lambda>y. map_option ((#) y) (all_some xs))"

fun pull_of_json :: "(json \<Rightarrow> encrypted_item option) \<Rightarrow> json \<Rightarrow> pull_response option" where
  "pull_of_json dj (J_Obj fs) =
     Option.bind (Option.bind (req_value fs ''items'') as_array) (\<lambda>items.
     Option.bind (all_some (map (remote_of_json dj) items)) (\<lambda>rs.
     Option.bind (req_i64 fs ''latest_seq'') (\<lambda>latest.
     Option.bind (req_bool fs ''full_resync'') (\<lambda>full.
       Some \<lparr>pr_items = rs, pr_latest_seq = latest, pr_full_resync = full\<rparr>))))"
| "pull_of_json dj _ = None"

section \<open>The line\<close>

text \<open>What carries a request: how the URL library turns an address into the path the router sees, what
  the client makes of a body that is not JSON, how it reads an envelope.\<close>

record line =
  ln_app :: web_app
  ln_wire :: wire
  ln_path :: "text \<Rightarrow> text option"
  ln_not_json :: "text \<Rightarrow> text"
  ln_item_of :: "json \<Rightarrow> encrypted_item option"

record visit =
  vs_others :: "other_req list"
  vs_fate :: fate
  vs_ctx :: ctx

record net =
  nt_srv :: srv
  nt_plan :: "visit list"

definition reply_body :: "line \<Rightarrow> http_reply \<Rightarrow> text + json" where
  "reply_body N r = (case hr_body r of Body_Json j \<Rightarrow> Inr j | Body_Text t \<Rightarrow> Inl (ln_not_json N t))"

text \<open>One request: the other devices, then this one, unless it is lost; a plan that has ended means the
  server is out of reach.\<close>

definition net_http :: "line \<Rightarrow> net http" where
  "net_http N t rq =
     (case nt_plan t of
        [] \<Rightarrow> (Inl (lit ''unreachable''), t)
      | v # vs \<Rightarrow>
          (let s1 = fold (run_other (sv_env (ln_app N))) (vs_others v) (nt_srv t);
               lost = (\<lambda>e s. (Inl e, \<lparr>nt_srv = s, nt_plan = vs\<rparr>))
           in case ln_path N (rq_url rq) of
                None \<Rightarrow> lost (lit ''unreachable'') s1
              | Some path \<Rightarrow>
                  (let (r, s2) = serve (ln_app N) (vs_ctx v) path rq s1
                   in case vs_fate v of
                        Delivered \<Rightarrow> (Inr (hr_status r, reply_body N r), \<lparr>nt_srv = s2, nt_plan = vs\<rparr>)
                      | Lost_Request e \<Rightarrow> lost e s1
                      | Lost_Response e \<Rightarrow> lost e s2)))"

text \<open>An id that a URL carries as it is.\<close>

definition url_plain :: "text \<Rightarrow> bool" where
  "url_plain t \<longleftrightarrow> t \<noteq> [] \<and> list_all (\<lambda>c. is_ascii_alphanumeric c \<or> c = 45) t"

text \<open>Both sides of the line agree: addresses of plain segments reach the service, JSON that is printed
  parses back to itself, and an envelope is read the same from text and from a value.\<close>

definition line_ok :: "line \<Rightarrow> text \<Rightarrow> bool" where
  "line_ok N base \<longleftrightarrow>
     (\<forall>p. list_all (\<lambda>c. is_ascii_alphanumeric c \<or> c = 45 \<or> c = 47) p \<longrightarrow> ln_path N (base @ p) = Some p)
     \<and> (\<forall>t. e_item_of_json (sv_env (ln_app N)) t = Option.bind (sv_js_parse (ln_app N) t) (ln_item_of N))
     \<and> json_ok (sv_env (ln_app N)) \<and> ln_item_of N J_Null = None
     \<and> (\<forall>e. e_item_of_json (sv_env (ln_app N)) (sv_js_text (ln_app N) (wi_item_to (ln_wire N) e)) = Some e)
     \<and> (\<forall>j. sum_option (wi_pull_of (ln_wire N) j) = pull_of_json (ln_item_of N) j)
     \<and> (\<forall>j. sum_option (wi_remote_of (ln_wire N) j) = remote_of_json (ln_item_of N) j)"

section \<open>Bounds\<close>

text \<open>Revisions never pass sequence numbers, and counters stay within \<open>i64\<close> for \<open>k\<close> more writes.\<close>

definition small :: "nat \<Rightarrow> srv \<Rightarrow> bool" where
  "small k s \<longleftrightarrow> (\<forall>r \<in> set (vault_items s). vi_revision r \<le> vi_seq r)
     \<and> (\<forall>a \<in> set (accounts s). ac_sync_seq a + int k < 2 ^ 63)"

lemma small_mono: "small k s \<Longrightarrow> j \<le> k \<Longrightarrow> small j s"
  by (force simp: small_def)

lemma written_small:
  assumes "written acc i row s s'" and "items_ok E s" and "small (Suc k) s"
    and "\<And>r. item_row_of s acc i = Some r \<Longrightarrow> vi_revision row = vi_revision r + 1"
    and "item_row_of s acc i = None \<Longrightarrow> vi_revision row = 1"
  shows "small k s'"
proof -
  obtain a where a: "account_by_id s acc = Some a" "vi_seq row = ac_sync_seq a + 1"
    using assms(1) unfolding written_def by (elim conjE) force
  then have am: "a \<in> set (accounts s)" "ac_id a = acc" by (auto dest: account_by_idD)
  have "vi_revision row \<le> vi_seq row"
  proof (cases "item_row_of s acc i")
    case None
    have "0 \<le> ac_sync_seq a" using am assms(2) by (force simp: items_ok_def)
    with None assms(5) a(2) show ?thesis by simp
  next
    case (Some r)
    then have r: "r \<in> set (vault_items s)" "vi_account_id r = acc"
      using item_row_of_iff[OF assms(2)] by (auto simp: is_item_def)
    then obtain b where "b \<in> set (accounts s)" "ac_id b = acc" "vi_seq r \<le> ac_sync_seq b"
      using assms(2) unfolding items_ok_def by blast
    then have "vi_seq r \<le> ac_sync_seq a" using account_by_id_iff[OF assms(2), of acc b] a(1) by simp
    moreover have "vi_revision r \<le> vi_seq r" using assms(3) r(1) by (simp add: small_def)
    ultimately show ?thesis using assms(4)[OF Some] a(2) by simp
  qed
  moreover have "set (vault_items s') = insert row {r \<in> set (vault_items s). \<not> is_item acc i r}"
    using assms(1) unfolding written_def by (elim conjE)
  ultimately have "\<forall>r \<in> set (vault_items s'). vi_revision r \<le> vi_seq r" using assms(3) unfolding small_def by auto
  moreover have "ac_sync_seq b + int k < 2 ^ 63" if b: "b \<in> set (accounts s')" for b
  proof -
    have "accounts s' = update_where (\<lambda>a. ac_id a = acc) (\<lambda>a. a\<lparr>ac_sync_seq := ac_sync_seq a + 1\<rparr>) (accounts s)"
      using assms(1) unfolding written_def by (elim conjE)
    with b obtain c where "c \<in> set (accounts s)" "ac_sync_seq b \<le> ac_sync_seq c + 1"
      by (auto simp: set_update_where split: if_splits)
    moreover have "ac_sync_seq c + int (Suc k) < 2 ^ 63" using assms(3) calculation(1) unfolding small_def by blast
    ultimately show ?thesis by simp
  qed
  ultimately show ?thesis unfolding small_def by blast
qed

lemma step_small:
  assumes "items_step E s s'" and "items_ok E s" and "small (Suc k) s"
  shows "small k s'"
  using assms(1)
proof cases
  case (step_list now au since r)
  have "small (Suc k) (purge_tombstones acc now s)" for acc
    using assms(3) by (auto simp: small_def purge_tombstones_def Let_def update_account_def set_update_where)
  then have "small (Suc k) s'" using step_list assms(3)
    by (auto simp: list_items_def Let_def split: option.splits)
  then show ?thesis by (rule small_mono) simp
next
  case (step_put now au i body r)
  have m: "small k s" using assms(3) by (rule small_mono) simp
  let ?acc = "au_account_id au"
  from put_item_cases[OF assms(2), of now au i body] show ?thesis
  proof (elim disjE exE conjE)
    fix e
    assume "let current = item_row_of s ?acc i;
             rev = (case current of None \<Rightarrow> 0 | Some r \<Rightarrow> vi_revision r)
         in if int (unat (ei_revision e)) \<noteq> rev + 1
            then put_item E now au i body s
                   = (Inr (Conflict_409 (map_option (row_to_remote E) current)), s)
            else if account_by_id s ?acc = None
            then put_item E now au i body s = (Inl Internal, s)
            else \<exists>row s'. put_item E now au i body s
                     = (Inr (Written i (rev + 1) (Some (vi_seq row)) False), s')
                   \<and> written ?acc i row s s'
                   \<and> vi_revision row = rev + 1 \<and> vi_content row = Some body
                   \<and> \<not> vi_deleted row \<and> vi_updated_at row = now"
    then consider "s' = s" | row where "written ?acc i row s s'"
      "vi_revision row = (case item_row_of s ?acc i of None \<Rightarrow> 0 | Some r \<Rightarrow> vi_revision r) + 1"
      using step_put by (auto simp: Let_def split: if_splits)
    then show ?thesis by cases (use m in simp, rule written_small[OF _ assms(2,3)], auto)
  qed (use step_put m in simp)
next
  case (step_delete now au i base r)
  have m: "small k s" using assms(3) by (rule small_mono) simp
  let ?acc = "au_account_id au"
  from delete_item_cases[OF assms(2), of now au i base] step_delete
  consider "s' = s" | row q where "written ?acc i row s s'" "item_row_of s ?acc i = Some q"
      "vi_revision row = vi_revision q + 1"
    by (auto split: option.splits if_splits)
  then show ?thesis by cases (use m in simp, rule written_small[OF _ assms(2,3)], auto)
next
  case (step_checkpoint au seq tag r)
  have "small k s" using assms(3) by (rule small_mono) simp
  then show ?thesis using step_checkpoint
    by (auto simp: put_checkpoint_def small_def set_update_where split: option.splits if_splits)
qed

section \<open>Whose tokens\<close>

text \<open>The hashes of the tokens the client has or can still draw: rows of the session table with one of them
  are of the client's account.\<close>

definition access_hashes :: "env \<Rightarrow> client \<Rightarrow> visit list \<Rightarrow> bytes set" where
  "access_hashes E c plan = (\<lambda>t. e_sha256 E (as_bytes t)) ` set_option (cl_access c)
     \<union> (\<lambda>v. access_hash_of E (cx_tokens (vs_ctx v))) ` set plan"

definition refresh_hashes :: "env \<Rightarrow> client \<Rightarrow> visit list \<Rightarrow> bytes set" where
  "refresh_hashes E c plan = (\<lambda>t. e_sha256 E (as_bytes t)) ` set_option (cl_refresh c)
     \<union> (\<lambda>v. refresh_hash_of E (cx_tokens (vs_ctx v))) ` set plan"

definition owned :: "env \<Rightarrow> int \<Rightarrow> client \<Rightarrow> visit list \<Rightarrow> session_row list \<Rightarrow> bool" where
  "owned E acc c plan rows \<longleftrightarrow> (\<forall>r \<in> set rows. se_access_hash r \<in> access_hashes E c plan
     \<or> se_refresh_hash r \<in> refresh_hashes E c plan \<longrightarrow> se_account_id r = acc)"

lemma owned_fewer:
  assumes "owned E acc c (v # vs) rows"
  shows "owned E acc c vs rows" and "owned E acc \<lparr>cl_access = None, cl_refresh = None\<rparr> vs rows"
  using assms by (auto simp: owned_def access_hashes_def refresh_hashes_def)

lemma owned_rotated:
  assumes "owned E acc c (v # vs) rows"
  shows "owned E acc \<lparr>cl_access = Some (fst (new_token E (sd_access (cx_tokens (vs_ctx v))) (lit ''bvat_''))),
    cl_refresh = Some (fst (new_token E (sd_refresh (cx_tokens (vs_ctx v))) (lit ''bvrt_'')))\<rparr> vs rows"
  using assms
  by (auto simp: owned_def access_hashes_def refresh_hashes_def access_hash_of_def refresh_hash_of_def
      new_token_def Let_def)

lemma owned_authenticate:
  assumes "owned E acc c plan (sessions s)" and "cl_access c = Some token"
    and "authenticate E now (Some (lit ''Bearer '' @ token)) s = Inr au"
  shows "au_account_id au = acc"
proof -
  obtain token' r where t: "lit ''Bearer '' @ token = lit ''Bearer '' @ token'" "r \<in> set (sessions s)"
    "session_live now (e_sha256 E (as_bytes token')) r" "au_account_id au = se_account_id r"
    using authenticate_Inr[OF assms(3)] by (metis auth_session.select_convs(1) option.inject)
  with assms(1,2) show ?thesis by (auto simp: owned_def access_hashes_def session_live_def)
qed

lemma owned_update:
  assumes "\<And>r. se_access_hash (f r) = se_access_hash r" and "\<And>r. se_refresh_hash (f r) = se_refresh_hash r"
    and "\<And>r. se_account_id (f r) = se_account_id r" and "owned E acc c plan rows"
  shows "owned E acc c plan (update_where p f rows)"
  using assms by (auto simp: owned_def set_update_where split: if_splits)

text \<open>A refresh with the client's token adds a row of the client's account, or none.\<close>

lemma owned_refresh:
  assumes "owned E acc c (v # vs) (sessions s)" and "cl_refresh c = Some token"
    and "refresh E now d token s = (res, s')"
  shows "owned E acc c (v # vs) (sessions s')"
proof (cases res)
  case (Inl e)
  then show ?thesis using assms(1,3)
    by (auto simp: refresh_def Let_def case_prod_beta intro!: owned_update split: option.splits if_splits)
next
  case (Inr tokens)
  from refresh_Inr[OF assms(3)[unfolded Inr]] obtain row cap kept
    where row: "row \<in> set (sessions s)" "se_refresh_hash row = e_sha256 E (as_bytes token)"
    and kept: "kept = update_where (\<lambda>r. se_id r = se_id row) (\<lambda>r. r\<lparr>se_revoked_at := Some now\<rparr>) (sessions s)"
    and s': "sessions s' = kept @ [session_row_for E d (se_account_id row) (se_family_id row) (se_device_name row) now
           (se_created_at row) cap (next_id se_id kept)]"
    by metis
  have "se_account_id row = acc" using assms(1,2) row by (auto simp: owned_def refresh_hashes_def)
  moreover have "owned E acc c (v # vs) kept" unfolding kept by (rule owned_update[OF _ _ _ assms(1)]) simp_all
  ultimately show ?thesis unfolding s' by (auto simp: owned_def)
qed

lemma refresh_tokens:
  assumes "refresh E now d token s = (Inr tokens, s')"
  shows "tokens = (fst (new_token E (sd_access d) (lit ''bvat_'')), fst (new_token E (sd_refresh d) (lit ''bvrt_'')))"
  using assms by (auto simp: refresh_def Let_def insert_session_row_def case_prod_beta split: option.splits if_splits)

lemma refresh_frame:
  assumes "refresh E now d token s = (res, s')"
  shows "accounts s' = accounts s \<and> vault_items s' = vault_items s"
  using assms by (auto simp: refresh_def Let_def insert_session_row_def case_prod_beta split: option.splits if_splits)

lemma items_step_sessions: "items_step E s s' \<Longrightarrow> sessions s' = sessions s"
  by (cases rule: items_step.cases, assumption)
    (auto simp: list_items_def put_item_def delete_item_def put_checkpoint_def Let_def next_seq_def notify_def
      purge_tombstones_def update_account_def split: option.splits if_splits prod.splits)

section \<open>One round trip\<close>

definition cost :: "visit list \<Rightarrow> nat" where
  "cost plan = sum_list (map (\<lambda>v. length (vs_others v) + 1) plan)"

definition srv_ok :: "env \<Rightarrow> int \<Rightarrow> nat \<Rightarrow> srv \<Rightarrow> bool" where
  "srv_ok E acc k s \<longleftrightarrow> items_ok E s \<and> account_by_id s acc \<noteq> None \<and> small k s"

definition net_ok :: "env \<Rightarrow> int \<Rightarrow> client \<Rightarrow> net \<Rightarrow> bool" where
  "net_ok E acc c t \<longleftrightarrow> srv_ok E acc (cost (nt_plan t)) (nt_srv t) \<and> owned E acc c (nt_plan t) (sessions (nt_srv t))"

abbreviation moves_on :: "int \<Rightarrow> net \<Rightarrow> net \<Rightarrow> bool" where
  "moves_on acc t t' \<equiv> items_evolve acc (nt_srv t) (nt_srv t')"

lemma srv_ok_evolve_refl: "srv_ok E acc k s \<Longrightarrow> items_evolve acc s s"
  by (auto simp: srv_ok_def intro: items_evolve_refl)

lemma srv_ok_mono: "srv_ok E acc k s \<Longrightarrow> j \<le> k \<Longrightarrow> srv_ok E acc j s"
  by (auto simp: srv_ok_def intro: small_mono)

lemma srv_ok_step:
  assumes "items_step E s s'" and "srv_ok E acc (Suc k) s"
  shows "srv_ok E acc k s' \<and> items_evolve acc s s' \<and> sessions s' = sessions s"
proof -
  have "items_ok E s'" and "items_evolve acc s s'"
    using items_step_laws[OF assms(1)] assms(2) by (auto simp: srv_ok_def)
  then show ?thesis using step_small[OF assms(1)] items_step_sessions[OF assms(1)] assms(2)
    by (auto simp: srv_ok_def items_evolve_def)
qed

lemma srv_ok_others:
  assumes "srv_ok E acc (length os + k) s"
  shows "srv_ok E acc k (fold (run_other E) os s) \<and> items_evolve acc s (fold (run_other E) os s)
    \<and> sessions (fold (run_other E) os s) = sessions s"
  using assms
proof (induction os arbitrary: s)
  case Nil
  then show ?case by (simp add: srv_ok_evolve_refl)
next
  case (Cons x os)
  have "items_step E s (run_other E x s)"
    by (cases x) (auto intro: step_put step_delete step_list step_checkpoint prod.collapse[symmetric])
  from srv_ok_step[OF this, of acc "length os + k"] Cons.prems
  have s1: "srv_ok E acc (length os + k) (run_other E x s)" "items_evolve acc s (run_other E x s)"
    "sessions (run_other E x s) = sessions s" by simp_all
  from Cons.IH[OF s1(1)] s1(2,3) show ?case by (auto intro: items_evolve_trans)
qed

text \<open>A request that reaches a route: the server the handler sees, and what the client is told.\<close>

lemma net_http_cases:
  assumes "net_http N t rq = (res, t')" and "net_ok (sv_env (ln_app N)) acc c t"
    and "ln_path N (rq_url rq) = Some path"
  obtains (down) e where "res = Inl e" and "t' = t"
  | (visit) v vs s1 r s2 where "nt_plan t = v # vs" and "nt_plan t' = vs"
      and "srv_ok (sv_env (ln_app N)) acc (Suc (cost vs)) s1" and "items_evolve acc (nt_srv t) s1"
      and "owned (sv_env (ln_app N)) acc c (v # vs) (sessions s1)"
      and "serve (ln_app N) (vs_ctx v) path rq s1 = (r, s2)"
      and "(\<exists>e. res = Inl e) \<and> (nt_srv t' = s1 \<or> nt_srv t' = s2)
        \<or> res = Inr (hr_status r, reply_body N r) \<and> nt_srv t' = s2"
proof (cases "nt_plan t")
  case Nil
  with assms(1) show ?thesis by (intro down) (auto simp: net_http_def)
next
  case (Cons v vs)
  let ?E = "sv_env (ln_app N)"
  define s1 where "s1 = fold (run_other ?E) (vs_others v) (nt_srv t)"
  obtain r s2 where r: "serve (ln_app N) (vs_ctx v) path rq s1 = (r, s2)" by fastforce
  have "srv_ok ?E acc (length (vs_others v) + Suc (cost vs)) (nt_srv t)"
    and own: "owned ?E acc c (v # vs) (sessions (nt_srv t))"
    using assms(2) Cons by (simp_all add: net_ok_def cost_def)
  note s1 = srv_ok_others[OF this(1), folded s1_def]
  have "(\<exists>e. res = Inl e) \<and> (nt_srv t' = s1 \<or> nt_srv t' = s2)
        \<or> res = Inr (hr_status r, reply_body N r) \<and> nt_srv t' = s2"
    and "nt_plan t' = vs"
    using assms(1,3) Cons r by (auto simp: net_http_def Let_def simp flip: s1_def split: fate.splits)
  with s1 own show ?thesis by (intro visit[OF Cons _ _ _ _ r]) simp_all
qed

text \<open>A request to the item routes.\<close>

lemma net_items:
  assumes "net_http N t rq = (res, t')" and "net_ok (sv_env (ln_app N)) acc c t"
    and "ln_path N (rq_url rq) = Some path"
    and step: "\<forall>cx s. snd (serve (ln_app N) cx path rq s) = s
      \<or> items_step (sv_env (ln_app N)) s (snd (serve (ln_app N) cx path rq s))"
  shows "net_ok (sv_env (ln_app N)) acc c t' \<and> moves_on acc t t'
    \<and> (\<forall>status body. res = Inr (status, body) \<longrightarrow> (\<exists>s1 cx r. srv_ok (sv_env (ln_app N)) acc 1 s1
          \<and> items_evolve acc (nt_srv t) s1 \<and> owned (sv_env (ln_app N)) acc c [] (sessions s1)
          \<and> serve (ln_app N) cx path rq s1 = (r, nt_srv t') \<and> status = hr_status r \<and> body = reply_body N r))"
  using assms(1-3)
proof (cases rule: net_http_cases)
  case (down e)
  then show ?thesis using assms(2) by (auto simp: net_ok_def intro: srv_ok_evolve_refl)
next
  case (visit v vs s1 r s2)
  let ?E = "sv_env (ln_app N)"
  have s2: "srv_ok ?E acc (cost vs) s2 \<and> items_evolve acc s1 s2 \<and> sessions s2 = sessions s1"
    using step[rule_format, of "vs_ctx v" s1] visit(6) srv_ok_step[of ?E s1 s2 acc "cost vs"] visit(3) srv_ok_mono[OF visit(3), of "cost vs"]
    by (auto intro: srv_ok_evolve_refl)
  have s1: "srv_ok ?E acc (cost vs) s1" using visit(3) by (rule srv_ok_mono) simp
  have "owned ?E acc c vs (sessions s1)" using visit(5) by (rule owned_fewer)
  moreover have "owned ?E acc c [] (sessions s1)" using visit(5)
    by (auto simp: owned_def access_hashes_def refresh_hashes_def)
  moreover have "srv_ok ?E acc 1 s1" using visit(3) by (rule srv_ok_mono) simp
  ultimately show ?thesis using s1 s2 visit(2,4,6,7) items_evolve_trans[OF visit(4), of s2]
    by (auto simp: net_ok_def)
qed

section \<open>Rotation and retry\<close>

lemma line_path:
  assumes "line_ok N base" and "list_all (\<lambda>c. is_ascii_alphanumeric c \<or> c = 45 \<or> c = 47) p"
  shows "ln_path N (base @ p) = Some p"
  using assms by (simp add: line_ok_def)

lemma refresh_served:
  assumes "serve A cx (lit ''/api/v1/auth/refresh'') (plain_request POST url []
      (Some (J_Obj [(''refresh_token'', J_Str token)]))) s = (r, s')"
  shows "\<exists>res. refresh (sv_env A) (cx_now cx) (cx_tokens cx) token s = (res, s')
    \<and> r = (case res of Inl e \<Rightarrow> error_reply e | Inr t \<Rightarrow> ok_json (tokens_json t))"
proof -
  have "route POST (lit ''/api/v1/auth/refresh'') = Routed Ep_Refresh" by code_simp
  then show ?thesis using assms
    by (auto simp: serve_def plain_request_def with_body_def req_str_def req_value_def once_def finish_def
        split: prod.splits sum.splits)
qed

lemma error_not_ok: "\<not> is_success (hr_status (error_reply e))"
  by (cases e) (simp_all add: error_reply_def api_error_response_def is_success_def)

text \<open>Whatever becomes of a rotation, the tokens the client is left with are of its account.\<close>

lemma rotate_laws:
  assumes "line_ok N base" and "net_ok (sv_env (ln_app N)) acc c t"
    and "refresh_session (rotate_call (net_http N) base) c t = (out, c', t')"
  shows "net_ok (sv_env (ln_app N)) acc c' t' \<and> moves_on acc t t'"
proof (cases "cl_refresh c")
  case None
  then show ?thesis using assms(2,3) by (auto simp: refresh_session_def net_ok_def intro: srv_ok_evolve_refl)
next
  case (Some f)
  let ?E = "sv_env (ln_app N)" and ?p = "lit ''/api/v1/auth/refresh''"
  let ?rq = "plain_request POST (base @ ?p) [] (Some (J_Obj [(''refresh_token'', J_Str f)]))"
  obtain res t1 where h: "net_http N t ?rq = (res, t1)" by fastforce
  have "list_all (\<lambda>c. is_ascii_alphanumeric c \<or> c = 45 \<or> c = 47) ?p" by code_simp
  from line_path[OF assms(1) this] have path: "ln_path N (rq_url ?rq) = Some ?p" by (simp add: plain_request_def)
  from h assms(2) path show ?thesis
  proof (cases rule: net_http_cases)
    case (down e)
    then show ?thesis using assms(2,3) Some h
      by (auto simp: refresh_session_def rotate_call_def net_ok_def intro: srv_ok_evolve_refl)
  next
    case (visit v vs s1 r s2)
    obtain y where y: "refresh ?E (cx_now (vs_ctx v)) (cx_tokens (vs_ctx v)) f s1 = (y, s2)"
      "r = (case y of Inl e \<Rightarrow> error_reply e | Inr t \<Rightarrow> ok_json (tokens_json t))"
      using refresh_served[OF visit(6)] by blast
    have own: "owned ?E acc c (v # vs) (sessions s2)" by (rule owned_refresh[OF visit(5) Some y(1)])
    obtain a where a: "account_by_id s1 acc = Some a" using visit(3) by (auto simp: srv_ok_def)
    note fr = refresh_frame[OF y(1)]
    have ev: "items_evolve acc s1 s2" using items_evolve_frame[OF a, of s2 "\<lambda>x. x"] fr by simp
    have ok: "srv_ok ?E acc (cost vs) s" if "s = s1 \<or> s = s2" for s
      using that srv_ok_mono[OF visit(3), of "cost vs"] fr
      by (auto simp: srv_ok_def items_ok_def small_def account_by_id_def)
    have toks: "owned ?E acc c' vs (sessions (nt_srv t'))" and t': "t' = t1"
    proof -
      show "t' = t1" using assms(3) Some h
        by (auto simp: refresh_session_def rotate_call_def split: sum.splits prod.splits option.splits if_splits)
      consider (same) "c' = c" | (none) "c' = \<lparr>cl_access = None, cl_refresh = None\<rparr>"
        | (new) a b where "y = Inr (a, b)" "c' = \<lparr>cl_access = Some a, cl_refresh = Some b\<rparr>"
        using assms(3) Some h visit(7) y(2) error_not_ok
        by (auto simp: refresh_session_def rotate_call_def reply_body_def ok_json_def tokens_json_def is_success_def
            split: sum.splits prod.splits option.splits if_splits body.splits)
      moreover have "owned ?E acc c (v # vs) (sessions (nt_srv t'))"
        using visit(5,7) own \<open>t' = t1\<close> by auto
      ultimately show "owned ?E acc c' vs (sessions (nt_srv t'))"
      proof cases
        case (new a b)
        with refresh_tokens[of ?E] y(1) owned_rotated[OF \<open>owned ?E acc c (v # vs) (sessions (nt_srv t'))\<close>]
        show ?thesis by auto
      qed (auto dest: owned_fewer)
    qed
    have "srv_ok ?E acc (cost vs) (nt_srv t1)" "items_evolve acc (nt_srv t) (nt_srv t1)"
      using ok visit(4,7) ev by (auto intro: items_evolve_trans)
    with toks t' visit(2) show ?thesis by (simp add: net_ok_def)
  qed
qed

text \<open>A handler behind the session extractor, reached by a request of the client.\<close>

type_synonym handler = "ctx \<Rightarrow> auth_session \<Rightarrow> srv \<Rightarrow> http_reply \<times> srv"

definition routed_to :: "line \<Rightarrow> text \<Rightarrow> (text \<Rightarrow> request) \<Rightarrow> handler \<Rightarrow> bool" where
  "routed_to N base build h \<longleftrightarrow> (\<exists>p. ln_path N (rq_url (build base)) = Some p
     \<and> (\<forall>cx token s. serve (ln_app N) cx p ((build base)\<lparr>rq_bearer := Some token\<rparr>) s
          = with_auth (ln_app N) cx ((build base)\<lparr>rq_bearer := Some token\<rparr>) (h cx) s))
     \<and> (\<forall>cx au s. snd (h cx au s) = s \<or> items_step (sv_env (ln_app N)) s (snd (h cx au s)))"

text \<open>The answer of a delivered call: the handler ran, for a session of the account.\<close>

definition answered :: "line \<Rightarrow> int \<Rightarrow> handler \<Rightarrow> net \<Rightarrow> net \<Rightarrow> nat \<Rightarrow> json \<Rightarrow> bool" where
  "answered N acc h t t' status body \<longleftrightarrow> (\<exists>s1 cx au r. srv_ok (sv_env (ln_app N)) acc 1 s1
     \<and> items_evolve acc (nt_srv t) s1 \<and> au_account_id au = acc \<and> h cx au s1 = (r, nt_srv t')
     \<and> status = hr_status r \<and> body = body_or_null (reply_body N r))"

lemma once_laws:
  assumes "net_ok (sv_env (ln_app N)) acc c t" and "routed_to N base build h"
    and "authed_once (bearer_call (net_http N) build base) c t = (out, t')"
  shows "net_ok (sv_env (ln_app N)) acc c t' \<and> moves_on acc t t'
    \<and> (\<forall>status body. out = Inr (status, body) \<longrightarrow> status \<noteq> 401 \<longrightarrow> answered N acc h t t' status body)"
proof (cases "cl_access c")
  case None
  then show ?thesis using assms(1,3) by (auto simp: authed_once_def net_ok_def intro: srv_ok_evolve_refl)
next
  case (Some token)
  let ?E = "sv_env (ln_app N)" and ?rq = "(build base)\<lparr>rq_bearer := Some token\<rparr>"
  obtain p where p: "ln_path N (rq_url ?rq) = Some p"
    "\<And>cx s. serve (ln_app N) cx p ?rq s = with_auth (ln_app N) cx ?rq (h cx) s"
    using assms(2) by (auto simp: routed_to_def)
  have st: "snd (h cx au s) = s \<or> items_step ?E s (snd (h cx au s))" for cx au s
    using assms(2) by (simp add: routed_to_def)
  obtain res t1 where res: "net_http N t ?rq = (res, t1)" by fastforce
  have t': "t' = t1" "\<And>status body. out = Inr (status, body) \<Longrightarrow> \<exists>b. res = Inr (status, b) \<and> body = body_or_null b"
    using assms(3) Some res by (auto simp: authed_once_def bearer_call_def split: prod.splits sum.splits)
  have bt: "map_option ((@) (lit ''Bearer '')) (rq_bearer ?rq) = Some (lit ''Bearer '' @ token)" by simp
  have "\<forall>cx s. snd (serve (ln_app N) cx p ?rq s) = s \<or> items_step ?E s (snd (serve (ln_app N) cx p ?rq s))"
    using p(2) st by (simp add: with_auth_def split: sum.split)
  note laws = net_items[OF res assms(1) p(1) this]
  have "answered N acc h t t' status body" if out: "out = Inr (status, body)" "status \<noteq> 401" for status body
  proof -
    obtain b where b: "res = Inr (status, b)" "body = body_or_null b" using t'(2)[OF out(1)] by blast
    obtain s1 cx r where s1: "srv_ok ?E acc 1 s1" "items_evolve acc (nt_srv t) s1"
      "owned ?E acc c [] (sessions s1)" "serve (ln_app N) cx p ?rq s1 = (r, nt_srv t')"
      "status = hr_status r" "b = reply_body N r"
      using laws b(1) t'(1) by blast
    show ?thesis
    proof (cases "authenticate ?E (cx_now cx) (Some (lit ''Bearer '' @ token)) s1")
      case (Inl e)
      then have "r = error_reply InvalidToken"
        using s1(4) p(2) with_auth_refuses[of "ln_app N" cx ?rq s1 e "h cx"] bt by auto
      with s1(5) out(2) show ?thesis by (simp add: error_reply_def api_error_response_def)
    next
      case (Inr au)
      have "au_account_id au = acc" by (rule owned_authenticate[OF s1(3) Some Inr])
      moreover have "h cx au s1 = (r, nt_srv t')" using s1(4) p(2) Inr bt by (simp add: with_auth_def)
      ultimately show ?thesis using s1(1,2,5,6) b(2) by (auto simp: answered_def)
    qed
  qed
  with laws t'(1) show ?thesis by blast
qed

lemma answered_later:
  "answered N acc h t1 t' status body \<Longrightarrow> moves_on acc t t1 \<Longrightarrow> answered N acc h t t' status body"
  unfolding answered_def by (elim exE conjE, intro exI conjI) (assumption | erule (1) items_evolve_trans)+

text \<open>Two rounds and a rotation between them.\<close>

lemma authed_laws:
  assumes "line_ok N base" and "net_ok (sv_env (ln_app N)) acc c t" and "routed_to N base build h"
    and "authed (rotate_call (net_http N) base) (bearer_call (net_http N) build base) c t = (out, c', t')"
  shows "net_ok (sv_env (ln_app N)) acc c' t' \<and> moves_on acc t t'
    \<and> (\<forall>status body. out = Inr (status, body) \<longrightarrow> status \<noteq> 401 \<longrightarrow> answered N acc h t t' status body)"
proof -
  let ?call = "bearer_call (net_http N) build base"
  obtain r1 t1 where o1: "authed_once ?call c t = (r1, t1)" by fastforce
  note l1 = once_laws[OF assms(2,3) o1]
  show ?thesis
  proof (cases "\<exists>body. r1 = Inr (401, body)")
    case False
    then have "out = r1" "c' = c" "t' = t1"
      using assms(4) o1 by (auto simp: authed_def split: sum.splits prod.splits if_splits)
    with l1 show ?thesis by simp
  next
    case True
    obtain r2 c2 t2 where rf: "refresh_session (rotate_call (net_http N) base) c t1 = (r2, c2, t2)"
      by (metis surj_pair)
    have ok1: "net_ok (sv_env (ln_app N)) acc c t1" using l1 by simp
    note l2 = rotate_laws[OF assms(1) ok1 rf]
    obtain r3 t3 where o3: "authed_once ?call c2 t2 = (r3, t3)" by fastforce
    have ok2: "net_ok (sv_env (ln_app N)) acc c2 t2" using l2 by simp
    note l3 = once_laws[OF ok2 assms(3) o3]
    have m: "moves_on acc t t2" using l1 l2 by (blast intro: items_evolve_trans)
    have "(\<exists>e. out = Inl e) \<and> c' = c2 \<and> t' = t2 \<or> out = r3 \<and> c' = c2 \<and> t' = t3"
      using assms(4) o1 True rf o3 by (cases r2) (auto simp: authed_def)
    then show ?thesis
    proof
      assume "out = r3 \<and> c' = c2 \<and> t' = t3"
      with l3 m answered_later show ?thesis by (blast intro: items_evolve_trans)
    qed (use l2 m in auto)
  qed
qed

end
