(* ===== verification/Http_Pair.thy ===== *)
theory Http_Pair
  imports Http_Line
begin

text \<open>
  The item routes over the line of \<open>Http_Line\<close>: both sides read the same of what they exchange, so the
  client over HTTP keeps the contract \<open>sync_service\<close> and the SQLite replica converges over the whole
  path, from JSON bodies to rows of tables and back.
\<close>

section \<open>The item routes\<close>

text \<open>No fixed route hides an item.\<close>

lemma no_fixed_item: "list_all (\<lambda>(p, _). \<not> starts_with (lit p) (lit ''/api/v1/vault/items/'')) fixed_routes"
  by code_simp

lemma route_item:
  assumes "url_plain i"
  shows "route m (lit ''/api/v1/vault/items/'' @ i)
    = (case m of PUT \<Rightarrow> Routed (Ep_Put_Item i) | DELETE \<Rightarrow> Routed (Ep_Delete_Item i) | _ \<Rightarrow> Method_Refused)"
proof -
  let ?path = "lit ''/api/v1/vault/items/'' @ i"
  have "map_of (map (\<lambda>(p, ms). (lit p, ms)) fixed_routes) ?path = None"
  proof (rule ccontr)
    assume "map_of (map (\<lambda>(p, ms). (lit p, ms)) fixed_routes) ?path \<noteq> None"
    then obtain p ms where "(p, ms) \<in> set fixed_routes" "lit p = ?path"
      by (auto dest!: map_of_SomeD)
    with no_fixed_item show False by (auto simp: list_all_iff starts_with_iff)
  qed
  moreover have "strip_prefix ?path (lit ''/api/v1/sessions/'') = None" by (simp add: strip_prefix_def lit_def)
  moreover have "strip_prefix ?path (lit ''/api/v1/vault/items/'') = Some i" by (simp add: strip_prefix_def)
  moreover have "i \<noteq> []" "47 \<notin> set i"
    using assms by (auto simp: url_plain_def list_all_iff is_ascii_alphanumeric_def
        is_ascii_digit_def is_ascii_lower_def is_ascii_upper_def)
  ultimately show ?thesis by (simp add: route_def segment_routes_def segment_of_def split: http_method.split)
qed

definition upsert_h :: "line \<Rightarrow> encrypted_item \<Rightarrow> handler" where
  "upsert_h N e cx au s = finish (write_json (ln_app N))
     (put_item (sv_env (ln_app N)) (cx_now cx) au (ei_item_id e) (sv_js_text (ln_app N) (wi_item_to (ln_wire N) e)) s)"

definition delete_h :: "line \<Rightarrow> text \<Rightarrow> int \<Rightarrow> handler" where
  "delete_h N i base cx au s = with_query (ln_app N) (q_i64 [(''base_revision'', dec_int base)] ''base_revision'')
     (\<lambda>b s. finish (write_json (ln_app N)) (delete_item (sv_env (ln_app N)) (cx_now cx) au i b s)) s"

definition list_h :: "line \<Rightarrow> int \<Rightarrow> handler" where
  "list_h N since cx au s = with_query (ln_app N) (q_since [(''since'', dec_int since)])
     (\<lambda>b s. finish (list_json (ln_app N)) (list_items (sv_env (ln_app N)) (cx_now cx) au b s)) s"

lemma items_steps [simp]:
  "items_step E s (snd (list_items E now au since s))" "items_step E s (snd (put_item E now au i body s))"
  "items_step E s (snd (delete_item E now au i base s))"
  by (auto intro: step_list step_put step_delete prod.collapse[symmetric])

lemma plain_path: "url_plain i \<Longrightarrow> list_all (\<lambda>c. is_ascii_alphanumeric c \<or> c = 45 \<or> c = 47) (lit ''/api/v1/vault/items/'' @ i)"
  by (auto simp: url_plain_def list_all_iff lit_def is_ascii_alphanumeric_def
      is_ascii_digit_def is_ascii_lower_def is_ascii_upper_def)

lemma routed_upsert:
  assumes "line_ok N base" and "url_plain (ei_item_id e)"
  shows "routed_to N base (\<lambda>base. plain_request PUT (base @ lit ''/api/v1/vault/items/'' @ ei_item_id e) []
      (Some (wi_item_to (ln_wire N) e))) (upsert_h N e)"
  using line_path[OF assms(1) plain_path[OF assms(2)]]
  by (auto simp: routed_to_def serve_def plain_request_def route_item[OF assms(2)] with_auth_def upsert_h_def
      split: sum.split)

lemma routed_delete:
  assumes "line_ok N base" and "url_plain i"
  shows "routed_to N base (\<lambda>base. plain_request DELETE (base @ lit ''/api/v1/vault/items/'' @ i)
      [(''base_revision'', dec_int b)] None) (delete_h N i b)"
  using line_path[OF assms(1) plain_path[OF assms(2)]]
  by (auto simp: routed_to_def serve_def plain_request_def route_item[OF assms(2)] with_auth_def delete_h_def
      with_query_def split: option.split sum.split)

lemma routed_list:
  assumes "line_ok N base"
  shows "routed_to N base (\<lambda>base. plain_request GET (base @ lit ''/api/v1/vault/items'')
      [(''since'', dec_int since)] None) (list_h N since)"
proof -
  have "list_all (\<lambda>c. is_ascii_alphanumeric c \<or> c = 45 \<or> c = 47) (lit ''/api/v1/vault/items'')" by code_simp
  moreover have "route GET (lit ''/api/v1/vault/items'') = Routed Ep_List_Items" by code_simp
  ultimately show ?thesis using line_path[OF assms]
    by (auto simp: routed_to_def serve_def plain_request_def with_auth_def list_h_def with_query_def split: option.split sum.split)
qed

section \<open>Both sides read the same\<close>

lemma parse_digits_widen:
  assumes "parse_digits lo hi neg acc s = Inr m" and "lo' \<le> lo" and "hi \<le> hi'"
  shows "parse_digits lo' hi' neg acc s = Inr m"
  using assms by (induction s arbitrary: acc) (auto simp: Let_def split: if_splits)

text \<open>A printed integer that parses is the integer: what is out of range is refused.\<close>

lemma parse_i64_only:
  assumes "parse_i64 (dec_int n) = Inr m"
  shows "m = n"
proof -
  let ?lo = "min (- (2 ^ 63)) n" and ?hi = "max (2 ^ 63 - 1) n"
  have "parse_signed_text ?lo ?hi (dec_int n) = Inr m"
    using assms parse_digits_widen[of "- (2 ^ 63)" "2 ^ 63 - 1" _ 0 _ m ?lo ?hi]
    by (auto simp: parse_i64_def parse_signed_text_def simp del: parse_digits.simps split: list.splits if_splits)
  moreover have "parse_signed_text ?lo ?hi (dec_int n) = Inr n" by (rule parse_signed_dec) auto
  ultimately show ?thesis by simp
qed

lemma q_ints:
  "q_i64 [(k, dec_int n)] k = Some m \<Longrightarrow> m = n" "q_since [(''since'', dec_int n)] = Some m \<Longrightarrow> m = n"
  by (auto simp: q_i64_def q_str_def once_def q_since_def sum_option_def dest!: parse_i64_only split: sum.splits)

text \<open>The server of the line as the far end of a link that has nothing more to deliver, so that what is known
  of the handlers (\<open>link_pull\<close>, \<open>link_upsert\<close>, \<open>link_delete\<close>) applies.\<close>

definition far_end :: "srv \<Rightarrow> link" where
  "far_end s = \<lparr>lk_srv = s, lk_plan = []\<rparr>"

definition link_codec :: "line \<Rightarrow> codec" where
  "link_codec N = \<lparr>cd_item_to = (\<lambda>e. sv_js_text (ln_app N) (wi_item_to (ln_wire N) e)), cd_item_of = (\<lambda>_. None),
     cd_op_to = (\<lambda>_. []), cd_op_of = (\<lambda>_. None)\<rparr>"

lemma far_end_ok:
  assumes "line_ok N base" and "srv_ok (sv_env (ln_app N)) (au_account_id au) k s"
  shows "link_ok (sv_env (ln_app N)) (link_codec N) au (far_end s)"
proof -
  have "json_ok (sv_env (ln_app N))"
    "\<forall>e. e_item_of_json (sv_env (ln_app N)) (sv_js_text (ln_app N) (wi_item_to (ln_wire N) e)) = Some e"
    using assms(1) unfolding line_ok_def by blast+
  with assms(2) show ?thesis by (simp add: link_ok_def srv_ok_def link_codec_def far_end_def)
qed

lemma far_end_deliver [simp]: "deliver E h (far_end s) = (Inr (fst (h s)), far_end (snd (h s)))"
  by (simp add: deliver_def far_end_def lk_next_def)

lemma row_range:
  assumes "srv_ok E acc k s" and "item_row_of s acc i = Some r"
  shows "row_ok E r \<and> 0 < vi_seq r \<and> vi_seq r < 2 ^ 63 \<and> 1 \<le> vi_revision r \<and> vi_revision r < 2 ^ 63"
proof -
  have ok: "items_ok E s" "small k s" using assms(1) by (simp_all add: srv_ok_def)
  then have r: "r \<in> set (vault_items s)" "row_ok E r"
    using item_row_of_iff[of E s acc i r] assms(2) by (auto simp: items_ok_def)
  obtain a where a: "a \<in> set (accounts s)" "vi_seq r \<le> ac_sync_seq a"
    using ok(1) r(1) unfolding items_ok_def by blast
  have "ac_sync_seq a + int k < 2 ^ 63" "vi_revision r \<le> vi_seq r"
    using ok(2) a(1) r(1) unfolding small_def by blast+
  with a(2) r(2) show ?thesis by (auto simp: row_ok_def)
qed

lemma remote_decode:
  assumes "line_ok N base" and "srv_ok (sv_env (ln_app N)) acc k s" and "item_row_of s acc i = Some r"
  shows "remote_of_json (ln_item_of N) (remote_json (ln_app N) (row_to_remote (sv_env (ln_app N)) r))
    = wire_to_remote (sv_env (ln_app N)) (row_to_remote (sv_env (ln_app N)) r)"
proof -
  let ?E = "sv_env (ln_app N)" and ?w = "row_to_remote (sv_env (ln_app N)) r"
  note rr = row_range[OF assms(2,3)]
  have w: "wi_revision ?w = vi_revision r" "wi_seq ?w = vi_seq r" by (simp_all add: row_to_remote_def)
  have js: "json_ok ?E" "\<And>t. e_item_of_json ?E t = Option.bind (sv_js_parse (ln_app N) t) (ln_item_of N)"
    "ln_item_of N J_Null = None"
    using assms(1) by (auto simp: line_ok_def)
  show ?thesis
  proof (cases "vi_deleted r")
    case True
    then have "wi_content ?w = None" using rr by (simp add: row_to_remote_def row_ok_def)
    then show ?thesis using rr w
      by (simp add: remote_json_def req_str_def req_i64_def req_bool_def req_value_def once_def content_of_json_def
          j_text_def wire_to_remote_def)
  next
    case False
    then obtain c e where c: "vi_content r = Some c" "e_item_of_json ?E c = Some e"
      using rr by (auto simp: row_ok_def)
    then have wc: "wi_content ?w = Some c" using js(1) by (simp add: row_to_remote_def json_ok_def)
    obtain j where j: "sv_js_parse (ln_app N) c = Some j" "ln_item_of N j = Some e"
      using c(2) js(2) by (auto split: Option.bind_splits)
    then have "content_of_json (ln_item_of N) [(''item_id'', a), (''revision'', b), (''seq'', d), (''deleted'', f),
        (''content'', j_text (ln_app N) (wi_content ?w))] = Some (Some e)" for a b d f
      using js(3) wc by (cases j) (simp_all add: content_of_json_def once_def j_text_def)
    then show ?thesis using rr w wc c(2)
      by (simp add: remote_json_def req_str_def req_i64_def req_bool_def req_value_def once_def wire_to_remote_def)
  qed
qed

lemma all_some_parse:
  assumes "\<And>w. w \<in> set ws \<Longrightarrow> remote_of_json dj (remote_json A w) = wire_to_remote E w"
  shows "all_some (map (remote_of_json dj) (map (remote_json A) ws)) = parse_items E ws"
  using assms by (induction ws) (auto split: option.split Option.bind_split)

lemma error_status: "hr_status (error_reply e) = api_error_status e"
  by (cases e) (simp_all add: error_reply_def api_error_response_def)

lemma error_status_not: "api_error_status e \<noteq> 200" "api_error_status e \<noteq> 409" "api_error_status e = 404 \<longleftrightarrow> e = NotFound"
  by (cases e; simp)+


section \<open>The contract over HTTP\<close>

definition on_account :: "int \<Rightarrow> auth_session" where
  "on_account acc = \<lparr>au_account_id = acc, au_session_id = 0, au_family_id = []\<rparr>"

definition http_rows :: "line \<Rightarrow> int \<Rightarrow> api_client \<times> net \<Rightarrow> text \<Rightarrow> remote_item option" where
  "http_rows N acc x = link_rows (sv_env (ln_app N)) (on_account acc) (far_end (nt_srv (snd x)))"

definition http_ctr :: "int \<Rightarrow> api_client \<times> net \<Rightarrow> int" where
  "http_ctr acc x = link_ctr (on_account acc) (far_end (nt_srv (snd x)))"

definition http_horizon :: "int \<Rightarrow> api_client \<times> net \<Rightarrow> int" where
  "http_horizon acc x = link_horizon (on_account acc) (far_end (nt_srv (snd x)))"

text \<open>The state in which the client and the line are sound: base address, server, tokens.\<close>

definition http_ok :: "line \<Rightarrow> text \<Rightarrow> int \<Rightarrow> api_client \<times> net \<Rightarrow> bool" where
  "http_ok N base acc x \<longleftrightarrow> line_ok N base \<and> ap_base_url (fst x) = base
     \<and> net_ok (sv_env (ln_app N)) acc (ap_tokens (fst x)) (snd x)"

lemma same_account:
  "au_account_id au = acc \<Longrightarrow> link_rows E au t = link_rows E (on_account acc) t"
  "au_account_id au = acc \<Longrightarrow> link_ctr au t = link_ctr (on_account acc) t"
  "au_account_id au = acc \<Longrightarrow> link_horizon au t = link_horizon (on_account acc) t"
  by (simp_all add: link_rows_def link_ctr_def link_horizon_def on_account_def fun_eq_iff)

lemma far_end_sel [simp]: "lk_srv (far_end s) = s"
  by (simp add: far_end_def)

lemma http_evolve:
  assumes "items_evolve acc (nt_srv t) (nt_srv t')"
  shows "rows_evolve (http_rows N acc) (http_ctr acc) (http_horizon acc) (a, t) (a', t')"
proof -
  have "items_evolve (au_account_id (on_account acc)) (lk_srv (far_end (nt_srv t))) (lk_srv (far_end (nt_srv t')))"
    using assms by (simp add: on_account_def)
  from evolve_rows[OF this, of "sv_env (ln_app N)"] show ?thesis
    unfolding rows_evolve_def http_rows_def http_ctr_def http_horizon_def snd_conv .
qed

text \<open>One call of the client: it stays sound, the account evolves, and a status other than 401 is the answer
  of the handler.\<close>

lemma http_call:
  assumes "http_ok N base acc (a, t)" and "routed_to N base build h"
    and "api_authed (net_http N) build a t = (out, x)"
  shows "http_ok N base acc x \<and> rows_evolve (http_rows N acc) (http_ctr acc) (http_horizon acc) (a, t) x
    \<and> (\<forall>status body. out = Inr (status, body) \<longrightarrow> status \<noteq> 401 \<longrightarrow> answered N acc h t (snd x) status body)"
proof -
  have l: "line_ok N base" "ap_base_url a = base" "net_ok (sv_env (ln_app N)) acc (ap_tokens a) t"
    using assms(1) by (simp_all add: http_ok_def)
  obtain r c' t' where r: "authed (rotate_call (net_http N) base) (bearer_call (net_http N) build base) (ap_tokens a) t
      = (r, c', t')" by (metis prod_cases3)
  then have x: "out = r" "x = (a\<lparr>ap_tokens := c'\<rparr>, t')" using assms(3) l(2) by (auto simp: api_authed_def)
  from authed_laws[OF l(1,3) assms(2) r] http_evolve[of acc t t' N a "a\<lparr>ap_tokens := c'\<rparr>"] l(1,2)
  show ?thesis by (simp add: x http_ok_def)
qed

lemma answered_row:
  assumes "line_ok N base" and "srv_ok (sv_env (ln_app N)) acc k s"
  shows "Option.bind (map_option (row_to_remote (sv_env (ln_app N))) (item_row_of s acc i))
      (\<lambda>w. remote_of_json (ln_item_of N) (remote_json (ln_app N) w))
    = Option.bind (map_option (row_to_remote (sv_env (ln_app N))) (item_row_of s acc i)) (wire_to_remote (sv_env (ln_app N)))"
  using remote_decode[OF assms] by (cases "item_row_of s acc i") simp_all

lemma current_decode:
  assumes "line_ok N base"
  shows "current_of (ln_wire N) (J_Obj [(''error'', e), (''current'', case cur of None \<Rightarrow> J_Null | Some r \<Rightarrow> remote_json A r)])
    = Option.bind cur (\<lambda>w. remote_of_json (ln_item_of N) (remote_json A w))"
proof -
  have "sum_option (wi_remote_of (ln_wire N) j) = remote_of_json (ln_item_of N) j" for j
    using assms unfolding line_ok_def by blast
  then have "current_of (ln_wire N) b = remote_of_json (ln_item_of N) (j_get b ''current'')" for b
    by (simp add: current_of_def sum_option_def split: sum.splits)
  then show ?thesis by (simp split: option.split)
qed


text \<open>The answers of the three handlers, as the outcomes the link would give at the server they met.\<close>

lemma list_answer:
  assumes "line_ok N base" and "answered N acc (list_h N since) t t' 200 body"
    and "srv_ok (sv_env (ln_app N)) acc k (nt_srv t')" and "wi_pull_of (ln_wire N) body = Inr p"
  shows "\<exists>s1 au now. srv_ok (sv_env (ln_app N)) acc 1 s1 \<and> items_evolve acc (nt_srv t) s1 \<and> au_account_id au = acc
    \<and> api_pull (sv_env (ln_app N)) au now (far_end s1) since = (Inr p, far_end (nt_srv t'))"
proof -
  let ?E = "sv_env (ln_app N)" and ?A = "ln_app N"
  obtain s1 cx au r where s1: "srv_ok ?E acc 1 s1" "items_evolve acc (nt_srv t) s1" "au_account_id au = acc"
    "list_h N since cx au s1 = (r, nt_srv t')" "hr_status r = 200" "body = body_or_null (reply_body N r)"
    using assms(2) by (auto simp: answered_def)
  then obtain rep where l: "list_items ?E (cx_now cx) au since s1 = (Inr rep, nt_srv t')" and r: "r = list_json ?A rep"
    using error_status error_status_not(1)
    by (auto simp: list_h_def with_query_def refused_def finish_def split: option.splits prod.splits sum.splits
        dest!: q_ints(2))
  obtain a where a: "account_by_id s1 (au_account_id au) = Some a" and ok1: "items_ok ?E s1"
    using s1(1,3) by (auto simp: srv_ok_def)
  obtain h s2 rep' where ls: "list_items ?E (cx_now cx) au since s1 = (Inr rep', s2)"
      "account_by_id s2 (au_account_id au) = Some (a\<lparr>ac_purged_before_seq := h\<rparr>)" "lr_latest_seq rep' = ac_sync_seq a"
    and items: "\<And>w. w \<in> set (lr_items rep') \<Longrightarrow>
       \<exists>r. item_row_of s2 (au_account_id au) (wi_item_id w) = Some r \<and> w = row_to_remote ?E r"
    by (rule list_items_spec[OF ok1 a, of "cx_now cx" since]) blast
  have eq: "rep' = rep" "s2 = nt_srv t'" using ls(1) l by simp_all
  have dec: "remote_of_json (ln_item_of N) (remote_json ?A w) = wire_to_remote ?E w" if "w \<in> set (lr_items rep)" for w
    using items[of w] that remote_decode[OF assms(1,3)] s1(3) eq by auto
  have "items_ok ?E (nt_srv t')" "small k (nt_srv t')" using assms(3) by (simp_all add: srv_ok_def)
  then have "0 \<le> ac_sync_seq a" "ac_sync_seq a < 2 ^ 63"
    using ls(2) eq account_by_idD[of "nt_srv t'"] by (force simp: items_ok_def small_def)+
  then have lat: "j_i64 (J_Int (lr_latest_seq rep)) = Some (lr_latest_seq rep)" using ls(3) eq by simp
  have "sum_option (wi_pull_of (ln_wire N) body) = pull_of_json (ln_item_of N) body"
    using assms(1) unfolding line_ok_def by blast
  then have "pull_of_json (ln_item_of N) body = Some p" using assms(4) by (simp add: sum_option_def)
  moreover have "body = J_Obj [(''items'', J_Arr (map (remote_json ?A) (lr_items rep))),
     (''latest_seq'', J_Int (lr_latest_seq rep)), (''full_resync'', J_Bool (lr_full_resync rep)),
     (''checkpoint'', cp_json (lr_checkpoint rep))]"
    using s1(6) r by (simp add: list_json_def ok_json_def reply_body_def body_or_null_def)
  ultimately obtain xs where "parse_items ?E (lr_items rep) = Some xs"
    "p = \<lparr>pr_items = xs, pr_latest_seq = lr_latest_seq rep, pr_full_resync = lr_full_resync rep\<rparr>"
    using all_some_parse[OF dec] lat
    by (auto simp: req_value_def req_i64_def req_bool_def once_def simp del: j_i64.simps split: Option.bind_splits)
  with l have "api_pull ?E au (cx_now cx) (far_end s1) since = (Inr p, far_end (nt_srv t'))"
    by (simp add: api_pull_def)
  with s1(1-3) show ?thesis by blast
qed


lemma write_answer:
  assumes "line_ok N base" and "srv_ok (sv_env (ln_app N)) acc k s1"
    and "status = 200 \<or> status = 409" and "status = hr_status (write_json (ln_app N) w)"
    and "body = body_or_null (reply_body N (write_json (ln_app N) w))"
    and "\<And>cur. w = Conflict_409 cur \<Longrightarrow> cur = map_option (row_to_remote (sv_env (ln_app N))) (item_row_of s1 acc i)"
  shows "status = 200 \<Longrightarrow> \<exists>n q. outcome_of (sv_env (ln_app N)) w = Accepted n q"
    and "status = 409 \<Longrightarrow> outcome_of (sv_env (ln_app N)) w = Conflicted (current_of (ln_wire N) body)"
proof -
  show "status = 200 \<Longrightarrow> \<exists>n q. outcome_of (sv_env (ln_app N)) w = Accepted n q"
    using assms(4) by (cases w) (auto simp: write_json_def outcome_of_def)
  assume st: "status = 409"
  then obtain cur where w: "w = Conflict_409 cur"
    using assms(4) by (cases w) (auto simp: write_json_def ok_json_def)
  have "body = J_Obj [(''error'', J_Str (lit ''conflict'')),
      (''current'', case cur of None \<Rightarrow> J_Null | Some r \<Rightarrow> remote_json (ln_app N) r)]"
    using assms(5) by (simp add: w write_json_def reply_body_def body_or_null_def)
  then have "current_of (ln_wire N) body = Option.bind cur (\<lambda>w. remote_of_json (ln_item_of N) (remote_json (ln_app N) w))"
    by (simp only: current_decode[OF assms(1)])
  also have "\<dots> = Option.bind cur (wire_to_remote (sv_env (ln_app N)))"
    unfolding assms(6)[OF w] by (rule answered_row[OF assms(1,2)])
  finally show "outcome_of (sv_env (ln_app N)) w = Conflicted (current_of (ln_wire N) body)"
    by (simp add: w outcome_of_def)
qed

lemma upsert_answer:
  assumes "line_ok N base" and "answered N acc (upsert_h N e) t t' status body" and "status = 200 \<or> status = 409"
  shows "\<exists>s1 au now out. srv_ok (sv_env (ln_app N)) acc 1 s1 \<and> items_evolve acc (nt_srv t) s1 \<and> au_account_id au = acc
    \<and> api_push_upsert (sv_env (ln_app N)) (link_codec N) au now (far_end s1) e = (Inr out, far_end (nt_srv t'))
    \<and> (status = 200 \<longrightarrow> (\<exists>n q. out = Accepted n q)) \<and> (status = 409 \<longrightarrow> out = Conflicted (current_of (ln_wire N) body))"
proof -
  let ?E = "sv_env (ln_app N)" and ?j = "sv_js_text (ln_app N) (wi_item_to (ln_wire N) e)"
  obtain s1 cx au r where s1: "srv_ok ?E acc 1 s1" "items_evolve acc (nt_srv t) s1" "au_account_id au = acc"
    "upsert_h N e cx au s1 = (r, nt_srv t')" "status = hr_status r" "body = body_or_null (reply_body N r)"
    using assms(2) by (auto simp: answered_def)
  then obtain w where w: "put_item ?E (cx_now cx) au (ei_item_id e) ?j s1 = (Inr w, nt_srv t')"
    and r: "r = write_json (ln_app N) w"
    using assms(3) error_status error_status_not(1,2)
    by (auto simp: upsert_h_def finish_def split: prod.splits sum.splits)
  have ok1: "items_ok ?E s1" using s1(1) by (simp add: srv_ok_def)
  have cur: "cur = map_option (row_to_remote ?E) (item_row_of s1 acc (ei_item_id e))" if "w = Conflict_409 cur" for cur
    using put_item_result[OF ok1 w] that s1(3) by auto
  have "api_push_upsert ?E (link_codec N) au (cx_now cx) (far_end s1) e = (Inr (outcome_of ?E w), far_end (nt_srv t'))"
    using w by (simp add: api_push_upsert_def link_codec_def)
  moreover note wa = write_answer[OF assms(1) s1(1) assms(3) s1(5)[unfolded r] s1(6)[unfolded r] cur]
  ultimately show ?thesis using s1(1-3) wa by blast
qed

lemma delete_answer:
  assumes "line_ok N base" and "answered N acc (delete_h N i base_revision) t t' status body"
    and "status = 200 \<or> status = 409 \<or> status = 404"
  shows "\<exists>s1 au now out. srv_ok (sv_env (ln_app N)) acc 1 s1 \<and> items_evolve acc (nt_srv t) s1 \<and> au_account_id au = acc
    \<and> api_push_delete (sv_env (ln_app N)) au now (far_end s1) i base_revision = (Inr out, far_end (nt_srv t'))
    \<and> (status = 200 \<longrightarrow> (\<exists>n q. out = Accepted n q)) \<and> (status = 409 \<longrightarrow> out = Conflicted (current_of (ln_wire N) body))
    \<and> (status = 404 \<longrightarrow> out = Conflicted None)"
proof -
  let ?E = "sv_env (ln_app N)"
  obtain s1 cx au r where s1: "srv_ok ?E acc 1 s1" "items_evolve acc (nt_srv t) s1" "au_account_id au = acc"
    "delete_h N i base_revision cx au s1 = (r, nt_srv t')" "status = hr_status r" "body = body_or_null (reply_body N r)"
    using assms(2) by (auto simp: answered_def)
  then obtain x where x: "delete_item ?E (cx_now cx) au i base_revision s1 = (x, nt_srv t')"
    and r: "r = (case x of Inl e \<Rightarrow> error_reply e | Inr w \<Rightarrow> write_json (ln_app N) w)"
    using assms(3)
    by (auto simp: delete_h_def with_query_def refused_def finish_def split: option.splits prod.splits sum.splits
        dest!: q_ints(1))
  have ok1: "items_ok ?E s1" using s1(1) by (simp add: srv_ok_def)
  show ?thesis
  proof (cases x)
    case (Inl err)
    then have "status = 404" "api_error_status err = 404"
      using assms(3) s1(5) r error_status error_status_not by auto
    moreover from this have "api_push_delete ?E au (cx_now cx) (far_end s1) i base_revision
        = (Inr (Conflicted None), far_end (nt_srv t'))"
      using x Inl by (simp add: api_push_delete_def)
    ultimately show ?thesis using s1(1-3) by auto
  next
    case (Inr w)
    have cur: "cur = map_option (row_to_remote ?E) (item_row_of s1 acc i)" if "w = Conflict_409 cur" for cur
      using delete_item_result[OF ok1 x] that s1(3) Inr by auto
    have st: "status = 200 \<or> status = 409"
      using s1(5) r Inr by (cases w) (auto simp: write_json_def ok_json_def)
    have "api_push_delete ?E au (cx_now cx) (far_end s1) i base_revision = (Inr (outcome_of ?E w), far_end (nt_srv t'))"
      using x Inr by (simp add: api_push_delete_def)
    moreover have "status \<noteq> 404" using st by auto
    moreover have rw: "r = write_json (ln_app N) w" using r Inr by simp
    moreover note wa = write_answer[OF assms(1) s1(1) st s1(5)[unfolded rw] s1(6)[unfolded rw] cur]
    ultimately show ?thesis using s1(1-3) wa by blast
  qed
qed

section \<open>Plain ids\<close>

text \<open>Ids of the program are UUIDs.  An id with a slash or a question mark would be another address, so the contract
  holds for calls with plain ids; calls with other ids are kept from the line.\<close>

definition plain_only :: "'t transport \<Rightarrow> 't transport" where
  "plain_only T = \<lparr>t_pull = t_pull T,
     t_upsert = (\<lambda>t e. if url_plain (ei_item_id e) then t_upsert T t e else (Inl (Rejected []), t)),
     t_delete = (\<lambda>t i b. if url_plain i then t_delete T t i b else (Inl (Rejected []), t))\<rparr>"

lemma plain_only_push: "url_plain (op_item_id op) \<Longrightarrow> push_op (plain_only T) t op = push_op T t op"
  by (cases op) (simp_all add: push_op_def plain_only_def)

context local_vault
begin

lemma push_loop_plain:
  assumes "wf v" and "\<forall>op \<in> set (vo_pending_ops V v). url_plain (op_item_id op)"
  shows "push_loop V (plain_only T) v t rep = push_loop V T v t rep"
  using assms
proof (induction "vo_pending_ops V v" arbitrary: v t rep)
  case Nil
  then have q: "vo_pending_ops V v = []" by simp
  show ?case by (simp add: push_loop.simps[of V _ v] q)
next
  case (Cons op ops)
  have q: "vo_pending_ops V v = op # ops" using Cons.hyps(2) by simp
  have p: "push_op (plain_only T) t op = push_op T t op"
    using Cons.prems(2) q by (intro plain_only_push) simp
  have loop: "push_loop V (plain_only T) (vo_pop_front_op V v1) t1 rep1 = push_loop V T (vo_pop_front_op V v1) t1 rep1"
    if s: "settle V v op outcome rep = (v1, rep1)" for outcome t1 v1 rep1
  proof (rule Cons.hyps(1))
    note sl = settle_laws(1,3)[OF Cons.prems(1) s]
    show "ops = vo_pending_ops V (vo_pop_front_op V v1)" using sl q by simp
    then show "\<forall>op \<in> set (vo_pending_ops V (vo_pop_front_op V v1)). url_plain (op_item_id op)"
      using Cons.prems(2) q by simp
    show "wf (vo_pop_front_op V v1)" using sl by simp
  qed
  obtain out t1 where o: "push_op T t op = (out, t1)" by fastforce
  show ?case
  proof (cases out)
    case (Inr outcome)
    obtain v1 rep1 where s: "settle V v op outcome rep = (v1, rep1)" by fastforce
    show ?thesis by (simp add: push_loop.simps[of V _ v] q p o Inr s loop[OF s])
  qed (simp add: push_loop.simps[of V _ v] q p o)
qed

lemma sync_plain:
  assumes "wf v" and "\<forall>op \<in> set (vo_pending_ops V v). url_plain (op_item_id op)"
  shows "sync V (plain_only T) v t = sync V T v t"
proof -
  have pull: "t_pull (plain_only T) = t_pull T" by (simp add: plain_only_def)
  obtain out t1 where o: "t_pull T t (vo_last_seq V v) = (out, t1)" by fastforce
  show ?thesis
  proof (cases out)
    case (Inr p)
    define v1 where "v1 = (if pr_full_resync p then vo_clear_items V v else v)"
    obtain v2 rep2 where a: "apply_pulled V (map op_item_id (vo_pending_ops V v1)) (pr_items p) v1
        (empty_report\<lparr>sr_full_resync := pr_full_resync p\<rparr>) = (v2, rep2)" by fastforce
    have "wf v1" using assms(1) by (simp add: v1_def)
    note ap = apply_pulled_laws[OF a this]
    have "vo_pending_ops V v1 = vo_pending_ops V v" using assms(1) by (simp add: v1_def)
    then have "push_loop V (plain_only T) v2 t1 rep2 = push_loop V T v2 t1 rep2"
      using ap assms(2) by (intro push_loop_plain) simp_all
    then show ?thesis unfolding sync_def pull by (simp add: o Inr Let_def a[unfolded v1_def])
  qed (simp add: sync_def pull o)
qed

end


section \<open>The contract, kept\<close>

lemma http_ok_rows:
  assumes "http_ok N base acc x"
  shows "http_rows N acc x i = Some r \<Longrightarrow> ri_item_id r = i \<and> 0 < ri_seq r \<and> ri_seq r \<le> http_ctr acc x"
    and "0 \<le> http_horizon acc x \<and> http_horizon acc x \<le> http_ctr acc x"
proof -
  have "srv_ok (sv_env (ln_app N)) (au_account_id (on_account acc)) (cost (nt_plan (snd x))) (nt_srv (snd x))"
    and "line_ok N base"
    using assms by (simp_all add: http_ok_def net_ok_def on_account_def)
  note ok = link_ok_rows[OF far_end_ok[OF this(2,1)]]
  show "http_rows N acc x i = Some r \<Longrightarrow> ri_item_id r = i \<and> 0 < ri_seq r \<and> ri_seq r \<le> http_ctr acc x"
    unfolding http_rows_def http_ctr_def by (rule ok(1))
  show "0 \<le> http_horizon acc x \<and> http_horizon acc x \<le> http_ctr acc x"
    unfolding http_horizon_def http_ctr_def by (rule ok(2))
qed

lemma http_evolve_refl:
  assumes "http_ok N base acc x"
  shows "rows_evolve (http_rows N acc) (http_ctr acc) (http_horizon acc) x x"
  using http_evolve[of acc "snd x" "snd x" N "fst x" "fst x"] srv_ok_evolve_refl[of _ acc _ "nt_srv (snd x)"] assms
  by (auto simp: http_ok_def net_ok_def)

text \<open>From the server a handler met: its rows are later than the client's start, and the account's.\<close>

lemma met_link:
  assumes "line_ok N base" and "srv_ok (sv_env (ln_app N)) acc 1 s1" and "items_evolve acc (nt_srv t) s1"
    and "au_account_id au = acc"
  shows "link_ok (sv_env (ln_app N)) (link_codec N) au (far_end s1)"
    and "link_ctr (on_account acc) (far_end (nt_srv t)) \<le> link_ctr au (far_end s1)"
    and "link_rows E au (far_end s) = link_rows E (on_account acc) (far_end s)"
    and "link_ctr au (far_end s) = link_ctr (on_account acc) (far_end s)"
    and "link_horizon au (far_end s) = link_horizon (on_account acc) (far_end s)"
proof -
  show "link_ok (sv_env (ln_app N)) (link_codec N) au (far_end s1)"
    using far_end_ok[OF assms(1)] assms(2,4) by blast
  show "link_rows E au (far_end s) = link_rows E (on_account acc) (far_end s)"
    "link_ctr au (far_end s) = link_ctr (on_account acc) (far_end s)"
    "link_horizon au (far_end s) = link_horizon (on_account acc) (far_end s)" for s
    by (rule same_account[OF assms(4)])+
  show "link_ctr (on_account acc) (far_end (nt_srv t)) \<le> link_ctr au (far_end s1)"
    using assms(3,4) by (auto simp: items_evolve_def link_ctr_def on_account_def)
qed

lemma http_pull_laws:
  assumes "http_ok N base acc x" and "http_pull (ln_wire N) (net_http N) x since = (pulled, x')"
  shows "http_ok N base acc x' \<and> rows_evolve (http_rows N acc) (http_ctr acc) (http_horizon acc) x x'
      \<and> (\<forall>p. pulled = Inr p \<longrightarrow> pr_latest_seq p = http_ctr acc x'
            \<and> (pr_full_resync p \<longleftrightarrow> 0 < since \<and> since < http_horizon acc x')
            \<and> (\<forall>r. r \<in> set (pr_items p) \<longleftrightarrow> http_rows N acc x' (ri_item_id r) = Some r
                 \<and> (if pr_full_resync p then \<not> ri_deleted r else since < ri_seq r)))"
proof -
  obtain a t where x: "x = (a, t)" by fastforce
  have line: "line_ok N base" using assms(1) by (simp add: http_ok_def)
  obtain out y where c: "api_authed (net_http N) (\<lambda>base. plain_request GET (base @ lit ''/api/v1/vault/items'')
      [(''since'', dec_int since)] None) a t = (out, y)" by (rule prod.exhaust)
  note call = http_call[OF assms(1)[unfolded x] routed_list[OF line] c]
  have x': "x' = y" using assms(2) x c by (auto simp: http_pull_def split: sum.splits if_splits)
  have "pr_latest_seq p = http_ctr acc x' \<and> (pr_full_resync p \<longleftrightarrow> 0 < since \<and> since < http_horizon acc x')
            \<and> (\<forall>r. r \<in> set (pr_items p) \<longleftrightarrow> http_rows N acc x' (ri_item_id r) = Some r
                 \<and> (if pr_full_resync p then \<not> ri_deleted r else since < ri_seq r))" if p: "pulled = Inr p" for p
  proof -
    obtain body where b: "out = Inr (200, body)" "wi_pull_of (ln_wire N) body = Inr p"
      using assms(2) x c p by (auto simp: http_pull_def split: sum.splits if_splits)
    then have ans: "answered N acc (list_h N since) t (snd x') 200 body" using call x' by simp
    have ok: "srv_ok (sv_env (ln_app N)) acc (cost (nt_plan (snd x'))) (nt_srv (snd x'))"
      using call x' by (simp add: http_ok_def net_ok_def)
    obtain s1 au now where s1: "srv_ok (sv_env (ln_app N)) acc 1 s1" "items_evolve acc (nt_srv t) s1"
      "au_account_id au = acc"
      "api_pull (sv_env (ln_app N)) au now (far_end s1) since = (Inr p, far_end (nt_srv (snd x')))"
      using list_answer[OF line ans ok b(2)] by blast
    note m = met_link[OF line s1(1-3)]
    from link_pull[OF m(1) s1(4)] show ?thesis
      by (simp add: http_rows_def http_ctr_def http_horizon_def m(3-5))
  qed
  with call x' x show ?thesis by blast
qed

lemma http_upsert_laws:
  assumes "http_ok N base acc x" and "http_push_upsert (ln_wire N) (net_http N) x e = (res, x')"
    and "url_plain (ei_item_id e)"
  shows "http_ok N base acc x' \<and> rows_evolve (http_rows N acc) (http_ctr acc) (http_horizon acc) x x'
      \<and> (\<forall>n q. res = Inr (Accepted n q) \<longrightarrow>
            (\<exists>r. http_rows N acc x' (ei_item_id e) = Some r \<and> http_ctr acc x < ri_seq r))
      \<and> (\<forall>c. res = Inr (Conflicted c) \<longrightarrow> http_rows N acc x' (ei_item_id e) = c)"
proof -
  obtain a t where x: "x = (a, t)" by fastforce
  have line: "line_ok N base" using assms(1) by (simp add: http_ok_def)
  obtain out y where c: "api_authed (net_http N) (\<lambda>base. plain_request PUT (base @ lit ''/api/v1/vault/items/'' @ ei_item_id e)
          [] (Some (wi_item_to (ln_wire N) e))) a t = (out, y)" by (rule prod.exhaust)
  note call = http_call[OF assms(1)[unfolded x] routed_upsert[OF line assms(3)] c]
  have x': "x' = y" using assms(2) x c by (auto simp: http_push_upsert_def split: sum.splits if_splits)
  have fin: "(\<forall>n q. o' = Accepted n q \<longrightarrow> (\<exists>r. http_rows N acc x' (ei_item_id e) = Some r \<and> http_ctr acc x < ri_seq r))
      \<and> (\<forall>c. o' = Conflicted c \<longrightarrow> http_rows N acc x' (ei_item_id e) = c)" if o: "res = Inr o'" for o'
  proof -
    obtain status body where b: "out = Inr (status, body)" "status = 200 \<or> status = 409"
      "status = 200 \<longrightarrow> (\<exists>n q. o' = Accepted n q)" "status = 409 \<longrightarrow> o' = Conflicted (current_of (ln_wire N) body)"
      using assms(2) x c o by (auto simp: http_push_upsert_def accepted_of_def split: sum.splits if_splits)
    then have ans: "answered N acc (upsert_h N e) t (snd x') status body" using call x' by auto
    obtain s1 au now out' where s1: "srv_ok (sv_env (ln_app N)) acc 1 s1" "items_evolve acc (nt_srv t) s1"
      "au_account_id au = acc"
      "api_push_upsert (sv_env (ln_app N)) (link_codec N) au now (far_end s1) e = (Inr out', far_end (nt_srv (snd x')))"
      "status = 200 \<longrightarrow> (\<exists>n q. out' = Accepted n q)" "status = 409 \<longrightarrow> out' = Conflicted (current_of (ln_wire N) body)"
      using upsert_answer[OF line ans b(2)] by blast
    note m = met_link[OF line s1(1-3)]
    from link_upsert[OF m(1) s1(4)] s1(5,6) b(2-4) m(2) show ?thesis
      by (auto simp: http_rows_def http_ctr_def m(3-5) x)
  qed
  have "http_ok N base acc x'" "rows_evolve (http_rows N acc) (http_ctr acc) (http_horizon acc) x x'"
    using call x' x by simp_all
  with fin show ?thesis by blast
qed

lemma http_delete_laws:
  assumes "http_ok N base acc x" and "http_push_delete (ln_wire N) (net_http N) x i b = (res, x')"
    and "url_plain i"
  shows "http_ok N base acc x' \<and> rows_evolve (http_rows N acc) (http_ctr acc) (http_horizon acc) x x'
      \<and> (\<forall>n q. res = Inr (Accepted n q) \<longrightarrow> (\<exists>r. http_rows N acc x' i = Some r \<and> ri_deleted r))
      \<and> (\<forall>c. res = Inr (Conflicted c) \<longrightarrow> http_rows N acc x' i = c)"
proof -
  obtain a t where x: "x = (a, t)" by fastforce
  have line: "line_ok N base" using assms(1) by (simp add: http_ok_def)
  obtain out y where c: "api_authed (net_http N) (\<lambda>base. plain_request DELETE (base @ lit ''/api/v1/vault/items/'' @ i)
          [(''base_revision'', dec_int b)] None) a t = (out, y)" by (rule prod.exhaust)
  note call = http_call[OF assms(1)[unfolded x] routed_delete[OF line assms(3)] c]
  have x': "x' = y" using assms(2) x c by (auto simp: http_push_delete_def split: sum.splits if_splits)
  have fin: "(\<forall>n q. o' = Accepted n q \<longrightarrow> (\<exists>r. http_rows N acc x' i = Some r \<and> ri_deleted r))
      \<and> (\<forall>c. o' = Conflicted c \<longrightarrow> http_rows N acc x' i = c)" if o: "res = Inr o'" for o'
  proof -
    obtain status body where b: "out = Inr (status, body)" "status = 200 \<or> status = 409 \<or> status = 404"
      "status = 200 \<longrightarrow> (\<exists>n q. o' = Accepted n q)" "status = 409 \<longrightarrow> o' = Conflicted (current_of (ln_wire N) body)"
      "status = 404 \<longrightarrow> o' = Conflicted None"
      using assms(2) x c o by (auto simp: http_push_delete_def accepted_of_def split: sum.splits if_splits)
    then have ans: "answered N acc (delete_h N i b) t (snd x') status body" using call x' by auto
    obtain s1 au now out' where s1: "srv_ok (sv_env (ln_app N)) acc 1 s1" "items_evolve acc (nt_srv t) s1"
      "au_account_id au = acc"
      "api_push_delete (sv_env (ln_app N)) au now (far_end s1) i b = (Inr out', far_end (nt_srv (snd x')))"
      "status = 200 \<longrightarrow> (\<exists>n q. out' = Accepted n q)" "status = 409 \<longrightarrow> out' = Conflicted (current_of (ln_wire N) body)"
      "status = 404 \<longrightarrow> out' = Conflicted None"
      using delete_answer[OF line ans b(2)] by blast
    note m = met_link[OF line s1(1-3)]
    from link_delete[OF m(1) s1(4)] s1(5-7) b(2-5) show ?thesis
      by (auto simp: http_rows_def http_ctr_def m(3-5) x)
  qed
  have "http_ok N base acc x'" "rows_evolve (http_rows N acc) (http_ctr acc) (http_horizon acc) x x'"
    using call x' x by simp_all
  with fin show ?thesis by blast
qed

interpretation web: sync_service "plain_only (http_transport (ln_wire N) (net_http N))" "http_rows N acc" "http_ctr acc"
  "http_horizon acc" "http_ok N base acc" for N base acc
proof
  fix x since pulled x' assume "http_ok N base acc x"
    and "t_pull (plain_only (http_transport (ln_wire N) (net_http N))) x since = (pulled, x')"
  then show "http_ok N base acc x' \<and> rows_evolve (http_rows N acc) (http_ctr acc) (http_horizon acc) x x'
      \<and> (\<forall>p. pulled = Inr p \<longrightarrow> pr_latest_seq p = http_ctr acc x'
            \<and> (pr_full_resync p \<longleftrightarrow> 0 < since \<and> since < http_horizon acc x')
            \<and> (\<forall>r. r \<in> set (pr_items p) \<longleftrightarrow> http_rows N acc x' (ri_item_id r) = Some r
                 \<and> (if pr_full_resync p then \<not> ri_deleted r else since < ri_seq r)))"
    by (intro http_pull_laws) (simp_all add: plain_only_def http_transport_def)
next
  fix x e res x' assume ok: "http_ok N base acc x"
    and r: "t_upsert (plain_only (http_transport (ln_wire N) (net_http N))) x e = (res, x')"
  show "http_ok N base acc x' \<and> rows_evolve (http_rows N acc) (http_ctr acc) (http_horizon acc) x x'
      \<and> (\<forall>n q. res = Inr (Accepted n q) \<longrightarrow>
            (\<exists>r. http_rows N acc x' (ei_item_id e) = Some r \<and> http_ctr acc x < ri_seq r))
      \<and> (\<forall>c. res = Inr (Conflicted c) \<longrightarrow> http_rows N acc x' (ei_item_id e) = c)"
  proof (cases "url_plain (ei_item_id e)")
    case True
    with ok r show ?thesis by (intro http_upsert_laws) (simp_all add: plain_only_def http_transport_def)
  next
    case False
    with r have "res = Inl (Rejected [])" "x' = x" by (simp_all add: plain_only_def)
    with ok http_evolve_refl[OF ok] show ?thesis by simp
  qed
next
  fix x i b res x' assume ok: "http_ok N base acc x"
    and r: "t_delete (plain_only (http_transport (ln_wire N) (net_http N))) x i b = (res, x')"
  show "http_ok N base acc x' \<and> rows_evolve (http_rows N acc) (http_ctr acc) (http_horizon acc) x x'
      \<and> (\<forall>n q. res = Inr (Accepted n q) \<longrightarrow> (\<exists>r. http_rows N acc x' i = Some r \<and> ri_deleted r))
      \<and> (\<forall>c. res = Inr (Conflicted c) \<longrightarrow> http_rows N acc x' i = c)"
  proof (cases "url_plain i")
    case True
    with ok r show ?thesis by (intro http_delete_laws) (simp_all add: plain_only_def http_transport_def)
  next
    case False
    with r have "res = Inl (Rejected [])" "x' = x" by (simp_all add: plain_only_def)
    with ok http_evolve_refl[OF ok] show ?thesis by simp
  qed
qed (use http_ok_rows in auto)

interpretation web_pair: replica "sqlite_ops J" "sqlite_wf J" "plain_only (http_transport (ln_wire N) (net_http N))"
  "http_rows N acc" "http_ctr acc" "http_horizon acc" "http_ok N base acc" for J N base acc ..

section \<open>Over the whole path\<close>

text \<open>One cycle over HTTP.\<close>

lemma http_cycle:
  assumes "sqlite_wf J v" and "http_ok N base acc x"
    and "synced (sqlite_ops J) (http_rows N acc) (http_ctr acc) (http_horizon acc) v x"
    and "queue_ok (sqlite_ops J) v" and "fresh_ok (sqlite_ops J) v"
    and "\<forall>op \<in> set (sqlite_pending_ops J v). url_plain (op_item_id op)"
    and "sync (sqlite_ops J) (http_transport (ln_wire N) (net_http N)) v x = Some (res, v', x')"
    and "0 < http_ctr acc x \<or> http_horizon acc x' \<le> http_ctr acc x"
  shows "sqlite_wf J v' \<and> http_ok N base acc x'
    \<and> synced (sqlite_ops J) (http_rows N acc) (http_ctr acc) (http_horizon acc) v' x'
    \<and> (\<forall>e. res = Inl e \<longrightarrow> (\<exists>te. e = Transport te) \<and> sqlite_last_seq v' = sqlite_last_seq v)
    \<and> (\<forall>rep. res = Inr rep \<longrightarrow> sqlite_pending_ops J v' = []
         \<and> (http_horizon acc x' \<le> http_ctr acc x \<longrightarrow> sqlite_last_seq v' = http_ctr acc x'
              \<and> (\<forall>i. live_view (sqlite_ops J) v' i = remote_live (http_rows N acc x' i))))"
proof -
  have "sync (sqlite_ops J) (plain_only (http_transport (ln_wire N) (net_http N))) v x = Some (res, v', x')"
    using sq.sync_plain[OF assms(1), of "http_transport (ln_wire N) (net_http N)" x] assms(6,7)
    by (simp add: sqlite_ops_sel)
  from web_pair.sync_cycle[OF assms(1-5) this] assms(8) show ?thesis by (simp add: sqlite_ops_sel)
qed

text \<open>Claim C2.  The whole path: the SQLite replica, the sync engine and the HTTP client of the desktop against
  the routes and handlers of the server, request by request, with expired and rotated access tokens,
  lost requests and responses and other devices writing in between.  From a replica that is a past state
  of the account plus its queued edits, a cycle ends in such a replica again, with the tokens still of
  the account, and never raises a false rollback alarm; if it succeeds the queue is empty, and, unless a
  tombstone of this cycle was purged during it, every item shows exactly what the server has.\<close>

theorem http_sync_converges:
  assumes "sqlite_wf J v" and "http_ok N base acc x"
    and "synced (sqlite_ops J) (http_rows N acc) (http_ctr acc) (http_horizon acc) v x"
    and "queue_ok (sqlite_ops J) v" and "fresh_ok (sqlite_ops J) v" and "0 < http_ctr acc x"
    and "\<forall>op \<in> set (sqlite_pending_ops J v). url_plain (op_item_id op)"
    and "sync (sqlite_ops J) (http_transport (ln_wire N) (net_http N)) v x = Some (res, v', x')"
  shows "sqlite_wf J v' \<and> http_ok N base acc x'
    \<and> synced (sqlite_ops J) (http_rows N acc) (http_ctr acc) (http_horizon acc) v' x'
    \<and> (\<forall>e. res = Inl e \<longrightarrow> (\<exists>te. e = Transport te) \<and> sqlite_last_seq v' = sqlite_last_seq v)
    \<and> (\<forall>rep. res = Inr rep \<longrightarrow> sqlite_pending_ops J v' = []
         \<and> (http_horizon acc x' \<le> http_ctr acc x \<longrightarrow> sqlite_last_seq v' = http_ctr acc x'
              \<and> (\<forall>i. live_view (sqlite_ops J) v' i = remote_live (http_rows N acc x' i))))"
  using http_cycle[OF assms(1-5,7,8)] assms(6) by blast

text \<open>For witnesses only: a line that prints JSON texts as themselves, a session, an item of another device.\<close>

definition toy_item_json :: "json \<Rightarrow> encrypted_item option" where
  "toy_item_json j = (case j of J_Str t \<Rightarrow> e_item_of_json toy_env t | _ \<Rightarrow> None)"

definition toy_line :: line where
  "toy_line = \<lparr>ln_app = toy_app,
     ln_wire = \<lparr>wi_b64_encode = map unat, wi_b64_decode = (\<lambda>_. Some []), wi_kdf_to = (\<lambda>_. J_Null),
       wi_kdf_of = (\<lambda>_. Inr kdf_desktop), wi_wrapped_to = (\<lambda>_. J_Null),
       wi_wrapped_of = (\<lambda>_. Inr \<lparr>wr_version = 1, wr_purpose = MasterWrap, wr_nonce = [], wr_ciphertext = []\<rparr>),
       wi_item_to = (\<lambda>e. J_Str (toy_item_to e)), wi_pull_of = (\<lambda>j. ok_or [] (pull_of_json toy_item_json j)),
       wi_remote_of = (\<lambda>j. ok_or [] (remote_of_json toy_item_json j)), wi_sessions_of = (\<lambda>_. Inl [])\<rparr>,
     ln_path = Some, ln_not_json = (\<lambda>t. t), ln_item_of = toy_item_json\<rparr>"

lemma toy_line_ok: "line_ok toy_line []"
proof -
  have "e_item_of_json toy_env (toy_item_to e) = Some e" for e by (simp add: toy_env_def)
  then show ?thesis
    by (simp add: line_ok_def toy_line_def toy_app_def toy_item_json_def sum_option_def ok_or_def split: option.split)
qed

definition toy_visit :: visit where
  "toy_visit = \<lparr>vs_others = [], vs_fate = Delivered, vs_ctx = toy_ctx\<rparr>"

definition toy_web :: "visit list \<Rightarrow> api_client \<times> net" where
  "toy_web plan = (\<lparr>ap_base_url = [], ap_tokens = \<lparr>cl_access = Some (lit ''t''), cl_refresh = None\<rparr>\<rparr>,
     \<lparr>nt_srv = (lk_srv toy_link)\<lparr>sessions := [toy_session]\<rparr>, nt_plan = plan\<rparr>)"

lemma toy_web_ok: "http_ok toy_line [] 1 (toy_web [toy_visit, toy_visit])"
proof -
  have "items_ok toy_env (lk_srv toy_link)" using toy_link_ok by (simp add: link_ok_def)
  then show ?thesis
    by (simp add: http_ok_def toy_line_ok toy_web_def net_ok_def srv_ok_def items_ok_def account_by_id_def)
      (simp add: toy_link_def small_def owned_def toy_session_def cost_def toy_visit_def toy_live_def toy_account_def
        toy_line_def toy_app_def Let_def)
qed

text \<open>A cycle against the server of \<open>toy_link\<close>, with whatever session the client has.\<close>

definition toy_tokens :: "text \<Rightarrow> api_client \<Rightarrow> srv \<Rightarrow> bool" where
  "toy_tokens tok c s \<longleftrightarrow> ap_base_url c = [] \<and> cl_access (ap_tokens c) = Some tok
     \<and> (\<exists>au. authenticate toy_env 50 (Some (lit ''Bearer '' @ tok)) s = Inr au \<and> au_account_id au = 1)
     \<and> accounts s = accounts (lk_srv toy_link) \<and> vault_items s = vault_items (lk_srv toy_link)"

lemma toy_pull_at:
  assumes "since = 0 \<or> since = 1" and "toy_tokens tok c s"
  shows "http_pull (ln_wire toy_line) (net_http toy_line) (c, \<lparr>nt_srv = s, nt_plan = toy_visit # vs\<rparr>) since
    = (Inr \<lparr>pr_items = (if since = 0 then [\<lparr>ri_item_id = lit ''i'', ri_revision = 1, ri_seq = 1, ri_deleted = False,
         ri_content = Some (toy_item 1 7)\<rparr>] else []), pr_latest_seq = 1, pr_full_resync = False\<rparr>,
       (c, \<lparr>nt_srv = s, nt_plan = vs\<rparr>))"
proof -
  obtain au where au: "authenticate toy_env 50 (Some (lit ''Bearer '' @ tok)) s = Inr au" "au_account_id au = 1"
    and c: "ap_base_url c = []" "cl_access (ap_tokens c) = Some tok"
    and s: "accounts s = accounts (lk_srv toy_link)" "vault_items s = vault_items (lk_srv toy_link)"
    using assms(2) by (auto simp: toy_tokens_def)
  have r: "route GET (lit ''/api/v1/vault/items'') = Routed Ep_List_Items" by code_simp
  have q: "q_since [(''since'', dec_int since)] = Some since"
    using assms(1) parse_i64_dec[of since]
    by (auto simp: q_since_def once_def q_i64_def q_str_def sum_option_def)
  have l: "list_items toy_env 50 au since s
    = (Inr \<lparr>lr_items = (if since = 0 then [\<lparr>wi_item_id = lit ''i'', wi_revision = 1, wi_seq = 1, wi_deleted = False,
        wi_content = Some (toy_item_to (toy_item 1 7))\<rparr>] else []), lr_latest_seq = 1, lr_full_resync = False,
        lr_checkpoint = None\<rparr>, s)"
    using assms(1)
    by (auto simp: list_items_def purge_tombstones_def purgeable_def s au(2) toy_live_def toy_link_def account_by_id_def
        toy_account_def row_to_remote_def Let_def checkpoint_json_def toy_env_def)
  have e: "e_item_of_json toy_env (toy_item_to (toy_item 1 7)) = Some (toy_item 1 7)" by (simp add: toy_env_def)
  show ?thesis using assms(1) au(1) c
    by (auto simp: http_pull_def api_authed_def authed_def authed_once_def bearer_call_def net_http_def
        toy_visit_def toy_line_def plain_request_def serve_def r with_auth_def toy_app_def toy_ctx_def with_query_def
        q l finish_def list_json_def ok_json_def reply_body_def body_or_null_def remote_json_def cp_json_def
        req_value_def once_def req_str_def req_i64_def req_bool_def content_of_json_def j_text_def toy_item_json_def e)
qed

lemma toy_cycle_at:
  assumes "toy_tokens tok c s"
  shows "\<exists>rep v'. sync (sqlite_ops toy_codec) (http_transport (ln_wire toy_line) (net_http toy_line)) sqlite_empty
      (c, \<lparr>nt_srv = s, nt_plan = [toy_visit, toy_visit]\<rparr>) = Some (Inr rep, v', (c, \<lparr>nt_srv = s, nt_plan = []\<rparr>))"
proof -
  let ?V = "sqlite_ops toy_codec" and ?T = "http_transport (ln_wire toy_line) (net_http toy_line)"
  have tp: "t_pull ?T = http_pull (ln_wire toy_line) (net_http toy_line)" by (simp add: http_transport_def)
  have q: "vo_pending_ops ?V (vo_apply_remote ?V sqlite_empty r) = []" for r
    using sq.pending_apply[OF sqlite_empty_wf[OF toy_codec_ok]] by (simp add: sqlite_ops_sel)
  have loop: "push_loop ?V ?T (vo_apply_remote ?V sqlite_empty r) x rep
      = Some (Inr rep, vo_apply_remote ?V sqlite_empty r, x)" for r rep x
    by (simp add: push_loop.simps[of ?V] q)
  show ?thesis
    by (simp add: sync_def tp sqlite_ops_sel toy_pull_at[OF _ assms] Let_def loop[unfolded sqlite_ops_sel])
qed

lemma toy_home_facts:
  assumes "accounts s = accounts (lk_srv toy_link)" and "vault_items s = vault_items (lk_srv toy_link)"
  shows "http_ctr 1 (c, \<lparr>nt_srv = s, nt_plan = plan\<rparr>) = 1" and "http_horizon 1 (c, \<lparr>nt_srv = s, nt_plan = plan\<rparr>) = 0"
    and "http_rows toy_line 1 (c, \<lparr>nt_srv = s, nt_plan = plan\<rparr>) i = (if i = lit ''i''
    then Some \<lparr>ri_item_id = lit ''i'', ri_revision = 1, ri_seq = 1, ri_deleted = False,
               ri_content = Some (toy_item 1 7)\<rparr> else None)"
  using assms by (simp_all add: http_ctr_def http_horizon_def http_rows_def link_ctr_def link_horizon_def link_rows_def
      item_row_of_def on_account_def account_by_id_def toy_link_def toy_account_def toy_live_def
      is_item_def remote_of_def toy_line_def toy_app_def toy_env_def)

lemma toy_web_tokens: "toy_tokens (lit ''t'') (fst (toy_web plan)) (nt_srv (snd (toy_web plan)))"
  by (simp add: toy_tokens_def toy_web_def authenticate_def strip_prefix_def toy_session_def session_live_def toy_env_def)

theorem http_sync_converges_witness:
  "\<exists>rep v'. sync (sqlite_ops toy_codec) (http_transport (ln_wire toy_line) (net_http toy_line)) sqlite_empty
      (toy_web [toy_visit, toy_visit]) = Some (Inr rep, v', toy_web [])
    \<and> sqlite_last_seq v' = 1 \<and> live_view (sqlite_ops toy_codec) v' (lit ''i'') = Some (1, Some (toy_item 1 7))"
proof -
  let ?V = "sqlite_ops toy_codec" and ?T = "http_transport (ln_wire toy_line) (net_http toy_line)"
  have web: "(fst (toy_web p), \<lparr>nt_srv = nt_srv (snd (toy_web p)), nt_plan = q\<rparr>) = toy_web q" for p q
    by (simp add: toy_web_def)
  obtain rep v' where s: "sync ?V ?T sqlite_empty (toy_web [toy_visit, toy_visit]) = Some (Inr rep, v', toy_web [])"
    using toy_cycle_at[OF toy_web_tokens[of "[]"]] unfolding web by blast
  have "accounts (nt_srv (snd (toy_web []))) = accounts (lk_srv toy_link)"
    "vault_items (nt_srv (snd (toy_web []))) = vault_items (lk_srv toy_link)"
    by (simp_all add: toy_web_def)
  note facts = toy_home_facts[OF this, of "fst (toy_web [])", unfolded web]
  have start: "synced ?V (http_rows toy_line 1) (http_ctr 1) (http_horizon 1) sqlite_empty (toy_web [toy_visit, toy_visit])"
    by (simp add: synced_def agree_def live_view_def sqlite_ops_sel facts)
  have "\<forall>op \<in> set (sqlite_pending_ops toy_codec sqlite_empty). url_plain (op_item_id op)" by simp
  from http_sync_converges[OF sqlite_empty_wf[OF toy_codec_ok] toy_web_ok start toy_fresh(2,3) _ this s]
  have "sqlite_last_seq v' = 1" "live_view ?V v' (lit ''i'') = Some (1, Some (toy_item 1 7))"
    by (simp_all add: facts remote_live_def)
  with s show ?thesis by blast
qed

end
