(* ===== verification/Http_Login.thy ===== *)
theory Http_Login
  imports Http_Pair
begin

text \<open>
  The first contact of a device: logging in over the line of \<open>Http_Line\<close> gives the client tokens of the
  account with that address, so the first cycle fetches that account's vault.
\<close>

section \<open>What a login leaves alone\<close>

definition items_still :: "srv \<Rightarrow> srv \<Rightarrow> bool" where
  "items_still s s' \<longleftrightarrow> (\<exists>f. keeps f \<and> accounts s' = map f (accounts s)) \<and> vault_items s' = vault_items s"

lemma items_still_same: "accounts s' = accounts s \<Longrightarrow> vault_items s' = vault_items s \<Longrightarrow> items_still s s'"
  unfolding items_still_def by (intro conjI exI[of _ "\<lambda>a. a"]) (simp_all add: keeps_def)

lemma items_still_trans:
  assumes "items_still s t" and "items_still t u"
  shows "items_still s u"
proof -
  obtain f g where "keeps f" "accounts t = map f (accounts s)" "keeps g" "accounts u = map g (accounts t)"
    using assms by (auto simp: items_still_def)
  then have "keeps (g \<circ> f)" "accounts u = map (g \<circ> f) (accounts s)" by (simp_all add: keeps_def)
  with assms show ?thesis unfolding items_still_def by auto
qed

interpretation st: session_writes items_still
proof unfold_locales
  show "items_still s (s\<lparr>accounts := update_where p f (accounts s)\<rparr>)" if "keeps f" for s f p
    using keeps_if[OF that, of p] by (auto simp: items_still_def update_where_def)
qed (auto intro: items_still_same items_still_trans)

lemma items_still_ok:
  assumes "items_still s s'" and "srv_ok E acc k s"
  shows "srv_ok E acc k s' \<and> items_evolve acc s s'"
proof -
  obtain f where f: "accounts s' = map f (accounts s)" "\<And>a. ac_id (f a) = ac_id a"
    "\<And>a. ac_sync_seq (f a) = ac_sync_seq a" "\<And>a. ac_purged_before_seq (f a) = ac_purged_before_seq a"
    using assms(1) by (auto simp: items_still_def keeps_def)
  have v: "vault_items s' = vault_items s" using assms(1) by (simp add: items_still_def)
  obtain a where a: "account_by_id s acc = Some a" and ok: "items_ok E s" "small k s"
    using assms(2) by (auto simp: srv_ok_def)
  have "items_ok E s'" by (rule items_ok_frame[OF ok(1) v f(1)]) (rule f)+
  moreover have "items_evolve acc s s'" by (rule items_evolve_frame[OF a v f(1)]) (rule f)+
  moreover have "small k s'" using ok(2) by (auto simp: small_def v f)
  ultimately show ?thesis by (auto simp: srv_ok_def items_evolve_def)
qed

text \<open>Addresses stay with their accounts.\<close>

lemma account_by_email_id:
  "map_option ac_id (account_by_email s em)
    = map_option fst (List.find (\<lambda>p. snd p = em) (map (\<lambda>a. (ac_id a, ac_email a)) (accounts s)))"
proof -
  have "map_option ac_id (List.find (\<lambda>a. ac_email a = em) t)
      = map_option fst (List.find (\<lambda>p. snd p = em) (map (\<lambda>a. (ac_id a, ac_email a)) t))" for t
    by (induction t) auto
  then show ?thesis by (simp add: account_by_email_def)
qed

lemma others_emails:
  "map_option ac_id (account_by_email (fold (run_other E) os s) em) = map_option ac_id (account_by_email s em)"
proof (induction os arbitrary: s)
  case (Cons x os)
  have "\<exists>q. run_other E x s = run_item E q s"
    by (cases x) (metis run_other.simps(1) run_item.simps(2), metis run_other.simps(2) run_item.simps(3),
      metis run_other.simps(3) run_item.simps(1), metis run_other.simps(4) run_item.simps(4))
  with Cons show ?case by (auto simp: account_by_email_id item_emails)
qed simp

section \<open>Logging in over the line\<close>

definition unused_draws :: "env \<Rightarrow> visit list \<Rightarrow> session_row list \<Rightarrow> bool" where
  "unused_draws E plan rows \<longleftrightarrow> (\<forall>v \<in> set plan. \<forall>r \<in> set rows.
     se_access_hash r \<noteq> access_hash_of E (cx_tokens (vs_ctx v))
     \<and> se_refresh_hash r \<noteq> refresh_hash_of E (cx_tokens (vs_ctx v)))"

text \<open>What a successful login adds: one row with the hashes of the tokens it returns.\<close>

lemma login_opens:
  assumes "login E ip now fam d rq s = (Inr rep, s')"
  shows "\<exists>a kept r. account_by_email s (normalize_email (e_lower E) (lq_email rq)) = Some a
    \<and> sessions s' = kept @ [r] \<and> set kept \<subseteq> set (sessions s) \<and> se_account_id r = ac_id a
    \<and> lp_access_token rep = fst (new_token E (sd_access d) (lit ''bvat_''))
    \<and> lp_refresh_token rep = fst (new_token E (sd_refresh d) (lit ''bvrt_''))"
proof -
  obtain s1 a s2 where l: "check_ip ip now s = (None, s1)"
    "account_by_email s1 (normalize_email (e_lower E) (lq_email rq)) = Some a"
    "second_factor E (ac_id a) rq now s1 = (Some True, s2)" "open_login E fam d a rq now s2 = (rep, s')"
    by (rule login_Inr[OF assms])
  have "account_by_email s = account_by_email s1"
    using check_ip_sel[OF l(1)] by (simp add: account_by_email_def fun_eq_iff)
  moreover have "sessions s2 = sessions s"
    using second_factor_sessions[of E "ac_id a" rq now s1] check_ip_sel[OF l(1)] l(3) by simp
  moreover have "\<exists>kept r. sessions s' = kept @ [r] \<and> set kept \<subseteq> set (sessions s2) \<and> se_account_id r = ac_id a"
    using open_login_sessions[of E fam d a rq now s2] l(4) by (force simp: delete_where_def)
  moreover have "lp_access_token rep = fst (new_token E (sd_access d) (lit ''bvat_''))
      \<and> lp_refresh_token rep = fst (new_token E (sd_refresh d) (lit ''bvrt_''))"
    using l(4) by (auto simp: open_login_def create_session_def insert_session_row_def Let_def split: prod.splits)
  ultimately show ?thesis using l(2) by metis
qed

lemma login_served:
  assumes "serve A cx (lit ''/api/v1/auth/login'') (plain_request POST url [] (Some (J_Obj [
            (''email'', J_Str email), (''auth_credential'', J_Str cred), (''totp_code'', j_opt totp),
            (''recovery_code'', j_opt code), (''device_name'', J_Str device)]))) s = (r, s')"
  shows "\<exists>res. login (sv_env A) (caller_ip A cx) (cx_now cx) (cx_draw cx) (cx_tokens cx)
      \<lparr>lq_email = email, lq_auth_credential = cred, lq_totp_code = totp, lq_recovery_code = code,
       lq_device_name = Some device\<rparr> s = (res, s')
    \<and> r = (case res of Inl e \<Rightarrow> error_reply e | Inr t \<Rightarrow> login_json A t)"
proof -
  have "route POST (lit ''/api/v1/auth/login'') = Routed Ep_Login" by code_simp
  then show ?thesis using assms
    by (auto simp: serve_def plain_request_def with_body_def login_of_def req_str_def req_value_def once_def
        opt_str_def j_opt_def finish_def split: prod.splits sum.splits option.splits)
qed

lemma net_http_delivered:
  assumes "net_http N t rq = (Inr (status, b), t')" and "ln_path N (rq_url rq) = Some path"
  obtains v vs r where "nt_plan t = v # vs" and "nt_plan t' = vs" and "status = hr_status r" and "b = reply_body N r"
    and "serve (ln_app N) (vs_ctx v) path rq (fold (run_other (sv_env (ln_app N))) (vs_others v) (nt_srv t)) = (r, nt_srv t')"
  using assms by (auto simp: net_http_def Let_def split: list.splits prod.splits fate.splits)

lemma api_login_opens:
  assumes "line_ok N base" and "ap_base_url a = base" and "items_ok (sv_env (ln_app N)) (nt_srv t)"
    and "small (cost (nt_plan t)) (nt_srv t)" and "unused_draws (sv_env (ln_app N)) (nt_plan t) (sessions (nt_srv t))"
    and "api_login (ln_wire N) (net_http N) a t email cred totp code device = (Inr outcome, a', t')"
  shows "\<exists>row. account_by_email (nt_srv t) (normalize_email (e_lower (sv_env (ln_app N))) email) = Some row
    \<and> http_ok N base (ac_id row) (a', t') \<and> moves_on (ac_id row) t t'"
proof -
  let ?E = "sv_env (ln_app N)" and ?p = "lit ''/api/v1/auth/login''"
  let ?em = "normalize_email (e_lower ?E) email" and ?cred = "wi_b64_encode (ln_wire N) cred"
  let ?rq = "plain_request POST (base @ ?p) [] (Some (J_Obj [(''email'', J_Str email),
      (''auth_credential'', J_Str ?cred), (''totp_code'', j_opt totp), (''recovery_code'', j_opt code),
      (''device_name'', J_Str device)]))"
  obtain status j where h: "net_http N t ?rq = (Inr (status, Inr j), t')"
    and parse: "parse_login (ln_wire N) status j = Inr outcome"
    and a': "a' = a\<lparr>ap_tokens := \<lparr>cl_access = Some (lo_access_token outcome), cl_refresh = Some (lo_refresh_token outcome)\<rparr>\<rparr>"
    using assms(2,6) by (auto simp: api_login_def send_parse_def api_url_def split: prod.splits sum.splits)
  have "list_all (\<lambda>c. is_ascii_alphanumeric c \<or> c = 45 \<or> c = 47) ?p" by code_simp
  from line_path[OF assms(1) this] have path: "ln_path N (rq_url ?rq) = Some ?p" by (simp add: plain_request_def)
  obtain v vs r where v: "nt_plan t = v # vs" "nt_plan t' = vs" "status = hr_status r" "Inr j = reply_body N r"
    "serve (ln_app N) (vs_ctx v) ?p ?rq (fold (run_other ?E) (vs_others v) (nt_srv t)) = (r, nt_srv t')"
    using h path by (rule net_http_delivered)
  define s1 where "s1 = fold (run_other ?E) (vs_others v) (nt_srv t)"
  obtain res where res: "login ?E (caller_ip (ln_app N) (vs_ctx v)) (cx_now (vs_ctx v)) (cx_draw (vs_ctx v))
      (cx_tokens (vs_ctx v)) \<lparr>lq_email = email, lq_auth_credential = ?cred, lq_totp_code = totp, lq_recovery_code = code,
       lq_device_name = Some device\<rparr> s1 = (res, nt_srv t')"
    "r = (case res of Inl e \<Rightarrow> error_reply e | Inr t \<Rightarrow> login_json (ln_app N) t)"
    using login_served[OF v(5)] by (auto simp: s1_def)
  obtain rep where rep: "res = Inr rep"
    using res(2) v(3) parse error_not_ok by (cases res) (auto simp: parse_login_def)
  have toks: "lo_access_token outcome = lp_access_token rep" "lo_refresh_token outcome = lp_refresh_token rep"
    using parse v(4) res(2) rep
    by (auto simp: parse_login_def reply_body_def login_json_def ok_json_def tokens_json_def bind_r_eq_Inr
        split: if_splits)
  obtain b kept row where o: "account_by_email s1 ?em = Some b" "sessions (nt_srv t') = kept @ [row]"
    "set kept \<subseteq> set (sessions s1)" "se_account_id row = ac_id b"
    "lp_access_token rep = fst (new_token ?E (sd_access (cx_tokens (vs_ctx v))) (lit ''bvat_''))"
    "lp_refresh_token rep = fst (new_token ?E (sd_refresh (cx_tokens (vs_ctx v))) (lit ''bvrt_''))"
    using login_opens[OF res(1)[unfolded rep]] by auto
  obtain b0 where b0: "account_by_email (nt_srv t) ?em = Some b0" "ac_id b0 = ac_id b"
    using others_emails[of ?E "vs_others v" "nt_srv t" ?em] o(1)
    by (auto simp: map_option_eq_Some eq_commute[of "Some _"] simp flip: s1_def)
  have "account_by_id (nt_srv t) (ac_id b) \<noteq> None"
    using b0 account_by_id_iff[OF assms(3), of "ac_id b" b0] account_by_emailD[OF b0(1)] by auto
  then have "srv_ok ?E (ac_id b) (length (vs_others v) + Suc (cost vs)) (nt_srv t)"
    using assms(3,4) v(1) by (simp add: srv_ok_def cost_def)
  note s1 = srv_ok_others[OF this, folded s1_def]
  have "items_still s1 (nt_srv t')"
    using st.R_login[of s1 ?E "caller_ip (ln_app N) (vs_ctx v)" "cx_now (vs_ctx v)" "cx_draw (vs_ctx v)"
        "cx_tokens (vs_ctx v)"] res(1) by (metis snd_conv)
  from items_still_ok[OF this, of ?E "ac_id b" "Suc (cost vs)"] s1
  have s2: "srv_ok ?E (ac_id b) (cost vs) (nt_srv t')" "items_evolve (ac_id b) s1 (nt_srv t')"
    by (auto intro: srv_ok_mono)
  have "owned ?E (ac_id b) (ap_tokens a') vs (sessions (nt_srv t'))"
    using o(2-6) s1 assms(5) v(1) toks
    by (auto simp: owned_def a' unused_draws_def access_hashes_def refresh_hashes_def access_hash_of_def
        refresh_hash_of_def new_token_def Let_def subset_iff)
  then have "http_ok N base (ac_id b) (a', t')"
    using assms(1,2) s2(1) v(2) by (simp add: http_ok_def net_ok_def a')
  moreover have "moves_on (ac_id b) t t'" using s1 s2(2) by (blast intro: items_evolve_trans)
  ultimately show ?thesis using b0 by auto
qed


section \<open>The first cycle\<close>

text \<open>An empty replica is a past state of every account.\<close>

lemma empty_synced:
  assumes "codec_ok J" and "http_ok N base acc x"
  shows "synced (sqlite_ops J) (http_rows N acc) (http_ctr acc) (http_horizon acc) sqlite_empty x"
    and "queue_ok (sqlite_ops J) sqlite_empty" and "fresh_ok (sqlite_ops J) sqlite_empty"
proof -
  have "sqlite_last_seq sqlite_empty = 0" "sqlite_pending_ops J sqlite_empty = []" "sqlite_get J sqlite_empty i = None" for i
    using sqlite_empty_wf[OF assms(1)] by simp_all
  then have e: "vo_last_seq (sqlite_ops J) sqlite_empty = 0" "vo_pending_ops (sqlite_ops J) sqlite_empty = []"
    "live_view (sqlite_ops J) sqlite_empty i = None" for i
    by (simp_all add: sqlite_ops_sel live_view_def)
  show "queue_ok (sqlite_ops J) sqlite_empty" "fresh_ok (sqlite_ops J) sqlite_empty"
    by (simp_all add: queue_ok_def fresh_ok_def e)
  have "0 \<le> http_ctr acc x" using http_ok_rows(2)[OF assms(2)] by simp
  moreover have "agree (sqlite_ops J) (http_rows N acc) (http_horizon acc) 0 sqlite_empty x i" for i
    using http_ok_rows(1)[OF assms(2), of i] by (force simp: agree_def e split: option.split)
  ultimately show "synced (sqlite_ops J) (http_rows N acc) (http_ctr acc) (http_horizon acc) sqlite_empty x"
    by (simp add: synced_def e)
qed

text \<open>Claim C3.  A new device, end to end: from a server in its invariant, with random bytes that repeat no stored
  hash, if the desktop logs in with an address over HTTP and its first sync cycle over HTTP succeeds,
  through any loss and interleaving on the way, then the account with that address exists, the tokens
  are its own, and the new replica shows exactly its items, live ones with their envelope and no other
  (unless a tombstone of this cycle was purged during it).\<close>

theorem new_device_gets_vault:
  assumes "line_ok N base" and "ap_base_url a = base" and "codec_ok J" and "items_ok (sv_env (ln_app N)) (nt_srv t)"
    and "small (cost (nt_plan t)) (nt_srv t)" and "unused_draws (sv_env (ln_app N)) (nt_plan t) (sessions (nt_srv t))"
    and "api_login (ln_wire N) (net_http N) a t email cred totp code device = (Inr outcome, a', t')"
    and "sync (sqlite_ops J) (http_transport (ln_wire N) (net_http N)) sqlite_empty (a', t') = Some (Inr rep, v', x')"
  shows "\<exists>row. account_by_email (nt_srv t) (normalize_email (e_lower (sv_env (ln_app N))) email) = Some row
    \<and> http_ok N base (ac_id row) (a', t')
    \<and> (http_horizon (ac_id row) x' \<le> http_ctr (ac_id row) (a', t') \<longrightarrow>
         http_ok N base (ac_id row) x' \<and> sqlite_last_seq v' = http_ctr (ac_id row) x'
         \<and> (\<forall>i. live_view (sqlite_ops J) v' i = remote_live (http_rows N (ac_id row) x' i)))"
proof -
  obtain row where row: "account_by_email (nt_srv t) (normalize_email (e_lower (sv_env (ln_app N))) email) = Some row"
    "http_ok N base (ac_id row) (a', t')"
    using api_login_opens[OF assms(1,2,4-7)] by blast
  have "\<forall>op \<in> set (sqlite_pending_ops J sqlite_empty). url_plain (op_item_id op)" by simp
  note http_cycle[OF sqlite_empty_wf[OF assms(3)] row(2) empty_synced[OF assms(3) row(2)] this assms(8)]
  with row show ?thesis by blast
qed

text \<open>For witnesses only: logging in to the toy server.\<close>

definition toy_home :: srv where
  "toy_home = lk_srv toy_link"

definition toy_sign_in :: login_request where
  "toy_sign_in = \<lparr>lq_email = lit ''a@b.c'', lq_auth_credential = map unat (replicate 32 (7 :: byte)), lq_totp_code = None,
     lq_recovery_code = None, lq_device_name = Some []\<rparr>"

lemma toy_login_home:
  "\<exists>rep s'. login toy_env 8 50 [2] \<lparr>sd_access = [3], sd_refresh = [4]\<rparr> toy_sign_in toy_home = (Inr rep, s')
    \<and> accounts s' = accounts toy_home \<and> vault_items s' = vault_items toy_home
    \<and> (\<exists>r. sessions s' = [r] \<and> se_account_id r = 1 \<and> se_access_hash r = as_bytes (lit ''bvat_'' @ [3])
         \<and> se_revoked_at r = None \<and> 50 < se_access_expires_at r \<and> (\<exists>c. se_absolute_expires_at r = Some c \<and> 50 < c))
    \<and> lp_access_token rep = lit ''bvat_'' @ [3]"
proof -
  let ?a = "(toy_account 1 (lit ''a@b.c''))\<lparr>ac_sync_seq := 1\<rparr>"
  have c: "check_ip 8 50 toy_home = (None, toy_home)"
    by (simp add: check_ip_def ip_check_def toy_home_def toy_link_def toy_srv_def)
  have a: "account_by_email toy_home (lit ''a@b.c'') = Some ?a"
    by (simp add: account_by_email_def toy_home_def toy_link_def toy_account_def)
  have d: "decode_or_default toy_env (map unat (replicate 32 (7 :: byte))) = replicate 32 7"
    by (simp add: decode_or_default_def toy_env_def)
  have t: "\<not> is_totp_active toy_home i" for i
    by (simp add: is_totp_active_def active_totp_def toy_home_def toy_link_def toy_srv_def)
  have sel: "lq_email toy_sign_in = lit ''a@b.c''" "lq_auth_credential toy_sign_in = map unat (replicate 32 (7 :: byte))"
    by (simp_all only: toy_sign_in_def login_request.select_convs)
  have v: "e_verify_password toy_env (decode_or_default toy_env (lq_auth_credential toy_sign_in)) (ac_server_auth_hash ?a)"
    unfolding sel d using toy_credential by (simp only: toy_account_def account_row.select_convs account_row.update_convs)
  have l: "locked_for (Some ?a) 50 = None" "ac_email_verified_at ?a \<noteq> None"
    by (simp_all add: locked_for_def toy_account_def)
  have login: "login toy_env 8 50 [2] \<lparr>sd_access = [3], sd_refresh = [4]\<rparr> toy_sign_in toy_home
      = (let (rep, s'') = open_login toy_env [2] \<lparr>sd_access = [3], sd_refresh = [4]\<rparr> ?a toy_sign_in 50 toy_home in (Inr rep, s''))"
    unfolding login_def c prod.case option.case Let_def sel(1) toy_email a using v l
    by (simp add: second_factor_def t del: not_None_eq)
  have acc: "accounts toy_home = [?a]" "sessions toy_home = []" by (simp_all add: toy_home_def toy_link_def toy_srv_def)
  have z: "?a\<lparr>ac_failed_attempts := 0, ac_lockout_until := None\<rparr> = ?a" "ac_id ?a = 1" by (simp_all add: toy_account_def)
  show ?thesis unfolding login
    by (simp add: open_login_def create_session_def insert_session_row_def new_token_def Let_def
        update_account_def acc z notify_new_sign_in_def active_session_with_name_def
        ACCESS_TOKEN_TTL_SECS_def ABSOLUTE_SESSION_TTL_SECS_def)
     (simp add: toy_env_def)
qed

definition toy_start :: "api_client \<times> net" where
  "toy_start = (\<lparr>ap_base_url = [], ap_tokens = \<lparr>cl_access = None, cl_refresh = None\<rparr>\<rparr>,
     \<lparr>nt_srv = toy_home, nt_plan = [toy_visit, toy_visit, toy_visit]\<rparr>)"

lemma toy_api_login:
  "\<exists>outcome c s. api_login (ln_wire toy_line) (net_http toy_line) (fst toy_start) (snd toy_start) (lit ''a@b.c'')
      (replicate 32 7) None None [] = (Inr outcome, c, \<lparr>nt_srv = s, nt_plan = [toy_visit, toy_visit]\<rparr>)
    \<and> toy_tokens (lit ''bvat_'' @ [3]) c s"
proof -
  obtain rep s' r where l: "login toy_env 8 50 [2] \<lparr>sd_access = [3], sd_refresh = [4]\<rparr> toy_sign_in toy_home = (Inr rep, s')"
    "accounts s' = accounts toy_home" "vault_items s' = vault_items toy_home" "sessions s' = [r]" "se_account_id r = 1"
    "se_access_hash r = as_bytes (lit ''bvat_'' @ [3])" "se_revoked_at r = None" "50 < se_access_expires_at r"
    "\<exists>c. se_absolute_expires_at r = Some c \<and> 50 < c" "lp_access_token rep = lit ''bvat_'' @ [3]"
    using toy_login_home by blast
  have r: "route POST (lit ''/api/v1/auth/login'') = Routed Ep_Login" by code_simp
  have ip: "caller_ip toy_app toy_ctx = 8" by (simp add: caller_ip_def client_ip_def toy_app_def toy_ctx_def)
  have "authenticate toy_env 50 (Some (lit ''Bearer '' @ lit ''bvat_'' @ [3])) s' = Inr \<lparr>au_account_id = 1,
      au_session_id = se_id r, au_family_id = se_family_id r\<rparr>"
    using l(4-9) by (auto simp: authenticate_def strip_prefix_def session_live_def toy_env_def)
  then have tok: "toy_tokens (lit ''bvat_'' @ [3]) \<lparr>ap_base_url = [], ap_tokens = \<lparr>cl_access = Some (lit ''bvat_'' @ [3]),
      cl_refresh = Some (lp_refresh_token rep)\<rparr>\<rparr> s'"
    using l(2,3) by (simp add: toy_tokens_def toy_home_def)
  let ?p = "lit ''/api/v1/auth/login''" and ?b64 = "wi_b64_encode (ln_wire toy_line) (replicate 32 7)"
  define rq where "rq = plain_request POST (api_url (fst toy_start) ''/api/v1/auth/login'') [] (Some (J_Obj [
      (''email'', J_Str (lit ''a@b.c'')), (''auth_credential'', J_Str ?b64), (''totp_code'', j_opt None),
      (''recovery_code'', j_opt None), (''device_name'', J_Str [])]))"
  have sel: "ln_path toy_line = Some" "ln_app toy_line = toy_app" "?b64 = map unat (replicate 32 (7 :: byte))"
    by (simp_all add: toy_line_def)
  have url: "rq_url rq = ?p" by (simp add: rq_def plain_request_def api_url_def toy_start_def)
  have "serve toy_app toy_ctx ?p rq toy_home = (login_json toy_app rep, s')"
    using l(1) ip unfolding rq_def sel(3)
    by (simp add: serve_def plain_request_def r with_body_def login_of_def req_str_def req_value_def once_def opt_str_def
        j_opt_def finish_def toy_app_def toy_ctx_def toy_sign_in_def del: replicate.simps)
  then have "net_http toy_line (snd toy_start) rq
      = (Inr (200, reply_body toy_line (login_json toy_app rep)), \<lparr>nt_srv = s', nt_plan = [toy_visit, toy_visit]\<rparr>)"
    by (simp add: net_http_def toy_start_def sel url toy_visit_def Let_def login_json_def ok_json_def)
  then have net: "net_http toy_line (snd toy_start) rq = (Inr (200, Inr (J_Obj (tokens_json (lp_access_token rep, lp_refresh_token rep)
      @ [(''kdf_params'', j_text toy_app (lp_kdf_params rep)), (''kdf_salt'', J_Str (lp_kdf_salt rep)),
         (''master_wrapped_vault_key'', j_text toy_app (lp_master_wrapped rep))]))),
      \<lparr>nt_srv = s', nt_plan = [toy_visit, toy_visit]\<rparr>)"
    by (simp add: reply_body_def login_json_def ok_json_def)
  have w: "wi_kdf_of (ln_wire toy_line) x = Inr kdf_desktop" "wi_b64_decode (ln_wire toy_line) y = Some []"
    "wi_wrapped_of (ln_wire toy_line) x = Inr \<lparr>wr_version = 1, wr_purpose = MasterWrap, wr_nonce = [], wr_ciphertext = []\<rparr>" for x y
    by (simp_all add: toy_line_def)
  have "(fst toy_start)\<lparr>ap_tokens := ts\<rparr> = \<lparr>ap_base_url = [], ap_tokens = ts\<rparr>" for ts by (simp add: toy_start_def)
  with tok l(10) show ?thesis
    unfolding api_login_def rq_def[symmetric] send_parse_def net
    by (simp add: tokens_json_def parse_login_def is_success_def bind_r_def server_err_def decode_salt_def w)
qed

theorem new_device_gets_vault_witness:
  "\<exists>outcome a' t' rep v' x'. api_login (ln_wire toy_line) (net_http toy_line) (fst toy_start) (snd toy_start)
        (lit ''a@b.c'') (replicate 32 7) None None [] = (Inr outcome, a', t')
    \<and> sync (sqlite_ops toy_codec) (http_transport (ln_wire toy_line) (net_http toy_line)) sqlite_empty (a', t')
        = Some (Inr rep, v', x')
    \<and> sqlite_last_seq v' = 1 \<and> live_view (sqlite_ops toy_codec) v' (lit ''i'') = Some (1, Some (toy_item 1 7))"
proof -
  obtain outcome c s where l: "api_login (ln_wire toy_line) (net_http toy_line) (fst toy_start) (snd toy_start)
      (lit ''a@b.c'') (replicate 32 7) None None [] = (Inr outcome, c, \<lparr>nt_srv = s, nt_plan = [toy_visit, toy_visit]\<rparr>)"
    and tok: "toy_tokens (lit ''bvat_'' @ [3]) c s"
    using toy_api_login by blast
  obtain rep v' where r: "sync (sqlite_ops toy_codec) (http_transport (ln_wire toy_line) (net_http toy_line)) sqlite_empty
      (c, \<lparr>nt_srv = s, nt_plan = [toy_visit, toy_visit]\<rparr>) = Some (Inr rep, v', (c, \<lparr>nt_srv = s, nt_plan = []\<rparr>))"
    using toy_cycle_at[OF tok] by blast
  have app: "sv_env (ln_app toy_line) = toy_env" by (simp add: toy_line_def toy_app_def)
  have "items_ok toy_env (lk_srv toy_link)" using toy_link_ok by (simp add: link_ok_def)
  then have i: "items_ok (sv_env (ln_app toy_line)) (nt_srv (snd toy_start))"
    by (simp add: app toy_start_def toy_home_def)
  have k: "small (cost (nt_plan (snd toy_start))) (nt_srv (snd toy_start))"
    "unused_draws (sv_env (ln_app toy_line)) (nt_plan (snd toy_start)) (sessions (nt_srv (snd toy_start)))"
    by (simp_all add: toy_start_def toy_home_def toy_link_def small_def cost_def toy_visit_def toy_live_def toy_account_def
        unused_draws_def toy_srv_def)
  have a: "account_by_email (nt_srv (snd toy_start)) (normalize_email (e_lower (sv_env (ln_app toy_line))) (lit ''a@b.c''))
      = Some ((toy_account 1 (lit ''a@b.c''))\<lparr>ac_sync_seq := 1\<rparr>)"
    unfolding app toy_email by (simp add: toy_start_def toy_home_def toy_link_def account_by_email_def toy_account_def)
  have b: "ap_base_url (fst toy_start) = []" by (simp add: toy_start_def)
  have id: "ac_id ((toy_account 1 (lit ''a@b.c''))\<lparr>ac_sync_seq := 1\<rparr>) = 1" by (simp add: toy_account_def)
  have "accounts s = accounts (lk_srv toy_link)" "vault_items s = vault_items (lk_srv toy_link)"
    using tok by (simp_all add: toy_tokens_def)
  note facts = toy_home_facts[OF this, of c]
  from new_device_gets_vault[OF toy_line_ok b toy_codec_ok i k l r] a id
  have "sqlite_last_seq v' = 1" "live_view (sqlite_ops toy_codec) v' (lit ''i'') = Some (1, Some (toy_item 1 7))"
    by (simp_all add: facts remote_live_def)
  with l r show ?thesis by blast
qed

end
